(* ===== verification/Prelude.thy ===== *)
theory Prelude
  imports Complex_Main "HOL-Library.AList" "HOL-Library.Sublist"
begin

text \<open>
  What every component of the development shares: the JavaScript values the sources use
  (decimal rendering of a count, string splitting and joining, insertion-ordered maps), the
  generic facts about them, and two interfaces that several components provide: a machine that
  keeps an invariant (\<open>kept_invariant\<close>) and an encoding with an inverse (\<open>codec\<close>).

  Conventions. A time stamp or a duration is a number of milliseconds, an \<open>int\<close>; a time stamp
  that \<open>Date.parse\<close> could not read (NaN) is \<open>None\<close>. A count is a \<open>nat\<close>. A JavaScript string is a
  \<open>string\<close>, so one character is one 8-bit code unit; a non-ASCII literal of the sources is spelled
  by its UTF-8 bytes. A \<open>Map\<close> is an association list with at most one entry per key in insertion
  order, which is how \<open>AList.update\<close> and \<open>AList.delete\<close> keep it. A thrown error is the
  \<open>Inl\<close> side of a sum.
\<close>

named_theorems audit_simps \<open>equations of the residency audit\<close>
named_theorems gate_simps \<open>equations of the pause gate\<close>
named_theorems limit_simps \<open>equations of the rate and lockout tables\<close>
named_theorems session_simps \<open>equations of the session table\<close>

type_synonym ms = int

section \<open>Options\<close>

definition or_else :: "'a option \<Rightarrow> 'a option \<Rightarrow> 'a option" where
  "or_else a b = (case a of None \<Rightarrow> b | Some x \<Rightarrow> Some x)"

lemma or_else_simps [simp]:
  "or_else None b = b" "or_else (Some x) b = Some x" "or_else a None = a"
  by (auto simp: or_else_def split: option.splits)

lemma or_else_eq_None [simp]: "or_else a b = None \<longleftrightarrow> a = None \<and> b = None"
  by (auto simp: or_else_def split: option.splits)

section \<open>Decimal rendering of a count\<close>

definition digit_char :: "nat \<Rightarrow> char" where
  "digit_char d = char_of (48 + d)"

fun show_nat :: "nat \<Rightarrow> string" where
  "show_nat n = (if n < 10 then [digit_char n] else show_nat (n div 10) @ [digit_char (n mod 10)])"

declare show_nat.simps [simp del]

text \<open>The inverse, used to show that the rendering loses nothing.\<close>

definition read_digit :: "char \<Rightarrow> nat" where
  "read_digit c = of_char c - 48"

definition read_nat :: "string \<Rightarrow> nat" where
  "read_nat s = foldl (\<lambda>n c. 10 * n + read_digit c) 0 s"

lemma read_digit_char [simp]: "d < 10 \<Longrightarrow> read_digit (digit_char d) = d"
  by (simp add: read_digit_def digit_char_def)

lemma read_show_nat [simp]: "read_nat (show_nat n) = n"
proof (induction n rule: show_nat.induct)
  case (1 n)
  show ?case
  proof (cases "n < 10")
    case True
    then show ?thesis by (simp add: show_nat.simps [of n] read_nat_def)
  next
    case False
    with "1.IH" have "foldl (\<lambda>n c. 10 * n + read_digit c) 0 (show_nat (n div 10)) = n div 10"
      by (simp add: read_nat_def)
    with False show ?thesis by (simp add: show_nat.simps [of n] read_nat_def)
  qed
qed

lemma show_nat_inject [simp]: "show_nat m = show_nat n \<longleftrightarrow> m = n"
  by (metis read_show_nat)

definition is_digit :: "char \<Rightarrow> bool" where
  "is_digit c \<longleftrightarrow> 48 \<le> (of_char c :: nat) \<and> (of_char c :: nat) \<le> 57"

lemma is_digit_digit_char: "d < 10 \<Longrightarrow> is_digit (digit_char d)"
  by (simp add: is_digit_def digit_char_def)

lemma show_nat_digits: "c \<in> set (show_nat n) \<Longrightarrow> is_digit c"
proof (induction n rule: show_nat.induct)
  case (1 n)
  then show ?case
    by (cases "n < 10") (auto simp: show_nat.simps [of n] intro: is_digit_digit_char)
qed

text \<open>The plural endings the messages use.\<close>

definition plural :: "nat \<Rightarrow> string" where
  "plural n = (if n = 1 then '''' else ''s'')"

definition quoted :: "string \<Rightarrow> string" where
  "quoted s = [CHR 0x27] @ s @ [CHR 0x27]"

definition em_dash :: string where
  "em_dash = [CHR 0xE2, CHR 0x80, CHR 0x94]"

section \<open>Strings: \<open>split\<close>, \<open>join\<close>, \<open>indexOf\<close>\<close>

text \<open>\<open>s.split(c)\<close> for a one-character separator: never empty, \<open>''''\<close> splits to \<open>['''']\<close>.\<close>

fun split_on :: "char \<Rightarrow> string \<Rightarrow> string list" where
  "split_on c [] = [[]]"
| "split_on c (x # xs) =
     (if x = c then [] # split_on c xs
      else case split_on c xs of [] \<Rightarrow> [[x]] | w # ws \<Rightarrow> (x # w) # ws)"

fun join_with :: "string \<Rightarrow> string list \<Rightarrow> string" where
  "join_with sep [] = []"
| "join_with sep [w] = w"
| "join_with sep (w # v # ws) = w @ sep @ join_with sep (v # ws)"

lemma split_on_not_Nil [simp]: "split_on c s \<noteq> []"
  by (induction s) (auto split: list.splits)

lemma join_split_on [simp]: "join_with [c] (split_on c s) = s"
proof (induction s)
  case Nil
  then show ?case by simp
next
  case (Cons x xs)
  obtain w ws where w: "split_on c xs = w # ws"
    by (cases "split_on c xs") auto
  with Cons show ?case by (cases ws) auto
qed

lemma split_on_no_sep: "c \<notin> set w \<Longrightarrow> split_on c w = [w]"
  by (induction w) auto

lemma split_on_append: "c \<notin> set w \<Longrightarrow> split_on c (w @ c # rest) = w # split_on c rest"
  by (induction w) auto

lemma sep_append_eq:
  "c \<notin> set w \<Longrightarrow> c \<notin> set w' \<Longrightarrow> w @ c # r = w' @ c # r' \<longleftrightarrow> w = w' \<and> r = r'"
  by (auto simp: append_eq_append_conv2 append_eq_Cons_conv Cons_eq_append_conv)

lemma prefix_before_sep: "c \<notin> set w \<Longrightarrow> prefix w (a @ c # r) \<longleftrightarrow> prefix w a"
proof (induction w arbitrary: a)
  case (Cons x w)
  then show ?case by (cases a) auto
qed simp

lemma drop_prefix_image: "drop (length p) ` {x \<in> A. prefix p x} = {n. p @ n \<in> A}"
  by (force simp: prefix_def)

text \<open>\<open>s.indexOf(t)\<close>, with \<open>None\<close> for -1.\<close>

fun index_of :: "string \<Rightarrow> string \<Rightarrow> nat option" where
  "index_of t [] = (if t = [] then Some 0 else None)"
| "index_of t (x # xs) = (if prefix t (x # xs) then Some 0 else map_option Suc (index_of t xs))"

lemma index_of_Some: "index_of t s = Some i \<Longrightarrow> s = take i s @ t @ drop (i + length t) s"
proof (induction s arbitrary: i)
  case Nil
  then show ?case by (auto split: if_splits)
next
  case (Cons x xs)
  show ?case
  proof (cases "prefix t (x # xs)")
    case True
    with Cons.prems show ?thesis by (auto simp: prefix_def)
  next
    case False
    with Cons.prems obtain j where "index_of t xs = Some j" "i = Suc j" by auto
    with Cons.IH [of j] show ?thesis by simp
  qed
qed

section \<open>Insertion-ordered maps\<close>

lemma map_of_update [simp]: "map_of (AList.update k v m) = (map_of m)(k \<mapsto> v)"
  by (simp add: update_conv')

lemma map_of_delete [simp]: "map_of (AList.delete k m) = (map_of m)(k := None)"
  by (simp add: delete_conv')

lemma set_update_values: "snd ` set (AList.update k v m) \<subseteq> insert v (snd ` set m)"
  by (induction m) auto

lemma set_delete_le: "set (AList.delete k m) \<subseteq> set m"
  by (auto simp: AList.delete_eq)

lemma distinct_fst_delete: "distinct (map fst m) \<Longrightarrow> distinct (map fst (AList.delete k m))"
  by (rule distinct_delete)

lemma map_of_filter_value:
  assumes "distinct (map fst m)"
  shows "map_of (filter (\<lambda>(k, v). P v) m) k =
    (case map_of m k of None \<Rightarrow> None | Some v \<Rightarrow> if P v then Some v else None)"
  using assms
proof (induction m)
  case Nil
  then show ?case by simp
next
  case (Cons a m)
  obtain k' v where a: "a = (k', v)" by force
  have "k' \<notin> fst ` set m" using Cons.prems a by auto
  then have "map_of m k' = None" by (simp add: map_of_eq_None_iff)
  with Cons a show ?case by (auto split: option.splits)
qed

lemma distinct_fst_filter: "distinct (map fst m) \<Longrightarrow> distinct (map fst (filter P m))"
  by (induction m) auto

section \<open>JavaScript values\<close>

text \<open>
  What \<open>JSON.parse\<close> or an untyped field can hold. A finite double is a rational number; \<open>None\<close>
  is NaN or an infinity. An object is its list of own properties.
\<close>

datatype js_value =
    Undefined
  | Null
  | Bool bool
  | Number "rat option"
  | Str string
  | Arr "js_value list"
  | Obj "(string \<times> js_value) list"

definition js_field :: "(string \<times> js_value) list \<Rightarrow> string \<Rightarrow> js_value" where
  "js_field ps k = (case map_of ps k of None \<Rightarrow> Undefined | Some v \<Rightarrow> v)"

fun js_string :: "js_value \<Rightarrow> string option" where
  "js_string (Str s) = Some s"
| "js_string _ = None"

text \<open>\<open>!s\<close> of a string or null.\<close>

fun absent :: "string option \<Rightarrow> bool" where
  "absent None = True"
| "absent (Some s) = (s = [])"

section \<open>The platform\<close>

text \<open>
  The three functions of the runtime the console's records depend on: \<open>Date.prototype.toISOString\<close>,
  \<open>Date.parse\<close> (\<open>None\<close> for NaN) and SHA-256 in lower-case hex. What the code relies on of the first
  two is that a printed stamp is not empty and reads back.
\<close>

record platform =
  p_iso :: "ms \<Rightarrow> string"
  p_parse :: "string \<Rightarrow> ms option"
  p_sha256 :: "string \<Rightarrow> string"

definition sound_clock :: "platform \<Rightarrow> bool" where
  "sound_clock p \<longleftrightarrow> (\<forall>t. p_iso p t \<noteq> [] \<and> p_parse p (p_iso p t) = Some t)"

text \<open>\<open>Buffer.from(s, 'hex')\<close>: the bytes of the longest well-formed prefix.\<close>

definition hex_digit :: "char \<Rightarrow> nat option" where
  "hex_digit c =
     (let n = of_char c :: nat in
      if 48 \<le> n \<and> n \<le> 57 then Some (n - 48)
      else if 97 \<le> n \<and> n \<le> 102 then Some (n - 87)
      else if 65 \<le> n \<and> n \<le> 70 then Some (n - 55) else None)"

fun hex_bytes :: "string \<Rightarrow> nat list" where
  "hex_bytes (a # b # r) =
     (case (hex_digit a, hex_digit b) of (Some x, Some y) \<Rightarrow> (16 * x + y) # hex_bytes r | _ \<Rightarrow> [])"
| "hex_bytes _ = []"

text \<open>A platform to run the model on: decimal stamps, and the bytes of the token themselves as its digest.\<close>

definition show_int :: "int \<Rightarrow> string" where
  "show_int i = (if i < 0 then CHR ''-'' # show_nat (nat (- i)) else show_nat (nat i))"

definition read_int :: "string \<Rightarrow> int option" where
  "read_int s = (case s of [] \<Rightarrow> None
     | c # r \<Rightarrow> if c = CHR ''-'' then Some (- int (read_nat r)) else Some (int (read_nat s)))"

lemma show_nat_not_Nil [simp]: "show_nat n \<noteq> []"
  by (simp add: show_nat.simps [of n])

lemma read_show_int [simp]: "read_int (show_int i) = Some i"
proof (cases "i < 0")
  case True
  then show ?thesis by (simp add: show_int_def read_int_def)
next
  case False
  obtain c r where s: "show_nat (nat i) = c # r" by (cases "show_nat (nat i)") auto
  then have "is_digit c" using show_nat_digits [of c "nat i"] by simp
  then have "c \<noteq> CHR ''-''" by (auto simp: is_digit_def)
  moreover have "read_nat (c # r) = nat i" using read_show_nat [of "nat i"] unfolding s .
  ultimately show ?thesis using False s by (simp add: show_int_def read_int_def)
qed

definition hex_char :: "nat \<Rightarrow> char" where
  "hex_char d = (if d < 10 then char_of (48 + d) else char_of (87 + d))"

definition demo_platform :: platform where
  "demo_platform = \<lparr>p_iso = show_int, p_parse = read_int,
     p_sha256 = (\<lambda>s. concat (map (\<lambda>c. [hex_char (of_char c div 16), hex_char (of_char c mod 16)]) s))\<rparr>"

lemma demo_clock: "sound_clock demo_platform"
  by (simp add: sound_clock_def demo_platform_def show_int_def read_show_int [unfolded show_int_def])

section \<open>\<open>trim\<close>, \<open>toLowerCase\<close> and \<open>Number\<close>\<close>

definition js_space :: "char \<Rightarrow> bool" where
  "js_space c \<longleftrightarrow> (of_char c :: nat) \<in> {9, 10, 11, 12, 13, 32, 160}"

definition js_trim :: "string \<Rightarrow> string" where
  "js_trim s = rev (dropWhile js_space (rev (dropWhile js_space s)))"

text \<open>Lower case of the ASCII letters; other characters are left alone.\<close>

definition lower_char :: "char \<Rightarrow> char" where
  "lower_char c = (let n = of_char c :: nat in if 65 \<le> n \<and> n \<le> 90 then char_of (n + 32) else c)"

definition js_lower :: "string \<Rightarrow> string" where
  "js_lower s = map lower_char s"

text \<open>
  \<open>Number(s)\<close>, \<open>None\<close> for NaN and the infinities: surrounding white space is ignored, the empty
  string is 0, a hexadecimal, octal or binary literal has no sign, a decimal literal may have a sign, a fraction
  and an exponent. The value is the exact rational, where the code has the nearest double.
\<close>

definition js_decimal :: "string \<Rightarrow> rat option" where
  "js_decimal s =
     (let ip = takeWhile is_digit s; r = dropWhile is_digit s;
          frac = (r \<noteq> [] \<and> hd r = CHR ''.'');
          fp = (if frac then takeWhile is_digit (tl r) else []);
          e = (if frac then dropWhile is_digit (tl r) else r)
      in if ip = [] \<and> fp = [] then None
         else let m = of_nat (read_nat (ip @ fp)) / 10 ^ length fp in
           if e = [] then Some m
           else if hd e \<noteq> CHR ''e'' \<and> hd e \<noteq> CHR ''E'' then None
           else let sgn = (tl e \<noteq> [] \<and> (hd (tl e) = CHR ''-'' \<or> hd (tl e) = CHR ''+''));
                    ds = (if sgn then tl (tl e) else tl e)
             in if ds = [] \<or> \<not> list_all is_digit ds then None
                else Some (if sgn \<and> hd (tl e) = CHR ''-'' then m / 10 ^ read_nat ds else m * 10 ^ read_nat ds))"

definition read_radix :: "nat \<Rightarrow> string \<Rightarrow> rat option" where
  "read_radix b s =
     (if s = [] \<or> \<not> list_all (\<lambda>c. case hex_digit c of None \<Rightarrow> False | Some d \<Rightarrow> d < b) s then None
      else Some (of_nat (foldl (\<lambda>n c. b * n + the (hex_digit c)) 0 s)))"

definition js_number :: "string \<Rightarrow> rat option" where
  "js_number raw =
     (let s = js_trim raw; two = js_lower (take 2 s) in
      if s = [] then Some 0
      else if two = ''0x'' then read_radix 16 (drop 2 s)
      else if two = ''0o'' then read_radix 8 (drop 2 s)
      else if two = ''0b'' then read_radix 2 (drop 2 s)
      else if hd s = CHR ''-'' then map_option uminus (js_decimal (tl s))
      else if hd s = CHR ''+'' then js_decimal (tl s)
      else js_decimal s)"

text \<open>\<open>Number.isInteger\<close> on the result, and its value.\<close>

definition js_integer :: "string \<Rightarrow> int option" where
  "js_integer s = (case js_number s of None \<Rightarrow> None
     | Some q \<Rightarrow> if of_int \<lfloor>q\<rfloor> = q then Some \<lfloor>q\<rfloor> else None)"

section \<open>Interfaces\<close>

text \<open>A machine whose every step keeps an invariant; a run is the left fold of its events.\<close>

locale kept_invariant =
  fixes step :: "'s \<Rightarrow> 'e \<Rightarrow> 's" and ok :: "'s \<Rightarrow> bool"
  assumes step_ok: "ok s \<Longrightarrow> ok (step s e)"
begin

lemma run_ok: "ok s \<Longrightarrow> ok (foldl step s es)"
  by (induction es arbitrary: s) (auto intro: step_ok)

end

text \<open>An encoding whose valid values can be read back.\<close>

locale codec =
  fixes enc :: "'a \<Rightarrow> 'b" and dec :: "'b \<Rightarrow> 'a option" and valid :: "'a \<Rightarrow> bool"
  assumes dec_enc: "valid x \<Longrightarrow> dec (enc x) = Some x"
begin

lemma enc_inject: "valid x \<Longrightarrow> valid y \<Longrightarrow> enc x = enc y \<Longrightarrow> x = y"
  by (metis dec_enc option.inject)

end

text \<open>
  A table whose entries go stale: a sweep may drop entries only where no later answer can tell.
\<close>

locale expiring_table =
  fixes answer :: "'t \<Rightarrow> 'k \<Rightarrow> ms \<Rightarrow> 'a" and sweep :: "ms \<Rightarrow> 't \<Rightarrow> 't" and wf :: "'t \<Rightarrow> bool"
  assumes wf_sweep: "wf t \<Longrightarrow> wf (sweep now t)"
    and answer_sweep: "wf t \<Longrightarrow> now \<le> later \<Longrightarrow> answer (sweep now t) k later = answer t k later"
begin

lemma sweeps_invisible:
  "wf t \<Longrightarrow> \<forall>s \<in> set ss. s \<le> later \<Longrightarrow> answer (foldl (\<lambda>t s. sweep s t) t ss) k later = answer t k later"
  by (induction ss arbitrary: t) (simp_all add: wf_sweep answer_sweep)

end

end
