(* ===== verification/Audit_Verdicts.thy ===== *)
theory Audit_Verdicts
  imports Prelude
begin

text \<open>
  The residency verdict matrix (\<open>src/console/audit-verdicts.ts\<close>): the eleven verdicts, the
  function \<open>verdictFor\<close> that picks one from what was observed for a session, the per-session
  check, the sentences each verdict renders, and the fleet roll-up \<open>rollUp\<close> over the counters
  of a run. A \<open>Record\<close> indexed by the verdict is a function with one equation per key.
\<close>

section \<open>Verdicts\<close>

datatype residency_verdict =
    Confirmed | AlsoAtLetai | NotDeliveredHere | NoRecord | CopyUnchecked | MissingHere
  | LanesHoldIt | ResidencyUnchecked | ResidencyUnwitnessable | UnknownProvenance | NotApplicable

definition RESIDENCY_VERDICTS :: "residency_verdict list" where
  "RESIDENCY_VERDICTS =
     [Confirmed, AlsoAtLetai, NotDeliveredHere, NoRecord, CopyUnchecked, MissingHere,
      LanesHoldIt, ResidencyUnchecked, ResidencyUnwitnessable, UnknownProvenance, NotApplicable]"

record verdict_input =
  fortressPresent :: bool
  letaiCopy :: bool
  anyDestinationRecord :: bool
  hubRoutedHere :: bool
  vi_ingestChannel :: "string option"
  vi_acknowledged :: bool
  hasOwnTranscript :: bool
  hasLaneObject :: bool
  witnessAskable :: bool
  witnessAnswered :: bool

definition witnessEligible :: "string option \<Rightarrow> bool" where
  "witnessEligible ch \<longleftrightarrow> ch = Some ''tunnel''"

definition verdictFor :: "verdict_input \<Rightarrow> residency_verdict" where
  "verdictFor i =
     (if \<not> fortressPresent i \<and> \<not> hasOwnTranscript i \<and> hasLaneObject i \<and> \<not> hubRoutedHere i \<and>
         (\<not> witnessEligible (vi_ingestChannel i) \<or> witnessAnswered i)
      then LanesHoldIt
      else if \<not> witnessEligible (vi_ingestChannel i) then
        (if \<not> fortressPresent i then MissingHere
         else if vi_ingestChannel i = Some ''gateway'' then NotApplicable else UnknownProvenance)
      else if fortressPresent i then
        (if letaiCopy i then AlsoAtLetai
         else if witnessAnswered i then Confirmed else CopyUnchecked)
      else if \<not> witnessAskable i then ResidencyUnwitnessable
      else if \<not> witnessAnswered i then ResidencyUnchecked
      else if hubRoutedHere i then NotDeliveredHere
      else if hasOwnTranscript i \<or> \<not> hasLaneObject i then MissingHere
      else NoRecord)"

fun sessionCheckPasses :: "residency_verdict \<Rightarrow> bool \<Rightarrow> bool" where
  "sessionCheckPasses NotDeliveredHere ack = False"
| "sessionCheckPasses MissingHere ack = False"
| "sessionCheckPasses ResidencyUnchecked ack = False"
| "sessionCheckPasses ResidencyUnwitnessable ack = False"
| "sessionCheckPasses AlsoAtLetai ack = ack"
| "sessionCheckPasses _ ack = True"

definition acknowledgeable :: "residency_verdict \<Rightarrow> bool" where
  "acknowledgeable v \<longleftrightarrow> v = AlsoAtLetai"

section \<open>The words of a verdict\<close>

fun VERDICT_HEADLINE :: "residency_verdict \<Rightarrow> string" where
  "VERDICT_HEADLINE Confirmed = ''held here, and let.ai reports no copy''"
| "VERDICT_HEADLINE CopyUnchecked = ''held here; let.ai was not asked whether it also holds a copy''"
| "VERDICT_HEADLINE AlsoAtLetai = ''held here, and a historical let.ai copy exists''"
| "VERDICT_HEADLINE NotDeliveredHere = ''should be on this fortress, and is not''"
| "VERDICT_HEADLINE NoRecord =
     ''no destination record at let.ai '' @ em_dash @ '' predates per-destination tracking''"
| "VERDICT_HEADLINE LanesHoldIt =
     ''no transcript of its own '' @ em_dash @ '' its agent lanes hold the bytes, and they are here''"
| "VERDICT_HEADLINE MissingHere =
     ''this fortress claims this session, and its transcript is not in the bucket''"
| "VERDICT_HEADLINE ResidencyUnwitnessable =
     ''missing from this fortress, and not a session let.ai can be asked about''"
| "VERDICT_HEADLINE ResidencyUnchecked =
     ''missing from this fortress, and the witness did not answer''"
| "VERDICT_HEADLINE UnknownProvenance =
     ''upload channel unknown '' @ em_dash @ '' not verified with let.ai''"
| "VERDICT_HEADLINE NotApplicable =
     ''not checked with let.ai '' @ em_dash @ '' uploaded directly; id never sent''"

fun VERDICT_CAUSE :: "residency_verdict \<Rightarrow> string" where
  "VERDICT_CAUSE Confirmed =
     ''the transcript is in this organization's bucket and let.ai reports no copy of it''"
| "VERDICT_CAUSE CopyUnchecked =
     ''the transcript is in this organization's bucket, and no answer came back about whether let.ai also holds a copy''"
| "VERDICT_CAUSE AlsoAtLetai =
     ''bytes at let.ai predate this fortress, or the session is also attributed to a let.ai-hosted org''"
| "VERDICT_CAUSE NotDeliveredHere =
     ''let.ai recorded this fortress as a destination and the object never arrived''"
| "VERDICT_CAUSE NoRecord =
     ''this session was uploaded before let.ai recorded per-destination delivery''"
| "VERDICT_CAUSE LanesHoldIt =
     ''the parent row records no turns and at least one agent-lane object exists for it''"
| "VERDICT_CAUSE MissingHere =
     ''the session row is live here and no canonical object exists under its prefix''"
| "VERDICT_CAUSE ResidencyUnwitnessable =
     ''the object is not in this organization's bucket, and the session has no attribution, so its id is withheld from let.ai by design''"
| "VERDICT_CAUSE ResidencyUnchecked =
     ''the object is not in this organization's bucket, and no answer came back about whether let.ai ever routed it here''"
| "VERDICT_CAUSE UnknownProvenance =
     ''this session's row predates channel tracking, or it was recovered after an index outage''"
| "VERDICT_CAUSE NotApplicable =
     ''this session was uploaded straight to this fortress; its id was never sent to let.ai''"

fun VERDICT_REMEDIATION :: "residency_verdict \<Rightarrow> string" where
  "VERDICT_REMEDIATION Confirmed = ''nothing to do''"
| "VERDICT_REMEDIATION CopyUnchecked =
     ''nothing to do about the object '' @ em_dash @ '' it is here; re-run with the cloud witness on, or once let.ai is reachable, if you need the copy question answered too''"
| "VERDICT_REMEDIATION AlsoAtLetai =
     ''acknowledge it once you have confirmed which of the two causes applies; the acknowledgement is kept per session and inherited by later runs''"
| "VERDICT_REMEDIATION NotDeliveredHere =
     ''re-upload the session from the client that holds it, or ask let.ai to re-deliver it; this one is not acknowledgeable''"
| "VERDICT_REMEDIATION NoRecord =
     ''nothing to do '' @ em_dash @ '' it is benign legacy, and it qualifies the verdict rather than failing it''"
| "VERDICT_REMEDIATION LanesHoldIt =
     ''nothing to do '' @ em_dash @ '' this session records no turns of its own; its bytes are under its agent lanes, which are present''"
| "VERDICT_REMEDIATION MissingHere =
     ''the transcript is gone from this fortress's own bucket; restore it from a client that still holds the session, or from a bucket version if object versioning is on''"
| "VERDICT_REMEDIATION ResidencyUnwitnessable =
     ''the transcript is missing here and this session carries no organization attribution, so its id is never sent to let.ai; restore it from a client that still holds the session, or attribute the session and re-run''"
| "VERDICT_REMEDIATION ResidencyUnchecked =
     ''the object is missing from this fortress and the cloud witness did not answer, so it cannot be told apart from benign legacy; re-run the audit once let.ai is reachable, or with the cloud witness on''"
| "VERDICT_REMEDIATION UnknownProvenance =
     ''nothing to do per session; the share of these qualifies every verdict this run produces''"
| "VERDICT_REMEDIATION NotApplicable =
     ''nothing to do '' @ em_dash @ '' this fortress is the only place these bytes were ever sent''"

definition unknownProvenanceCause :: "string option \<Rightarrow> string" where
  "unknownProvenanceCause ch =
     (if ch = Some ''reconciled''
      then ''recovered after an index outage, so its original channel is not recorded''
      else ''predates channel tracking'')"

section \<open>The fleet roll-up\<close>

record roll_up_counts =
  sessionsChecked :: nat
  n_confirmed :: nat
  n_copyUnchecked :: nat
  n_alsoAtLetai :: nat
  n_alsoAtLetaiAcknowledged :: nat
  n_notDeliveredHere :: nat
  n_noRecord :: nat
  n_missingHere :: nat
  n_lanesHoldIt :: nat
  n_residencyUnchecked :: nat
  n_residencyUnwitnessable :: nat
  n_unknownProvenance :: nat
  n_notApplicable :: nat

datatype fleet_verdict = Clean | Qualified | Failed

datatype witness_state = Attested | WitnessOff | WitnessUnavailable

fun WITNESS_UNCHECKED_NOTE :: "witness_state \<Rightarrow> string" where
  "WITNESS_UNCHECKED_NOTE WitnessOff =
     ''the cloud witness is switched off, so no session id left this host and no let.ai copy was checked''"
| "WITNESS_UNCHECKED_NOTE WitnessUnavailable =
     ''let.ai could not be asked for this run, so no let.ai copy was checked''"
| "WITNESS_UNCHECKED_NOTE Attested = ''the witness answered''"

text \<open>
  The last equation is the sentence \<open>rollUp\<close> puts in the place of the table entry that
  \<open>Exclude<WitnessState, "attested">\<close> leaves out.
\<close>

definition note_if :: "nat \<Rightarrow> string \<Rightarrow> string list" where
  "note_if n rest = (if n > 0 then [show_nat n @ rest] else [])"

text \<open>The notes of a run that did not fail, in the order the source pushes them.\<close>

definition rollUp_notes :: "roll_up_counts \<Rightarrow> bool \<Rightarrow> witness_state \<Rightarrow> string list" where
  "rollUp_notes c fresh w =
     note_if (n_alsoAtLetaiAcknowledged c)
       ('' historical let.ai cop'' @ (if n_alsoAtLetaiAcknowledged c = 1 then ''y'' else ''ies'')
        @ '', acknowledged'')
     @ note_if (n_unknownProvenance c) '' of unknown upload channel''
     @ note_if (n_notApplicable c) '' uploaded directly and never named to let.ai''
     @ note_if (n_noRecord c) '' predating per-destination tracking''
     @ note_if (n_copyUnchecked c)
         ('' held here but never checked against let.ai '' @ em_dash
          @ '' the object is present; the copy question was not put'')
     @ (if w \<noteq> Attested then [WITNESS_UNCHECKED_NOTE w]
        else if \<not> fresh
          then [''let.ai's own view of this organization could not be refreshed for this run'']
        else [])"

text \<open>
  \<open>context.witness\<close> is optional: the failing arm reads an absent one as unavailable, the notes
  read it as attested. \<open>outstanding\<close> is a difference that the source only compares with zero,
  so truncated subtraction decides the same way.
\<close>

definition rollUp :: "roll_up_counts \<Rightarrow> bool \<Rightarrow> witness_state option \<Rightarrow> fleet_verdict \<times> string" where
  "rollUp c fresh w =
     (let notDelivered = n_notDeliveredHere c; missing = n_missingHere c;
          unwit = n_residencyUnwitnessable c; unchk = n_residencyUnchecked c;
          outstanding = n_alsoAtLetai c - n_alsoAtLetaiAcknowledged c
      in if notDelivered > 0 then
        (Failed, show_nat notDelivered @ '' session'' @ plural notDelivered
           @ '' should be on this fortress and '' @ (if notDelivered = 1 then ''is'' else ''are'') @ '' not'')
      else if missing > 0 then
        (Failed, show_nat missing @ '' session'' @ plural missing @ '' this fortress claims ''
           @ (if missing = 1 then ''is'' else ''are'') @ '' not in its bucket'')
      else if unwit > 0 then
        (Failed, show_nat unwit @ '' session'' @ plural unwit
           @ '' missing here that let.ai cannot be asked about '' @ em_dash @ '' ''
           @ (if unwit = 1 then ''it carries'' else ''they carry'') @ '' no organization attribution, so ''
           @ (if unwit = 1 then ''its id is'' else ''their ids are'') @ '' withheld by design'')
      else if unchk > 0 then
        (Failed, show_nat unchk @ '' session'' @ plural unchk
           @ '' missing here that the witness could not account for '' @ em_dash @ '' ''
           @ WITNESS_UNCHECKED_NOTE (case w of None \<Rightarrow> WitnessUnavailable | Some s \<Rightarrow> s))
      else if outstanding > 0 then
        (Failed, show_nat outstanding @ '' session'' @ plural outstanding @ '' also hold a let.ai copy and ''
           @ (if outstanding = 1 then ''has'' else ''have'') @ '' not been acknowledged'')
      else
        let notes = rollUp_notes c fresh (case w of None \<Rightarrow> Attested | Some s \<Rightarrow> s)
        in if notes = [] then (Clean, ''every checked session is held here and nowhere else'')
           else (Qualified, ''qualified ('' @ join_with ''; '' notes @ '')''))"

section \<open>Lemmas\<close>

instantiation fleet_verdict :: linorder
begin

definition less_eq_fleet_verdict :: "fleet_verdict \<Rightarrow> fleet_verdict \<Rightarrow> bool" where
  "less_eq_fleet_verdict a b \<longleftrightarrow> a = Clean \<or> b = Failed \<or> a = b"

definition less_fleet_verdict :: "fleet_verdict \<Rightarrow> fleet_verdict \<Rightarrow> bool" where
  "less_fleet_verdict a b \<longleftrightarrow> a \<le> b \<and> \<not> b \<le> (a :: fleet_verdict)"

instance
  by standard
    (auto simp: less_eq_fleet_verdict_def less_fleet_verdict_def, (metis fleet_verdict.exhaust)+)

end

lemma set_RESIDENCY_VERDICTS: "set RESIDENCY_VERDICTS = UNIV"
  by (auto simp: RESIDENCY_VERDICTS_def) (metis residency_verdict.exhaust)

lemma sessionCheckPasses_iff:
  "sessionCheckPasses v ack \<longleftrightarrow>
     v \<notin> {NotDeliveredHere, MissingHere, ResidencyUnchecked, ResidencyUnwitnessable}
     \<and> (v = AlsoAtLetai \<longrightarrow> ack)"
  by (cases v) auto

lemma note_if_Nil [simp]: "note_if n r = [] \<longleftrightarrow> n = 0"
  by (simp add: note_if_def)

lemma rollUp_notes_Nil:
  "rollUp_notes c fresh w = [] \<longleftrightarrow>
     n_alsoAtLetaiAcknowledged c = 0 \<and> n_unknownProvenance c = 0 \<and> n_notApplicable c = 0
     \<and> n_noRecord c = 0 \<and> n_copyUnchecked c = 0 \<and> w = Attested \<and> fresh"
  by (auto simp: rollUp_notes_def)

lemma verdictFor_LanesHoldIt [audit_simps]:
  "verdictFor i = LanesHoldIt \<longleftrightarrow>
     \<not> fortressPresent i \<and> \<not> hasOwnTranscript i \<and> hasLaneObject i \<and> \<not> hubRoutedHere i
     \<and> (witnessEligible (vi_ingestChannel i) \<longrightarrow> witnessAnswered i)"
  by (auto simp: verdictFor_def)

lemma verdictFor_Confirmed [audit_simps]:
  "verdictFor i = Confirmed \<longleftrightarrow>
     fortressPresent i \<and> witnessEligible (vi_ingestChannel i) \<and> \<not> letaiCopy i \<and> witnessAnswered i"
  by (auto simp: verdictFor_def)

lemma verdictFor_NotDeliveredHere [audit_simps]:
  "verdictFor i = NotDeliveredHere \<longleftrightarrow>
     \<not> fortressPresent i \<and> witnessEligible (vi_ingestChannel i) \<and> witnessAskable i
     \<and> witnessAnswered i \<and> hubRoutedHere i"
  by (auto simp: verdictFor_def)

lemma verdictFor_NoRecord [audit_simps, simp]: "verdictFor i \<noteq> NoRecord"
  by (auto simp: verdictFor_def)

section \<open>Properties\<close>

text \<open>
  The per-session check, stated on the observations rather than on the verdicts: a session
  whose object is here passes unless let.ai holds an unacknowledged copy of a relayed session, and
  a session whose object is absent passes only when it has no transcript of its own, an agent lane
  holds its bytes, let.ai did not route a parent transcript here, and - for a relayed session -
  the witness answered. In particular no acknowledgement makes an absent transcript pass.
\<close>

theorem session_check_exact:
  "sessionCheckPasses (verdictFor i) ack \<longleftrightarrow>
     (if fortressPresent i
      then \<not> (vi_ingestChannel i = Some ''tunnel'' \<and> letaiCopy i \<and> \<not> ack)
      else \<not> hasOwnTranscript i \<and> hasLaneObject i \<and> \<not> hubRoutedHere i \<and>
           \<not> (vi_ingestChannel i = Some ''tunnel'' \<and> \<not> witnessAnswered i))"
  by (auto simp: verdictFor_def witnessEligible_def)

text \<open>
  The verdict matrix never states what was not asked: \<open>confirmed\<close> and \<open>not_delivered_here\<close>
  are given exactly to relayed sessions the witness answered about (with no copy reported, and with
  a delivery to this fortress recorded), \<open>also_at_letai\<close> exactly to relayed sessions that are here
  with a copy reported, and the legacy verdict \<open>no_record\<close> is unreachable.
\<close>

theorem verdict_claims_only_answers:
  "(verdictFor i = Confirmed \<longleftrightarrow>
      fortressPresent i \<and> vi_ingestChannel i = Some ''tunnel'' \<and> witnessAnswered i \<and> \<not> letaiCopy i)
   \<and> (verdictFor i = AlsoAtLetai \<longleftrightarrow>
      fortressPresent i \<and> vi_ingestChannel i = Some ''tunnel'' \<and> letaiCopy i)
   \<and> (verdictFor i = NotDeliveredHere \<longleftrightarrow>
      \<not> fortressPresent i \<and> vi_ingestChannel i = Some ''tunnel'' \<and> witnessAskable i
      \<and> witnessAnswered i \<and> hubRoutedHere i)
   \<and> verdictFor i \<noteq> NoRecord"
  by (auto simp: verdictFor_def witnessEligible_def)

end
