(* ===== verification/Audit_Engine.thy ===== *)
theory Audit_Engine
  imports Audit_Verdicts
begin

text \<open>
  A residency audit run (\<open>src/console/audit-engine.ts\<close>): the pacer, the keys a session is looked
  up under, the witness ask, and the loop over every session row. \<open>AuditRunDeps\<close> is a record of
  what the dependencies answer during the run; the two clock readings the pacer makes at each
  spend are the parameter \<open>clk\<close>, indexed by the number of spends so far.
\<close>

section \<open>Rows, answers and dependencies\<close>

record audit_limits =
  inFlight :: nat
  opsPerSec :: nat
  perRunBudget :: nat

definition DEFAULT_AUDIT_LIMITS :: audit_limits where
  "DEFAULT_AUDIT_LIMITS = \<lparr>inFlight = 4, opsPerSec = 20, perRunBudget = 5000\<rparr>"

record audit_row =
  ar_org :: string
  ar_family :: string
  ar_sessionId :: string
  ar_userId :: string
  ar_ingestChannel :: "string option"
  ar_eventCount :: nat
  ar_orgAttributed :: bool

record audit_finding =
  af_org :: string
  af_family :: string
  af_sessionId :: string
  af_verdict :: residency_verdict
  af_ingestChannel :: "string option"
  af_detail :: string
  af_acknowledged :: bool

record witness_answer =
  wa_copies :: "string set"
  wa_known :: "string set"
  wa_routedHere :: "string set"

record audit_deps =
  d_sessions :: "audit_row list"
  d_listCanonical :: "string set"
  d_headCanonical :: "audit_row \<Rightarrow> bool"
  d_askWitness :: "(string list \<Rightarrow> witness_answer option) option"
  d_acknowledged :: "string set"
  d_postureFresh :: bool
  d_limits :: audit_limits

record audit_result =
  r_counts :: roll_up_counts
  r_findings :: "audit_finding list"
  r_verdict :: fleet_verdict
  r_qualification :: string
  r_witness :: witness_state
  r_opsSpent :: nat
  r_truncated :: bool

definition canonicalKeyOf :: "audit_row \<Rightarrow> string" where
  "canonicalKeyOf row =
     join_with ''/'' [ar_userId row, ar_family row, ar_sessionId row, ''canonical.ndjson'']"

definition witnessIdOf :: "audit_row \<Rightarrow> string" where
  "witnessIdOf row = join_with '':'' [ar_userId row, ar_family row, ar_sessionId row]"

definition ackKey :: "string \<Rightarrow> string \<Rightarrow> string" where
  "ackKey org sessionId = join_with '' '' [org, sessionId]"

section \<open>The pacer\<close>

record pacer =
  spent :: nat
  windowStart :: ms
  inWindow :: nat

definition new_pacer :: pacer where
  "new_pacer = \<lparr>spent = 0, windowStart = 0, inWindow = 0\<rparr>"

text \<open>
  One \<open>spend\<close>: \<open>now\<close> is the clock at its start, \<open>woken\<close> the clock after the sleep (read only
  when it sleeps). The second component is the sleep it asks for, if any.
\<close>

definition pacer_spend :: "audit_limits \<Rightarrow> ms \<Rightarrow> ms \<Rightarrow> pacer \<Rightarrow> pacer \<times> ms option" where
  "pacer_spend bounds now woken p =
     (let p1 = p\<lparr>spent := spent p + 1\<rparr>;
          p2 = (if now - windowStart p1 \<ge> 1000 then p1\<lparr>windowStart := now, inWindow := 0\<rparr> else p1);
          p3 = p2\<lparr>inWindow := inWindow p2 + 1\<rparr>
      in if inWindow p3 > opsPerSec bounds
         then (p3\<lparr>windowStart := woken, inWindow := 0\<rparr>, Some (max 0 (1000 - (now - windowStart p3))))
         else (p3, None))"

definition spend :: "audit_limits \<Rightarrow> (nat \<Rightarrow> ms \<times> ms) \<Rightarrow> pacer \<Rightarrow> pacer" where
  "spend bounds clk p = fst (pacer_spend bounds (fst (clk (spent p))) (snd (clk (spent p))) p)"

section \<open>Which sessions have a lane object\<close>

text \<open>
  \<open>parts[2] ?? ""\<close>: a key with fewer than three segments has no lane marker to find. The marker
  must not be at position 0.
\<close>

definition laneOwnerOf :: "string \<Rightarrow> string option" where
  "laneOwnerOf key =
     (let parts = split_on (CHR ''/'') key
      in if length parts < 3 then None
         else case index_of '':a:'' (parts ! 2) of
             None \<Rightarrow> None
           | Some lane \<Rightarrow>
               if lane > 0
               then Some (parts ! 0 @ ''/'' @ parts ! 1 @ ''/'' @ take lane (parts ! 2))
               else None)"

definition laneOwners :: "string set \<Rightarrow> string set" where
  "laneOwners present = (\<Union>key \<in> present. set_option (laneOwnerOf key))"

section \<open>Counting a verdict\<close>

fun countVerdict :: "roll_up_counts \<Rightarrow> residency_verdict \<Rightarrow> bool \<Rightarrow> roll_up_counts" where
  "countVerdict c Confirmed ack = c\<lparr>n_confirmed := n_confirmed c + 1\<rparr>"
| "countVerdict c CopyUnchecked ack = c\<lparr>n_copyUnchecked := n_copyUnchecked c + 1\<rparr>"
| "countVerdict c AlsoAtLetai ack =
     (let c1 = c\<lparr>n_alsoAtLetai := n_alsoAtLetai c + 1\<rparr>
      in if ack then c1\<lparr>n_alsoAtLetaiAcknowledged := n_alsoAtLetaiAcknowledged c1 + 1\<rparr> else c1)"
| "countVerdict c NotDeliveredHere ack = c\<lparr>n_notDeliveredHere := n_notDeliveredHere c + 1\<rparr>"
| "countVerdict c MissingHere ack = c\<lparr>n_missingHere := n_missingHere c + 1\<rparr>"
| "countVerdict c LanesHoldIt ack = c\<lparr>n_lanesHoldIt := n_lanesHoldIt c + 1\<rparr>"
| "countVerdict c ResidencyUnchecked ack = c\<lparr>n_residencyUnchecked := n_residencyUnchecked c + 1\<rparr>"
| "countVerdict c ResidencyUnwitnessable ack =
     c\<lparr>n_residencyUnwitnessable := n_residencyUnwitnessable c + 1\<rparr>"
| "countVerdict c NoRecord ack = c\<lparr>n_noRecord := n_noRecord c + 1\<rparr>"
| "countVerdict c UnknownProvenance ack = c\<lparr>n_unknownProvenance := n_unknownProvenance c + 1\<rparr>"
| "countVerdict c NotApplicable ack = c\<lparr>n_notApplicable := n_notApplicable c + 1\<rparr>"

definition zero_counts :: roll_up_counts where
  "zero_counts =
     \<lparr>sessionsChecked = 0, n_confirmed = 0, n_copyUnchecked = 0, n_alsoAtLetai = 0,
      n_alsoAtLetaiAcknowledged = 0, n_notDeliveredHere = 0, n_noRecord = 0, n_missingHere = 0,
      n_lanesHoldIt = 0, n_residencyUnchecked = 0, n_residencyUnwitnessable = 0,
      n_unknownProvenance = 0, n_notApplicable = 0\<rparr>"

section \<open>The run\<close>

definition eligible_ids :: "audit_row list \<Rightarrow> string list" where
  "eligible_ids rows =
     map witnessIdOf (filter (\<lambda>r. witnessEligible (ar_ingestChannel r) \<and> ar_orgAttributed r) rows)"

definition ask :: "audit_deps \<Rightarrow> witness_answer option" where
  "ask d = (case d_askWitness d of None \<Rightarrow> None | Some f \<Rightarrow> f (eligible_ids (d_sessions d)))"

definition witness_state_of :: "audit_deps \<Rightarrow> witness_state" where
  "witness_state_of d =
     (if ask d \<noteq> None then Attested
      else if d_askWitness d \<noteq> None then WitnessUnavailable else WitnessOff)"

text \<open>What a row is judged on, once its presence is known.\<close>

definition row_input :: "audit_deps \<Rightarrow> audit_row \<Rightarrow> bool \<Rightarrow> verdict_input" where
  "row_input d row present =
     (let w = ask d; wid = witnessIdOf row;
          asked = set (eligible_ids (d_sessions d));
          has = (\<lambda>sel. case w of None \<Rightarrow> False | Some a \<Rightarrow> wid \<in> sel a)
      in \<lparr>fortressPresent = present,
          letaiCopy = has wa_copies,
          anyDestinationRecord = has wa_known,
          hubRoutedHere = has wa_routedHere,
          vi_ingestChannel = ar_ingestChannel row,
          vi_acknowledged = ackKey (ar_org row) (ar_sessionId row) \<in> d_acknowledged d,
          hasOwnTranscript = ar_eventCount row > 0,
          hasLaneObject =
            ar_userId row @ ''/'' @ ar_family row @ ''/'' @ ar_sessionId row
              \<in> laneOwners (d_listCanonical d),
          witnessAskable = wid \<in> asked,
          witnessAnswered = w \<noteq> None \<and> wid \<in> asked\<rparr>)"

definition row_present :: "audit_deps \<Rightarrow> audit_row \<Rightarrow> bool" where
  "row_present d row \<longleftrightarrow> canonicalKeyOf row \<in> d_listCanonical d \<or> d_headCanonical d row"

definition row_verdict :: "audit_deps \<Rightarrow> audit_row \<Rightarrow> residency_verdict" where
  "row_verdict d row = verdictFor (row_input d row (row_present d row))"

definition row_finding :: "audit_deps \<Rightarrow> audit_row \<Rightarrow> audit_finding" where
  "row_finding d row =
     (let v = row_verdict d row; ack = ackKey (ar_org row) (ar_sessionId row) \<in> d_acknowledged d
      in \<lparr>af_org = ar_org row, af_family = ar_family row, af_sessionId = ar_sessionId row,
          af_verdict = v, af_ingestChannel = ar_ingestChannel row,
          af_detail =
            join_with ('' '' @ em_dash @ '' '')
              ((if v = UnknownProvenance then unknownProvenanceCause (ar_ingestChannel row)
                else VERDICT_CAUSE v)
               # (if sessionCheckPasses v ack then [] else [VERDICT_REMEDIATION v])),
          af_acknowledged = ack\<rparr>)"

record loop_state =
  ls_pacer :: pacer
  ls_counts :: roll_up_counts
  ls_findings :: "audit_finding list"
  ls_truncated :: bool

text \<open>
  One iteration past the budget check. The HEAD, and the spend before it, happen only when the
  listing does not hold the key.
\<close>

definition audit_step ::
    "audit_deps \<Rightarrow> (nat \<Rightarrow> ms \<times> ms) \<Rightarrow> audit_row \<Rightarrow> loop_state \<Rightarrow> loop_state" where
  "audit_step d clk row s =
     (let c1 = (ls_counts s)\<lparr>sessionsChecked := sessionsChecked (ls_counts s) + 1\<rparr>;
          listed = canonicalKeyOf row \<in> d_listCanonical d;
          p1 = (if listed then ls_pacer s else spend (d_limits d) clk (ls_pacer s));
          f = row_finding d row
      in s\<lparr>ls_pacer := p1,
           ls_counts := countVerdict c1 (af_verdict f) (af_acknowledged f),
           ls_findings := ls_findings s @ [f]\<rparr>)"

fun audit_loop ::
    "audit_deps \<Rightarrow> (nat \<Rightarrow> ms \<times> ms) \<Rightarrow> audit_row list \<Rightarrow> loop_state \<Rightarrow> loop_state" where
  "audit_loop d clk [] s = s"
| "audit_loop d clk (row # rows) s =
     (if spent (ls_pacer s) \<ge> perRunBudget (d_limits d) then s\<lparr>ls_truncated := True\<rparr>
      else audit_loop d clk rows (audit_step d clk row s))"

definition audit_start :: "audit_deps \<Rightarrow> (nat \<Rightarrow> ms \<times> ms) \<Rightarrow> loop_state" where
  "audit_start d clk =
     \<lparr>ls_pacer = spend (d_limits d) clk new_pacer, ls_counts = zero_counts,
      ls_findings = [], ls_truncated = False\<rparr>"

definition runResidencyAudit :: "audit_deps \<Rightarrow> (nat \<Rightarrow> ms \<times> ms) \<Rightarrow> audit_result" where
  "runResidencyAudit d clk =
     (let s = audit_loop d clk (d_sessions d) (audit_start d clk);
          fresh = (ask d \<noteq> None \<and> d_postureFresh d);
          (v0, q0) = rollUp (ls_counts s) fresh (Some (witness_state_of d));
          q = (if ls_truncated s
               then q0 @ '' '' @ em_dash @ '' stopped at this run's budget after ''
                    @ show_nat (sessionsChecked (ls_counts s))
                    @ '' session(s); the rest were not checked''
               else q0);
          v = (if ls_truncated s \<and> v0 = Clean then Qualified else v0)
      in \<lparr>r_counts = ls_counts s, r_findings = ls_findings s, r_verdict = v,
          r_qualification = q, r_witness = witness_state_of d,
          r_opsSpent = spent (ls_pacer s), r_truncated = ls_truncated s\<rparr>)"

definition failingFindings :: "audit_finding list \<Rightarrow> audit_finding list" where
  "failingFindings fs = filter (\<lambda>f. \<not> sessionCheckPasses (af_verdict f) (af_acknowledged f)) fs"

section \<open>Lemmas\<close>

text \<open>The number of findings with a verdict, and the counter that should hold it.\<close>

fun verdict_counter :: "residency_verdict \<Rightarrow> roll_up_counts \<Rightarrow> nat" where
  "verdict_counter Confirmed c = n_confirmed c"
| "verdict_counter AlsoAtLetai c = n_alsoAtLetai c"
| "verdict_counter NotDeliveredHere c = n_notDeliveredHere c"
| "verdict_counter NoRecord c = n_noRecord c"
| "verdict_counter CopyUnchecked c = n_copyUnchecked c"
| "verdict_counter MissingHere c = n_missingHere c"
| "verdict_counter LanesHoldIt c = n_lanesHoldIt c"
| "verdict_counter ResidencyUnchecked c = n_residencyUnchecked c"
| "verdict_counter ResidencyUnwitnessable c = n_residencyUnwitnessable c"
| "verdict_counter UnknownProvenance c = n_unknownProvenance c"
| "verdict_counter NotApplicable c = n_notApplicable c"

definition verdict_total :: "residency_verdict \<Rightarrow> audit_finding list \<Rightarrow> nat" where
  "verdict_total v fs = length (filter (\<lambda>f. af_verdict f = v) fs)"

definition acked_total :: "audit_finding list \<Rightarrow> nat" where
  "acked_total fs = length (filter (\<lambda>f. af_verdict f = AlsoAtLetai \<and> af_acknowledged f) fs)"

definition tally :: "roll_up_counts \<Rightarrow> audit_finding \<Rightarrow> roll_up_counts" where
  "tally c f = countVerdict (c\<lparr>sessionsChecked := sessionsChecked c + 1\<rparr>) (af_verdict f) (af_acknowledged f)"

lemma sessionsChecked_tally [simp]: "sessionsChecked (tally c f) = sessionsChecked c + 1"
  by (cases "af_verdict f") (auto simp: tally_def Let_def)

lemma verdict_counter_tally:
  "verdict_counter v (tally c f) = verdict_counter v c + (if af_verdict f = v then 1 else 0)"
  by (cases v; cases "af_verdict f") (simp_all add: tally_def Let_def)

lemma acked_tally:
  "n_alsoAtLetaiAcknowledged (tally c f) =
     n_alsoAtLetaiAcknowledged c + (if af_verdict f = AlsoAtLetai \<and> af_acknowledged f then 1 else 0)"
  by (cases "af_verdict f") (auto simp: tally_def Let_def)

lemma sessionsChecked_tallies:
  "sessionsChecked (foldl tally c fs) = sessionsChecked c + length fs"
  by (induction fs arbitrary: c) auto

lemma verdict_counter_tallies:
  "verdict_counter v (foldl tally c fs) = verdict_counter v c + verdict_total v fs"
  by (induction fs arbitrary: c) (auto simp: verdict_counter_tally verdict_total_def)

lemma acked_tallies:
  "n_alsoAtLetaiAcknowledged (foldl tally c fs) = n_alsoAtLetaiAcknowledged c + acked_total fs"
  by (induction fs arbitrary: c) (auto simp: acked_tally acked_total_def)

lemma verdict_counter_zero [simp]: "verdict_counter v zero_counts = 0"
  by (cases v) (simp_all add: zero_counts_def)

lemma verdict_total_0: "verdict_total v fs = 0 \<longleftrightarrow> (\<forall>f \<in> set fs. af_verdict f \<noteq> v)"
  by (auto simp: verdict_total_def filter_empty_conv)

lemma acked_total_le: "acked_total fs \<le> verdict_total AlsoAtLetai fs"
  by (induction fs) (auto simp: acked_total_def verdict_total_def)

lemma outstanding_0:
  "verdict_total AlsoAtLetai fs - acked_total fs = 0 \<longleftrightarrow>
     (\<forall>f \<in> set fs. af_verdict f = AlsoAtLetai \<longrightarrow> af_acknowledged f)"
proof (induction fs)
  case Nil
  then show ?case by (simp add: acked_total_def verdict_total_def)
next
  case (Cons f fs)
  have "acked_total fs \<le> verdict_total AlsoAtLetai fs" by (rule acked_total_le)
  with Cons show ?case by (auto simp: acked_total_def verdict_total_def)
qed

lemma spent_spend [simp]: "spent (spend bounds clk p) = spent p + 1"
  by (auto simp: spend_def pacer_spend_def Let_def)

lemma audit_step_simps [audit_simps]:
  "ls_findings (audit_step d clk row s) = ls_findings s @ [row_finding d row]"
  "ls_counts (audit_step d clk row s) = tally (ls_counts s) (row_finding d row)"
  "ls_truncated (audit_step d clk row s) = ls_truncated s"
  "spent (ls_pacer (audit_step d clk row s)) =
     spent (ls_pacer s) + (if canonicalKeyOf row \<in> d_listCanonical d then 0 else 1)"
  by (auto simp: audit_step_def tally_def Let_def)

text \<open>The loop judges a prefix of the rows, in order, and tallies exactly their findings.\<close>

definition rows_judged :: "audit_deps \<Rightarrow> audit_row list \<Rightarrow> nat \<Rightarrow> audit_finding list" where
  "rows_judged d rows k = map (row_finding d) (take k rows)"

lemma audit_loop_prefix:
  assumes "\<not> ls_truncated s"
  shows "\<exists>k \<le> length rows.
    ls_findings (audit_loop d clk rows s) = ls_findings s @ rows_judged d rows k \<and>
    ls_counts (audit_loop d clk rows s) = foldl tally (ls_counts s) (rows_judged d rows k) \<and>
    (ls_truncated (audit_loop d clk rows s) \<longleftrightarrow> k < length rows)"
  using assms
proof (induction rows arbitrary: s)
  case Nil
  then show ?case by (simp add: rows_judged_def)
next
  case (Cons row rows)
  show ?case
  proof (cases "spent (ls_pacer s) \<ge> perRunBudget (d_limits d)")
    case True
    then show ?thesis by (intro exI [of _ 0]) (simp add: rows_judged_def)
  next
    case False
    from Cons.prems have "\<not> ls_truncated (audit_step d clk row s)" by (simp add: audit_simps)
    from Cons.IH [OF this] obtain k where
      "k \<le> length rows"
      "ls_findings (audit_loop d clk rows (audit_step d clk row s)) =
         ls_findings s @ row_finding d row # rows_judged d rows k"
      "ls_counts (audit_loop d clk rows (audit_step d clk row s)) =
         foldl tally (tally (ls_counts s) (row_finding d row)) (rows_judged d rows k)"
      "ls_truncated (audit_loop d clk rows (audit_step d clk row s)) \<longleftrightarrow> k < length rows"
      by (auto simp: audit_simps)
    with False show ?thesis
      by (intro exI [of _ "Suc k"]) (simp add: rows_judged_def)
  qed
qed

lemma audit_loop_spent:
  "spent (ls_pacer (audit_loop d clk rows s)) \<le> max (spent (ls_pacer s)) (perRunBudget (d_limits d))"
proof (induction rows arbitrary: s)
  case Nil
  then show ?case by simp
next
  case (Cons row rows)
  show ?case
    using Cons.IH [of "audit_step d clk row s"] by (auto simp: audit_simps split: if_splits)
qed

lemma audit_loop_truncated_spent:
  "ls_truncated (audit_loop d clk rows s) \<Longrightarrow> \<not> ls_truncated s \<Longrightarrow>
     perRunBudget (d_limits d) \<le> spent (ls_pacer (audit_loop d clk rows s))"
  by (induction rows arbitrary: s) (auto simp: audit_simps split: if_splits)

lemma audit_start_simps [audit_simps]:
  "ls_findings (audit_start d clk) = []" "ls_counts (audit_start d clk) = zero_counts"
  "\<not> ls_truncated (audit_start d clk)" "spent (ls_pacer (audit_start d clk)) = 1"
  by (simp_all add: audit_start_def new_pacer_def)

lemma run_simps [audit_simps]:
  "r_findings (runResidencyAudit d clk) = ls_findings (audit_loop d clk (d_sessions d) (audit_start d clk))"
  "r_counts (runResidencyAudit d clk) = ls_counts (audit_loop d clk (d_sessions d) (audit_start d clk))"
  "r_truncated (runResidencyAudit d clk) = ls_truncated (audit_loop d clk (d_sessions d) (audit_start d clk))"
  "r_opsSpent (runResidencyAudit d clk) = spent (ls_pacer (audit_loop d clk (d_sessions d) (audit_start d clk)))"
  "r_witness (runResidencyAudit d clk) = witness_state_of d"
  by (simp_all add: runResidencyAudit_def Let_def split_beta)

lemma run_verdict:
  "r_verdict (runResidencyAudit d clk) =
    (let v = fst (rollUp (r_counts (runResidencyAudit d clk)) (ask d \<noteq> None \<and> d_postureFresh d)
                    (Some (witness_state_of d)))
     in if r_truncated (runResidencyAudit d clk) \<and> v = Clean then Qualified else v)"
  by (simp add: runResidencyAudit_def Let_def split_beta)

lemma run_prefix:
  obtains k where "k \<le> length (d_sessions d)"
    "r_findings (runResidencyAudit d clk) = rows_judged d (d_sessions d) k"
    "r_counts (runResidencyAudit d clk) = foldl tally zero_counts (r_findings (runResidencyAudit d clk))"
    "r_truncated (runResidencyAudit d clk) \<longleftrightarrow> k < length (d_sessions d)"
  using audit_loop_prefix [of "audit_start d clk" "d_sessions d" d clk] by (auto simp: audit_simps)

lemma rollUp_Failed_iff:
  "fst (rollUp c fresh w) = Failed \<longleftrightarrow>
     n_notDeliveredHere c > 0 \<or> n_missingHere c > 0 \<or> n_residencyUnwitnessable c > 0
     \<or> n_residencyUnchecked c > 0 \<or> n_alsoAtLetai c - n_alsoAtLetaiAcknowledged c > 0"
  by (simp add: rollUp_def Let_def)

lemma rollUp_Clean_iff:
  "fst (rollUp c fresh (Some w)) = Clean \<longleftrightarrow>
     fst (rollUp c fresh (Some w)) \<noteq> Failed \<and> rollUp_notes c fresh w = []"
  by (simp add: rollUp_def Let_def)

lemmas verdict_counters =
  verdict_counter_tallies [of NotDeliveredHere zero_counts, simplified]
  verdict_counter_tallies [of MissingHere zero_counts, simplified]
  verdict_counter_tallies [of ResidencyUnwitnessable zero_counts, simplified]
  verdict_counter_tallies [of ResidencyUnchecked zero_counts, simplified]
  verdict_counter_tallies [of AlsoAtLetai zero_counts, simplified]
  verdict_counter_tallies [of UnknownProvenance zero_counts, simplified]
  verdict_counter_tallies [of NotApplicable zero_counts, simplified]
  verdict_counter_tallies [of NoRecord zero_counts, simplified]
  verdict_counter_tallies [of CopyUnchecked zero_counts, simplified]

lemma acked_zero [simp]: "n_alsoAtLetaiAcknowledged zero_counts = 0" "sessionsChecked zero_counts = 0"
  by (simp_all add: zero_counts_def)

lemma failingFindings_Nil:
  "failingFindings fs = [] \<longleftrightarrow>
     verdict_total NotDeliveredHere fs = 0 \<and> verdict_total MissingHere fs = 0
     \<and> verdict_total ResidencyUnwitnessable fs = 0 \<and> verdict_total ResidencyUnchecked fs = 0
     \<and> verdict_total AlsoAtLetai fs - acked_total fs = 0"
  unfolding outstanding_0 verdict_total_0 failingFindings_def filter_empty_conv sessionCheckPasses_iff
  by blast

lemma tallies_Failed_iff:
  "fst (rollUp (foldl tally zero_counts fs) fresh w) = Failed \<longleftrightarrow> failingFindings fs \<noteq> []"
  by (simp add: rollUp_Failed_iff failingFindings_Nil verdict_counters
      acked_tallies [of zero_counts, simplified]) linarith

section \<open>Properties\<close>

text \<open>
  C1. What a clean run proves. If a run's verdict is clean, it reached every session row, let.ai
  answered and its posture was fresh, and every row is either relayed, asked about, in the bucket
  (by the listing or by its HEAD) and not reported as copied, or a stub without turns of its own
  that is absent but has a lane object here and no delivery recorded to this fortress.
\<close>

theorem clean_run_sound:
  assumes clean: "r_verdict (runResidencyAudit d clk) = Clean"
    and row: "row \<in> set (d_sessions d)"
  shows "\<exists>w. ask d = Some w \<and> d_postureFresh d \<and>
    (row_present d row \<and> ar_ingestChannel row = Some ''tunnel''
       \<and> witnessIdOf row \<in> set (eligible_ids (d_sessions d)) \<and> witnessIdOf row \<notin> wa_copies w
     \<or> \<not> row_present d row \<and> ar_eventCount row = 0 \<and> witnessIdOf row \<notin> wa_routedHere w
       \<and> ar_userId row @ ''/'' @ ar_family row @ ''/'' @ ar_sessionId row
           \<in> laneOwners (d_listCanonical d))"
proof -
  obtain k where k: "k \<le> length (d_sessions d)"
    "r_findings (runResidencyAudit d clk) = rows_judged d (d_sessions d) k"
    "r_counts (runResidencyAudit d clk) = foldl tally zero_counts (r_findings (runResidencyAudit d clk))"
    "r_truncated (runResidencyAudit d clk) \<longleftrightarrow> k < length (d_sessions d)"
    by (rule run_prefix)
  let ?fs = "rows_judged d (d_sessions d) k" and ?fresh = "ask d \<noteq> None \<and> d_postureFresh d"
  from clean have full: "\<not> r_truncated (runResidencyAudit d clk)"
    and roll: "fst (rollUp (foldl tally zero_counts ?fs) ?fresh (Some (witness_state_of d))) = Clean"
    using k by (auto simp: run_verdict Let_def split: if_splits)
  from roll have nofail: "failingFindings ?fs = []"
    and quiet: "rollUp_notes (foldl tally zero_counts ?fs) ?fresh (witness_state_of d) = []"
    by (auto simp: rollUp_Clean_iff tallies_Failed_iff)
  have f: "row_finding d row \<in> set ?fs"
    using full k row by (auto simp: rows_judged_def)
  from quiet have zero: "verdict_total UnknownProvenance ?fs = 0" "verdict_total NotApplicable ?fs = 0"
    "verdict_total NoRecord ?fs = 0" "verdict_total CopyUnchecked ?fs = 0" "acked_total ?fs = 0"
    and fresh: "ask d \<noteq> None" "d_postureFresh d"
    by (simp_all add: rollUp_notes_Nil verdict_counters acked_tallies)
  moreover from nofail zero(5) have "verdict_total AlsoAtLetai ?fs = 0"
    by (simp add: failingFindings_Nil)
  ultimately have "af_verdict (row_finding d row) \<notin>
      {NotDeliveredHere, MissingHere, ResidencyUnwitnessable, ResidencyUnchecked,
       UnknownProvenance, NotApplicable, NoRecord, CopyUnchecked, AlsoAtLetai}"
    using nofail f by (auto simp: failingFindings_Nil verdict_total_0)
  then have "row_verdict d row \<in> {Confirmed, LanesHoldIt}"
    by (cases "row_verdict d row") (simp_all add: row_finding_def Let_def)
  moreover from fresh(1) obtain w where "ask d = Some w" by blast
  ultimately show ?thesis
    using fresh(2)
    by (auto simp: row_verdict_def row_input_def Let_def audit_simps witnessEligible_def)
qed

text \<open>
  The fleet roll-up fails exactly when some finding of the run fails its per-session check,
  whatever the witness, the posture and the budget were: the two layers of severity agree.
\<close>

theorem run_fails_iff_a_finding_fails:
  "r_verdict (runResidencyAudit d clk) = Failed \<longleftrightarrow>
     failingFindings (r_findings (runResidencyAudit d clk)) \<noteq> []"
proof -
  obtain k where
    "r_counts (runResidencyAudit d clk) = foldl tally zero_counts (r_findings (runResidencyAudit d clk))"
    by (rule run_prefix)
  then have "fst (rollUp (r_counts (runResidencyAudit d clk)) (ask d \<noteq> None \<and> d_postureFresh d)
      (Some (witness_state_of d))) = Failed \<longleftrightarrow>
      failingFindings (r_findings (runResidencyAudit d clk)) \<noteq> []"
    by (metis tallies_Failed_iff)
  then show ?thesis by (auto simp: run_verdict Let_def)
qed

text \<open>
  The counters of a run are exact: the rows checked are the findings, the findings are those of
  a prefix of the rows in their order, and every verdict's counter is the number of findings with
  that verdict (so no verdict is dropped or counted twice).
\<close>

theorem run_counts_exact:
  "sessionsChecked (r_counts (runResidencyAudit d clk)) = length (r_findings (runResidencyAudit d clk))
   \<and> verdict_counter v (r_counts (runResidencyAudit d clk))
       = length (filter (\<lambda>f. af_verdict f = v) (r_findings (runResidencyAudit d clk)))
   \<and> prefix (r_findings (runResidencyAudit d clk)) (map (row_finding d) (d_sessions d))"
proof -
  obtain k where k:
    "r_findings (runResidencyAudit d clk) = rows_judged d (d_sessions d) k"
    "r_counts (runResidencyAudit d clk) = foldl tally zero_counts (r_findings (runResidencyAudit d clk))"
    by (rule run_prefix)
  have "prefix (rows_judged d (d_sessions d) k) (map (row_finding d) (d_sessions d))"
    by (simp add: rows_judged_def take_map [symmetric] take_is_prefix)
  with k show ?thesis
    by (simp add: sessionsChecked_tallies verdict_counter_tallies verdict_total_def)
qed

text \<open>
  A run never spends past its budget (the listing alone is spent unconditionally), it stops
  early only when the budget is spent, and a run that stopped early is never clean.
\<close>

theorem run_budget:
  "r_opsSpent (runResidencyAudit d clk) \<le> max 1 (perRunBudget (d_limits d))
   \<and> (r_truncated (runResidencyAudit d clk) \<longrightarrow>
        perRunBudget (d_limits d) \<le> r_opsSpent (runResidencyAudit d clk)
        \<and> r_verdict (runResidencyAudit d clk) \<noteq> Clean)
   \<and> (\<not> r_truncated (runResidencyAudit d clk) \<longrightarrow>
        r_findings (runResidencyAudit d clk) = map (row_finding d) (d_sessions d))"
proof -
  obtain k where k: "k \<le> length (d_sessions d)"
    "r_findings (runResidencyAudit d clk) = rows_judged d (d_sessions d) k"
    "r_truncated (runResidencyAudit d clk) \<longleftrightarrow> k < length (d_sessions d)"
    by (rule run_prefix)
  have "r_opsSpent (runResidencyAudit d clk) \<le> max 1 (perRunBudget (d_limits d))"
    using audit_loop_spent [of d clk "d_sessions d" "audit_start d clk"] by (simp add: audit_simps)
  moreover have "r_truncated (runResidencyAudit d clk) \<Longrightarrow>
      perRunBudget (d_limits d) \<le> r_opsSpent (runResidencyAudit d clk)"
    using audit_loop_truncated_spent [of d clk "d_sessions d" "audit_start d clk"]
    by (simp add: audit_simps)
  ultimately show ?thesis
    using k by (auto simp: run_verdict Let_def rows_judged_def split: if_splits)
qed

section \<open>Witnesses\<close>

definition demo_row :: audit_row where
  "demo_row = \<lparr>ar_org = ''o'', ar_family = ''f'', ar_sessionId = ''s'', ar_userId = ''u'',
     ar_ingestChannel = Some ''tunnel'', ar_eventCount = 1, ar_orgAttributed = True\<rparr>"

definition demo_deps :: audit_deps where
  "demo_deps = \<lparr>d_sessions = [demo_row], d_listCanonical = {''u/f/s/canonical.ndjson''},
     d_headCanonical = (\<lambda>_. False),
     d_askWitness = Some (\<lambda>_. Some \<lparr>wa_copies = {}, wa_known = {}, wa_routedHere = {}\<rparr>),
     d_acknowledged = {}, d_postureFresh = True, d_limits = DEFAULT_AUDIT_LIMITS\<rparr>"

lemma demo_clean: "r_verdict (runResidencyAudit demo_deps (\<lambda>_. (0, 0))) = Clean"
  by (simp add: runResidencyAudit_def demo_deps_def demo_row_def audit_start_def audit_step_def
      new_pacer_def Let_def DEFAULT_AUDIT_LIMITS_def row_finding_def row_verdict_def row_input_def
      row_present_def canonicalKeyOf_def verdictFor_def witnessEligible_def ask_def eligible_ids_def
      witnessIdOf_def witness_state_of_def zero_counts_def rollUp_def rollUp_notes_def note_if_def)

theorem clean_run_sound_witness:
  "row_present demo_deps demo_row \<and> d_postureFresh demo_deps"
  using clean_run_sound [OF demo_clean, of demo_row]
  by (auto simp: demo_deps_def demo_row_def)

theorem run_budget_witness:
  "r_findings (runResidencyAudit demo_deps (\<lambda>_. (0, 0))) = [row_finding demo_deps demo_row]"
proof -
  have "\<not> r_truncated (runResidencyAudit demo_deps (\<lambda>_. (0, 0)))"
    using run_budget [of demo_deps "\<lambda>_. (0, 0)"] demo_clean by auto
  then show ?thesis
    using run_budget [of demo_deps "\<lambda>_. (0, 0)"] by (simp add: demo_deps_def)
qed

end
