(* ===== verification/Session_Store.thy ===== *)
theory Session_Store
  imports Prelude
begin

text \<open>
  The storage interface every component works through (\<open>SessionStore\<close> of
  \<open>src/modules/session-vault/store/types.ts\<close>) and the error values of its decorators. A method
  call is a value of \<open>store_call\<close> with the method's arguments, its answer a value of
  \<open>store_reply\<close>; a store is a function from a call and its own state to an answer (or an error)
  and the new state. The object stores themselves (GCS, S3) are cloud SDKs, so a backend is
  always a parameter. A time stamp in an answer stands for the ISO string the source carries.
\<close>

record session_key =
  sk_userId :: string
  sk_family :: string
  sk_sessionId :: string

datatype store_call =
    SignStagingUpload session_key string "int option"
  | ReadChunkText session_key string
  | AppendChunkToCanonical session_key string bool
  | StatCanonical session_key
  | SignCanonicalDownload session_key
  | ReadCanonicalText session_key
  | WriteCanonicalText session_key string
  | WriteArtifact session_key string string
  | ReadArtifactText session_key string
  | ListSessionArtifacts session_key
  | ListSessionMetadata string
  | ListAllCanonicalKeys
  | GetBucketVersioning
  | GetLifecycle
  | SelfTest
  | DeleteSession session_key "nat option"

fun method_name :: "store_call \<Rightarrow> string" where
  "method_name (SignStagingUpload k c t) = ''signStagingUpload''"
| "method_name (ReadChunkText k c) = ''readChunkText''"
| "method_name (AppendChunkToCanonical k c r) = ''appendChunkToCanonical''"
| "method_name (StatCanonical k) = ''statCanonical''"
| "method_name (SignCanonicalDownload k) = ''signCanonicalDownload''"
| "method_name (ReadCanonicalText k) = ''readCanonicalText''"
| "method_name (WriteCanonicalText k t) = ''writeCanonicalText''"
| "method_name (WriteArtifact k n t) = ''writeArtifact''"
| "method_name (ReadArtifactText k n) = ''readArtifactText''"
| "method_name (ListSessionArtifacts k) = ''listSessionArtifacts''"
| "method_name (ListSessionMetadata u) = ''listSessionMetadata''"
| "method_name ListAllCanonicalKeys = ''listAllCanonicalKeys''"
| "method_name GetBucketVersioning = ''getBucketVersioning''"
| "method_name GetLifecycle = ''getLifecycle''"
| "method_name SelfTest = ''selfTest''"
| "method_name (DeleteSession k n) = ''deleteSession''"

datatype store_reply =
    SignedUpload (su_url: string) (su_objectName: string) (su_expiresAt: "ms option")
  | SignedDownload string "ms option"
  | Text string
  | TextOrNull "string option"
  | Composed nat nat
  | SizeOrNull "nat option"
  | Names "string list"
  | Keys "session_key list"
  | BucketFact string
  | Deleted bool nat
  | Unit

datatype store_error =
    IngestPaused ms
  | StoreDeadline string nat
  | BackendError string

type_synonym 'b backend = "store_call \<Rightarrow> 'b \<Rightarrow> (store_error + store_reply) \<times> 'b"

end
