(* ===== verification/Store_Keys.thy ===== *)
theory Store_Keys
  imports Session_Store "HOL-Library.Char_ord" "HOL-Library.List_Lexorder"
begin

text \<open>
  The object-key builders both stores share (\<open>src/modules/session-vault/store/keys.ts\<close>). The
  segments of a session key come from a token or a tunnel call, so they are hostile input; the
  builders must keep every object inside the prefix of the session it belongs to. Each builder
  returns the object name or the message it throws. The lemmas show that a canonical name reads
  back as the key it was built from, that no name built for one session falls under the
  prefixes of another, and that no path segment of a built name is empty, \<open>.\<close> or \<open>..\<close>.
\<close>

section \<open>Segments\<close>

definition ascii_alnum :: "char \<Rightarrow> bool" where
  "ascii_alnum c =
     (let n = of_char c :: nat in
        65 \<le> n \<and> n \<le> 90 \<or> 97 \<le> n \<and> n \<le> 122 \<or> 48 \<le> n \<and> n \<le> 57)"

definition SEG :: "string \<Rightarrow> bool" where
  "SEG v \<longleftrightarrow> list_all (\<lambda>c. ascii_alnum c \<or> c \<in> set ''._-'') v \<and> 1 \<le> length v \<and> length v \<le> 200"

definition assertSegment :: "string \<Rightarrow> string \<Rightarrow> string + unit" where
  "assertSegment v label =
     (if \<not> SEG v \<or> prefix ''.'' v then Inl (''invalid '' @ label @ '' segment'') else Inr ())"

text \<open>\<open>stmt; rest\<close> where the first statement may throw.\<close>

definition and_then :: "'e + unit \<Rightarrow> 'e + 'a \<Rightarrow> 'e + 'a" where
  "and_then a b = (case a of Inl e \<Rightarrow> Inl e | Inr _ \<Rightarrow> b)"

lemma and_then_Inr [simp]: "and_then a b = Inr x \<longleftrightarrow> a = Inr () \<and> b = Inr x"
  by (cases a) (auto simp: and_then_def)

definition assertSessionId :: "string \<Rightarrow> string + unit" where
  "assertSessionId sessionId =
     (if CHR '':'' \<notin> set sessionId then assertSegment sessionId ''sessionId''
      else let parts = split_on CHR '':'' sessionId in
        if length parts \<noteq> 3 \<or> parts ! 1 \<noteq> ''a'' then Inl ''invalid sessionId segment''
        else and_then (assertSegment (parts ! 0) ''sessionId'')
               (assertSegment (parts ! 2) ''sessionId''))"

section \<open>The builders\<close>

definition sessionPrefix :: "session_key \<Rightarrow> string + string" where
  "sessionPrefix k =
     and_then (assertSegment (sk_userId k) ''userId'')
       (and_then (assertSegment (sk_family k) ''family'')
         (and_then (assertSessionId (sk_sessionId k))
           (Inr (sk_userId k @ ''/'' @ sk_family k @ ''/'' @ sk_sessionId k))))"

definition listPrefix :: "string \<Rightarrow> string + string" where
  "listPrefix userId = and_then (assertSegment userId ''userId'') (Inr (userId @ ''/''))"

definition sessionDeletePrefixes :: "session_key \<Rightarrow> string + (string \<times> string)" where
  "sessionDeletePrefixes k =
     (if CHR '':'' \<in> set (sk_sessionId k) then Inl ''deleteSession requires the base session id''
      else case sessionPrefix k of Inl e \<Rightarrow> Inl e | Inr p \<Rightarrow> Inr (p @ ''/'', p @ '':a:''))"

definition stagingObject :: "session_key \<Rightarrow> string \<Rightarrow> string + string" where
  "stagingObject k chunkId =
     and_then (assertSegment chunkId ''chunkId'')
       (case sessionPrefix k of Inl e \<Rightarrow> Inl e
        | Inr p \<Rightarrow> Inr (p @ ''/.staging/'' @ chunkId @ ''.jsonl''))"

definition canonicalObject :: "session_key \<Rightarrow> string + string" where
  "canonicalObject k = (case sessionPrefix k of Inl e \<Rightarrow> Inl e | Inr p \<Rightarrow> Inr (p @ ''/log.jsonl''))"

definition parseCanonicalKey :: "string \<Rightarrow> session_key option" where
  "parseCanonicalKey objectName =
     (if \<not> suffix ''/log.jsonl'' objectName then None
      else let parts = split_on CHR ''/'' objectName in
        if length parts \<noteq> 4 \<or> parts ! 3 \<noteq> ''log.jsonl'' then None
        else if parts ! 0 = [] \<or> parts ! 1 = [] \<or> parts ! 2 = [] then None
        else Some \<lparr>sk_userId = parts ! 0, sk_family = parts ! 1, sk_sessionId = parts ! 2\<rparr>)"

definition ARTIFACT_ALLOWLIST :: "string set" where
  "ARTIFACT_ALLOWLIST = {''session.json'', ''tasks.json'', ''plan.json''}"

text \<open>The pattern \<open>^workflow-[A-Za-z0-9_-]{4,200}.json$\<close> of the source (its dot is escaped).\<close>

definition WORKFLOW_ARTIFACT :: "string \<Rightarrow> bool" where
  "WORKFLOW_ARTIFACT name \<longleftrightarrow>
     prefix ''workflow-'' name \<and>
     (let rest = drop 9 name in
        suffix ''.json'' rest \<and>
        (let runId = take (length rest - 5) rest in
           list_all (\<lambda>c. ascii_alnum c \<or> c \<in> set ''_-'') runId \<and>
           4 \<le> length runId \<and> length runId \<le> 200))"

definition isSessionArtifactName :: "string \<Rightarrow> bool" where
  "isSessionArtifactName name \<longleftrightarrow> name \<in> ARTIFACT_ALLOWLIST \<or> WORKFLOW_ARTIFACT name"

definition sessionArtifactNames :: "string list \<Rightarrow> string \<Rightarrow> string list" where
  "sessionArtifactNames objectNames pre =
     sort (remdups (filter isSessionArtifactName
       (map (drop (length pre)) (filter (prefix pre) objectNames))))"

definition artifactObject :: "session_key \<Rightarrow> string \<Rightarrow> string + string" where
  "artifactObject k name =
     (if \<not> isSessionArtifactName name then Inl (''artifact not allowed: '' @ name)
      else case sessionPrefix k of Inl e \<Rightarrow> Inl e | Inr p \<Rightarrow> Inr (p @ ''/'' @ name))"

section \<open>What the guards admit\<close>

definition safe_segment :: "string \<Rightarrow> bool" where
  "safe_segment v \<longleftrightarrow> SEG v \<and> \<not> prefix ''.'' v"

lemma assertSegment_ok [simp]: "assertSegment v l = Inr () \<longleftrightarrow> safe_segment v"
  by (simp add: assertSegment_def safe_segment_def)

lemma ascii_alnum_separators [simp]:
  "\<not> ascii_alnum CHR ''/''" "\<not> ascii_alnum CHR '':''" "\<not> ascii_alnum CHR ''.''"
  by (simp_all add: ascii_alnum_def)

lemma safe_segment_chars:
  assumes "safe_segment v"
  shows "CHR ''/'' \<notin> set v" and "CHR '':'' \<notin> set v" and "v \<noteq> []" and "hd v \<noteq> CHR ''.''"
  using assms by (cases v; auto simp: safe_segment_def SEG_def list_all_iff)+

text \<open>The part of a session id before any agent-lane marker.\<close>

definition base_session :: "string \<Rightarrow> string" where
  "base_session sid = takeWhile (\<lambda>c. c \<noteq> CHR '':'') sid"

lemma three_parts:
  assumes "length (split_on c s) = 3"
  obtains x y z where "split_on c s = [x, y, z]" and "s = x @ c # y @ c # z"
proof -
  obtain x y z where xyz: "split_on c s = [x, y, z]"
    using assms by (auto simp: numeral_3_eq_3 length_Suc_conv)
  have "s = join_with [c] [x, y, z]"
    using join_split_on [of c s] unfolding xyz by (rule sym)
  then show thesis by (intro that [OF xyz]) simp
qed

lemma assertSessionId_cases:
  assumes "assertSessionId sid = Inr ()"
  obtains (plain) "safe_segment sid"
  | (lane) b a where "sid = b @ '':a:'' @ a" and "safe_segment b" and "safe_segment a"
proof (cases "CHR '':'' \<in> set sid")
  case False
  with assms show thesis by (intro plain) (simp add: assertSessionId_def)
next
  case True
  with assms have l: "length (split_on CHR '':'' sid) = 3"
    by (auto simp: assertSessionId_def Let_def split: if_splits)
  obtain x y z where s: "split_on CHR '':'' sid = [x, y, z]" "sid = x @ CHR '':'' # y @ CHR '':'' # z"
    by (rule three_parts [OF l])
  with True assms have "y = ''a''" "safe_segment x" "safe_segment z"
    by (auto simp: assertSessionId_def Let_def split: if_splits)
  with s show thesis by (intro lane [of x z]) auto
qed

lemma assertSessionId_shape:
  assumes "assertSessionId sid = Inr ()"
  shows "CHR ''/'' \<notin> set sid" and "sid \<noteq> []" and "hd sid \<noteq> CHR ''.''"
    and "safe_segment (base_session sid)"
    and "sid = base_session sid \<or> prefix (base_session sid @ '':a:'') sid"
proof -
  have "CHR ''/'' \<notin> set sid \<and> sid \<noteq> [] \<and> hd sid \<noteq> CHR ''.'' \<and> safe_segment (base_session sid) \<and>
    (sid = base_session sid \<or> prefix (base_session sid @ '':a:'') sid)"
    using assms
  proof (cases rule: assertSessionId_cases)
    case plain
    then have "base_session sid = sid"
      using safe_segment_chars [OF plain] by (auto simp: base_session_def takeWhile_eq_all_conv)
    with plain safe_segment_chars [OF plain] show ?thesis by simp
  next
    case (lane b a)
    note b = safe_segment_chars [OF lane(2)] and a = safe_segment_chars [OF lane(3)]
    have "base_session sid = b"
      unfolding base_session_def lane(1) using b(2) by (auto simp: takeWhile_append takeWhile_eq_all_conv)
    moreover have "CHR ''/'' \<notin> set sid" using lane(1) a b by auto
    moreover have "sid \<noteq> []" "hd sid = hd b" using lane(1) b(3) by (auto simp: hd_append)
    moreover have "prefix (b @ '':a:'') sid" using lane(1) by (simp add: prefix_def)
    ultimately show ?thesis using lane(2) b(4) by simp
  qed
  then show "CHR ''/'' \<notin> set sid" "sid \<noteq> []" "hd sid \<noteq> CHR ''.''" "safe_segment (base_session sid)"
    "sid = base_session sid \<or> prefix (base_session sid @ '':a:'') sid" by blast+
qed

definition valid_key :: "session_key \<Rightarrow> bool" where
  "valid_key k \<longleftrightarrow> safe_segment (sk_userId k) \<and> safe_segment (sk_family k) \<and>
     assertSessionId (sk_sessionId k) = Inr ()"

definition key_path :: "session_key \<Rightarrow> string" where
  "key_path k = sk_userId k @ ''/'' @ sk_family k @ ''/'' @ sk_sessionId k"

lemma sessionPrefix_ok [simp]: "sessionPrefix k = Inr p \<longleftrightarrow> valid_key k \<and> p = key_path k"
  by (auto simp: sessionPrefix_def valid_key_def key_path_def)

lemma sessionPrefix_error [dest]: "sessionPrefix k = Inl e \<Longrightarrow> \<not> valid_key k"
  using sessionPrefix_ok [of k "key_path k"] by auto

lemma canonicalObject_ok [simp]:
  "canonicalObject k = Inr obj \<longleftrightarrow> valid_key k \<and> obj = key_path k @ ''/log.jsonl''"
  by (auto simp: canonicalObject_def split: sum.splits)

lemma stagingObject_ok [simp]:
  "stagingObject k c = Inr obj \<longleftrightarrow>
     valid_key k \<and> safe_segment c \<and> obj = key_path k @ ''/.staging/'' @ c @ ''.jsonl''"
  by (auto simp: stagingObject_def split: sum.splits)

lemma artifactObject_ok [simp]:
  "artifactObject k n = Inr obj \<longleftrightarrow>
     valid_key k \<and> isSessionArtifactName n \<and> obj = key_path k @ ''/'' @ n"
  by (auto simp: artifactObject_def split: sum.splits)

lemma deletePrefixes_ok [simp]:
  "sessionDeletePrefixes k = Inr (p, q) \<longleftrightarrow>
     valid_key k \<and> CHR '':'' \<notin> set (sk_sessionId k) \<and> p = key_path k @ ''/'' \<and> q = key_path k @ '':a:''"
  by (auto simp: sessionDeletePrefixes_def split: sum.splits)

lemma valid_key_no_slash:
  assumes "valid_key k"
  shows "CHR ''/'' \<notin> set (sk_userId k)" "CHR ''/'' \<notin> set (sk_family k)"
    "CHR ''/'' \<notin> set (sk_sessionId k)"
    "sk_userId k \<noteq> []" "sk_family k \<noteq> []" "sk_sessionId k \<noteq> []"
  using assms safe_segment_chars assertSessionId_shape unfolding valid_key_def by blast+

lemma split_key_path:
  "valid_key k \<Longrightarrow> split_on CHR ''/'' (key_path k @ ''/'' @ rest) =
     [sk_userId k, sk_family k, sk_sessionId k] @ split_on CHR ''/'' rest"
  by (simp add: key_path_def split_on_append valid_key_no_slash)

lemma parse_canonical: "valid_key k \<Longrightarrow> parseCanonicalKey (key_path k @ ''/log.jsonl'') = Some k"
  using split_key_path [of k "''log.jsonl''"] valid_key_no_slash [of k]
  by (simp add: parseCanonicalKey_def suffix_def)

lemma parse_canonical_shape:
  assumes "parseCanonicalKey obj = Some k"
  shows "obj = key_path k @ ''/log.jsonl''"
proof -
  from assms have l: "length (split_on CHR ''/'' obj) = 4"
    by (auto simp: parseCanonicalKey_def Let_def split: if_splits)
  then obtain w x y z where ps: "split_on CHR ''/'' obj = [w, x, y, z]"
    by (auto simp: numeral_eq_Suc length_Suc_conv)
  have "obj = join_with ''/'' [w, x, y, z]"
    using join_split_on [of "CHR ''/''" obj] unfolding ps by (rule sym)
  with assms ps show ?thesis
    by (auto simp: parseCanonicalKey_def key_path_def Let_def split: if_splits)
qed

interpretation canonical_keys: codec "\<lambda>k. projr (canonicalObject k)" parseCanonicalKey valid_key
proof
  fix k assume "valid_key k"
  then have "canonicalObject k = Inr (key_path k @ ''/log.jsonl'')" by simp
  then show "parseCanonicalKey (projr (canonicalObject k)) = Some k"
    using parse_canonical [OF \<open>valid_key k\<close>] by (simp del: canonicalObject_ok)
qed

lemma artifact_name_chars:
  assumes "isSessionArtifactName n"
  shows "CHR ''/'' \<notin> set n" and "n \<noteq> []" and "hd n \<noteq> CHR ''.''" and "n \<noteq> ''log.jsonl''"
proof -
  have "CHR ''/'' \<notin> set n \<and> n \<noteq> [] \<and> hd n \<noteq> CHR ''.'' \<and> n \<noteq> ''log.jsonl''"
  proof (cases "n \<in> ARTIFACT_ALLOWLIST")
    case True
    then show ?thesis by (auto simp: ARTIFACT_ALLOWLIST_def)
  next
    case False
    with assms have w: "WORKFLOW_ARTIFACT n" by (simp add: isSessionArtifactName_def)
    then obtain r where n: "n = ''workflow-'' @ r @ ''.json''"
      and r: "list_all (\<lambda>c. ascii_alnum c \<or> c \<in> set ''_-'') r"
      by (auto simp: WORKFLOW_ARTIFACT_def Let_def prefix_def suffix_def)
    have "CHR ''/'' \<notin> set r" using r by (auto simp: list_all_iff)
    with n show ?thesis by auto
  qed
  then show "CHR ''/'' \<notin> set n" "n \<noteq> []" "hd n \<noteq> CHR ''.''" "n \<noteq> ''log.jsonl''" by blast+
qed

text \<open>A path segment that stays where it is, and the names the builders make for one session.\<close>

definition plain_part :: "string \<Rightarrow> bool" where
  "plain_part seg \<longleftrightarrow> seg \<noteq> [] \<and> seg \<noteq> ''.'' \<and> seg \<noteq> ''..''"

lemma plain_partI: "w \<noteq> [] \<Longrightarrow> hd w \<noteq> CHR ''.'' \<Longrightarrow> plain_part w"
  by (auto simp: plain_part_def)

definition built_for :: "session_key \<Rightarrow> string \<Rightarrow> bool" where
  "built_for k obj \<longleftrightarrow> canonicalObject k = Inr obj \<or> (\<exists>c. stagingObject k c = Inr obj) \<or>
     (\<exists>n. artifactObject k n = Inr obj)"

lemma built_for_cases:
  assumes "built_for k obj"
  obtains rest where "valid_key k" and "obj = key_path k @ ''/'' @ rest"
    and "\<forall>seg \<in> set (split_on CHR ''/'' rest). plain_part seg"
proof -
  consider (canonical) "canonicalObject k = Inr obj" | (staging) c where "stagingObject k c = Inr obj"
    | (artifact) n where "artifactObject k n = Inr obj"
    using assms by (auto simp: built_for_def)
  then show thesis
  proof cases
    case canonical
    then show thesis by (intro that [of "''log.jsonl''"]) (auto simp: plain_part_def)
  next
    case staging
    then have c: "CHR ''/'' \<notin> set (c @ ''.jsonl'')" "valid_key k"
      "obj = key_path k @ ''/.staging/'' @ c @ ''.jsonl''"
      using safe_segment_chars by auto
    then show thesis by (intro that [of "''.staging/'' @ c @ ''.jsonl''"]) (auto simp: split_on_no_sep plain_part_def)
  next
    case artifact
    then have n: "isSessionArtifactName n" "valid_key k" "obj = key_path k @ ''/'' @ n" by auto
    then show thesis
      using artifact_name_chars [OF n(1)] by (intro that [of n]) (auto simp: split_on_no_sep plain_part_def)
  qed
qed

lemma base_session_iff:
  assumes "assertSessionId sid = Inr ()" and "CHR '':'' \<notin> set b"
  shows "base_session sid = b \<longleftrightarrow> sid = b \<or> prefix (b @ '':a:'') sid"
proof
  assume "base_session sid = b"
  then show "sid = b \<or> prefix (b @ '':a:'') sid" using assertSessionId_shape(5) [OF assms(1)] by simp
next
  have all: "takeWhile (\<lambda>c. c \<noteq> CHR '':'') b = b" using assms(2) by (auto simp: takeWhile_eq_all_conv)
  assume "sid = b \<or> prefix (b @ '':a:'') sid"
  then show "base_session sid = b"
  proof
    assume "sid = b"
    then show ?thesis using all by (simp add: base_session_def)
  next
    assume "prefix (b @ '':a:'') sid"
    then obtain r where "sid = b @ CHR '':'' # ''a:'' @ r" by (auto simp: prefix_def)
    then show ?thesis using assms(2) all
      by (simp add: base_session_def)
  qed
qed

section \<open>Properties\<close>



text \<open>
  Deleting a session reaches everything it owns and nothing else: an object built for any
  key is under one of the two delete prefixes exactly when it belongs to the same user, the same
  family and the same base session, whether in its own directory or in one of its agent lanes. A
  sibling whose id merely starts with the deleted one is never matched.
\<close>
theorem delete_reaches_exactly_the_session:
  assumes del: "sessionDeletePrefixes k = Inr (p, q)" and obj: "built_for k' obj"
  shows "prefix p obj \<or> prefix q obj \<longleftrightarrow>
    sk_userId k' = sk_userId k \<and> sk_family k' = sk_family k \<and>
    base_session (sk_sessionId k') = sk_sessionId k"
proof -
  from obj obtain rest where k': "valid_key k'" and o: "obj = key_path k' @ ''/'' @ rest"
    by (rule built_for_cases)
  from del have k: "valid_key k" and c: "CHR '':'' \<notin> set (sk_sessionId k)"
    and pq: "p = key_path k @ ''/''" "q = key_path k @ '':a:''" by auto
  note v = valid_key_no_slash [OF k] and v' = valid_key_no_slash [OF k']
  have same: "prefix (key_path k @ x # t) obj \<longleftrightarrow>
      sk_userId k' = sk_userId k \<and> sk_family k' = sk_family k \<and>
      prefix (sk_sessionId k @ x # t) (sk_sessionId k' @ ''/'' @ rest)" for x t
    using v v' unfolding o key_path_def prefix_def
    by (auto simp: sep_append_eq)
  have "prefix (sk_sessionId k @ ''/'') (sk_sessionId k' @ ''/'' @ rest) \<longleftrightarrow>
      sk_sessionId k' = sk_sessionId k"
    using v v' by (auto simp: prefix_def sep_append_eq)
  moreover have "prefix (sk_sessionId k @ '':a:'') (sk_sessionId k' @ ''/'' @ rest) \<longleftrightarrow>
      prefix (sk_sessionId k @ '':a:'') (sk_sessionId k')"
    using v prefix_before_sep [of "CHR ''/''" "sk_sessionId k @ '':a:''" "sk_sessionId k'" rest] by auto
  moreover have "base_session (sk_sessionId k') = sk_sessionId k \<longleftrightarrow>
      sk_sessionId k' = sk_sessionId k \<or> prefix (sk_sessionId k @ '':a:'') (sk_sessionId k')"
    by (rule base_session_iff) (use k' c in \<open>auto simp: valid_key_def\<close>)
  ultimately show ?thesis using same [of "CHR ''/''" "[]"] same [of "CHR '':''" "''a:''"] pq by auto
qed

lemma delete_reaches_exactly_the_session_witness:
  "\<not> (prefix ''u1/claude/s1/'' ''u1/claude/s12/log.jsonl'' \<or> prefix ''u1/claude/s1:a:'' ''u1/claude/s12/log.jsonl'')"
proof -
  let ?k = "\<lparr>sk_userId = ''u1'', sk_family = ''claude'', sk_sessionId = ''s1''\<rparr>"
  let ?k' = "\<lparr>sk_userId = ''u1'', sk_family = ''claude'', sk_sessionId = ''s12''\<rparr>"
  have del: "sessionDeletePrefixes ?k = Inr (''u1/claude/s1/'', ''u1/claude/s1:a:'')" by code_simp
  have "canonicalObject ?k' = Inr ''u1/claude/s12/log.jsonl''" by code_simp
  then have obj: "built_for ?k' ''u1/claude/s12/log.jsonl''" unfolding built_for_def by blast
  have "base_session (sk_sessionId ?k') \<noteq> sk_sessionId ?k" by (simp add: base_session_def)
  then show ?thesis
    using delete_reaches_exactly_the_session [OF del obj] by blast
qed

text \<open>
  No built name escapes its owner: every path segment is non-empty and is neither \<open>.\<close> nor
  \<open>..\<close>, and the name is in the listing of a user exactly when that user owns the key. This holds
  for every key, chunk id and sidecar name a caller can pass, since the builders reject the rest.
\<close>
theorem built_names_stay_with_their_owner:
  assumes obj: "built_for k obj" and u: "listPrefix u = Inr lp"
  shows "(\<forall>seg \<in> set (split_on CHR ''/'' obj). plain_part seg) \<and>
    (prefix lp obj \<longleftrightarrow> u = sk_userId k)"
proof -
  from obj obtain rest where k: "valid_key k" and o: "obj = key_path k @ ''/'' @ rest"
    and r: "\<forall>seg \<in> set (split_on CHR ''/'' rest). plain_part seg"
    by (rule built_for_cases)
  from u have us: "safe_segment u" and lp: "lp = u @ ''/''" by (auto simp: listPrefix_def)
  have sid: "assertSessionId (sk_sessionId k) = Inr ()" using k by (simp add: valid_key_def)
  have "plain_part (sk_userId k)" "plain_part (sk_family k)" "plain_part (sk_sessionId k)"
    using k valid_key_no_slash [OF k] safe_segment_chars(4) assertSessionId_shape(3) [OF sid]
    by (auto simp: valid_key_def intro!: plain_partI)
  then have "\<forall>seg \<in> set (split_on CHR ''/'' obj). plain_part seg"
    unfolding o split_key_path [OF k] using r by simp
  moreover have "prefix lp obj \<longleftrightarrow> u = sk_userId k"
    unfolding o lp key_path_def prefix_def
    using safe_segment_chars(1) [OF us] valid_key_no_slash(1) [OF k] by (auto simp: sep_append_eq)
  ultimately show ?thesis by blast
qed

lemma built_names_stay_with_their_owner_witness:
  "\<not> prefix ''u/'' ''u1/claude/s1/.staging/c9.jsonl''"
proof -
  let ?k = "\<lparr>sk_userId = ''u1'', sk_family = ''claude'', sk_sessionId = ''s1''\<rparr>"
  have "stagingObject ?k ''c9'' = Inr ''u1/claude/s1/.staging/c9.jsonl''" by code_simp
  then have obj: "built_for ?k ''u1/claude/s1/.staging/c9.jsonl''" unfolding built_for_def by blast
  have u: "listPrefix ''u'' = Inr ''u/''" by code_simp
  show ?thesis using built_names_stay_with_their_owner [OF obj u] by simp
qed

text \<open>
  The sidecars a listing of a session reports are exactly the names its write door would
  accept, each once, in code-unit order: neither the canonical log nor a staging chunk is taken
  for a sidecar, and no per-run workflow artifact is left behind.
\<close>
theorem listed_sidecars_are_the_writable_ones:
  assumes "sessionPrefix k = Inr p"
  shows "set (sessionArtifactNames objs (p @ ''/'')) = {n. \<exists>obj \<in> set objs. artifactObject k n = Inr obj} \<and>
    sorted (sessionArtifactNames objs (p @ ''/'')) \<and> distinct (sessionArtifactNames objs (p @ ''/'')) \<and>
    ''log.jsonl'' \<notin> set (sessionArtifactNames objs (p @ ''/''))"
proof -
  from assms have k: "valid_key k" and p: "p = key_path k" by simp_all
  have "set (sessionArtifactNames objs (p @ ''/'')) = {n. \<exists>obj \<in> set objs. artifactObject k n = Inr obj}"
    using k p drop_prefix_image [of "p @ ''/''" "set objs"]
    by (auto simp: sessionArtifactNames_def)
  moreover have "\<not> isSessionArtifactName ''log.jsonl''" using artifact_name_chars(4) by blast
  ultimately show ?thesis by (auto simp: sessionArtifactNames_def)
qed

lemma listed_sidecars_are_the_writable_ones_witness:
  "''workflow-r123.json'' \<in> set (sessionArtifactNames [''u1/claude/s1/log.jsonl'', ''u1/claude/s1/workflow-r123.json'']
     ''u1/claude/s1/'')"
proof -
  let ?k = "\<lparr>sk_userId = ''u1'', sk_family = ''claude'', sk_sessionId = ''s1''\<rparr>"
  have p: "sessionPrefix ?k = Inr ''u1/claude/s1''" by code_simp
  have a: "artifactObject ?k ''workflow-r123.json'' = Inr ''u1/claude/s1/workflow-r123.json''" by code_simp
  show ?thesis
    using listed_sidecars_are_the_writable_ones [OF p, of "[''u1/claude/s1/log.jsonl'', ''u1/claude/s1/workflow-r123.json'']"] a
    by (auto simp del: artifactObject_ok)
qed

end
