(* ===== verification/Session_Metadata.thy ===== *)
theory Session_Metadata
  imports Store_Keys
begin

text \<open>
  The session sidecar (\<open>src/modules/session-vault/store/session-metadata.ts\<close>): how an untyped
  \<open>session.json\<close> is read, how a listing makes up a row from a canonical object's name, and how a
  sidecar parked during a pause is merged with what the bucket holds when it is replayed.
  \<open>Date.parse\<close> is the parameter \<open>dateParse\<close> (\<open>None\<close> for NaN): beyond the ISO format its answer is up to the
  engine, so the merge is shown right for every such function. The lemmas show that a replay
  never rewinds the bucket, that replaying twice is replaying once, and that the two readers of
  canonical names agree.
\<close>

datatype title_source = TitleUser | TitleAi | TitleFallback

record session_metadata =
  family :: string
  sessionId :: string
  title :: "string option"
  titleSource :: "title_source option"
  bytesUploaded :: rat
  eventCount :: rat
  userTextCount :: rat
  assistantCount :: rat
  lastActivityAt :: "string option"
  firstSeenAt :: string
  updatedAt :: string
  cwd :: "string option"
  gitBranch :: "string option"
  sourcePath :: "string option"
  repoSlug :: "string option"
  deviceName :: "string option"

section \<open>Reading a sidecar\<close>

definition stringOrNull :: "js_value \<Rightarrow> string option" where
  "stringOrNull v = js_string v"

fun numberOrZero :: "js_value \<Rightarrow> rat" where
  "numberOrZero (Number (Some n)) = n"
| "numberOrZero _ = 0"

definition title_source_of :: "js_value \<Rightarrow> title_source option" where
  "title_source_of v =
     (if v = Str ''user'' then Some TitleUser else if v = Str ''ai'' then Some TitleAi
      else if v = Str ''fallback'' then Some TitleFallback else None)"

fun parseSessionMetadata :: "js_value \<Rightarrow> session_metadata option" where
  "parseSessionMetadata (Obj row) =
     (case (js_string (js_field row ''family''), js_string (js_field row ''sessionId''),
            js_string (js_field row ''firstSeenAt''), js_string (js_field row ''updatedAt'')) of
        (Some f, Some s, Some fs, Some u) \<Rightarrow>
          Some \<lparr>family = f, sessionId = s,
            title = stringOrNull (js_field row ''title''),
            titleSource = title_source_of (js_field row ''titleSource''),
            bytesUploaded = numberOrZero (js_field row ''bytesUploaded''),
            eventCount = numberOrZero (js_field row ''eventCount''),
            userTextCount = numberOrZero (js_field row ''userTextCount''),
            assistantCount = numberOrZero (js_field row ''assistantCount''),
            lastActivityAt = stringOrNull (js_field row ''lastActivityAt''),
            firstSeenAt = fs, updatedAt = u,
            cwd = stringOrNull (js_field row ''cwd''),
            gitBranch = stringOrNull (js_field row ''gitBranch''),
            sourcePath = stringOrNull (js_field row ''sourcePath''),
            repoSlug = stringOrNull (js_field row ''repoSlug''),
            deviceName = stringOrNull (js_field row ''deviceName'')\<rparr>
      | _ \<Rightarrow> None)"
| "parseSessionMetadata _ = None"

definition stripListTitle :: "session_metadata list \<Rightarrow> session_metadata list" where
  "stripListTitle sessions =
     map (\<lambda>s. if title s = None \<and> titleSource s = None then s
              else s\<lparr>title := None, titleSource := None\<rparr>) sessions"

definition metadataFromCanonicalObjectName ::
  "string \<Rightarrow> string \<Rightarrow> rat \<Rightarrow> string \<Rightarrow> session_metadata option" where
  "metadataFromCanonicalObjectName userId objectName bytes updated =
     (let pre = userId @ ''/'' in
      if \<not> prefix pre objectName \<or> \<not> suffix ''/log.jsonl'' objectName then None
      else let parts = split_on CHR ''/'' (drop (length pre) objectName) in
        if length parts \<noteq> 3 \<or> parts ! 2 \<noteq> ''log.jsonl'' then None
        else if parts ! 0 = [] \<or> parts ! 1 = [] then None
        else Some \<lparr>family = parts ! 0, sessionId = parts ! 1, title = None, titleSource = None,
          bytesUploaded = bytes, eventCount = 0, userTextCount = 0, assistantCount = 0,
          lastActivityAt = Some updated, firstSeenAt = updated, updatedAt = updated,
          cwd = None, gitBranch = None, sourcePath = None, repoSlug = None, deviceName = None\<rparr>)"

section \<open>Replaying a parked sidecar\<close>

text \<open>\<open>ta >= tb\<close> with NaN handled by the guards before it.\<close>

definition laterIso ::
  "(string \<Rightarrow> ms option) \<Rightarrow> string option \<Rightarrow> string option \<Rightarrow> string option" where
  "laterIso dateParse a b =
     (if absent a then b else if absent b then a
      else case dateParse (the b) of None \<Rightarrow> a
        | Some tb \<Rightarrow> (case dateParse (the a) of None \<Rightarrow> b | Some ta \<Rightarrow> if tb \<le> ta then a else b))"

definition earlierIso :: "(string \<Rightarrow> ms option) \<Rightarrow> string \<Rightarrow> string \<Rightarrow> string" where
  "earlierIso dateParse a b =
     (case dateParse b of None \<Rightarrow> a
      | Some tb \<Rightarrow> (case dateParse a of None \<Rightarrow> b | Some ta \<Rightarrow> if ta \<le> tb then a else b))"

definition incomingIsNewer :: "(string \<Rightarrow> ms option) \<Rightarrow> session_metadata \<Rightarrow> session_metadata \<Rightarrow> bool" where
  "incomingIsNewer dateParse cur inc =
     (case dateParse (updatedAt cur) of None \<Rightarrow> True
      | Some c \<Rightarrow> (case dateParse (updatedAt inc) of None \<Rightarrow> False | Some i \<Rightarrow> c < i))"

definition preferNewer :: "bool \<Rightarrow> string option \<Rightarrow> string option \<Rightarrow> string option" where
  "preferNewer newer fromIncoming fromCurrent =
     (if newer then or_else fromIncoming fromCurrent else or_else fromCurrent fromIncoming)"

definition title_side :: "bool \<Rightarrow> session_metadata \<Rightarrow> session_metadata \<Rightarrow> session_metadata" where
  "title_side newer cur inc =
     (let first = (if newer then inc else cur); second = (if newer then cur else inc) in
      if title first = None \<or> titleSource first = None \<and> title first = title second then second
      else first)"

definition mergeReplayedMetadata ::
  "(string \<Rightarrow> ms option) \<Rightarrow> session_metadata option \<Rightarrow> session_metadata \<Rightarrow> bool \<Rightarrow> session_metadata" where
  "mergeReplayedMetadata dateParse current inc replace =
     (case current of None \<Rightarrow> inc
      | Some cur \<Rightarrow>
        let newer = incomingIsNewer dateParse cur inc in
        if replace \<and> newer then inc
        else \<lparr>family = family inc, sessionId = sessionId inc,
          title = title (title_side newer cur inc),
          titleSource = (if title (title_side newer cur inc) = None then None
            else titleSource (title_side newer cur inc)),
          bytesUploaded = max (bytesUploaded inc) (bytesUploaded cur),
          eventCount = max (eventCount inc) (eventCount cur),
          userTextCount = max (userTextCount inc) (userTextCount cur),
          assistantCount = max (assistantCount inc) (assistantCount cur),
          lastActivityAt = laterIso dateParse (lastActivityAt inc) (lastActivityAt cur),
          firstSeenAt = earlierIso dateParse (firstSeenAt inc) (firstSeenAt cur),
          updatedAt = (case laterIso dateParse (Some (updatedAt inc)) (Some (updatedAt cur)) of
            None \<Rightarrow> updatedAt inc | Some u \<Rightarrow> u),
          cwd = preferNewer newer (cwd inc) (cwd cur),
          gitBranch = preferNewer newer (gitBranch inc) (gitBranch cur),
          sourcePath = preferNewer newer (sourcePath inc) (sourcePath cur),
          repoSlug = preferNewer newer (repoSlug inc) (repoSlug cur),
          deviceName = preferNewer newer (deviceName inc) (deviceName cur)\<rparr>)"

section \<open>Properties\<close>

text \<open>The later composition's title pair survives the merge.\<close>

lemma title_side_keeps_older:
  "title cur \<noteq> None \<Longrightarrow> title (title_side False cur inc) = title cur"
  by (auto simp: title_side_def Let_def)

lemma preferNewer_False [simp]: "a \<noteq> None \<Longrightarrow> preferNewer False b a = a"
  by (auto simp: preferNewer_def)

text \<open>
  A replay never rewinds the bucket. When the sidecar in the bucket carries a readable stamp and
  the parked one is not strictly newer, then, replace or not, every descriptive field and the title the
  bucket holds are kept, no counter decreases, the stamp stays the bucket's, and the first-seen
  stamp does not move forward.
\<close>
theorem replay_never_rewinds:
  assumes c: "dateParse (updatedAt cur) = Some tc"
    and i: "\<forall>ti. dateParse (updatedAt inc) = Some ti \<longrightarrow> ti \<le> tc"
    and ne: "updatedAt cur \<noteq> ''''"
  shows "let m = mergeReplayedMetadata dateParse (Some cur) inc r in
    (title cur \<noteq> None \<longrightarrow> title m = title cur) \<and>
    (cwd cur \<noteq> None \<longrightarrow> cwd m = cwd cur) \<and> (gitBranch cur \<noteq> None \<longrightarrow> gitBranch m = gitBranch cur) \<and>
    (sourcePath cur \<noteq> None \<longrightarrow> sourcePath m = sourcePath cur) \<and>
    (repoSlug cur \<noteq> None \<longrightarrow> repoSlug m = repoSlug cur) \<and>
    (deviceName cur \<noteq> None \<longrightarrow> deviceName m = deviceName cur) \<and>
    bytesUploaded cur \<le> bytesUploaded m \<and> eventCount cur \<le> eventCount m \<and>
    userTextCount cur \<le> userTextCount m \<and> assistantCount cur \<le> assistantCount m \<and>
    dateParse (updatedAt m) = Some tc \<and>
    (\<forall>fc. dateParse (firstSeenAt cur) = Some fc \<longrightarrow>
      (\<exists>fm. dateParse (firstSeenAt m) = Some fm \<and> fm \<le> fc))"
proof -
  have newer: "incomingIsNewer dateParse cur inc = False"
    using c i by (auto simp: incomingIsNewer_def not_less split: option.splits)
  have up: "dateParse (case laterIso dateParse (Some (updatedAt inc)) (Some (updatedAt cur)) of
      None \<Rightarrow> updatedAt inc | Some u \<Rightarrow> u) = Some tc"
    using c i ne by (auto simp: laterIso_def split: option.splits)
  have fs: "\<forall>fc. dateParse (firstSeenAt cur) = Some fc \<longrightarrow>
      (\<exists>fm. dateParse (earlierIso dateParse (firstSeenAt inc) (firstSeenAt cur)) = Some fm \<and> fm \<le> fc)"
    by (auto simp: earlierIso_def split: option.splits)
  show ?thesis
    using up fs
    by (simp add: mergeReplayedMetadata_def Let_def newer title_side_keeps_older)
qed

lemma replay_never_rewinds_witness:
  "let cur = \<lparr>family = ''claude'', sessionId = ''s1'', title = Some ''new'', titleSource = Some TitleUser,
       bytesUploaded = 900, eventCount = 9, userTextCount = 3, assistantCount = 6, lastActivityAt = None,
       firstSeenAt = ''10'', updatedAt = ''90'', cwd = Some ''/b'', gitBranch = None, sourcePath = None,
       repoSlug = None, deviceName = None\<rparr>;
     inc = cur\<lparr>title := Some ''old'', bytesUploaded := 400, updatedAt := ''40'', cwd := Some ''/a''\<rparr>;
     m = mergeReplayedMetadata (\<lambda>s. Some (int (read_nat s))) (Some cur) inc True
   in title m = Some ''new'' \<and> cwd m = Some ''/b'' \<and> 900 \<le> bytesUploaded m"
proof -
  let ?cur = "\<lparr>family = ''claude'', sessionId = ''s1'', title = Some ''new'', titleSource = Some TitleUser,
       bytesUploaded = 900, eventCount = 9, userTextCount = 3, assistantCount = 6, lastActivityAt = None,
       firstSeenAt = ''10'', updatedAt = ''90'', cwd = Some ''/b'', gitBranch = None, sourcePath = None,
       repoSlug = None, deviceName = None\<rparr>"
  let ?inc = "?cur\<lparr>title := Some ''old'', bytesUploaded := 400, updatedAt := ''40'', cwd := Some ''/a''\<rparr>"
  let ?parse = "\<lambda>s. Some (int (read_nat s))"
  have "?parse (updatedAt ?cur) = Some 90"
    "\<forall>ti. ?parse (updatedAt ?inc) = Some ti \<longrightarrow> ti \<le> 90" "updatedAt ?cur \<noteq> ''''"
    by (simp_all add: read_nat_def read_digit_def)
  from replay_never_rewinds [where dateParse = ?parse, OF this, of True] show ?thesis
    unfolding Let_def by simp
qed

lemma laterIso_idem [simp]: "laterIso p a (laterIso p a b) = laterIso p a b"
  by (auto simp: laterIso_def split: option.splits)

lemma earlierIso_idem [simp]: "earlierIso p a (earlierIso p a b) = earlierIso p a b"
  by (auto simp: earlierIso_def split: option.splits)

lemma preferNewer_idem:
  "n' = n \<or> \<not> n' \<Longrightarrow> preferNewer n' a (preferNewer n a b) = preferNewer n a b"
  by (auto simp: preferNewer_def or_else_def split: option.splits)

lemma title_side_idem:
  assumes n: "n' = n \<or> \<not> n'" and t: "title m = title (title_side n cur inc)"
    and s: "titleSource m = (if title (title_side n cur inc) = None then None
          else titleSource (title_side n cur inc))"
  shows "title (title_side n' m inc) = title m"
    and "title m \<noteq> None \<Longrightarrow> titleSource (title_side n' m inc) = titleSource m"
proof -
  have "title (title_side n' m inc) = title m \<and>
    (title m \<noteq> None \<longrightarrow> titleSource (title_side n' m inc) = titleSource m)"
    using n t s unfolding title_side_def Let_def
    by (cases n; cases n'; cases "title inc"; cases "title cur"; cases "titleSource inc";
        cases "titleSource cur") (simp_all split: if_split_asm)
  then show "title (title_side n' m inc) = title m"
    and "title m \<noteq> None \<Longrightarrow> titleSource (title_side n' m inc) = titleSource m" by blast+
qed

definition merged_stamp :: "(string \<Rightarrow> ms option) \<Rightarrow> string \<Rightarrow> string \<Rightarrow> string" where
  "merged_stamp p i c = (case laterIso p (Some i) (Some c) of None \<Rightarrow> i | Some u \<Rightarrow> u)"

lemma merged_stamp_idem [simp]: "merged_stamp p i (merged_stamp p i c) = merged_stamp p i c"
  by (auto simp: merged_stamp_def laterIso_def split: option.splits)

definition newer_stamp :: "(string \<Rightarrow> ms option) \<Rightarrow> string \<Rightarrow> string \<Rightarrow> bool" where
  "newer_stamp p c i = (case p c of None \<Rightarrow> True
     | Some tc \<Rightarrow> (case p i of None \<Rightarrow> False | Some ti \<Rightarrow> tc < ti))"

lemma incomingIsNewer_stamp: "incomingIsNewer p cur inc = newer_stamp p (updatedAt cur) (updatedAt inc)"
  by (simp add: incomingIsNewer_def newer_stamp_def)

lemma newer_after_merge:
  assumes "p '''' = None" and "newer_stamp p (merged_stamp p i c) i"
  shows "newer_stamp p c i"
  using assms
  by (cases "p c"; cases "p i"; cases "i = []"; cases "c = []")
    (simp_all add: newer_stamp_def merged_stamp_def laterIso_def split: if_splits)

text \<open>
  Replaying a parked sidecar twice leaves what replaying it once left, so a replay interrupted
  after the write and started over does no harm. It needs of \<open>Date.parse\<close> only that the empty
  string is not a date, and of the parked sidecar only that it does not claim a source for a title it
  does not have.
\<close>
theorem replay_is_idempotent:
  assumes p: "dateParse '''' = None"
    and wf: "title inc = None \<longrightarrow> titleSource inc = None"
  shows "let m = mergeReplayedMetadata dateParse cur inc r in
    mergeReplayedMetadata dateParse (Some m) inc r = m"
proof -
  have self: "mergeReplayedMetadata dateParse (Some inc) inc r = inc"
    using wf by (cases inc)
      (auto simp: mergeReplayedMetadata_def Let_def laterIso_def earlierIso_def preferNewer_def
        title_side_def or_else_def split: option.splits)
  show ?thesis
  proof (cases cur)
    case None
    then show ?thesis using self by (simp add: mergeReplayedMetadata_def)
  next
    case (Some c)
    let ?n = "incomingIsNewer dateParse c inc"
    show ?thesis
    proof (cases "r \<and> ?n")
      case True
      then have "mergeReplayedMetadata dateParse cur inc r = inc"
        by (simp add: mergeReplayedMetadata_def Some)
      with self show ?thesis by simp
    next
      case False
      define m where "m = mergeReplayedMetadata dateParse cur inc r"
      have m: "m = mergeReplayedMetadata dateParse (Some c) inc r" by (simp add: m_def Some)
      note now = mergeReplayedMetadata_def Let_def merged_stamp_def [symmetric]
      have u: "updatedAt m = merged_stamp dateParse (updatedAt inc) (updatedAt c)"
        using False by (auto simp: m now)
      have n: "incomingIsNewer dateParse m inc = ?n \<or> \<not> incomingIsNewer dateParse m inc"
        using newer_after_merge [of dateParse, OF p] by (auto simp: incomingIsNewer_stamp u)
      with False have f: "\<not> (r \<and> incomingIsNewer dateParse m inc)" by blast
      have t: "title m = title (title_side ?n c inc)"
        "titleSource m = (if title (title_side ?n c inc) = None then None
          else titleSource (title_side ?n c inc))"
        using False by (auto simp: m now)
      have d: "cwd m = preferNewer ?n (cwd inc) (cwd c)" "gitBranch m = preferNewer ?n (gitBranch inc) (gitBranch c)"
        "sourcePath m = preferNewer ?n (sourcePath inc) (sourcePath c)"
        "repoSlug m = preferNewer ?n (repoSlug inc) (repoSlug c)"
        "deviceName m = preferNewer ?n (deviceName inc) (deviceName c)"
        "family m = family inc" "sessionId m = sessionId inc"
        "lastActivityAt m = laterIso dateParse (lastActivityAt inc) (lastActivityAt c)"
        "firstSeenAt m = earlierIso dateParse (firstSeenAt inc) (firstSeenAt c)"
        "bytesUploaded inc \<le> bytesUploaded m" "eventCount inc \<le> eventCount m"
        "userTextCount inc \<le> userTextCount m" "assistantCount inc \<le> assistantCount m"
        "more m = ()"
        using False by (auto simp: m now)
      have src: "titleSource m = None" if "title m = None" using t that by simp
      have "mergeReplayedMetadata dateParse (Some m) inc r = m"
        by (rule session_metadata.equality)
          (simp_all add: now d u if_not_P [OF f] title_side_idem [OF n t] src preferNewer_idem [OF n] max_absorb2)
      then show ?thesis by (simp add: m_def Let_def)
    qed
  qed
qed

lemma replay_is_idempotent_witness:
  "let inc = \<lparr>family = ''claude'', sessionId = ''s1'', title = Some ''t'', titleSource = None,
       bytesUploaded = 900, eventCount = 9, userTextCount = 3, assistantCount = 6, lastActivityAt = None,
       firstSeenAt = ''10'', updatedAt = ''90'', cwd = None, gitBranch = None, sourcePath = None,
       repoSlug = None, deviceName = None\<rparr>;
     cur = inc\<lparr>titleSource := Some TitleUser, updatedAt := ''40'', eventCount := 12\<rparr>;
     parse = (\<lambda>s. if s = '''' then None else Some (int (read_nat s)));
     m = mergeReplayedMetadata parse (Some cur) inc False
   in mergeReplayedMetadata parse (Some m) inc False = m"
proof -
  let ?inc = "\<lparr>family = ''claude'', sessionId = ''s1'', title = Some ''t'', titleSource = None,
       bytesUploaded = 900, eventCount = 9, userTextCount = 3, assistantCount = 6, lastActivityAt = None,
       firstSeenAt = ''10'', updatedAt = ''90'', cwd = None, gitBranch = None, sourcePath = None,
       repoSlug = None, deviceName = None\<rparr>"
  let ?cur = "?inc\<lparr>titleSource := Some TitleUser, updatedAt := ''40'', eventCount := 12\<rparr>"
  let ?parse = "\<lambda>s. if s = '''' then None else Some (int (read_nat s))"
  have "?parse '''' = None" "title ?inc = None \<longrightarrow> titleSource ?inc = None" by simp_all
  from replay_is_idempotent [where dateParse = ?parse, OF this, of "Some ?cur" False] show ?thesis
    unfolding Let_def by blast
qed

text \<open>
  The two readers of a bucket agree. The listing of one user makes a row from an object's name
  exactly when the whole-bucket scan reads the name as a canonical log of that user, with the same
  family and session id; the row claims no title and no counts, and takes its size and stamps
  from the object.
\<close>
theorem listing_agrees_with_bucket_scan:
  assumes u: "userId \<noteq> ''''" "CHR ''/'' \<notin> set userId"
  shows "(case metadataFromCanonicalObjectName userId obj bytes at_iso of
      None \<Rightarrow> \<not> (\<exists>k. parseCanonicalKey obj = Some k \<and> sk_userId k = userId)
    | Some m \<Rightarrow> parseCanonicalKey obj =
          Some \<lparr>sk_userId = userId, sk_family = family m, sk_sessionId = sessionId m\<rparr> \<and>
        title m = None \<and> eventCount m = 0 \<and> bytesUploaded m = bytes \<and> updatedAt m = at_iso)"
proof (cases "prefix (userId @ ''/'') obj")
  case True
  then obtain r where o: "obj = userId @ CHR ''/'' # r" by (auto simp: prefix_def)
  have sp: "split_on CHR ''/'' obj = userId # split_on CHR ''/'' r"
    unfolding o by (rule split_on_append [OF u(2)])
  show ?thesis
    unfolding metadataFromCanonicalObjectName_def parseCanonicalKey_def Let_def sp
    using True u(1) by (simp add: o)
next
  case False
  then have none: "metadataFromCanonicalObjectName userId obj bytes at_iso = None"
    by (simp add: metadataFromCanonicalObjectName_def)
  have "\<not> (\<exists>k. parseCanonicalKey obj = Some k \<and> sk_userId k = userId)"
    using False parse_canonical_shape [of obj] by (auto simp: key_path_def)
  with none show ?thesis by simp
qed

lemma listing_agrees_with_bucket_scan_witness:
  "\<exists>m. metadataFromCanonicalObjectName ''u1'' ''u1/claude/s1/log.jsonl'' 12 ''t'' = Some m \<and> bytesUploaded m = 12"
proof -
  have u: "''u1'' \<noteq> ''''" "CHR ''/'' \<notin> set ''u1''" by simp_all
  have "parseCanonicalKey ''u1/claude/s1/log.jsonl'' =
      Some \<lparr>sk_userId = ''u1'', sk_family = ''claude'', sk_sessionId = ''s1''\<rparr>" by code_simp
  with listing_agrees_with_bucket_scan [OF u, of "''u1/claude/s1/log.jsonl''" 12 "''t''"]
  show ?thesis by (auto split: option.splits)
qed

end
