(* ===== verification/Pause_Gate.thy ===== *)
theory Pause_Gate
  imports Session_Store
begin

text \<open>
  The write pause: the clamp on a pause episode and the daemon's cached view of it
  (\<open>src/console/ingest-control.ts\<close>), the in-flight and signature accounting, the store decorator
  that refuses bucket writes while paused, and the barrier that waits for quiet
  (\<open>src/console/pause-gate.ts\<close>).
\<close>

section \<open>The clamp\<close>

definition PAUSE_CAP_MS :: ms where
  "PAUSE_CAP_MS = 15 * 60 * 1000"

record ingest_control_row =
  ic_pausedUntil :: ms
  ic_resumedAt :: "ms option"
  ic_rowWrittenAt :: ms

record effective_pause =
  ep_pausedUntil :: "ms option"
  ep_capped :: bool

definition OPEN :: effective_pause where
  "OPEN = \<lparr>ep_pausedUntil = None, ep_capped = False\<rparr>"

definition effectivePause ::
    "ingest_control_row option \<Rightarrow> ms option \<Rightarrow> ms \<Rightarrow> effective_pause" where
  "effectivePause row firstObservedAt now =
     (case row of
        None \<Rightarrow> OPEN
      | Some r \<Rightarrow>
          if ic_resumedAt r \<noteq> None then OPEN
          else
            let anchor = (case firstObservedAt of None \<Rightarrow> now | Some t \<Rightarrow> t);
                effective = min (ic_pausedUntil r)
                  (min (ic_rowWrittenAt r + PAUSE_CAP_MS) (anchor + PAUSE_CAP_MS));
                capped = effective < ic_pausedUntil r
            in if effective \<le> now then \<lparr>ep_pausedUntil = None, ep_capped = capped\<rparr>
               else \<lparr>ep_pausedUntil = Some effective, ep_capped = capped\<rparr>)"

section \<open>The cached view\<close>

record pause_state =
  ps_effective :: effective_pause
  ps_lastRefreshFailed :: bool

definition new_pause_state :: pause_state where
  "new_pause_state = \<lparr>ps_effective = OPEN, ps_lastRefreshFailed = False\<rparr>"

definition observe :: "effective_pause \<Rightarrow> pause_state \<Rightarrow> pause_state" where
  "observe p s = s\<lparr>ps_effective := p, ps_lastRefreshFailed := False\<rparr>"

definition observeUnavailable :: "pause_state \<Rightarrow> pause_state" where
  "observeUnavailable s = s\<lparr>ps_lastRefreshFailed := True\<rparr>"

definition pausedUntil :: "pause_state \<Rightarrow> ms \<Rightarrow> ms option" where
  "pausedUntil s now =
     (case ep_pausedUntil (ps_effective s) of
        None \<Rightarrow> None
      | Some until \<Rightarrow> if until \<le> now then None else Some until)"

definition isPaused :: "pause_state \<Rightarrow> ms \<Rightarrow> bool" where
  "isPaused s now \<longleftrightarrow> pausedUntil s now \<noteq> None"

section \<open>In-flight accounting\<close>

record ingest_quiesce =
  q_inFlight :: nat
  q_signatureFloorMs :: ms

definition new_quiesce :: ingest_quiesce where
  "new_quiesce = \<lparr>q_inFlight = 0, q_signatureFloorMs = 0\<rparr>"

definition enter :: "ingest_quiesce \<Rightarrow> ingest_quiesce" where
  "enter q = q\<lparr>q_inFlight := q_inFlight q + 1\<rparr>"

definition leave :: "ingest_quiesce \<Rightarrow> ingest_quiesce" where
  "leave q = (if q_inFlight q > 0 then q\<lparr>q_inFlight := q_inFlight q - 1\<rparr> else q)"

text \<open>\<open>None\<close> is an expiry that is not a finite number.\<close>

definition noteSignature :: "ms option \<Rightarrow> ingest_quiesce \<Rightarrow> ingest_quiesce" where
  "noteSignature expiresAt q =
     (case expiresAt of
        None \<Rightarrow> q
      | Some t \<Rightarrow> if t > q_signatureFloorMs q then q\<lparr>q_signatureFloorMs := t\<rparr> else q)"

definition isQuiesced :: "ingest_quiesce \<Rightarrow> ms \<Rightarrow> bool" where
  "isQuiesced q now \<longleftrightarrow> q_inFlight q = 0 \<and> now \<ge> q_signatureFloorMs q"

section \<open>Which calls are gated\<close>

definition GATED_METHODS :: "string list" where
  "GATED_METHODS =
     [''signStagingUpload'', ''appendChunkToCanonical'', ''writeCanonicalText'', ''writeArtifact'',
      ''deleteSession'', ''selfTest'']"

definition isGatedStoreMethod :: "string \<Rightarrow> bool" where
  "isGatedStoreMethod m \<longleftrightarrow> m \<in> set GATED_METHODS"

definition ARMED_PRESIGN_TTL_S :: int where
  "ARMED_PRESIGN_TTL_S = 60"

definition PAUSED_WIRE_PREFIX :: string where
  "PAUSED_WIRE_PREFIX = ''vault_offline:ingest_paused:''"

text \<open>The message an error carries on the wire; \<open>toISO\<close> is \<open>Date.toISOString\<close>.\<close>

fun error_message :: "(ms \<Rightarrow> string) \<Rightarrow> store_error \<Rightarrow> string" where
  "error_message toISO (IngestPaused until) = PAUSED_WIRE_PREFIX @ toISO until"
| "error_message toISO (StoreDeadline m t) =
     ''store_deadline_exceeded: '' @ m @ '' after '' @ show_nat t @ ''ms''"
| "error_message toISO (BackendError msg) = msg"

definition RETRYABLE_INGEST_ERRORS :: "string list" where
  "RETRYABLE_INGEST_ERRORS =
     [PAUSED_WIRE_PREFIX, ''vault_offline'', ''postgres_not_ready'', ''store_deadline_exceeded'']"

definition isRetryableIngestError :: "string \<Rightarrow> bool" where
  "isRetryableIngestError message \<longleftrightarrow> list_ex (\<lambda>p. prefix p message) RETRYABLE_INGEST_ERRORS"

section \<open>The store decorator\<close>

record 'b gated_store =
  g_inner :: 'b
  g_pause :: pause_state
  g_quiesce :: ingest_quiesce
  g_refused :: nat

definition assertWritable :: "ms \<Rightarrow> 'b gated_store \<Rightarrow> (store_error + unit) \<times> 'b gated_store" where
  "assertWritable now s =
     (case pausedUntil (g_pause s) now of
        None \<Rightarrow> (Inr (), s)
      | Some until \<Rightarrow> (Inl (IngestPaused until), s\<lparr>g_refused := g_refused s + 1\<rparr>))"

text \<open>
  \<open>track\<close>: one unit of work inside the counter, left again whether it succeeds or throws. The work
  runs on the inner store only.
\<close>

definition track ::
    "('b \<Rightarrow> (store_error + store_reply) \<times> 'b) \<Rightarrow> 'b gated_store
      \<Rightarrow> (store_error + store_reply) \<times> 'b gated_store" where
  "track f s =
     (let s1 = s\<lparr>g_quiesce := enter (g_quiesce s)\<rparr>; (r, b) = f (g_inner s1)
      in (r, s1\<lparr>g_inner := b, g_quiesce := leave (g_quiesce s1)\<rparr>))"

definition gated ::
    "ms \<Rightarrow> ('b \<Rightarrow> (store_error + store_reply) \<times> 'b) \<Rightarrow> 'b gated_store
      \<Rightarrow> (store_error + store_reply) \<times> 'b gated_store" where
  "gated now f s =
     (case assertWritable now s of (Inl e, s1) \<Rightarrow> (Inl e, s1) | (Inr _, s1) \<Rightarrow> track f s1)"

definition ungated ::
    "('b \<Rightarrow> (store_error + store_reply) \<times> 'b) \<Rightarrow> 'b gated_store
      \<Rightarrow> (store_error + store_reply) \<times> 'b gated_store" where
  "ungated f s = (let (r, b) = f (g_inner s) in (r, s\<lparr>g_inner := b\<rparr>))"

fun PauseGatedStore ::
    "'b backend \<Rightarrow> ms \<Rightarrow> bool \<Rightarrow> store_call \<Rightarrow> 'b gated_store
      \<Rightarrow> (store_error + store_reply) \<times> 'b gated_store" where
  "PauseGatedStore be now armed (SignStagingUpload key chunk ttlSeconds) s =
     (let ttl = (if armed then Some ARMED_PRESIGN_TTL_S else ttlSeconds)
      in case gated now (be (SignStagingUpload key chunk ttl)) s of
           (Inr (SignedUpload u ob t), s1) \<Rightarrow>
             (Inr (SignedUpload u ob t), s1\<lparr>g_quiesce := noteSignature t (g_quiesce s1)\<rparr>)
         | other \<Rightarrow> other)"
| "PauseGatedStore be now armed (AppendChunkToCanonical key chunk rep) s =
     gated now (be (AppendChunkToCanonical key chunk rep)) s"
| "PauseGatedStore be now armed (WriteCanonicalText key text) s =
     gated now (be (WriteCanonicalText key text)) s"
| "PauseGatedStore be now armed (WriteArtifact key name text) s =
     gated now (be (WriteArtifact key name text)) s"
| "PauseGatedStore be now armed SelfTest s = gated now (be SelfTest) s"
| "PauseGatedStore be now armed (DeleteSession key n) s = gated now (be (DeleteSession key n)) s"
| "PauseGatedStore be now armed call s = ungated (be call) s"

section \<open>The barrier\<close>

text \<open>
  What one pass of the loop reads: the clock in the loop condition, the clock handed to the check,
  and the accounting at that moment (other calls run while the barrier sleeps).
\<close>

record poll =
  at_guard :: ms
  at_check :: ms
  at_quiesce :: ingest_quiesce

partial_function (option) awaitQuiesced :: "(nat \<Rightarrow> poll) \<Rightarrow> ms \<Rightarrow> nat \<Rightarrow> bool option" where
  "awaitQuiesced polls deadline k =
     (if at_guard (polls k) < deadline
      then (if isQuiesced (at_quiesce (polls k)) (at_check (polls k)) then Some True
            else awaitQuiesced polls deadline (Suc k))
      else Some (isQuiesced (at_quiesce (polls k)) (at_check (polls k))))"

section \<open>Lemmas\<close>

lemma effectivePause_Some:
  "ep_pausedUntil (effectivePause row anchor now) = Some t \<longleftrightarrow>
     (\<exists>r. row = Some r \<and> ic_resumedAt r = None
        \<and> t = min (ic_pausedUntil r) (min (ic_rowWrittenAt r + PAUSE_CAP_MS)
                 ((case anchor of None \<Rightarrow> now | Some a \<Rightarrow> a) + PAUSE_CAP_MS))
        \<and> now < t)"
  by (auto simp: effectivePause_def OPEN_def Let_def split: option.splits)

lemma observe_simps [gate_simps, simp]:
  "ps_effective (observe p s) = p" "ps_effective (observeUnavailable s) = ps_effective s"
  by (simp_all add: observe_def observeUnavailable_def)

text \<open>Accounting as a machine over its events, with the two quantities it must agree with.\<close>

datatype quiesce_event = Enter | Leave | Note "ms option"

fun quiesce_step :: "ingest_quiesce \<Rightarrow> quiesce_event \<Rightarrow> ingest_quiesce" where
  "quiesce_step q Enter = enter q"
| "quiesce_step q Leave = leave q"
| "quiesce_step q (Note t) = noteSignature t q"

definition open_work :: "quiesce_event list \<Rightarrow> int" where
  "open_work es = int (count_list es Enter) - int (count_list es Leave)"

text \<open>No unit of work leaves before it has entered.\<close>

definition bracketed :: "quiesce_event list \<Rightarrow> bool" where
  "bracketed es \<longleftrightarrow> (\<forall>k \<le> length es. 0 \<le> open_work (take k es))"

lemma open_work_snoc:
  "open_work (es @ [e]) = open_work es + (case e of Enter \<Rightarrow> 1 | Leave \<Rightarrow> - 1 | Note _ \<Rightarrow> 0)"
  by (cases e) (simp_all add: open_work_def)

lemma bracketed_snoc: "bracketed (es @ [e]) \<Longrightarrow> bracketed es \<and> 0 \<le> open_work (es @ [e])"
proof -
  assume b: "bracketed (es @ [e])"
  have "0 \<le> open_work (take k es)" if "k \<le> length es" for k
    using b that unfolding bracketed_def by (metis append_Nil2 diff_is_0_eq' le_SucI length_append_singleton take_0 take_append)
  moreover have "0 \<le> open_work (es @ [e])"
    using b unfolding bracketed_def by (metis order_refl take_all)
  ultimately show ?thesis by (simp add: bracketed_def)
qed

lemma inFlight_run:
  "bracketed es \<Longrightarrow> int (q_inFlight (foldl quiesce_step new_quiesce es)) = open_work es"
proof (induction es rule: rev_induct)
  case Nil
  then show ?case by (simp add: new_quiesce_def open_work_def)
next
  case (snoc e es)
  from snoc.prems have "bracketed es" "0 \<le> open_work (es @ [e])"
    by (auto dest: bracketed_snoc)
  with snoc.IH show ?case
    by (cases e) (auto simp: open_work_snoc enter_def leave_def noteSignature_def split: option.splits)
qed

lemma signatureFloor_run:
  "q_signatureFloorMs (foldl quiesce_step q es) \<le> now \<longleftrightarrow>
     q_signatureFloorMs q \<le> now \<and> (\<forall>t. Note (Some t) \<in> set es \<longrightarrow> t \<le> now)"
proof (induction es arbitrary: q)
  case Nil
  then show ?case by simp
next
  case (Cons e es)
  then show ?case
    by (cases e) (auto simp: enter_def leave_def noteSignature_def split: option.splits)
qed

lemma leave_enter [simp]: "leave (enter q) = q"
  by (simp add: leave_def enter_def)

lemma gated_paused:
  "pausedUntil (g_pause s) now = Some until \<Longrightarrow>
     gated now f s = (Inl (IngestPaused until), s\<lparr>g_refused := g_refused s + 1\<rparr>)"
  by (simp add: gated_def assertWritable_def)

lemma gated_open:
  "pausedUntil (g_pause s) now = None \<Longrightarrow> gated now f s = ungated f s"
  by (simp add: gated_def assertWritable_def track_def ungated_def split: prod.splits)

lemma isGatedStoreMethod_iff:
  "isGatedStoreMethod (method_name c) \<longleftrightarrow>
     (case c of SignStagingUpload _ _ _ \<Rightarrow> True | AppendChunkToCanonical _ _ _ \<Rightarrow> True
      | WriteCanonicalText _ _ \<Rightarrow> True | WriteArtifact _ _ _ \<Rightarrow> True | SelfTest \<Rightarrow> True
      | DeleteSession _ _ \<Rightarrow> True | _ \<Rightarrow> False)"
  by (cases c) (simp_all add: isGatedStoreMethod_def GATED_METHODS_def)

lemma awaitQuiesced_True:
  assumes "awaitQuiesced polls deadline k = Some True"
  shows "\<exists>j \<ge> k. isQuiesced (at_quiesce (polls j)) (at_check (polls j))"
proof -
  let ?P = "\<lambda>polls (d :: ms) k r. r \<longrightarrow> (\<exists>j \<ge> k. isQuiesced (at_quiesce (polls j)) (at_check (polls j)))"
  have "?P polls deadline k True"
  proof (rule awaitQuiesced.raw_induct [where P = ?P, OF _ assms])
    fix aq :: "(nat \<Rightarrow> poll) \<Rightarrow> ms \<Rightarrow> nat \<Rightarrow> bool option" and polls d k r
    assume IH: "\<And>polls d k r. aq polls d k = Some r \<Longrightarrow> ?P polls d k r"
      and eq: "(if at_guard (polls k) < d
         then (if isQuiesced (at_quiesce (polls k)) (at_check (polls k)) then Some True
               else aq polls d (Suc k))
         else Some (isQuiesced (at_quiesce (polls k)) (at_check (polls k)))) = Some r"
    show "?P polls d k r"
    proof (cases "isQuiesced (at_quiesce (polls k)) (at_check (polls k))")
      case False
      with eq have "aq polls d (Suc k) = Some r \<or> \<not> r" by (simp split: if_splits)
      with IH show ?thesis by (meson Suc_leD)
    qed auto
  qed
  then show ?thesis by simp
qed

lemma awaitQuiesced_returns:
  "deadline \<le> at_guard (polls (k + n)) \<Longrightarrow> \<exists>r. awaitQuiesced polls deadline k = Some r"
proof (induction n arbitrary: k)
  case 0
  then show ?case by (simp add: awaitQuiesced.simps [of polls deadline k])
next
  case (Suc n)
  then have "\<exists>r. awaitQuiesced polls deadline (Suc k) = Some r" by simp
  then show ?case by (auto simp: awaitQuiesced.simps [of polls deadline k])
qed

text \<open>The cached view over a run of refreshes: a failed one is \<open>None\<close>.\<close>

definition refresh :: "pause_state \<Rightarrow> effective_pause option \<Rightarrow> pause_state" where
  "refresh s r = (case r of None \<Rightarrow> observeUnavailable s | Some p \<Rightarrow> observe p s)"

fun last_observed :: "effective_pause \<Rightarrow> effective_pause option list \<Rightarrow> effective_pause" where
  "last_observed p [] = p"
| "last_observed p (None # rs) = last_observed p rs"
| "last_observed p (Some p' # rs) = last_observed p' rs"

lemma effective_refreshes: "ps_effective (foldl refresh s rs) = last_observed (ps_effective s) rs"
proof (induction rs arbitrary: s)
  case (Cons r rs)
  then show ?case by (cases r) (simp_all add: refresh_def)
qed simp

lemma cached_until:
  "pausedUntil (foldl refresh s rs) now =
     (case ep_pausedUntil (last_observed (ps_effective s) rs) of
        None \<Rightarrow> None | Some t \<Rightarrow> if t \<le> now then None else Some t)"
  by (simp add: pausedUntil_def effective_refreshes)

section \<open>Properties\<close>

text \<open>
  C12. While a pause is in force, the gate refuses exactly the methods of the enumerated set: a
  refused call leaves the inner store and the in-flight accounting as they were and is counted
  once, and every other call is the inner store's own answer.
\<close>

theorem paused_store_refuses_exactly_the_writes:
  assumes "pausedUntil (g_pause s) now = Some until"
  shows "PauseGatedStore be now armed c s =
    (if isGatedStoreMethod (method_name c)
     then (Inl (IngestPaused until), s\<lparr>g_refused := g_refused s + 1\<rparr>)
     else (fst (be c (g_inner s)), s\<lparr>g_inner := snd (be c (g_inner s))\<rparr>))"
  unfolding isGatedStoreMethod_iff
  using assms by (cases c) (simp_all add: gated_paused Let_def ungated_def split_beta)

text \<open>
  A signature the gate hands out keeps the store from counting as quiet until it expires; while
  a drain is armed the inner store is asked for the short lifetime, and the number of calls in
  flight is what it was before the call.
\<close>

theorem signature_blocks_quiet:
  assumes "PauseGatedStore be now armed (SignStagingUpload key chunk ttl) s
    = (Inr (SignedUpload u ob (Some t)), s')"
  shows "pausedUntil (g_pause s) now = None
    \<and> fst (be (SignStagingUpload key chunk (if armed then Some 60 else ttl)) (g_inner s))
        = Inr (SignedUpload u ob (Some t))
    \<and> q_inFlight (g_quiesce s') = q_inFlight (g_quiesce s)
    \<and> (\<forall>now' < t. \<not> isQuiesced (g_quiesce s') now')"
proof -
  let ?c = "SignStagingUpload key chunk (if armed then Some 60 else ttl)"
  obtain r b where rb: "be ?c (g_inner s) = (r, b)" by force
  have open_now: "pausedUntil (g_pause s) now = None"
    using assms by (cases "pausedUntil (g_pause s) now") (auto simp: gated_paused Let_def)
  with assms rb have "r = Inr (SignedUpload u ob (Some t))"
    and "s' = s\<lparr>g_inner := b, g_quiesce := noteSignature (Some t) (g_quiesce s)\<rparr>"
    by (auto simp: gated_open ungated_def Let_def ARMED_PRESIGN_TTL_S_def
        split: sum.splits store_reply.splits if_splits)
  with open_now rb show ?thesis by (auto simp: noteSignature_def isQuiesced_def)
qed

text \<open>
  The clamp bounds every pause. What the gate takes from a row is in force only before the
  deadline asked for, before the row's own write plus the cap, and before the daemon's first sight
  of it plus the cap; it is reported as capped exactly when that is less than was asked.
\<close>

theorem pause_clamped:
  assumes "ep_pausedUntil (effectivePause (Some r) anchor now) = Some t"
  shows "now < t \<and> t \<le> ic_pausedUntil r \<and> t \<le> ic_rowWrittenAt r + 900000
    \<and> (\<forall>a. anchor = Some a \<longrightarrow> t \<le> a + 900000) \<and> t \<le> max now (case anchor of None \<Rightarrow> now | Some a \<Rightarrow> a) + 900000
    \<and> (ep_capped (effectivePause (Some r) anchor now) \<longleftrightarrow> t < ic_pausedUntil r)
    \<and> (\<forall>now'. isPaused (observe (effectivePause (Some r) anchor now) s) now' \<longleftrightarrow> now' < t)"
  using assms
  by (auto simp: effectivePause_def PAUSE_CAP_MS_def OPEN_def Let_def isPaused_def pausedUntil_def
      split: if_splits option.splits)

text \<open>
  Losing the database never reopens the gate: after any refreshes, the deadline in force is
  that of the last refresh that succeeded (and of the state before them when none did), until the
  deadline itself passes.
\<close>

theorem pause_survives_failed_refreshes:
  "pausedUntil (foldl refresh s (rs @ replicate n None)) now = pausedUntil (foldl refresh s rs) now
   \<and> (isPaused (foldl refresh s (rs @ Some p # replicate n None)) now \<longleftrightarrow>
        (\<exists>t. ep_pausedUntil p = Some t \<and> now < t))"
proof -
  have none: "last_observed q (replicate n None) = q" for q
    by (induction n) auto
  have app: "last_observed q (rs @ ts) = last_observed (last_observed q rs) ts" for q ts
  proof (induction rs arbitrary: q)
    case (Cons r rs)
    then show ?case by (cases r) auto
  qed simp
  show ?thesis
    by (auto simp: isPaused_def cached_until app none simp del: foldl_append split: option.splits)
qed

text \<open>
  Quiet means both. Over any run of the accounting in which no unit of work leaves before it
  entered, the store counts as quiet at a time exactly when as much work has left as entered and
  every noted signature has expired by then.
\<close>

theorem quiet_iff_nothing_outstanding:
  assumes "bracketed es" and "0 \<le> now"
  shows "isQuiesced (foldl quiesce_step new_quiesce es) now \<longleftrightarrow>
    count_list es Enter = count_list es Leave \<and> (\<forall>t. Note (Some t) \<in> set es \<longrightarrow> t \<le> now)"
proof -
  have "q_inFlight (foldl quiesce_step new_quiesce es) = 0 \<longleftrightarrow> open_work es = 0"
    using inFlight_run [OF assms(1)] by linarith
  moreover have "q_signatureFloorMs (foldl quiesce_step new_quiesce es) \<le> now \<longleftrightarrow>
      (\<forall>t. Note (Some t) \<in> set es \<longrightarrow> t \<le> now)"
    using signatureFloor_run [of new_quiesce es now] assms(2) by (simp add: new_quiesce_def)
  ultimately show ?thesis by (simp add: isQuiesced_def open_work_def)
qed

text \<open>
  C31. The barrier ends once the clock reaches its deadline, and it answers yes only when it has
  read an accounting that was quiet: no work in flight, and no signature outstanding at that clock.
\<close>

theorem barrier_returns_and_is_sound:
  assumes "deadline \<le> at_guard (polls n)"
  shows "\<exists>r. awaitQuiesced polls deadline 0 = Some r \<and>
    (r \<longrightarrow> (\<exists>j. q_inFlight (at_quiesce (polls j)) = 0
               \<and> q_signatureFloorMs (at_quiesce (polls j)) \<le> at_check (polls j)))"
proof -
  from awaitQuiesced_returns [of deadline polls 0 n] assms
  obtain r where r: "awaitQuiesced polls deadline 0 = Some r" by auto
  with awaitQuiesced_True [of polls deadline 0] show ?thesis
    by (auto simp: isQuiesced_def)
qed

text \<open>
  What the gate and the deadline guard throw is retryable: whatever the deadline renders as,
  the message of a refused write starts with a prefix the clients park on.
\<close>

theorem refusals_are_retryable:
  "isRetryableIngestError (error_message toISO (IngestPaused until))
   \<and> isRetryableIngestError (error_message toISO (StoreDeadline m t))
   \<and> prefix ''vault_offline'' (error_message toISO (IngestPaused until))"
  by (simp add: isRetryableIngestError_def RETRYABLE_INGEST_ERRORS_def PAUSED_WIRE_PREFIX_def)

section \<open>Witnesses\<close>

definition demo_gate :: "nat gated_store" where
  "demo_gate = \<lparr>g_inner = 0, g_pause = observe \<lparr>ep_pausedUntil = Some 100, ep_capped = False\<rparr> new_pause_state,
     g_quiesce = new_quiesce, g_refused = 0\<rparr>"

definition demo_backend :: "nat backend" where
  "demo_backend c n =
     (case c of SignStagingUpload k ch ttl \<Rightarrow> (Inr (SignedUpload ''u'' ''o'' (Some 500)), n)
      | _ \<Rightarrow> (Inr Unit, n + 1))"

theorem paused_store_refuses_exactly_the_writes_witness:
  "PauseGatedStore demo_backend 50 False SelfTest demo_gate
     = (Inl (IngestPaused 100), demo_gate\<lparr>g_refused := 1\<rparr>)
   \<and> fst (PauseGatedStore demo_backend 50 False GetLifecycle demo_gate) = Inr Unit"
proof -
  have p: "pausedUntil (g_pause demo_gate) 50 = Some 100"
    by (simp add: demo_gate_def pausedUntil_def)
  show ?thesis
    using paused_store_refuses_exactly_the_writes [OF p, of demo_backend False SelfTest]
      paused_store_refuses_exactly_the_writes [OF p, of demo_backend False GetLifecycle]
    by (simp add: isGatedStoreMethod_def GATED_METHODS_def demo_backend_def demo_gate_def)
qed

theorem signature_blocks_quiet_witness:
  "\<not> isQuiesced (g_quiesce (snd (PauseGatedStore demo_backend 200 True
       (SignStagingUpload \<lparr>sk_userId = ''u'', sk_family = ''f'', sk_sessionId = ''s''\<rparr> ''c'' None) demo_gate))) 499"
proof -
  let ?k = "\<lparr>sk_userId = ''u'', sk_family = ''f'', sk_sessionId = ''s''\<rparr>"
  have "PauseGatedStore demo_backend 200 True (SignStagingUpload ?k ''c'' None) demo_gate
      = (Inr (SignedUpload ''u'' ''o'' (Some 500)),
         demo_gate\<lparr>g_quiesce := noteSignature (Some 500) new_quiesce\<rparr>)"
    by (simp add: demo_gate_def demo_backend_def gated_def assertWritable_def pausedUntil_def
        track_def Let_def)
  from signature_blocks_quiet [OF this] this show ?thesis by simp
qed

theorem pause_clamped_witness:
  "isPaused (observe (effectivePause (Some \<lparr>ic_pausedUntil = 5000000, ic_resumedAt = None, ic_rowWrittenAt = 0\<rparr>)
      None 1000) new_pause_state) 899999"
proof -
  let ?r = "\<lparr>ic_pausedUntil = 5000000, ic_resumedAt = None, ic_rowWrittenAt = 0\<rparr>"
  have "ep_pausedUntil (effectivePause (Some ?r) None 1000) = Some 900000"
    by (simp add: effectivePause_def PAUSE_CAP_MS_def)
  from pause_clamped [OF this, of new_pause_state] show ?thesis by simp
qed

theorem quiet_iff_nothing_outstanding_witness:
  "isQuiesced (foldl quiesce_step new_quiesce [Enter, Note (Some 7), Leave]) 7"
proof -
  have "bracketed [Enter, Note (Some 7), Leave]"
    by (simp add: bracketed_def open_work_def less_Suc_eq_le [symmetric] All_less_Suc2)
  from quiet_iff_nothing_outstanding [OF this, of 7] show ?thesis by simp
qed

theorem barrier_returns_and_is_sound_witness:
  "\<exists>r. awaitQuiesced (\<lambda>k. \<lparr>at_guard = int k, at_check = int k, at_quiesce = new_quiesce\<rparr>) 3 0 = Some r"
  using barrier_returns_and_is_sound
    [of 3 "\<lambda>k. \<lparr>at_guard = int k, at_check = int k, at_quiesce = new_quiesce\<rparr>" 3]
  by auto

end
