(* ===== verification/Guarded_Store.thy ===== *)
theory Guarded_Store
  imports Session_Store
begin

text \<open>
  The deadline guard around a store (\<open>GuardedStore\<close> in
  \<open>src/modules/session-vault/store/guarded-store.ts\<close>): which deadline a method gets, which methods
  count towards the rebuild streak, and what the settling of one call does to the streak, to the
  client and to the escalation. A client is its generation number: the factory makes a fresh one,
  and \<open>this.inner === s\<close> is equality of generations. Calls overlap, so a call carries the
  generation it started on and its settling is one step.
\<close>

section \<open>Options and deadlines\<close>

record guard_options =
  opTimeoutMs :: nat
  heavyOpTimeoutMs :: nat
  scanTimeoutMs :: nat
  rebuildAfter :: nat
  exhaustAfterRebuilds :: nat

definition default_options :: guard_options where
  "default_options = \<lparr>opTimeoutMs = 20000, heavyOpTimeoutMs = 120000, scanTimeoutMs = 600000,
     rebuildAfter = 3, exhaustAfterRebuilds = 2\<rparr>"

fun call_timeout :: "guard_options \<Rightarrow> store_call \<Rightarrow> nat" where
  "call_timeout opts (SignStagingUpload k c t) = opTimeoutMs opts"
| "call_timeout opts (ReadChunkText k c) = heavyOpTimeoutMs opts"
| "call_timeout opts (AppendChunkToCanonical k c r) = heavyOpTimeoutMs opts"
| "call_timeout opts (StatCanonical k) = opTimeoutMs opts"
| "call_timeout opts (SignCanonicalDownload k) = opTimeoutMs opts"
| "call_timeout opts (ReadCanonicalText k) = heavyOpTimeoutMs opts"
| "call_timeout opts (WriteCanonicalText k t) = heavyOpTimeoutMs opts"
| "call_timeout opts (WriteArtifact k n t) = opTimeoutMs opts"
| "call_timeout opts (ReadArtifactText k n) = opTimeoutMs opts"
| "call_timeout opts (ListSessionArtifacts k) = opTimeoutMs opts"
| "call_timeout opts (ListSessionMetadata u) = scanTimeoutMs opts"
| "call_timeout opts ListAllCanonicalKeys = scanTimeoutMs opts"
| "call_timeout opts GetBucketVersioning = opTimeoutMs opts"
| "call_timeout opts GetLifecycle = opTimeoutMs opts"
| "call_timeout opts SelfTest = opTimeoutMs opts"
| "call_timeout opts (DeleteSession k n) = heavyOpTimeoutMs opts"

definition BREACH_METHODS :: "string list" where
  "BREACH_METHODS =
     [''appendChunkToCanonical'', ''writeCanonicalText'', ''writeArtifact'', ''deleteSession'',
      ''selfTest'']"

definition counted :: "store_call \<Rightarrow> bool" where
  "counted c \<longleftrightarrow> method_name c \<in> set BREACH_METHODS"

section \<open>The guard\<close>

record guarded_store =
  gs_inner :: nat
  gs_breaches :: nat
  gs_rebuildsWithoutRecovery :: nat
  gs_hadCountedSuccess :: bool
  gs_escalations :: "bool list"

text \<open>\<open>gs_escalations\<close> collects the argument of every \<open>onWedgedBeyondRecovery\<close> call.\<close>

definition new_guarded_store :: guarded_store where
  "new_guarded_store = \<lparr>gs_inner = 0, gs_breaches = 0, gs_rebuildsWithoutRecovery = 0,
     gs_hadCountedSuccess = False, gs_escalations = []\<rparr>"

datatype outcome = Succeeded | DeadlineExceeded | Rejected

record settled =
  st_call :: store_call
  st_client :: nat
  st_outcome :: outcome

definition on_success :: "settled \<Rightarrow> guarded_store \<Rightarrow> guarded_store" where
  "on_success ev g =
     (if counted (st_call ev) \<and> gs_inner g = st_client ev
      then g\<lparr>gs_breaches := 0, gs_rebuildsWithoutRecovery := 0, gs_hadCountedSuccess := True\<rparr>
      else g)"

definition on_deadline :: "guard_options \<Rightarrow> settled \<Rightarrow> guarded_store \<Rightarrow> guarded_store" where
  "on_deadline opts ev g =
     (let stale = (gs_inner g \<noteq> st_client ev)
      in if counted (st_call ev) \<and> \<not> stale then
           (let g1 = g\<lparr>gs_breaches := gs_breaches g + 1\<rparr>
            in if gs_breaches g1 \<ge> rebuildAfter opts then
                 (let g2 = g1\<lparr>gs_inner := gs_inner g1 + 1, gs_breaches := 0,
                            gs_rebuildsWithoutRecovery := gs_rebuildsWithoutRecovery g1 + 1\<rparr>
                  in if gs_rebuildsWithoutRecovery g2 \<ge> exhaustAfterRebuilds opts
                     then g2\<lparr>gs_rebuildsWithoutRecovery := 0,
                             gs_escalations := gs_escalations g2 @ [gs_hadCountedSuccess g2]\<rparr>
                     else g2)
               else g1)
         else g)"

definition guard :: "guard_options \<Rightarrow> guarded_store \<Rightarrow> settled \<Rightarrow> guarded_store" where
  "guard opts g ev =
     (case st_outcome ev of
        Succeeded \<Rightarrow> on_success ev g
      | DeadlineExceeded \<Rightarrow> on_deadline opts ev g
      | Rejected \<Rightarrow> g)"

section \<open>Lemmas\<close>

definition charges :: "guarded_store \<Rightarrow> settled \<Rightarrow> bool" where
  "charges g ev \<longleftrightarrow> counted (st_call ev) \<and> gs_inner g = st_client ev \<and> st_outcome ev = DeadlineExceeded"

definition recovers :: "guarded_store \<Rightarrow> settled \<Rightarrow> bool" where
  "recovers g ev \<longleftrightarrow> counted (st_call ev) \<and> gs_inner g = st_client ev \<and> st_outcome ev = Succeeded"

lemma guard_neutral: "\<not> charges g ev \<Longrightarrow> \<not> recovers g ev \<Longrightarrow> guard opts g ev = g"
  by (auto simp: guard_def charges_def recovers_def on_success_def on_deadline_def Let_def
      split: outcome.split)

lemma guard_recovers:
  "recovers g ev \<Longrightarrow> guard opts g ev =
     g\<lparr>gs_breaches := 0, gs_rebuildsWithoutRecovery := 0, gs_hadCountedSuccess := True\<rparr>"
  by (simp add: guard_def recovers_def on_success_def)

text \<open>The streaks stay below their limits.\<close>

definition streaks_ok :: "guard_options \<Rightarrow> guarded_store \<Rightarrow> bool" where
  "streaks_ok opts g \<longleftrightarrow>
     (0 < rebuildAfter opts \<longrightarrow> gs_breaches g < rebuildAfter opts)
     \<and> (0 < exhaustAfterRebuilds opts \<longrightarrow> gs_rebuildsWithoutRecovery g < exhaustAfterRebuilds opts)"

lemma guard_streaks_ok: "streaks_ok opts g \<Longrightarrow> streaks_ok opts (guard opts g ev)"
  by (auto simp: guard_def streaks_ok_def on_success_def on_deadline_def Let_def split: outcome.split)

interpretation guard_streaks: kept_invariant "guard opts" "streaks_ok opts" for opts
  by unfold_locales (rule guard_streaks_ok)

text \<open>
  Charging \<open>n\<close> breaches in a row: the abstract counter is the total number of breaches since the
  last recovery, in the mixed base given by the two limits.
\<close>

definition streak_total :: "guard_options \<Rightarrow> guarded_store \<Rightarrow> nat" where
  "streak_total opts g = gs_rebuildsWithoutRecovery g * rebuildAfter opts + gs_breaches g"

fun charge_count :: "guard_options \<Rightarrow> guarded_store \<Rightarrow> settled list \<Rightarrow> nat" where
  "charge_count opts g [] = 0"
| "charge_count opts g (ev # evs) = (if charges g ev then 1 else 0) + charge_count opts (guard opts g ev) evs"

fun no_recovery :: "guard_options \<Rightarrow> guarded_store \<Rightarrow> settled list \<Rightarrow> bool" where
  "no_recovery opts g [] = True"
| "no_recovery opts g (ev # evs) = (\<not> recovers g ev \<and> no_recovery opts (guard opts g ev) evs)"

text \<open>What the wedge counters are after \<open>n\<close> breaches from a clean state.\<close>

definition wedge_state :: "guard_options \<Rightarrow> guarded_store \<Rightarrow> nat \<Rightarrow> guarded_store" where
  "wedge_state opts g n = g\<lparr>gs_inner := gs_inner g + n div rebuildAfter opts,
     gs_breaches := n mod rebuildAfter opts,
     gs_rebuildsWithoutRecovery := (n div rebuildAfter opts) mod exhaustAfterRebuilds opts,
     gs_escalations := gs_escalations g
       @ replicate (n div (rebuildAfter opts * exhaustAfterRebuilds opts)) (gs_hadCountedSuccess g)\<rparr>"

lemma div_mult_Suc:
  fixes n r e :: nat
  assumes "0 < r" "0 < e"
  shows "Suc n div (r * e) = n div (r * e) + (if Suc n mod r = 0 \<and> (Suc n div r) mod e = 0 then 1 else 0)"
proof -
  have "Suc n mod (r * e) = 0 \<longleftrightarrow> Suc n mod r = 0 \<and> (Suc n div r) mod e = 0"
    using assms by (auto simp: mod_mult2_eq)
  then show ?thesis by (simp add: div_Suc)
qed

lemma Suc_divmod:
  fixes n r :: nat
  assumes "0 < r"
  shows "Suc (n mod r) < r \<Longrightarrow> Suc n div r = n div r \<and> Suc n mod r = Suc (n mod r)"
    and "\<not> Suc (n mod r) < r \<Longrightarrow> Suc n div r = Suc (n div r) \<and> Suc n mod r = 0"
proof -
  have "Suc (n mod r) \<le> r" using assms by (simp add: Suc_leI)
  then show "Suc (n mod r) < r \<Longrightarrow> Suc n div r = n div r \<and> Suc n mod r = Suc (n mod r)"
    and "\<not> Suc (n mod r) < r \<Longrightarrow> Suc n div r = Suc (n div r) \<and> Suc n mod r = 0"
    by (auto simp: div_Suc mod_Suc)
qed

lemma guard_charges_wedge:
  assumes r: "0 < rebuildAfter opts" and e: "0 < exhaustAfterRebuilds opts"
    and ch: "charges (wedge_state opts g n) ev"
  shows "guard opts (wedge_state opts g n) ev = wedge_state opts g (Suc n)"
proof -
  let ?r = "rebuildAfter opts" and ?e = "exhaustAfterRebuilds opts"
  have step: "guard opts (wedge_state opts g n) ev = on_deadline opts ev (wedge_state opts g n)"
    using ch by (simp add: guard_def charges_def)
  note D = div_mult_Suc [OF r e, of n]
  show ?thesis
  proof (cases "Suc (n mod ?r) < ?r")
    case True
    from Suc_divmod(1) [OF r True] D True ch show ?thesis
      unfolding step by (simp add: on_deadline_def charges_def wedge_state_def Let_def)
  next
    case False
    note R = Suc_divmod(2) [OF r False]
    show ?thesis
    proof (cases "Suc ((n div ?r) mod ?e) < ?e")
      case True
      from Suc_divmod(1) [OF e True] R D True False ch show ?thesis
        unfolding step by (simp add: on_deadline_def charges_def wedge_state_def Let_def)
    next
      case last: False
      from Suc_divmod(2) [OF e last] R D last False ch show ?thesis
        unfolding step
        by (simp add: on_deadline_def charges_def wedge_state_def Let_def replicate_append_same)
    qed
  qed
qed

lemma wedge_state_0: "gs_breaches g = 0 \<Longrightarrow> gs_rebuildsWithoutRecovery g = 0 \<Longrightarrow> wedge_state opts g 0 = g"
  by (simp add: wedge_state_def)

lemma wedge_run:
  assumes "0 < rebuildAfter opts" "0 < exhaustAfterRebuilds opts"
    and "no_recovery opts (wedge_state opts g n) evs"
  shows "foldl (guard opts) (wedge_state opts g n) evs
    = wedge_state opts g (n + charge_count opts (wedge_state opts g n) evs)"
  using assms(3)
proof (induction evs arbitrary: n)
  case (Cons ev evs)
  show ?case
  proof (cases "charges (wedge_state opts g n) ev")
    case True
    with Cons guard_charges_wedge [OF assms(1,2) True] show ?thesis by simp
  next
    case False
    with Cons guard_neutral [OF False] show ?thesis by simp
  qed
qed simp

lemma counted_iff:
  "counted c \<longleftrightarrow> (case c of AppendChunkToCanonical _ _ _ \<Rightarrow> True | WriteCanonicalText _ _ \<Rightarrow> True
     | WriteArtifact _ _ _ \<Rightarrow> True | DeleteSession _ _ \<Rightarrow> True | SelfTest \<Rightarrow> True | _ \<Rightarrow> False)"
  by (cases c) (simp_all add: counted_def BREACH_METHODS_def)

section \<open>Properties\<close>

text \<open>
  When storage wedges, the guard escalates on schedule. From a state with no breach pending,
  over any settlings in which no write-class call on the current client succeeds, \<open>k\<close> breaches of
  write-class calls on the client they were charged to make exactly \<open>k div rebuildAfter\<close> new clients
  and \<open>k div (rebuildAfter * exhaustAfterRebuilds)\<close> escalations, each carrying whether a counted
  write had ever succeeded; reads, presigns, backend errors and settlings of calls left on a
  discarded client change nothing.
\<close>

theorem wedge_schedule:
  assumes "0 < rebuildAfter opts" and "0 < exhaustAfterRebuilds opts"
    and "gs_breaches g = 0" and "gs_rebuildsWithoutRecovery g = 0"
    and "no_recovery opts g evs"
  shows "foldl (guard opts) g evs =
    (let k = charge_count opts g evs
     in g\<lparr>gs_inner := gs_inner g + k div rebuildAfter opts,
          gs_breaches := k mod rebuildAfter opts,
          gs_rebuildsWithoutRecovery := (k div rebuildAfter opts) mod exhaustAfterRebuilds opts,
          gs_escalations := gs_escalations g
            @ replicate (k div (rebuildAfter opts * exhaustAfterRebuilds opts)) (gs_hadCountedSuccess g)\<rparr>)"
  using wedge_run [OF assms(1,2), of g 0 evs] assms(5)
  unfolding wedge_state_0 [OF assms(3,4)] by (simp add: wedge_state_def Let_def)

text \<open>
  Only a write-class call that settles on the current client moves the guard: a success clears
  both streaks, anything else that is not such a breach leaves the guard as it was. In particular a
  presign, a read, or a call still running on a client that was discarded never does.
\<close>

theorem only_current_writes_count:
  "(guard opts g ev \<noteq> g \<longrightarrow>
      st_client ev = gs_inner g \<and> st_outcome ev \<noteq> Rejected \<and>
      (case st_call ev of AppendChunkToCanonical _ _ _ \<Rightarrow> True | WriteCanonicalText _ _ \<Rightarrow> True
       | WriteArtifact _ _ _ \<Rightarrow> True | DeleteSession _ _ \<Rightarrow> True | SelfTest \<Rightarrow> True | _ \<Rightarrow> False))
   \<and> (counted (st_call ev) \<and> st_client ev = gs_inner g \<and> st_outcome ev = Succeeded \<longrightarrow>
        streak_total opts (guard opts g ev) = 0 \<and> gs_hadCountedSuccess (guard opts g ev))"
proof -
  have "guard opts g ev \<noteq> g \<Longrightarrow> charges g ev \<or> recovers g ev"
    using guard_neutral by blast
  then have "guard opts g ev \<noteq> g \<Longrightarrow>
      counted (st_call ev) \<and> st_client ev = gs_inner g \<and> st_outcome ev \<noteq> Rejected"
    by (auto simp: charges_def recovers_def)
  moreover have "recovers g ev \<Longrightarrow> streak_total opts (guard opts g ev) = 0 \<and> gs_hadCountedSuccess (guard opts g ev)"
    by (simp add: guard_recovers streak_total_def)
  ultimately show ?thesis unfolding counted_iff [symmetric] recovers_def by auto
qed

section \<open>Witnesses\<close>

definition demo_breach :: "nat \<Rightarrow> settled" where
  "demo_breach n = \<lparr>st_call = SelfTest, st_client = n, st_outcome = DeadlineExceeded\<rparr>"

theorem wedge_schedule_witness:
  "gs_escalations (foldl (guard default_options) new_guarded_store
     [demo_breach 0, demo_breach 0, demo_breach 0, demo_breach 0, demo_breach 1, demo_breach 1, demo_breach 1])
   = [False]"
proof -
  let ?evs = "[demo_breach 0, demo_breach 0, demo_breach 0, demo_breach 0, demo_breach 1, demo_breach 1, demo_breach 1]"
  have "no_recovery default_options new_guarded_store ?evs"
    by (simp add: recovers_def demo_breach_def)
  moreover have "charge_count default_options new_guarded_store ?evs = 6"
    by (simp add: charges_def demo_breach_def guard_def on_deadline_def default_options_def
        new_guarded_store_def counted_def BREACH_METHODS_def)
  ultimately show ?thesis
    using wedge_schedule [of default_options new_guarded_store ?evs]
    by (simp add: default_options_def new_guarded_store_def)
qed

theorem only_current_writes_count_witness:
  "streak_total default_options (guard default_options new_guarded_store
     \<lparr>st_call = SelfTest, st_client = 0, st_outcome = Succeeded\<rparr>) = 0"
  using only_current_writes_count [of default_options new_guarded_store
      "\<lparr>st_call = SelfTest, st_client = 0, st_outcome = Succeeded\<rparr>"]
  by (simp add: counted_def BREACH_METHODS_def new_guarded_store_def)

end
