(* ===== verification/Argon_Gate.thy ===== *)
theory Argon_Gate
  imports Prelude
begin

text \<open>
  The gate in front of every password hash (\<open>src/ui/argon-gate.ts\<close>). A hash costs 64 MiB, so the
  gate bounds how many run at once, holds at most \<open>queueLimit\<close> waiters, runs one hash per remote
  key, and keeps \<open>reserved\<close> slots for principals with no recent failures. \<open>run\<close> awaits \<open>acquire\<close>, does the work and
  calls \<open>release\<close> in its \<open>finally\<close>; many runs interleave, so the system is a step relation over
  the gate and the runs that hold a slot. A pending promise is a waiter in the queue; a timer firing
  is a step. The lemmas show the memory bound, the reserved slot, and that a release wakes
  whoever it can, up to one gap that \<open>a_clean_waiter_can_be_stranded\<close> exhibits.
\<close>

record argon_options =
  maxConcurrent :: int
  reserved :: int
  queueLimit :: int
  waitMs :: ms

definition ARGON_DEFAULTS :: argon_options where
  "ARGON_DEFAULTS = \<lparr>maxConcurrent = 4, reserved = 1, queueLimit = 64, waitMs = 2000\<rparr>"

text \<open>A waiter is an object: its number is its identity.\<close>

record waiter =
  w_id :: nat
  w_key :: string
  w_clean :: bool

record argon_gate =
  inFlight :: int
  perKey :: "(string \<times> int) list"
  waiting :: "waiter list"

definition new_gate :: argon_gate where
  "new_gate = \<lparr>inFlight = 0, perKey = [], waiting = []\<rparr>"

definition held_count :: "argon_gate \<Rightarrow> string \<Rightarrow> int \<Rightarrow> int" where
  "held_count g key dflt = (case map_of (perKey g) key of None \<Rightarrow> dflt | Some n \<Rightarrow> n)"

definition canAdmit :: "argon_options \<Rightarrow> argon_gate \<Rightarrow> string \<Rightarrow> bool \<Rightarrow> bool" where
  "canAdmit opt g key clean =
     (if 1 \<le> held_count g key 0 then False
      else let ceiling = (if clean then maxConcurrent opt else maxConcurrent opt - reserved opt) in
        inFlight g < ceiling)"

definition take_slot :: "string \<Rightarrow> argon_gate \<Rightarrow> argon_gate" where
  "take_slot key g = g\<lparr>inFlight := inFlight g + 1,
     perKey := AList.update key (held_count g key 0 + 1) (perKey g)\<rparr>"

datatype acquire_outcome = Slot | Busy | Waiting

definition acquire ::
  "argon_options \<Rightarrow> nat \<Rightarrow> string \<Rightarrow> bool \<Rightarrow> argon_gate \<Rightarrow> acquire_outcome \<times> argon_gate" where
  "acquire opt n key clean g =
     (if canAdmit opt g key clean then (Slot, take_slot key g)
      else if queueLimit opt \<le> int (length (waiting g)) then (Busy, g)
      else (Waiting, g\<lparr>waiting := waiting g @ [\<lparr>w_id = n, w_key = key, w_clean = clean\<rparr>]\<rparr>))"

text \<open>\<open>drop\<close>: \<open>indexOf\<close> and \<open>splice\<close>, nothing when the waiter is gone.\<close>

definition drop_waiter :: "waiter \<Rightarrow> argon_gate \<Rightarrow> argon_gate" where
  "drop_waiter w g = g\<lparr>waiting := remove1 w (waiting g)\<rparr>"

fun pump_from ::
  "argon_options \<Rightarrow> argon_gate \<Rightarrow> waiter list \<Rightarrow> waiter list \<Rightarrow> waiter option \<times> argon_gate" where
  "pump_from opt g skipped [] = (None, g)"
| "pump_from opt g skipped (w # ws) =
     (if \<not> canAdmit opt g (w_key w) (w_clean w) then pump_from opt g (skipped @ [w]) ws
      else (Some w, take_slot (w_key w) (g\<lparr>waiting := skipped @ ws\<rparr>)))"

definition pump :: "argon_options \<Rightarrow> argon_gate \<Rightarrow> waiter option \<times> argon_gate" where
  "pump opt g = pump_from opt g [] (waiting g)"

definition give_back :: "string \<Rightarrow> argon_gate \<Rightarrow> argon_gate" where
  "give_back key g =
     (let held = held_count g key 1 - 1 in
      g\<lparr>inFlight := inFlight g - 1,
        perKey := (if held \<le> 0 then AList.delete key (perKey g) else AList.update key held (perKey g))\<rparr>)"

definition release :: "argon_options \<Rightarrow> string \<Rightarrow> argon_gate \<Rightarrow> waiter option \<times> argon_gate" where
  "release opt key g = pump opt (give_back key g)"

section \<open>The gate and the runs inside it\<close>

text \<open>
  The holders are the runs between their \<open>acquire\<close> and their \<open>release\<close>, with the key and the cleanness
  they came with.
\<close>

record gate_sys =
  gate :: argon_gate
  holders :: "(string \<times> bool) list"

definition idle_sys :: gate_sys where
  "idle_sys = \<lparr>gate = new_gate, holders = []\<rparr>"

definition admit_woken :: "waiter option \<Rightarrow> (string \<times> bool) list \<Rightarrow> (string \<times> bool) list" where
  "admit_woken w hs = (case w of None \<Rightarrow> hs | Some w \<Rightarrow> (w_key w, w_clean w) # hs)"

inductive gate_step :: "argon_options \<Rightarrow> gate_sys \<Rightarrow> gate_sys \<Rightarrow> bool" for opt where
  admit: "acquire opt n key clean (gate s) = (Slot, g) \<Longrightarrow>
    gate_step opt s \<lparr>gate = g, holders = (key, clean) # holders s\<rparr>"
| queue: "acquire opt n key clean (gate s) = (Waiting, g) \<Longrightarrow>
    gate_step opt s \<lparr>gate = g, holders = holders s\<rparr>"
| busy: "acquire opt n key clean (gate s) = (Busy, g) \<Longrightarrow>
    gate_step opt s \<lparr>gate = g, holders = holders s\<rparr>"
| timeout: "w \<in> set (waiting (gate s)) \<Longrightarrow>
    gate_step opt s \<lparr>gate = drop_waiter w (gate s), holders = holders s\<rparr>"
| finish: "(key, clean) \<in> set (holders s) \<Longrightarrow> release opt key (gate s) = (woken, g) \<Longrightarrow>
    gate_step opt s \<lparr>gate = g, holders = admit_woken woken (remove1 (key, clean) (holders s))\<rparr>"

inductive_cases gate_stepE: "gate_step opt s s'"

inductive gate_reach :: "argon_options \<Rightarrow> gate_sys \<Rightarrow> bool" for opt where
  start: "gate_reach opt idle_sys"
| more: "gate_reach opt s \<Longrightarrow> gate_step opt s s' \<Longrightarrow> gate_reach opt s'"

section \<open>The invariant\<close>

definition held :: "(string \<times> bool) list \<Rightarrow> string \<Rightarrow> bool" where
  "held hs key \<longleftrightarrow> key \<in> fst ` set hs"

definition slots_ok :: "argon_gate \<Rightarrow> (string \<times> bool) list \<Rightarrow> bool" where
  "slots_ok g hs \<longleftrightarrow> distinct (map fst hs) \<and> inFlight g = int (length hs) \<and>
     (\<forall>key. map_of (perKey g) key = (if held hs key then Some 1 else None))"

definition dirty :: "(string \<times> bool) list \<Rightarrow> nat" where
  "dirty hs = length (filter (\<lambda>h. \<not> snd h) hs)"

definition ceilings_ok :: "argon_options \<Rightarrow> (string \<times> bool) list \<Rightarrow> bool" where
  "ceilings_ok opt hs \<longleftrightarrow> int (length hs) \<le> max 0 (maxConcurrent opt) \<and>
     int (dirty hs) \<le> max 0 (maxConcurrent opt - reserved opt)"

definition ceiling_of :: "argon_options \<Rightarrow> bool \<Rightarrow> int" where
  "ceiling_of opt clean = (if clean then maxConcurrent opt else maxConcurrent opt - reserved opt)"

lemma canAdmit_slots:
  "slots_ok g hs \<Longrightarrow>
    canAdmit opt g key clean \<longleftrightarrow> \<not> held hs key \<and> int (length hs) < ceiling_of opt clean"
  by (auto simp: canAdmit_def held_count_def slots_ok_def ceiling_of_def)

lemma take_slot_ok:
  "slots_ok g hs \<Longrightarrow> \<not> held hs key \<Longrightarrow> slots_ok (take_slot key g) ((key, clean) # hs)"
  by (auto simp: slots_ok_def take_slot_def held_def held_count_def)

lemma slots_ok_waiting [simp]: "slots_ok (g\<lparr>waiting := ws\<rparr>) hs \<longleftrightarrow> slots_ok g hs"
  by (simp add: slots_ok_def)

lemma held_iff: "held hs key \<longleftrightarrow> (\<exists>c. (key, c) \<in> set hs)"
  by (force simp: held_def)

lemma held_remove1:
  assumes "distinct (map fst hs)" and "(key, c) \<in> set hs"
  shows "held (remove1 (key, c) hs) k \<longleftrightarrow> held hs k \<and> k \<noteq> key"
proof -
  have "distinct hs" using assms(1) distinct_map by blast
  then have s: "set (remove1 (key, c) hs) = set hs - {(key, c)}" by simp
  show ?thesis
    unfolding held_iff s using eq_key_imp_eq_value [OF assms] by auto
qed

lemma distinct_remove1_fst: "distinct (map fst hs) \<Longrightarrow> distinct (map fst (remove1 h hs))"
proof (induction hs)
  case (Cons x hs)
  then show ?case using set_remove1_subset [of h hs] by auto
qed simp

lemma give_back_ok:
  assumes "slots_ok g hs" and "(key, c) \<in> set hs"
  shows "slots_ok (give_back key g) (remove1 (key, c) hs)"
proof -
  have d: "distinct (map fst (remove1 (key, c) hs))"
    using assms(1) by (simp add: slots_ok_def distinct_remove1_fst)
  have h: "held hs key" using assms(2) by (force simp: held_def)
  have n: "1 \<le> length hs" using assms(2) by (cases hs) auto
  show ?thesis
    using assms d h n held_remove1 [OF _ assms(2)]
    by (auto simp: slots_ok_def give_back_def held_count_def Let_def length_remove1 of_nat_diff)
qed

lemma dirty_Cons: "dirty (h # hs) = (if snd h then 0 else 1) + dirty hs"
  by (simp add: dirty_def)

lemma dirty_le: "dirty hs \<le> length hs"
  by (simp add: dirty_def)

lemma ceilings_take:
  "ceilings_ok opt hs \<Longrightarrow> int (length hs) < ceiling_of opt clean \<Longrightarrow> 0 \<le> reserved opt \<Longrightarrow>
    ceilings_ok opt ((key, clean) # hs)"
  using dirty_le [of hs] by (cases clean) (auto simp: ceilings_ok_def ceiling_of_def dirty_Cons)

lemma dirty_remove1: "dirty (remove1 h hs) \<le> dirty hs"
  by (induction hs) (auto simp: dirty_def)

lemma ceilings_give: "ceilings_ok opt hs \<Longrightarrow> ceilings_ok opt (remove1 h hs)"
  using dirty_remove1 [of h hs]
  by (cases "h \<in> set hs") (auto simp: ceilings_ok_def length_remove1 remove1_idem)

lemma canAdmit_waiting [simp]: "canAdmit opt (g\<lparr>waiting := ws\<rparr>) = canAdmit opt g"
  by (simp add: canAdmit_def held_count_def fun_eq_iff)

text \<open>What a pump does: it wakes the first waiter that can run, if there is one.\<close>

lemma pump_from_cases:
  assumes "pump_from opt g skipped ws = (woken, g')" and "\<forall>w \<in> set skipped. \<not> canAdmit opt g (w_key w) (w_clean w)"
  obtains (nobody) "woken = None" "g' = g" "\<forall>w \<in> set ws. \<not> canAdmit opt g (w_key w) (w_clean w)"
  | (first) xs w ys where "ws = xs @ w # ys" "woken = Some w" "canAdmit opt g (w_key w) (w_clean w)"
      "\<forall>x \<in> set xs. \<not> canAdmit opt g (w_key x) (w_clean x)"
      "g' = take_slot (w_key w) (g\<lparr>waiting := skipped @ xs @ ys\<rparr>)"
  using assms
proof (induction ws arbitrary: skipped thesis)
  case Nil
  then show ?case by simp
next
  case (Cons v ws)
  show ?case
  proof (cases "canAdmit opt g (w_key v) (w_clean v)")
    case True
    with Cons.prems(3) show ?thesis by (intro Cons.prems(2) [of "[]" v ws]) auto
  next
    case False
    with Cons.prems(3) have p: "pump_from opt g (skipped @ [v]) ws = (woken, g')" by simp
    have s: "\<forall>w \<in> set (skipped @ [v]). \<not> canAdmit opt g (w_key w) (w_clean w)"
      using False Cons.prems(4) by simp
    show ?thesis
    proof (rule Cons.IH [OF _ _ p s])
      assume "woken = None" "g' = g" "\<forall>w \<in> set ws. \<not> canAdmit opt g (w_key w) (w_clean w)"
      with False show ?thesis by (intro Cons.prems(1)) auto
    next
      fix xs w ys
      assume "ws = xs @ w # ys" "woken = Some w" "canAdmit opt g (w_key w) (w_clean w)"
        "\<forall>x \<in> set xs. \<not> canAdmit opt g (w_key x) (w_clean x)"
        "g' = take_slot (w_key w) (g\<lparr>waiting := (skipped @ [v]) @ xs @ ys\<rparr>)"
      with False show ?thesis by (intro Cons.prems(2) [of "v # xs" w ys]) auto
    qed
  qed
qed

lemma pump_cases:
  assumes "pump opt g = (woken, g')"
  obtains (nobody) "woken = None" "g' = g" "\<forall>w \<in> set (waiting g). \<not> canAdmit opt g (w_key w) (w_clean w)"
  | (first) xs w ys where "waiting g = xs @ w # ys" "woken = Some w" "canAdmit opt g (w_key w) (w_clean w)"
      "\<forall>x \<in> set xs. \<not> canAdmit opt g (w_key x) (w_clean x)"
      "g' = take_slot (w_key w) (g\<lparr>waiting := xs @ ys\<rparr>)"
  using assms unfolding pump_def by (rule pump_from_cases) auto

definition gate_ok :: "argon_options \<Rightarrow> gate_sys \<Rightarrow> bool" where
  "gate_ok opt s \<longleftrightarrow> slots_ok (gate s) (holders s) \<and> ceilings_ok opt (holders s) \<and>
     int (length (waiting (gate s))) \<le> max 0 (queueLimit opt) \<and>
     (\<forall>w \<in> set (waiting (gate s)). canAdmit opt (gate s) (w_key w) (w_clean w) \<longrightarrow>
        w_clean w \<and> maxConcurrent opt - reserved opt \<le> inFlight (gate s))"

lemma take_slot_fields [simp]:
  "waiting (take_slot key g) = waiting g" "inFlight (take_slot key g) = inFlight g + 1"
  by (simp_all add: take_slot_def)

lemma give_back_fields [simp]:
  "waiting (give_back key g) = waiting g" "inFlight (give_back key g) = inFlight g - 1"
  by (simp_all add: give_back_def Let_def)

lemma canAdmit_take:
  assumes "slots_ok g hs" and "\<not> held hs key"
    and "canAdmit opt (take_slot key g) k c"
  shows "canAdmit opt g k c"
  using canAdmit_slots [OF take_slot_ok [OF assms(1,2), of True], of opt k c] assms(3)
    canAdmit_slots [OF assms(1), of opt k c]
  by (auto simp: held_iff)

lemma gate_ok_admit:
  assumes ok: "gate_ok opt s" and r: "0 \<le> reserved opt"
    and a: "acquire opt n key clean (gate s) = (Slot, g)"
  shows "gate_ok opt \<lparr>gate = g, holders = (key, clean) # holders s\<rparr>"
proof -
  from a have c: "canAdmit opt (gate s) key clean" and g: "g = take_slot key (gate s)"
    by (auto simp: acquire_def split: if_splits)
  from ok have s: "slots_ok (gate s) (holders s)" by (simp add: gate_ok_def)
  from c have nh: "\<not> held (holders s) key" and l: "int (length (holders s)) < ceiling_of opt clean"
    using canAdmit_slots [OF s] by auto
  show ?thesis
    using ok take_slot_ok [OF s nh] ceilings_take [OF _ l r] canAdmit_take [OF s nh]
    unfolding gate_ok_def g by fastforce
qed

lemma gate_ok_finish:
  assumes ok: "gate_ok opt s" and r: "0 \<le> reserved opt"
    and h: "(key, clean) \<in> set (holders s)" and rel: "release opt key (gate s) = (woken, g)"
  shows "gate_ok opt \<lparr>gate = g, holders = admit_woken woken (remove1 (key, clean) (holders s))\<rparr>"
proof -
  let ?h = "remove1 (key, clean) (holders s)" and ?b = "give_back key (gate s)"
  from ok have s: "slots_ok (gate s) (holders s)" and cs: "ceilings_ok opt (holders s)"
    by (simp_all add: gate_ok_def)
  have b: "slots_ok ?b ?h" by (rule give_back_ok [OF s h])
  have bc: "ceilings_ok opt ?h" by (rule ceilings_give [OF cs])
  have d: "distinct (map fst (holders s))" using s by (simp add: slots_ok_def)
  have one: "1 \<le> length (holders s)" using h by (cases "holders s") auto
  have n: "int (length (holders s)) = int (length ?h) + 1"
    using h one by (simp add: length_remove1 of_nat_diff)
  from rel have p: "pump opt ?b = (woken, g)" by (simp add: release_def)
  show ?thesis
  proof (cases rule: pump_cases [OF p])
    case 1
    with ok b bc show ?thesis by (simp add: gate_ok_def admit_woken_def)
  next
    case (2 xs w ys)
    from 2(3) have nh: "\<not> held ?h (w_key w)" and l: "int (length ?h) < ceiling_of opt (w_clean w)"
      using canAdmit_slots [OF b] by auto
    have s': "slots_ok g ((w_key w, w_clean w) # ?h)"
      using take_slot_ok [OF _ nh, of "?b\<lparr>waiting := xs @ ys\<rparr>"] b 2(5) by simp
    have gap: "w_clean v \<and> maxConcurrent opt - reserved opt \<le> inFlight g"
      if v: "v \<in> set xs \<union> set ys" and a: "canAdmit opt g (w_key v) (w_clean v)" for v
    proof -
      have gn: "inFlight g = int (length (holders s))" using s' n by (simp add: slots_ok_def)
      have old: "w_clean x \<and> maxConcurrent opt - reserved opt \<le> int (length (holders s))"
        if "x \<in> set xs \<union> set (w # ys)" "\<not> held (holders s) (w_key x)"
          "int (length (holders s)) < ceiling_of opt (w_clean x)" for x
        using ok that 2(1) canAdmit_slots [OF s] s by (auto simp: gate_ok_def slots_ok_def)
      from a have hv: "\<not> held ?h (w_key v)" "w_key v \<noteq> w_key w"
        and lv: "int (length (holders s)) < ceiling_of opt (w_clean v)"
        using canAdmit_slots [OF s'] n by (auto simp: held_iff)
      have "maxConcurrent opt - reserved opt \<le> int (length (holders s))"
      proof (cases "w_key v = key")
        case False
        then have "\<not> held (holders s) (w_key v)" using hv(1) held_remove1 [OF d h] by simp
        then show ?thesis using old [of v] lv v by auto
      next
        case True
        then have "\<not> held (holders s) (w_key w)" using nh hv(2) held_remove1 [OF d h] by simp
        then show ?thesis using old [of w] r
          by (cases "int (length (holders s)) < ceiling_of opt (w_clean w)")
            (auto simp: ceiling_of_def split: if_splits)
      qed
      with lv gn show ?thesis by (auto simp: ceiling_of_def split: if_splits)
    qed
    show ?thesis
      using ok s' ceilings_take [OF bc l r] gap 2(1)
      unfolding gate_ok_def 2(2,5) admit_woken_def by auto
  qed
qed

lemma gate_ok_step:
  assumes "gate_step opt s s'" and "gate_ok opt s" and "0 \<le> reserved opt"
  shows "gate_ok opt s'"
  using assms(1)
proof (cases rule: gate_stepE [consumes 1, case_names admit queue busy timeout finish])
  case (admit n key clean g)
  then show ?thesis using gate_ok_admit assms(2,3) by simp
next
  case (queue n key clean g)
  then have "\<not> canAdmit opt (gate s) key clean" "int (length (waiting (gate s))) < queueLimit opt"
    "g = gate s\<lparr>waiting := waiting (gate s) @ [\<lparr>w_id = n, w_key = key, w_clean = clean\<rparr>]\<rparr>"
    by (auto simp: acquire_def not_le split: if_splits)
  with assms(2) show ?thesis by (auto simp: queue(1) gate_ok_def)
next
  case (busy n key clean g)
  then have "g = gate s" by (auto simp: acquire_def split: if_splits)
  with assms(2) show ?thesis unfolding busy(1) gate_ok_def by auto
next
  case (timeout w)
  then show ?thesis
    using assms(2) set_remove1_subset [of w "waiting (gate s)"]
    by (auto simp: gate_ok_def drop_waiter_def length_remove1)
next
  case (finish key clean woken g)
  then show ?thesis using gate_ok_finish assms(2,3) by simp
qed

lemma gate_reach_ok: "gate_reach opt s \<Longrightarrow> 0 \<le> reserved opt \<Longrightarrow> gate_ok opt s"
proof (induction rule: gate_reach.induct)
  case start
  show ?case
    by (simp add: gate_ok_def idle_sys_def new_gate_def slots_ok_def ceilings_ok_def held_def dirty_def)
next
  case (more s s')
  then show ?case using gate_ok_step by blast
qed

section \<open>Properties\<close>

text \<open>
  C14. The memory ceiling. However arrivals, timeouts and completions interleave, the number of hashes in
  flight is exactly the number of runs inside the gate and at most \<open>maxConcurrent\<close>, no
  remote key has two, at most \<open>maxConcurrent - reserved\<close> of them come from principals with recent
  failures, and no more than \<open>queueLimit\<close> callers wait.
\<close>
theorem argon_gate_bounds:
  assumes "gate_reach opt s" and "0 \<le> reserved opt"
  shows "inFlight (gate s) = int (length (holders s)) \<and>
    inFlight (gate s) \<le> max 0 (maxConcurrent opt) \<and> distinct (map fst (holders s)) \<and>
    int (length (filter (\<lambda>h. \<not> snd h) (holders s))) \<le> max 0 (maxConcurrent opt - reserved opt) \<and>
    int (length (waiting (gate s))) \<le> max 0 (queueLimit opt)"
  using gate_reach_ok [OF assms] by (auto simp: gate_ok_def slots_ok_def ceilings_ok_def dirty_def)

text \<open>Two arrivals under one key: the second waits, and runs when the first is done.\<close>

definition sample_sys :: gate_sys where
  "sample_sys = \<lparr>gate = \<lparr>inFlight = 1, perKey = [(''k'', 1)], waiting = []\<rparr>, holders = [(''k'', False)]\<rparr>"

lemma sample_reach: "gate_reach ARGON_DEFAULTS sample_sys"
proof -
  have "acquire ARGON_DEFAULTS 0 ''k'' False (gate idle_sys) = (Slot, gate sample_sys)" by code_simp
  from gate_step.admit [OF this] have "gate_step ARGON_DEFAULTS idle_sys sample_sys"
    by (simp add: idle_sys_def sample_sys_def)
  then show ?thesis by (rule gate_reach.more [OF gate_reach.start])
qed

lemma argon_gate_bounds_witness: "inFlight (gate sample_sys) \<le> 4"
  using argon_gate_bounds [OF sample_reach] by (simp add: ARGON_DEFAULTS_def)

text \<open>
  The operator who knows their password gets in. In every reachable state, a principal with no recent
  failures whose key is not already hashing is admitted at once as long as fewer than \<open>reserved\<close>
  clean principals are inside: no flood of unknown logins can take the reserved slots.
\<close>
theorem reserved_slot_is_kept:
  assumes "gate_reach opt s" and "0 \<le> reserved opt" and "reserved opt \<le> maxConcurrent opt"
    and key: "key \<notin> fst ` set (holders s)"
    and few: "int (length (filter snd (holders s))) < reserved opt"
  shows "fst (acquire opt n key True (gate s)) = Slot"
proof -
  have ok: "slots_ok (gate s) (holders s)" "ceilings_ok opt (holders s)"
    using gate_reach_ok [OF assms(1,2)] by (auto simp: gate_ok_def)
  have "length (filter snd (holders s)) + dirty (holders s) = length (holders s)"
    unfolding dirty_def by (rule sum_length_filter_compl)
  then have "int (length (holders s)) < maxConcurrent opt"
    using ok(2) few assms(3) unfolding ceilings_ok_def by linarith
  then have "canAdmit opt (gate s) key True"
    using canAdmit_slots [OF ok(1)] key by (simp add: held_def ceiling_of_def)
  then show ?thesis by (simp add: acquire_def)
qed

lemma reserved_slot_is_kept_witness:
  "fst (acquire ARGON_DEFAULTS 1 ''operator'' True (gate sample_sys)) = Slot"
  by (rule reserved_slot_is_kept [OF sample_reach]) (simp_all add: ARGON_DEFAULTS_def sample_sys_def)

text \<open>
  A waiter that could run is never left asleep, but for one gap: in every reachable
  state, a waiter the gate would admit came from a clean principal and only reserved slots are
  free. A waiter with recent failures is always woken as soon as it can run, and with no reserved
  slots every waiter is.
\<close>
theorem release_wakes_who_can_run:
  assumes "gate_reach opt s" and "0 \<le> reserved opt"
    and "w \<in> set (waiting (gate s))" and "canAdmit opt (gate s) (w_key w) (w_clean w)"
  shows "w_clean w \<and> 0 < reserved opt \<and> maxConcurrent opt - reserved opt \<le> inFlight (gate s)"
proof -
  have ok: "gate_ok opt s" by (rule gate_reach_ok [OF assms(1,2)])
  then have "w_clean w" "maxConcurrent opt - reserved opt \<le> inFlight (gate s)"
    using assms(3,4) by (auto simp: gate_ok_def)
  moreover have "inFlight (gate s) < maxConcurrent opt"
    using assms(4) \<open>w_clean w\<close> by (auto simp: canAdmit_def Let_def split: if_splits)
  ultimately show ?thesis by simp
qed

text \<open>The gap, reached: \<open>a\<close>, \<open>b\<close> and \<open>k\<close> hash, \<open>d\<close> and then a clean \<open>k\<close> wait, and \<open>k\<close> finishes.\<close>

definition busy_sys :: gate_sys where
  "busy_sys = \<lparr>gate = \<lparr>inFlight = 3, perKey = [(''a'', 1), (''b'', 1), (''k'', 1)],
       waiting = [\<lparr>w_id = 0, w_key = ''d'', w_clean = False\<rparr>, \<lparr>w_id = 1, w_key = ''k'', w_clean = True\<rparr>]\<rparr>,
     holders = [(''k'', False), (''b'', False), (''a'', False)]\<rparr>"

definition stranded_sys :: gate_sys where
  "stranded_sys = \<lparr>gate = \<lparr>inFlight = 3, perKey = [(''a'', 1), (''b'', 1), (''d'', 1)],
       waiting = [\<lparr>w_id = 1, w_key = ''k'', w_clean = True\<rparr>]\<rparr>,
     holders = [(''d'', False), (''b'', False), (''a'', False)]\<rparr>"

lemma busy_reach: "gate_reach ARGON_DEFAULTS busy_sys"
proof -
  let ?opt = ARGON_DEFAULTS
  let ?g1 = "\<lparr>inFlight = 1, perKey = [(''a'', 1)], waiting = []\<rparr>"
  let ?g2 = "\<lparr>inFlight = 2, perKey = [(''a'', 1), (''b'', 1)], waiting = []\<rparr>"
  let ?g3 = "\<lparr>inFlight = 3, perKey = [(''a'', 1), (''b'', 1), (''k'', 1)], waiting = []\<rparr>"
  let ?g4 = "?g3\<lparr>waiting := [\<lparr>w_id = 0, w_key = ''d'', w_clean = False\<rparr>]\<rparr>"
  let ?hs = "[(''k'', False), (''b'', False), (''a'', False)]"
  have "acquire ?opt 0 ''a'' False (gate idle_sys) = (Slot, ?g1)" by code_simp
  from gate_step.admit [OF this] have 1: "gate_step ?opt idle_sys \<lparr>gate = ?g1, holders = [(''a'', False)]\<rparr>"
    by (simp add: idle_sys_def)
  have "acquire ?opt 0 ''b'' False (gate \<lparr>gate = ?g1, holders = [(''a'', False)]\<rparr>) = (Slot, ?g2)"
    by code_simp
  from gate_step.admit [OF this] have 2: "gate_step ?opt \<lparr>gate = ?g1, holders = [(''a'', False)]\<rparr>
      \<lparr>gate = ?g2, holders = [(''b'', False), (''a'', False)]\<rparr>" by simp
  have "acquire ?opt 0 ''k'' False (gate \<lparr>gate = ?g2, holders = [(''b'', False), (''a'', False)]\<rparr>) = (Slot, ?g3)"
    by code_simp
  from gate_step.admit [OF this] have 3: "gate_step ?opt \<lparr>gate = ?g2, holders = [(''b'', False), (''a'', False)]\<rparr>
      \<lparr>gate = ?g3, holders = ?hs\<rparr>" by simp
  have "acquire ?opt 0 ''d'' False (gate \<lparr>gate = ?g3, holders = ?hs\<rparr>) = (Waiting, ?g4)" by code_simp
  from gate_step.queue [OF this] have 4: "gate_step ?opt \<lparr>gate = ?g3, holders = ?hs\<rparr> \<lparr>gate = ?g4, holders = ?hs\<rparr>"
    by simp
  have "acquire ?opt 1 ''k'' True (gate \<lparr>gate = ?g4, holders = ?hs\<rparr>) = (Waiting, gate busy_sys)" by code_simp
  from gate_step.queue [OF this] have 5: "gate_step ?opt \<lparr>gate = ?g4, holders = ?hs\<rparr> busy_sys"
    by (simp add: busy_sys_def)
  show ?thesis by (rule gate_reach.more [OF gate_reach.more [OF gate_reach.more [OF gate_reach.more
    [OF gate_reach.more [OF gate_reach.start 1] 2] 3] 4] 5])
qed

lemma stranded_reach: "gate_reach ARGON_DEFAULTS stranded_sys"
proof -
  have "release ARGON_DEFAULTS ''k'' (gate busy_sys) =
      (Some \<lparr>w_id = 0, w_key = ''d'', w_clean = False\<rparr>, gate stranded_sys)" by code_simp
  moreover have "(''k'', False) \<in> set (holders busy_sys)" by (simp add: busy_sys_def)
  ultimately have "gate_step ARGON_DEFAULTS busy_sys stranded_sys"
    using gate_step.finish [of "''k''" False busy_sys ARGON_DEFAULTS]
    by (force simp: admit_woken_def busy_sys_def stranded_sys_def)
  then show ?thesis by (rule gate_reach.more [OF busy_reach])
qed

lemma release_wakes_who_can_run_witness:
  "maxConcurrent ARGON_DEFAULTS - reserved ARGON_DEFAULTS \<le> inFlight (gate stranded_sys)"
  using release_wakes_who_can_run [OF stranded_reach, of "\<lparr>w_id = 1, w_key = ''k'', w_clean = True\<rparr>"]
  by (simp add: stranded_sys_def ARGON_DEFAULTS_def canAdmit_def held_count_def)

text \<open>
  The gap is real with the shipped options: a state is reachable in which a slot is free, the
  waiter at the head of the queue is a clean principal the gate would admit, and no pending event
  but another completion or its own timeout will look at it, because a release wakes one waiter only.
\<close>
theorem a_clean_waiter_can_be_stranded:
  "gate_reach ARGON_DEFAULTS stranded_sys \<and>
   (\<exists>w. waiting (gate stranded_sys) = [w] \<and> w_clean w \<and>
      canAdmit ARGON_DEFAULTS (gate stranded_sys) (w_key w) (w_clean w)) \<and>
   inFlight (gate stranded_sys) < maxConcurrent ARGON_DEFAULTS"
  using stranded_reach
  by (simp add: stranded_sys_def ARGON_DEFAULTS_def canAdmit_def held_count_def)

end
