(* ===== verification/Rate_Limit.thy ===== *)
theory Rate_Limit
  imports Prelude
begin

text \<open>
  Rate buckets and sign-in lockout (\<open>src/ui/rate-limit.ts\<close>): the bucket table, the fixed-window
  counter \<open>RateLimiter\<close>, and \<open>LockoutTable\<close> with its growing delay, its epochs and its snapshot.
  Both tables are insertion-ordered maps. A verdict that deletes an entry returns the new table.
\<close>

section \<open>Buckets\<close>

record bucket_policy =
  bp_limit :: nat
  bp_windowMs :: ms

datatype bucket_name =
    SignIn | PublicSignIn | SsoEntry | Setup | Asset | InstanceProbe | Control | StoreOp | AuditedRead

fun bucket_label :: "bucket_name \<Rightarrow> string" where
  "bucket_label SignIn = ''signIn''"
| "bucket_label PublicSignIn = ''publicSignIn''"
| "bucket_label SsoEntry = ''ssoEntry''"
| "bucket_label Setup = ''setup''"
| "bucket_label Asset = ''asset''"
| "bucket_label InstanceProbe = ''instanceProbe''"
| "bucket_label Control = ''control''"
| "bucket_label StoreOp = ''storeOp''"
| "bucket_label AuditedRead = ''auditedRead''"

definition all_buckets :: "bucket_name list" where
  "all_buckets = [SignIn, PublicSignIn, SsoEntry, Setup, Asset, InstanceProbe, Control, StoreOp, AuditedRead]"

fun BUCKETS :: "bucket_name \<Rightarrow> bucket_policy" where
  "BUCKETS SignIn = \<lparr>bp_limit = 5, bp_windowMs = 60000\<rparr>"
| "BUCKETS PublicSignIn = \<lparr>bp_limit = 240, bp_windowMs = 60000\<rparr>"
| "BUCKETS SsoEntry = \<lparr>bp_limit = 240, bp_windowMs = 60000\<rparr>"
| "BUCKETS Setup = \<lparr>bp_limit = 240, bp_windowMs = 60000\<rparr>"
| "BUCKETS Asset = \<lparr>bp_limit = 3000, bp_windowMs = 60000\<rparr>"
| "BUCKETS InstanceProbe = \<lparr>bp_limit = 30, bp_windowMs = 60000\<rparr>"
| "BUCKETS Control = \<lparr>bp_limit = 30, bp_windowMs = 60000\<rparr>"
| "BUCKETS StoreOp = \<lparr>bp_limit = 60, bp_windowMs = 60000\<rparr>"
| "BUCKETS AuditedRead = \<lparr>bp_limit = 60, bp_windowMs = 60000\<rparr>"

section \<open>Fixed windows\<close>

record counting_window =
  cw_start :: ms
  cw_count :: nat

type_synonym windows = "(string \<times> counting_window) list"

datatype bucket_verdict = Admitted | Refused (retryAfterMs: ms)

definition takeWith :: "string \<Rightarrow> bucket_policy \<Rightarrow> ms \<Rightarrow> windows \<Rightarrow> bucket_verdict \<times> windows" where
  "takeWith key policy now ws =
     (let fresh = (Admitted, AList.update key \<lparr>cw_start = now, cw_count = 1\<rparr> ws)
      in case map_of ws key of
           None \<Rightarrow> fresh
         | Some w \<Rightarrow>
             if now - cw_start w \<ge> bp_windowMs policy then fresh
             else if cw_count w < bp_limit policy
               then (Admitted, AList.update key (w\<lparr>cw_count := cw_count w + 1\<rparr>) ws)
             else (Refused (bp_windowMs policy - (now - cw_start w)), ws))"

definition take_bucket :: "bucket_name \<Rightarrow> string \<Rightarrow> ms \<Rightarrow> windows \<Rightarrow> bucket_verdict \<times> windows" where
  "take_bucket b key now ws = takeWith (bucket_label b @ '':'' @ key) (BUCKETS b) now ws"

definition longest_window :: ms where
  "longest_window = Max (set (map (bp_windowMs \<circ> BUCKETS) all_buckets))"

definition sweep_windows :: "ms \<Rightarrow> windows \<Rightarrow> nat \<times> windows" where
  "sweep_windows now ws =
     (let kept = filter (\<lambda>(key, w). \<not> (now - cw_start w \<ge> longest_window)) ws
      in (length ws - length kept, kept))"

section \<open>Lockout\<close>

definition LOCKOUT_FREE_ATTEMPTS :: nat where "LOCKOUT_FREE_ATTEMPTS = 5"
definition LOCKOUT_BASE_MS :: ms where "LOCKOUT_BASE_MS = 1000"
definition LOCKOUT_MAX_MS :: ms where "LOCKOUT_MAX_MS = 15 * 60000"
definition FAILURE_MEMORY_MS :: ms where "FAILURE_MEMORY_MS = 30 * 60000"

record failure_record =
  fr_failures :: nat
  fr_lastAt :: ms
  fr_lockedUntil :: ms
  fr_epoch :: nat

datatype lockout_state = Unlocked (failures: nat) | Locked (failures: nat) (lockedFor: ms)

record lockout_table =
  lt_records :: "(string \<times> failure_record) list"
  lt_recentByRemote :: "(string \<times> ms) list"
  lt_recentByLogin :: "(string \<times> (ms \<times> nat)) list"

definition new_lockout_table :: lockout_table where
  "new_lockout_table = \<lparr>lt_records = [], lt_recentByRemote = [], lt_recentByLogin = []\<rparr>"

definition lockout_key :: "string \<Rightarrow> string \<Rightarrow> string" where
  "lockout_key login remoteKey = login @ '' '' @ remoteKey"

definition lockout_state ::
    "string \<Rightarrow> string \<Rightarrow> nat \<Rightarrow> ms \<Rightarrow> lockout_table \<Rightarrow> lockout_state \<times> lockout_table" where
  "lockout_state login remoteKey lockoutEpoch now t =
     (let key = lockout_key login remoteKey
      in case map_of (lt_records t) key of
           None \<Rightarrow> (Unlocked 0, t)
         | Some r \<Rightarrow>
             if fr_epoch r < lockoutEpoch \<or> now - fr_lastAt r > FAILURE_MEMORY_MS
             then (Unlocked 0, t\<lparr>lt_records := AList.delete key (lt_records t)\<rparr>)
             else if fr_lockedUntil r > now then (Locked (fr_failures r) (fr_lockedUntil r - now), t)
             else (Unlocked (fr_failures r), t))"

text \<open>
  The delay after that many failures. \<open>2 ** (over - 1)\<close> is a float in the source; it is exact up to
  the ceiling and only grows past it, so the minimum is the same number.
\<close>

definition lockout_delay :: "nat \<Rightarrow> ms" where
  "lockout_delay fails =
     (let over = int fails - int LOCKOUT_FREE_ATTEMPTS
      in if over \<le> 0 then 0 else min (LOCKOUT_BASE_MS * 2 ^ nat (over - 1)) LOCKOUT_MAX_MS)"

definition recordFailure ::
    "string \<Rightarrow> string \<Rightarrow> nat \<Rightarrow> ms \<Rightarrow> lockout_table \<Rightarrow> lockout_state \<times> lockout_table" where
  "recordFailure login remoteKey lockoutEpoch now t0 =
     (let key = lockout_key login remoteKey;
          (current, t) = lockout_state login remoteKey lockoutEpoch now t0;
          fails = failures current + 1;
          delay = lockout_delay fails;
          t1 = t\<lparr>lt_records := AList.update key
                   \<lparr>fr_failures = fails, fr_lastAt = now, fr_lockedUntil = now + delay,
                    fr_epoch = lockoutEpoch\<rparr> (lt_records t),
                 lt_recentByRemote := AList.update remoteKey now (lt_recentByRemote t),
                 lt_recentByLogin := AList.update login (now, lockoutEpoch) (lt_recentByLogin t)\<rparr>
      in (if delay > 0 then Locked fails delay else Unlocked fails, t1))"

definition recordSuccess :: "string \<Rightarrow> string \<Rightarrow> lockout_table \<Rightarrow> lockout_table" where
  "recordSuccess login remoteKey t =
     t\<lparr>lt_records := AList.delete (lockout_key login remoteKey) (lt_records t),
       lt_recentByLogin := AList.delete login (lt_recentByLogin t)\<rparr>"

definition isClean :: "string \<Rightarrow> ms \<Rightarrow> lockout_table \<Rightarrow> bool" where
  "isClean remoteKey now t \<longleftrightarrow>
     (case map_of (lt_recentByRemote t) remoteKey of
        None \<Rightarrow> True | Some seen \<Rightarrow> now - seen > FAILURE_MEMORY_MS)"

definition isCleanPrincipal :: "string \<Rightarrow> string \<Rightarrow> ms \<Rightarrow> nat \<Rightarrow> lockout_table \<Rightarrow> bool" where
  "isCleanPrincipal login remoteKey now lockoutEpoch t \<longleftrightarrow>
     isClean remoteKey now t \<or>
     (case map_of (lt_recentByLogin t) login of
        None \<Rightarrow> True
      | Some (seen, epoch) \<Rightarrow> epoch < lockoutEpoch \<or> now - seen > FAILURE_MEMORY_MS)"

definition sweep_lockouts :: "ms \<Rightarrow> lockout_table \<Rightarrow> nat \<times> lockout_table" where
  "sweep_lockouts now t =
     (let kept = filter (\<lambda>(key, r). \<not> (now - fr_lastAt r > FAILURE_MEMORY_MS)) (lt_records t)
      in (length (lt_records t) - length kept,
          t\<lparr>lt_records := kept,
            lt_recentByRemote :=
              filter (\<lambda>(key, seen). \<not> (now - seen > FAILURE_MEMORY_MS)) (lt_recentByRemote t),
            lt_recentByLogin :=
              filter (\<lambda>(key, (seen, epoch)). \<not> (now - seen > FAILURE_MEMORY_MS)) (lt_recentByLogin t)\<rparr>))"

definition snapshot :: "lockout_table \<Rightarrow> (string \<times> failure_record) list" where
  "snapshot t = lt_records t"

text \<open>
  One snapshot entry read back: \<open>const [login, remoteKey] = key.split(" ")\<close>, each used only when it
  is present and not empty.
\<close>

definition hydrate_entry :: "ms \<Rightarrow> lockout_table \<Rightarrow> string \<times> failure_record \<Rightarrow> lockout_table" where
  "hydrate_entry now t entry =
     (let (key, r) = entry
      in if now - fr_lastAt r > FAILURE_MEMORY_MS then t
         else
           let parts = split_on (CHR '' '') key;
               t1 = t\<lparr>lt_records := AList.update key r (lt_records t)\<rparr>;
               t2 = (if length parts > 1 \<and> parts ! 1 \<noteq> []
                     then t1\<lparr>lt_recentByRemote := AList.update (parts ! 1) (fr_lastAt r) (lt_recentByRemote t1)\<rparr>
                     else t1)
           in if parts ! 0 \<noteq> []
              then t2\<lparr>lt_recentByLogin := AList.update (parts ! 0) (fr_lastAt r, fr_epoch r) (lt_recentByLogin t2)\<rparr>
              else t2)"

definition hydrate :: "ms \<Rightarrow> (string \<times> failure_record) list \<Rightarrow> lockout_table \<Rightarrow> lockout_table" where
  "hydrate now entries t = foldl (hydrate_entry now) t entries"

section \<open>Lemmas: windows\<close>

abbreviation bucket_key :: "bucket_name \<Rightarrow> string \<Rightarrow> string" where
  "bucket_key b key \<equiv> bucket_label b @ CHR '':'' # key"

lemma bucket_label_no_colon: "CHR '':'' \<notin> set (bucket_label b)"
  by (cases b) auto

lemma bucket_label_inject: "bucket_label b = bucket_label b' \<Longrightarrow> b = b'"
  by (cases b; cases b') auto

lemma bucket_key_inject: "bucket_key b key = bucket_key b' key' \<longleftrightarrow> b = b' \<and> key = key'"
  using sep_append_eq [OF bucket_label_no_colon [of b] bucket_label_no_colon [of b'], of key key']
  by (auto dest: bucket_label_inject)

lemma bucket_window [limit_simps, simp]: "bp_windowMs (BUCKETS b) = 60000"
  by (cases b) auto

lemma bucket_limit_pos: "1 \<le> bp_limit (BUCKETS b)"
  by (cases b) auto

lemma longest_window_eq [limit_simps, simp]: "longest_window = 60000"
  by (simp add: longest_window_def all_buckets_def)

definition windows_ok :: "windows \<Rightarrow> bool" where
  "windows_ok ws \<longleftrightarrow> distinct (map fst ws)"

lemma windows_ok_take: "windows_ok ws \<Longrightarrow> windows_ok (snd (take_bucket b key now ws))"
  by (auto simp: windows_ok_def take_bucket_def takeWith_def Let_def distinct_update split: option.splits)

lemma windows_ok_sweep: "windows_ok ws \<Longrightarrow> windows_ok (snd (sweep_windows now ws))"
  by (simp add: windows_ok_def sweep_windows_def Let_def distinct_fst_filter)

lemma map_of_sweep_windows:
  "windows_ok ws \<Longrightarrow> map_of (snd (sweep_windows now ws)) K =
     (case map_of ws K of None \<Rightarrow> None | Some w \<Rightarrow> if now - cw_start w < 60000 then Some w else None)"
  using map_of_filter_value [of ws "\<lambda>w. \<not> (now - cw_start w \<ge> 60000)" K]
  by (simp add: windows_ok_def sweep_windows_def Let_def split: option.splits)

interpretation rate_windows: expiring_table
  "\<lambda>ws (b, key) now. fst (take_bucket b key now ws)" "\<lambda>now ws. snd (sweep_windows now ws)" windows_ok
  by unfold_locales
    (auto simp: windows_ok_sweep take_bucket_def takeWith_def Let_def map_of_sweep_windows
      split: option.splits)

datatype limiter_event = Take bucket_name string ms | Sweep ms

fun limiter_time :: "limiter_event \<Rightarrow> ms" where
  "limiter_time (Take b key now) = now"
| "limiter_time (Sweep now) = now"

text \<open>How many takes of one bucket and key a run admits.\<close>

fun admitted :: "bucket_name \<Rightarrow> string \<Rightarrow> windows \<Rightarrow> limiter_event list \<Rightarrow> nat" where
  "admitted b key ws [] = 0"
| "admitted b key ws (Take b' key' now # es) =
     (let (v, ws') = take_bucket b' key' now ws
      in (if b' = b \<and> key' = key \<and> v = Admitted then 1 else 0) + admitted b key ws' es)"
| "admitted b key ws (Sweep now # es) = admitted b key (snd (sweep_windows now ws)) es"

text \<open>The most a run can still admit up to \<open>t1\<close>, from a table at time \<open>now\<close>.\<close>

definition headroom :: "nat \<Rightarrow> counting_window option \<Rightarrow> ms \<Rightarrow> ms \<Rightarrow> int" where
  "headroom L w now t1 =
     (case w of
        None \<Rightarrow> int L * ((t1 - now) div 60000 + 1)
      | Some w \<Rightarrow> (int L - int (cw_count w)) + int L * ((t1 - cw_start w) div 60000))"

definition window_ok :: "nat \<Rightarrow> counting_window option \<Rightarrow> ms \<Rightarrow> bool" where
  "window_ok L w now \<longleftrightarrow> (case w of None \<Rightarrow> True | Some w \<Rightarrow> cw_start w \<le> now \<and> cw_count w \<le> L)"

lemma div_shift: "(s :: int) + 60000 \<le> n \<Longrightarrow> (t - n) div 60000 + 1 \<le> (t - s) div 60000"
proof -
  assume "s + 60000 \<le> n"
  then have "((t - n) + 60000) div 60000 \<le> (t - s) div 60000" by (intro zdiv_mono1) auto
  then show ?thesis by simp
qed

lemma headroom_expired:
  assumes "window_ok L (Some w) now" "60000 \<le> now - cw_start w"
  shows "headroom L None now t1 \<le> headroom L (Some w) now t1"
proof -
  have "int L * ((t1 - now) div 60000 + 1) \<le> int L * ((t1 - cw_start w) div 60000)"
    using assms(2) by (intro mult_left_mono div_shift) auto
  with assms(1) show ?thesis by (simp add: headroom_def window_ok_def)
qed

lemma headroom_later:
  assumes "now \<le> now'"
  shows "headroom L w now' t1 \<le> headroom L w now t1"
proof -
  have "int L * ((t1 - now') div 60000) \<le> int L * ((t1 - now) div 60000)"
    using assms by (intro mult_left_mono zdiv_mono1) auto
  then show ?thesis by (auto simp: headroom_def algebra_simps split: option.split)
qed

lemma headroom_nonneg: "window_ok L w now \<Longrightarrow> now \<le> t1 \<Longrightarrow> 0 \<le> headroom L w now t1"
  by (auto simp: headroom_def window_ok_def pos_imp_zdiv_nonneg_iff split: option.splits)

lemma take_headroom:
  assumes "window_ok (bp_limit (BUCKETS b)) (map_of ws (bucket_key b key)) now"
    and "take_bucket b key now ws = (v, ws')"
  shows "window_ok (bp_limit (BUCKETS b)) (map_of ws' (bucket_key b key)) now
    \<and> (if v = Admitted then 1 else 0) + headroom (bp_limit (BUCKETS b)) (map_of ws' (bucket_key b key)) now t1
        \<le> headroom (bp_limit (BUCKETS b)) (map_of ws (bucket_key b key)) now t1"
proof -
  let ?L = "bp_limit (BUCKETS b)" and ?w = "map_of ws (bucket_key b key)"
  have L: "1 \<le> ?L" by (rule bucket_limit_pos)
  have fresh: "1 + headroom ?L (Some \<lparr>cw_start = now, cw_count = 1\<rparr>) now t1 = headroom ?L None now t1"
    by (simp add: headroom_def algebra_simps)
  show ?thesis
  proof (cases ?w)
    case None
    with assms L fresh show ?thesis
      by (auto simp: take_bucket_def takeWith_def Let_def window_ok_def)
  next
    case (Some w)
    show ?thesis
    proof (cases "60000 \<le> now - cw_start w")
      case True
      with assms Some L fresh headroom_expired [of ?L w now t1] show ?thesis
        by (auto simp: take_bucket_def takeWith_def Let_def window_ok_def)
    next
      case False
      with assms Some L show ?thesis
        by (auto simp: take_bucket_def takeWith_def Let_def window_ok_def headroom_def split: if_splits)
    qed
  qed
qed

lemma take_other:
  "(b, key) \<noteq> (b', key') \<Longrightarrow> map_of (snd (take_bucket b' key' now ws)) (bucket_key b key) = map_of ws (bucket_key b key)"
  using bucket_key_inject [of b key b' key']
  by (auto simp: take_bucket_def takeWith_def Let_def split: option.splits)

lemma admitted_headroom:
  assumes "windows_ok ws" "window_ok (bp_limit (BUCKETS b)) (map_of ws (bucket_key b key)) now"
    "sorted (now # map limiter_time es)" "\<forall>e \<in> set es. limiter_time e \<le> t1" "now \<le> t1"
  shows "int (admitted b key ws es) \<le> headroom (bp_limit (BUCKETS b)) (map_of ws (bucket_key b key)) now t1"
  using assms
proof (induction es arbitrary: ws now)
  case Nil
  then show ?case by (simp add: headroom_nonneg)
next
  case (Cons e es)
  let ?L = "bp_limit (BUCKETS b)" and ?K = "bucket_key b key"
  let ?now = "limiter_time e"
  have t: "now \<le> ?now" "?now \<le> t1" "sorted (?now # map limiter_time es)" "\<forall>e \<in> set es. limiter_time e \<le> t1"
    using Cons.prems by auto
  have ok: "window_ok ?L (map_of ws ?K) ?now"
    using Cons.prems(2) t(1) by (auto simp: window_ok_def split: option.splits)
  have later: "headroom ?L (map_of ws ?K) ?now t1 \<le> headroom ?L (map_of ws ?K) now t1"
    using t(1) by (rule headroom_later)
  show ?case
  proof (cases e)
    case (Sweep n)
    let ?ws = "snd (sweep_windows n ws)"
    have m: "map_of ?ws ?K = (case map_of ws ?K of None \<Rightarrow> None | Some w \<Rightarrow> if n - cw_start w < 60000 then Some w else None)"
      by (rule map_of_sweep_windows [OF Cons.prems(1)])
    with ok Sweep have "window_ok ?L (map_of ?ws ?K) ?now"
      by (auto simp: window_ok_def split: option.splits)
    moreover have "headroom ?L (map_of ?ws ?K) ?now t1 \<le> headroom ?L (map_of ws ?K) ?now t1"
      using ok Sweep headroom_expired [of ?L _ n t1] by (auto simp: m not_less split: option.split)
    ultimately show ?thesis
      using Cons.IH [OF windows_ok_sweep [OF Cons.prems(1), of n] _ t(3,4,2)] Sweep later by force
  next
    case (Take b' key' n)
    obtain v ws' where take: "take_bucket b' key' n ws = (v, ws')" by force
    then have ws': "windows_ok ws'" using windows_ok_take [OF Cons.prems(1), of b' key' n] by simp
    show ?thesis
    proof (cases "b' = b \<and> key' = key")
      case True
      with take_headroom [of b ws key ?now v ws' t1] ok take Take
      have "window_ok ?L (map_of ws' ?K) ?now"
        "(if v = Admitted then 1 else 0) + headroom ?L (map_of ws' ?K) ?now t1 \<le> headroom ?L (map_of ws ?K) ?now t1"
        by auto
      with Cons.IH [OF ws' _ t(3,4,2)] take Take True later show ?thesis by force
    next
      case False
      then have "map_of ws' ?K = map_of ws ?K" using take_other [of b key b' key' n ws] take by auto
      with Cons.IH [OF ws' _ t(3,4,2)] ok take Take False later show ?thesis by force
    qed
  qed
qed

section \<open>Lemmas: lockout\<close>

lemma lockout_key_inject:
  assumes "CHR '' '' \<notin> set login" "CHR '' '' \<notin> set login'"
  shows "lockout_key login r = lockout_key login' r' \<longleftrightarrow> login = login' \<and> r = r'"
  using sep_append_eq [OF assms, of r r'] by (simp add: lockout_key_def)

lemma lockout_delay_bounds: "0 \<le> lockout_delay n \<and> lockout_delay n \<le> 900000"
  by (simp add: lockout_delay_def Let_def LOCKOUT_MAX_MS_def LOCKOUT_BASE_MS_def)

lemma lockout_delay_free: "n \<le> 5 \<Longrightarrow> lockout_delay n = 0"
  by (simp add: lockout_delay_def Let_def LOCKOUT_FREE_ATTEMPTS_def)

lemma lockout_delay_over: "lockout_delay (n + 6) = min (1000 * 2 ^ n) 900000"
  by (simp add: lockout_delay_def Let_def LOCKOUT_FREE_ATTEMPTS_def LOCKOUT_MAX_MS_def LOCKOUT_BASE_MS_def)

lemma lockout_delay_pos: "0 < lockout_delay n \<longleftrightarrow> 5 < n"
proof (cases "n \<le> 5")
  case False
  then have "lockout_delay n = min (1000 * 2 ^ (n - 6)) 900000"
    using lockout_delay_over [of "n - 6"] by simp
  with False show ?thesis by simp
qed (simp add: lockout_delay_free)

text \<open>Every record carries the deadline its own failures earned.\<close>

definition record_ok :: "failure_record \<Rightarrow> bool" where
  "record_ok r \<longleftrightarrow> fr_lockedUntil r = fr_lastAt r + lockout_delay (fr_failures r)"

definition lockouts_ok :: "lockout_table \<Rightarrow> bool" where
  "lockouts_ok t \<longleftrightarrow>
     distinct (map fst (lt_records t)) \<and> (\<forall>r \<in> snd ` set (lt_records t). record_ok r)"

lemma lockouts_ok_record: "lockouts_ok t \<Longrightarrow> map_of (lt_records t) k = Some r \<Longrightarrow> record_ok r"
  by (force simp: lockouts_ok_def dest: map_of_SomeD)

lemma records_ok_update:
  assumes ok: "lockouts_ok t" "record_ok r" and t': "lt_records t' = AList.update k r (lt_records t)"
  shows "lockouts_ok t'"
proof -
  have "\<forall>x \<in> snd ` set (lt_records t'). record_ok x"
    using ok set_update_values [of k r "lt_records t"] unfolding t' lockouts_ok_def by blast
  moreover have "distinct (map fst (lt_records t'))"
    using ok(1) unfolding t' lockouts_ok_def by (simp add: distinct_update)
  ultimately show ?thesis by (simp add: lockouts_ok_def)
qed

lemma records_ok_subset:
  assumes "lockouts_ok t" "set (lt_records t') \<subseteq> set (lt_records t)" "distinct (map fst (lt_records t'))"
  shows "lockouts_ok t'"
  using assms unfolding lockouts_ok_def by blast

lemma lockouts_ok_delete:
  "lockouts_ok t \<Longrightarrow> lt_records t' = AList.delete k (lt_records t) \<Longrightarrow> lockouts_ok t'"
  using set_delete_le [of k "lt_records t"]
  by (intro records_ok_subset [of t t']) (auto simp only: lockouts_ok_def distinct_fst_delete)

lemma lockouts_ok_state: "lockouts_ok t \<Longrightarrow> lockouts_ok (snd (lockout_state l r e now t))"
  by (auto simp: lockout_state_def Let_def split: option.split intro: lockouts_ok_delete)

lemma lockouts_ok_failure:
  assumes "lockouts_ok t"
  shows "lockouts_ok (snd (recordFailure l r e now t))"
proof -
  let ?n = "failures (fst (lockout_state l r e now t)) + 1"
  let ?r = "\<lparr>fr_failures = ?n, fr_lastAt = now, fr_lockedUntil = now + lockout_delay ?n, fr_epoch = e\<rparr>"
  have "lt_records (snd (recordFailure l r e now t))
      = AList.update (lockout_key l r) ?r (lt_records (snd (lockout_state l r e now t)))"
    by (simp add: recordFailure_def Let_def split_beta)
  then show ?thesis
    by (rule records_ok_update [OF lockouts_ok_state [OF assms], rotated]) (simp add: record_ok_def)
qed

lemma lockouts_ok_success: "lockouts_ok t \<Longrightarrow> lockouts_ok (recordSuccess l r t)"
  by (rule lockouts_ok_delete) (simp_all add: recordSuccess_def)

lemma lockouts_ok_sweep: "lockouts_ok t \<Longrightarrow> lockouts_ok (snd (sweep_lockouts now t))"
  by (rule records_ok_subset) (auto simp: sweep_lockouts_def Let_def lockouts_ok_def distinct_fst_filter)

lemma lockouts_ok_new: "lockouts_ok new_lockout_table"
  by (simp add: lockouts_ok_def new_lockout_table_def)

datatype lockout_event =
    Check string string nat ms
  | Failure string string nat ms
  | Success string string
  | SweepLockouts ms

fun lockout_step :: "lockout_table \<Rightarrow> lockout_event \<Rightarrow> lockout_table" where
  "lockout_step t (Check l r e now) = snd (lockout_state l r e now t)"
| "lockout_step t (Failure l r e now) = snd (recordFailure l r e now t)"
| "lockout_step t (Success l r) = recordSuccess l r t"
| "lockout_step t (SweepLockouts now) = snd (sweep_lockouts now t)"

interpretation lockouts: kept_invariant lockout_step lockouts_ok
proof
  fix t e
  assume "lockouts_ok t"
  then show "lockouts_ok (lockout_step t e)"
    by (cases e) (simp_all add: lockouts_ok_state lockouts_ok_failure lockouts_ok_success lockouts_ok_sweep)
qed

lemma map_of_sweep_lockouts:
  "lockouts_ok t \<Longrightarrow> map_of (lt_records (snd (sweep_lockouts now t))) K =
     (case map_of (lt_records t) K of None \<Rightarrow> None
      | Some r \<Rightarrow> if now - fr_lastAt r \<le> FAILURE_MEMORY_MS then Some r else None)"
  using map_of_filter_value [of "lt_records t" "\<lambda>r. \<not> (now - fr_lastAt r > FAILURE_MEMORY_MS)" K]
  by (simp add: lockouts_ok_def sweep_lockouts_def Let_def not_less split: option.splits)

interpretation lockout_entries: expiring_table
  "\<lambda>t (l, r, e) now. fst (lockout_state l r e now t)" "\<lambda>now t. snd (sweep_lockouts now t)" lockouts_ok
  by unfold_locales
    (auto simp: lockouts_ok_sweep lockout_state_def Let_def map_of_sweep_lockouts split: option.split)

text \<open>What a hydrated table holds for a key: the snapshot's entry, unless it was already stale.\<close>

lemma lt_records_hydrate_entry:
  "lt_records (hydrate_entry now t (k, r)) =
     (if now - fr_lastAt r > FAILURE_MEMORY_MS then lt_records t else AList.update k r (lt_records t))"
  by (simp add: hydrate_entry_def Let_def)

lemma map_of_hydrate:
  assumes "distinct (map fst es)"
  shows "map_of (lt_records (hydrate now es t)) K =
    (case map_of es K of
       Some r \<Rightarrow> if now - fr_lastAt r \<le> FAILURE_MEMORY_MS then Some r else map_of (lt_records t) K
     | None \<Rightarrow> map_of (lt_records t) K)"
  using assms
proof (induction es arbitrary: t)
  case Nil
  then show ?case by (simp add: hydrate_def)
next
  case (Cons e es)
  obtain k r where e: "e = (k, r)" by force
  with Cons.prems have "map_of es k = None" by (auto simp: map_of_eq_None_iff)
  with Cons e show ?case
    by (auto simp: hydrate_def lt_records_hydrate_entry split: option.split)
qed

lemma lockouts_ok_hydrate_entry:
  assumes "lockouts_ok t" "record_ok r"
  shows "lockouts_ok (hydrate_entry now t (k, r))"
proof (cases "now - fr_lastAt r > FAILURE_MEMORY_MS")
  case True
  with assms show ?thesis by (simp add: hydrate_entry_def)
next
  case False
  then show ?thesis
    by (intro records_ok_update [OF assms, of _ k]) (simp add: lt_records_hydrate_entry)
qed

lemma lockouts_ok_hydrate:
  "lockouts_ok t \<Longrightarrow> \<forall>r \<in> snd ` set es. record_ok r \<Longrightarrow> lockouts_ok (hydrate now es t)"
proof (induction es arbitrary: t)
  case (Cons en es)
  then show ?case by (cases en) (simp add: hydrate_def lockouts_ok_hydrate_entry)
qed (simp add: hydrate_def)

text \<open>A run of failures by one principal, from any table.\<close>

fun failures_at :: "string \<Rightarrow> string \<Rightarrow> nat \<Rightarrow> ms list \<Rightarrow> lockout_table \<Rightarrow> lockout_table" where
  "failures_at l r e [] t = t"
| "failures_at l r e (now # ts) t = failures_at l r e ts (snd (recordFailure l r e now t))"

fun spaced :: "ms list \<Rightarrow> bool" where
  "spaced (a # b # ts) \<longleftrightarrow> a \<le> b \<and> b - a \<le> 1800000 \<and> spaced (b # ts)"
| "spaced _ \<longleftrightarrow> True"

lemma recordFailure_record:
  "map_of (lt_records (snd (recordFailure l r e now t))) (lockout_key l r) =
     (let n = failures (fst (lockout_state l r e now t)) + 1
      in Some \<lparr>fr_failures = n, fr_lastAt = now, fr_lockedUntil = now + lockout_delay n, fr_epoch = e\<rparr>)"
  by (simp add: recordFailure_def Let_def split_beta)

lemma failures_at_record:
  assumes "map_of (lt_records t) (lockout_key l r) =
      Some \<lparr>fr_failures = n, fr_lastAt = t0, fr_lockedUntil = t0 + lockout_delay n, fr_epoch = e\<rparr>"
    and "spaced (t0 # ts)"
  shows "map_of (lt_records (failures_at l r e ts t)) (lockout_key l r) =
      Some \<lparr>fr_failures = n + length ts, fr_lastAt = last (t0 # ts),
        fr_lockedUntil = last (t0 # ts) + lockout_delay (n + length ts), fr_epoch = e\<rparr>"
  using assms
proof (induction ts arbitrary: t n t0)
  case (Cons a ts)
  have "failures (fst (lockout_state l r e a t)) = n"
    using Cons.prems by (auto simp: lockout_state_def Let_def FAILURE_MEMORY_MS_def)
  then have "map_of (lt_records (snd (recordFailure l r e a t))) (lockout_key l r) =
      Some \<lparr>fr_failures = Suc n, fr_lastAt = a, fr_lockedUntil = a + lockout_delay (Suc n), fr_epoch = e\<rparr>"
    by (simp add: recordFailure_record Let_def)
  from Cons.IH [OF this] Cons.prems show ?case by simp
qed simp

section \<open>Properties\<close>

text \<open>
  C13. A bucket never admits more than its limit per window. From an empty limiter, over any run of
  takes of any buckets and keys and of sweeps, in time order between \<open>t0\<close> and \<open>t1\<close>, the takes
  admitted for one bucket and key are at most its limit times the number of windows that fit.
\<close>

theorem bucket_rate_bounded:
  assumes "sorted (t0 # map limiter_time es)" and "\<forall>e \<in> set es. limiter_time e \<le> t1" and "t0 \<le> t1"
  shows "int (admitted b key [] es) \<le> int (bp_limit (BUCKETS b)) * ((t1 - t0) div 60000 + 1)"
  using admitted_headroom [of "[]" b key t0 es t1] assms
  by (simp add: windows_ok_def window_ok_def headroom_def)

text \<open>
  A refusal states its wait honestly, and only for its own key: the wait is positive and at
  most the window, a second take of the same key is refused until exactly that long after and
  admitted from then on, and another bucket or key is answered as if the refused take had not been.
\<close>

theorem refusal_is_honest:
  assumes "take_bucket b key now ws = (Refused w, ws')"
    and "\<forall>win. map_of ws (bucket_label b @ CHR '':'' # key) = Some win \<longrightarrow> cw_start win \<le> now"
  shows "0 < w \<and> w \<le> 60000 \<and> ws' = ws
    \<and> (\<forall>later \<ge> now. fst (take_bucket b key later ws') = Admitted \<longleftrightarrow> now + w \<le> later)"
  using assms
  by (auto simp: take_bucket_def takeWith_def Let_def split: option.splits if_splits)

text \<open>
  A lockout is a delay and never a wall. After any run of checks, failures, successes and
  sweeps at times up to \<open>now\<close>, a locked answer asks for at most fifteen minutes and is unlocked
  once they have passed, if the principal does not fail again.
\<close>

theorem lockout_always_ends:
  assumes "fst (lockout_state login remoteKey e now (foldl lockout_step new_lockout_table es)) = Locked n w"
    and "\<forall>r \<in> snd ` set (lt_records (foldl lockout_step new_lockout_table es)). fr_lastAt r \<le> now"
  shows "0 < w \<and> w \<le> 900000 \<and>
    (\<forall>later \<ge> now + w. \<exists>m. fst (lockout_state login remoteKey e later (foldl lockout_step new_lockout_table es)) = Unlocked m)"
proof -
  let ?t = "foldl lockout_step new_lockout_table es"
  have ok: "lockouts_ok ?t" by (rule lockouts.run_ok [OF lockouts_ok_new])
  from assms(1) obtain r where r: "map_of (lt_records ?t) (lockout_key login remoteKey) = Some r"
    "w = fr_lockedUntil r - now" "now < fr_lockedUntil r"
    by (auto simp: lockout_state_def Let_def split: option.splits if_splits)
  from lockouts_ok_record [OF ok r(1)] have "fr_lockedUntil r = fr_lastAt r + lockout_delay (fr_failures r)"
    by (simp add: record_ok_def)
  moreover have "fr_lastAt r \<le> now" using assms(2) r(1) by (force dest: map_of_SomeD)
  ultimately have "w \<le> 900000" using r(2) lockout_delay_bounds [of "fr_failures r"] by linarith
  with r show ?thesis by (auto simp: lockout_state_def Let_def)
qed

text \<open>
  The schedule of the delay: \<open>k\<close> failures in a row, none later than half an hour after the one
  before, leave a principal with no history unlocked for \<open>k\<close> up to five, and locked for one second
  doubled per further failure, up to fifteen minutes, from the sixth on.
\<close>

theorem lockout_schedule:
  assumes "map_of (lt_records t) (lockout_key login remoteKey) = None" and "spaced (t0 # ts)"
    and "k = length (t0 # ts)"
  shows "fst (lockout_state login remoteKey e (last (t0 # ts)) (failures_at login remoteKey e (t0 # ts) t)) =
    (if k \<le> 5 then Unlocked k else Locked k (min (1000 * 2 ^ (k - 6)) 900000))"
proof -
  let ?t' = "failures_at login remoteKey e (t0 # ts) t"
  have "failures (fst (lockout_state login remoteKey e t0 t)) = 0"
    using assms(1) by (simp add: lockout_state_def Let_def)
  then have "map_of (lt_records (snd (recordFailure login remoteKey e t0 t))) (lockout_key login remoteKey)
      = Some \<lparr>fr_failures = 1, fr_lastAt = t0, fr_lockedUntil = t0 + lockout_delay 1, fr_epoch = e\<rparr>"
    by (simp add: recordFailure_record)
  from failures_at_record [OF this assms(2)] assms(3)
  have "map_of (lt_records ?t') (lockout_key login remoteKey)
      = Some \<lparr>fr_failures = k, fr_lastAt = last (t0 # ts), fr_lockedUntil = last (t0 # ts) + lockout_delay k, fr_epoch = e\<rparr>"
    by simp
  moreover have "lockout_delay k = (if k \<le> 5 then 0 else min (1000 * 2 ^ (k - 6)) 900000)"
    using lockout_delay_over [of "k - 6"] lockout_delay_free [of k] by (cases "k \<le> 5") auto
  ultimately show ?thesis
    by (simp add: lockout_state_def Let_def FAILURE_MEMORY_MS_def)
qed

text \<open>
  A lockout is never org-wide: a failure recorded for one login and remote changes no answer for
  any other pair (logins hold no space, as the login pattern guarantees), and a proven password or
  a reset of the account's epoch clears the pair it names.
\<close>

theorem lockout_is_per_principal:
  assumes "CHR '' '' \<notin> set login" and "CHR '' '' \<notin> set other" and "(login, remoteKey) \<noteq> (other, remote)"
  shows "fst (lockout_state other remote e' later (snd (recordFailure login remoteKey e now t)))
      = fst (lockout_state other remote e' later t)
    \<and> fst (lockout_state login remoteKey e later (recordSuccess login remoteKey t)) = Unlocked 0
    \<and> (e < e' \<longrightarrow> fst (lockout_state login remoteKey e' later (snd (recordFailure login remoteKey e now t))) = Unlocked 0)"
proof -
  have neq: "lockout_key login remoteKey \<noteq> lockout_key other remote"
    using assms by (auto simp: lockout_key_inject)
  have "map_of (lt_records (snd (recordFailure login remoteKey e now t))) (lockout_key other remote)
      = map_of (lt_records t) (lockout_key other remote)"
    using neq by (auto simp: recordFailure_def lockout_state_def Let_def split_beta split: option.split)
  then show ?thesis
    by (simp add: lockout_state_def recordSuccess_def recordFailure_record Let_def split: option.split)
qed

text \<open>
  A restart hands nobody a clean slate: a table rebuilt from its snapshot gives every principal
  the answer it gave before, at every later time, and so does a table that was swept any number of
  times in between.
\<close>

theorem lockout_survives_restart:
  assumes "lockouts_ok t" and "now \<le> later" and "\<forall>s \<in> set sweeps. s \<le> later"
  shows "fst (lockout_state login remoteKey e later
        (foldl (\<lambda>t s. snd (sweep_lockouts s t)) (hydrate now (snapshot t) new_lockout_table) sweeps))
      = fst (lockout_state login remoteKey e later t)"
proof -
  let ?h = "hydrate now (snapshot t) new_lockout_table"
  have "\<forall>r \<in> snd ` set (snapshot t). record_ok r"
    using assms(1) by (simp add: lockouts_ok_def snapshot_def)
  then have "lockouts_ok ?h" by (rule lockouts_ok_hydrate [OF lockouts_ok_new])
  from lockout_entries.sweeps_invisible [OF this assms(3), of "(login, remoteKey, e)"]
  have "fst (lockout_state login remoteKey e later (foldl (\<lambda>t s. snd (sweep_lockouts s t)) ?h sweeps))
      = fst (lockout_state login remoteKey e later ?h)" by simp
  also have "\<dots> = fst (lockout_state login remoteKey e later t)"
  proof -
    have "map_of (lt_records ?h) K = (case map_of (lt_records t) K of None \<Rightarrow> None
        | Some r \<Rightarrow> if now - fr_lastAt r \<le> FAILURE_MEMORY_MS then Some r else None)" for K
      using assms(1) map_of_hydrate [of "lt_records t" now new_lockout_table K]
      by (simp add: snapshot_def lockouts_ok_def new_lockout_table_def split: option.split)
    then show ?thesis
      using assms(2) by (cases "map_of (lt_records t) (lockout_key login remoteKey)")
        (auto simp: lockout_state_def Let_def)
  qed
  finally show ?thesis .
qed

section \<open>Witnesses\<close>

theorem bucket_rate_bounded_witness:
  "admitted SignIn ''u r'' []
     [Take SignIn ''u r'' 0, Take SignIn ''u r'' 1, Take Control ''u r'' 2, Take SignIn ''u r'' 60000] \<le> 10"
  using bucket_rate_bounded
    [of 0 "[Take SignIn ''u r'' 0, Take SignIn ''u r'' 1, Take Control ''u r'' 2, Take SignIn ''u r'' 60000]"
      60000 SignIn "''u r''"]
  by simp

theorem refusal_is_honest_witness:
  "fst (take_bucket InstanceProbe ''r'' 59999
      [(''instanceProbe:r'', \<lparr>cw_start = 0, cw_count = 30\<rparr>)]) \<noteq> Admitted"
proof -
  let ?ws = "[(''instanceProbe:r'', \<lparr>cw_start = 0, cw_count = 30\<rparr>)]"
  have "take_bucket InstanceProbe ''r'' 100 ?ws = (Refused 59900, ?ws)"
    by (simp add: take_bucket_def takeWith_def Let_def)
  from refusal_is_honest [OF this] show ?thesis by simp
qed

definition demo_failures :: "lockout_event list" where
  "demo_failures = map (Failure ''alice'' ''r'' 0) [0, 1, 2, 3, 4, 5]"

theorem lockout_always_ends_witness:
  "\<exists>m. fst (lockout_state ''alice'' ''r'' 0 900010 (foldl lockout_step new_lockout_table demo_failures)) = Unlocked m"
proof -
  have t: "foldl lockout_step new_lockout_table demo_failures =
      \<lparr>lt_records = [(''alice r'', \<lparr>fr_failures = 6, fr_lastAt = 5, fr_lockedUntil = 1005, fr_epoch = 0\<rparr>)],
       lt_recentByRemote = [(''r'', 5)], lt_recentByLogin = [(''alice'', (5, 0))]\<rparr>"
    by (simp add: demo_failures_def recordFailure_def lockout_state_def lockout_key_def lockout_delay_def
        new_lockout_table_def Let_def LOCKOUT_FREE_ATTEMPTS_def LOCKOUT_BASE_MS_def LOCKOUT_MAX_MS_def
        FAILURE_MEMORY_MS_def)
  have "fst (lockout_state ''alice'' ''r'' 0 10 (foldl lockout_step new_lockout_table demo_failures)) = Locked 6 995"
    unfolding t by (simp add: lockout_state_def lockout_key_def Let_def FAILURE_MEMORY_MS_def)
  from lockout_always_ends [OF this] show ?thesis by (simp add: t)
qed

theorem lockout_schedule_witness:
  "fst (lockout_state ''alice'' ''r'' 0 6 (failures_at ''alice'' ''r'' 0 [0, 1, 2, 3, 4, 5, 6] new_lockout_table))
   = Locked 7 2000"
  using lockout_schedule [of new_lockout_table "''alice''" "''r''" 0 "[1, 2, 3, 4, 5, 6]" 7 0]
  by (simp add: new_lockout_table_def)

theorem lockout_is_per_principal_witness:
  "fst (lockout_state ''bob'' ''r'' 0 6 (snd (recordFailure ''alice'' ''r'' 0 5 new_lockout_table))) = Unlocked 0"
  using lockout_is_per_principal [of "''alice''" "''bob''" "''r''" "''r''" 0 6 0 5 new_lockout_table]
  by (simp add: lockout_state_def new_lockout_table_def)

theorem lockout_survives_restart_witness:
  "fst (lockout_state ''alice'' ''r'' 0 20
      (foldl (\<lambda>t s. snd (sweep_lockouts s t)) (hydrate 10 (snapshot new_lockout_table) new_lockout_table) [15]))
   = Unlocked 0"
  using lockout_survives_restart [OF lockouts_ok_new, of 10 20 "[15]" "''alice''" "''r''" 0]
  by (simp add: lockout_state_def new_lockout_table_def)

end
