(* ===== verification/Users.thy ===== *)
theory Users
  imports Prelude
begin

text \<open>
  The accounts of the console (\<open>src/ui/users.ts\<close>): \<open>users.json\<close> as a record, every operation of
  \<open>UsersStore\<close> as the function it hands to the single-writer door (an error leaves the file as it
  is), and the reads the sign-in route and the setup route ask. A stamp is the string the file holds,
  with the platform's \<open>toISOString\<close> and \<open>Date.parse\<close>; \<open>if (user.deletedAt)\<close> is the truthiness of that
  string. A minted token and the hash of a chosen password are arguments, as they come
  from the random source and from argon2. Not modelled: parsing the file, the hashing itself. The
  lemmas show that logins stay unique, that a disabled account stays out whatever the store
  does next, that a setup link works once and only in time, and that no epoch goes backwards while the account lives.
\<close>

datatype ui_role = Operator | Readonly

record setup_token =
  t_digest :: string
  t_createdAt :: string
  t_expiresAt :: string

record ui_user =
  login :: string
  role :: ui_role
  pwdHash :: "string option"
  pwdVersion :: int
  u_createdAt :: string
  disabledAt :: "string option"
  deletedAt :: "string option"
  lockoutEpoch :: nat
  credentialEpoch :: int
  setupTokens :: "setup_token list"

record users_file =
  version :: int
  sessionEpoch :: int
  users :: "ui_user list"

definition EMPTY_USERS_FILE :: users_file where
  "EMPTY_USERS_FILE = \<lparr>version = 0, sessionEpoch = 0, users = []\<rparr>"

definition MIN_PASSWORD_LENGTH :: nat where
  "MIN_PASSWORD_LENGTH = 10"

definition SETUP_TOKEN_TTL_MS :: ms where
  "SETUP_TOKEN_TTL_MS = 24 * 60 * 60 * 1000"

section \<open>Passwords and setup tokens\<close>

definition checkPasswordPolicy :: "string \<Rightarrow> string option" where
  "checkPasswordPolicy password =
     (if length password < MIN_PASSWORD_LENGTH
      then Some (''password must be at least '' @ show_nat MIN_PASSWORD_LENGTH @ '' characters'') else None)"

text \<open>\<open>verify\<close> is the argon2 library's check, \<open>dummy\<close> the hash of a value nobody knows.\<close>

definition verifyPassword :: "(string \<Rightarrow> string \<Rightarrow> bool) \<Rightarrow> string \<Rightarrow> string option \<Rightarrow> string \<Rightarrow> bool" where
  "verifyPassword verify dummy hash password =
     (let target = (case hash of None \<Rightarrow> dummy | Some h \<Rightarrow> h);
          matched = verify password target
      in if hash = None then False else matched)"

definition setupTokenDigest :: "platform \<Rightarrow> string \<Rightarrow> string" where
  "setupTokenDigest p token = p_sha256 p token"

definition mintSetupToken :: "platform \<Rightarrow> string \<Rightarrow> ms \<Rightarrow> setup_token" where
  "mintSetupToken p token now =
     \<lparr>t_digest = setupTokenDigest p token, t_createdAt = p_iso p now,
      t_expiresAt = p_iso p (now + SETUP_TOKEN_TTL_MS)\<rparr>"

definition digestsEqual :: "string \<Rightarrow> string \<Rightarrow> bool" where
  "digestsEqual a b \<longleftrightarrow> hex_bytes a = hex_bytes b"

definition liveSetupToken :: "platform \<Rightarrow> ui_user \<Rightarrow> string \<Rightarrow> ms \<Rightarrow> setup_token option" where
  "liveSetupToken p user token now =
     (case find (\<lambda>r. digestsEqual (t_digest r) (setupTokenDigest p token)) (setupTokens user) of
        None \<Rightarrow> None
      | Some r \<Rightarrow> (case p_parse p (t_expiresAt r) of
          None \<Rightarrow> None | Some e \<Rightarrow> if now < e then Some r else None))"

definition findUserBySetupToken :: "platform \<Rightarrow> users_file \<Rightarrow> string \<Rightarrow> ms \<Rightarrow> ui_user option" where
  "findUserBySetupToken p f token now =
     find (\<lambda>u. absent (deletedAt u) \<and> absent (disabledAt u) \<and> liveSetupToken p u token now \<noteq> None)
       (users f)"

definition setupUrl :: "string \<Rightarrow> string \<Rightarrow> string" where
  "setupUrl base token = rev (dropWhile (\<lambda>c. c = CHR ''/'') (rev base)) @ ''/setup#t='' @ token"

section \<open>Reads\<close>

definition find_login :: "users_file \<Rightarrow> string \<Rightarrow> ui_user option" where
  "find_login f l = find (\<lambda>u. login u = l) (users f)"

definition liveUser :: "users_file \<Rightarrow> string \<Rightarrow> ui_user option" where
  "liveUser f l = (case find_login f l of None \<Rightarrow> None
     | Some u \<Rightarrow> if absent (deletedAt u) then Some u else None)"

definition signInEligible :: "users_file \<Rightarrow> string \<Rightarrow> ui_user option" where
  "signInEligible f l = (case liveUser f l of None \<Rightarrow> None
     | Some u \<Rightarrow> if absent (disabledAt u) \<and> \<not> absent (pwdHash u) then Some u else None)"

definition mapUser :: "users_file \<Rightarrow> string \<Rightarrow> (ui_user \<Rightarrow> ui_user) \<Rightarrow> string + users_file" where
  "mapUser f l fn = (case liveUser f l of
       None \<Rightarrow> Inl (''no such user '' @ quoted l)
     | Some _ \<Rightarrow> Inr (f\<lparr>users := map (\<lambda>u. if login u = l then fn u else u) (users f)\<rparr>))"

text \<open>The pattern \<open>^[a-z0-9][a-z0-9._-]{1,63}$\<close>.\<close>

definition login_head :: "char \<Rightarrow> bool" where
  "login_head c = (let n = of_char c :: nat in 97 \<le> n \<and> n \<le> 122 \<or> 48 \<le> n \<and> n \<le> 57)"

definition LOGIN_PATTERN :: "string \<Rightarrow> bool" where
  "LOGIN_PATTERN l = (case l of [] \<Rightarrow> False
     | c # r \<Rightarrow> login_head c \<and> 1 \<le> length r \<and> length r \<le> 63 \<and>
         list_all (\<lambda>x. login_head x \<or> x \<in> set ''._-'') r)"

definition checkLogin :: "string \<Rightarrow> string option" where
  "checkLogin l = (if LOGIN_PATTERN l then None
     else Some (''invalid login '' @ quoted l @ '' '' @ em_dash @
       '' 2-64 characters, lowercase letters, digits, dot, dash or underscore, starting with a letter or digit''))"

section \<open>The store\<close>

text \<open>Each is the function \<open>update\<close> runs under the lock; \<open>Inl\<close> is the error that leaves the file alone.\<close>

definition create_user ::
  "platform \<Rightarrow> string \<Rightarrow> ui_role \<Rightarrow> string \<Rightarrow> ms \<Rightarrow> users_file \<Rightarrow> string + users_file" where
  "create_user p l r token now current =
     (if liveUser current l \<noteq> None then Inl (''user '' @ quoted l @ '' already exists'')
      else Inr (current\<lparr>users := filter (\<lambda>u. login u \<noteq> l) (users current) @
        [\<lparr>login = l, role = r, pwdHash = None, pwdVersion = 0, u_createdAt = p_iso p now,
          disabledAt = None, deletedAt = None, lockoutEpoch = 0, credentialEpoch = 0,
          setupTokens = [mintSetupToken p token now]\<rparr>]\<rparr>))"

text \<open>\<open>x ?? y\<close> keeps an empty string.\<close>

definition stamp_once :: "string option \<Rightarrow> string \<Rightarrow> string option" where
  "stamp_once old new = or_else old (Some new)"

definition disable_user :: "platform \<Rightarrow> string \<Rightarrow> ms \<Rightarrow> users_file \<Rightarrow> string + users_file" where
  "disable_user p l now current = mapUser current l (\<lambda>u.
     u\<lparr>disabledAt := stamp_once (disabledAt u) (p_iso p now), setupTokens := [],
       credentialEpoch := credentialEpoch u + 1\<rparr>)"

definition remove_user :: "platform \<Rightarrow> string \<Rightarrow> ms \<Rightarrow> users_file \<Rightarrow> string + users_file" where
  "remove_user p l now current = mapUser current l (\<lambda>u.
     u\<lparr>deletedAt := stamp_once (deletedAt u) (p_iso p now), setupTokens := [],
       credentialEpoch := credentialEpoch u + 1\<rparr>)"

definition reset_user :: "platform \<Rightarrow> string \<Rightarrow> string \<Rightarrow> ms \<Rightarrow> users_file \<Rightarrow> string + users_file" where
  "reset_user p l token now current = mapUser current l (\<lambda>u.
     u\<lparr>setupTokens := [mintSetupToken p token now], lockoutEpoch := lockoutEpoch u + 1,
       credentialEpoch := credentialEpoch u + 1\<rparr>)"

definition completeSetup ::
  "platform \<Rightarrow> string \<Rightarrow> string \<Rightarrow> string \<Rightarrow> ms \<Rightarrow> users_file \<Rightarrow> string + (ui_user \<times> users_file)" where
  "completeSetup p token password hash now current =
     (case checkPasswordPolicy password of Some policy \<Rightarrow> Inl policy
      | None \<Rightarrow> (case findUserBySetupToken p current token now of
          None \<Rightarrow> Inl ''this setup link is no longer valid''
        | Some user \<Rightarrow>
            let nxt = user\<lparr>pwdHash := Some hash, pwdVersion := pwdVersion user + 1, setupTokens := []\<rparr>
            in Inr (nxt, current\<lparr>users := map (\<lambda>u. if login u = login nxt then nxt else u) (users current)\<rparr>)))"

definition bumpSessionEpoch :: "users_file \<Rightarrow> users_file" where
  "bumpSessionEpoch current = current\<lparr>sessionEpoch := sessionEpoch current + 1\<rparr>"

text \<open>A call of the store; the file afterwards, unchanged when the call throws.\<close>

datatype users_op =
    Create string ui_role string ms
  | Disable string ms
  | Remove string ms
  | Reset string string ms
  | CompleteSetup string string string ms
  | BumpSessionEpoch

definition kept_or :: "users_file \<Rightarrow> string + users_file \<Rightarrow> users_file" where
  "kept_or f r = (case r of Inl _ \<Rightarrow> f | Inr f' \<Rightarrow> f')"

fun users_step :: "platform \<Rightarrow> users_file \<Rightarrow> users_op \<Rightarrow> users_file" where
  "users_step p f (Create l r token now) = kept_or f (create_user p l r token now f)"
| "users_step p f (Disable l now) = kept_or f (disable_user p l now f)"
| "users_step p f (Remove l now) = kept_or f (remove_user p l now f)"
| "users_step p f (Reset l token now) = kept_or f (reset_user p l token now f)"
| "users_step p f (CompleteSetup token pw hash now) =
     kept_or f (map_sum id snd (completeSetup p token pw hash now f))"
| "users_step p f BumpSessionEpoch = bumpSessionEpoch f"

section \<open>What each call does to one account\<close>

lemma find_unique:
  "distinct (map k xs) \<Longrightarrow> find (\<lambda>u. k u = l) xs = Some u \<longleftrightarrow> u \<in> set xs \<and> k u = l"
  by (induction xs) auto

lemma find_SomeD: "find P xs = Some x \<Longrightarrow> x \<in> set xs \<and> P x"
  by (induction xs) (auto split: if_splits)

lemma find_map: "find P (map g xs) = map_option g (find (\<lambda>x. P (g x)) xs)"
  by (induction xs) auto

lemma find_filter: "find P (filter Q xs) = find (\<lambda>x. Q x \<and> P x) xs"
  by (induction xs) auto

lemma find_append: "find P (xs @ ys) = or_else (find P xs) (find P ys)"
  by (induction xs) auto

definition unique_logins :: "users_file \<Rightarrow> bool" where
  "unique_logins f \<longleftrightarrow> distinct (map login (users f))"

lemma find_login_iff:
  "unique_logins f \<Longrightarrow> find_login f l = Some u \<longleftrightarrow> u \<in> set (users f) \<and> login u = l"
  unfolding find_login_def unique_logins_def by (rule find_unique)

lemma find_map_login:
  assumes "\<And>u. login (g u) = login u"
  shows "find (\<lambda>u. login u = l') (map (\<lambda>u. if login u = l then g u else u) us) =
    (if l' = l then map_option g (find (\<lambda>u. login u = l) us) else find (\<lambda>u. login u = l') us)"
  by (induction us) (auto simp: assms)

lemma find_login_mapped:
  assumes "\<And>u. login (g u) = login u"
  shows "find_login (f\<lparr>users := map (\<lambda>u. if login u = l then g u else u) (users f)\<rparr>) l' =
    (if l' = l then map_option g (find_login f l) else find_login f l')"
  using find_map_login [of g l' l "users f"] assms by (simp add: find_login_def)

lemma map_login_mapped:
  assumes "\<And>u. login (g u) = login u"
  shows "map login (map (\<lambda>u. if login u = l then g u else u) us) = map login us"
  using assms by auto

lemma find_replaced:
  assumes "login nxt = l"
  shows "find (\<lambda>u. login u = k) (map (\<lambda>v. if login v = l then nxt else v) us) =
    (if k = l then map_option (\<lambda>_. nxt) (find (\<lambda>u. login u = k) us) else find (\<lambda>u. login u = k) us)"
  using assms by (induction us) auto

lemma find_login_replaced:
  assumes "unique_logins f" and "u \<in> set (users f)" and "login nxt = login u"
  shows "find_login (f\<lparr>users := map (\<lambda>v. if login v = login u then nxt else v) (users f)\<rparr>) k =
    (if k = login u then Some nxt else find_login f k)"
proof -
  have "find_login f (login u) = Some u" using find_login_iff assms(1,2) by blast
  then show ?thesis by (simp add: find_login_def find_replaced [OF assms(3)])
qed

lemma unique_replaced:
  assumes "unique_logins f" and "login nxt = l"
  shows "unique_logins (f\<lparr>users := map (\<lambda>v. if login v = l then nxt else v) (users f)\<rparr>)"
proof -
  have "map login (map (\<lambda>v. if login v = l then nxt else v) (users f)) = map login (users f)"
    using assms(2) by auto
  then show ?thesis using assms(1) by (simp add: unique_logins_def del: map_map)
qed

lemma mapUser_cases:
  assumes "mapUser f l g = Inr f'"
  obtains u where "find_login f l = Some u" "absent (deletedAt u)"
    "f' = f\<lparr>users := map (\<lambda>u. if login u = l then g u else u) (users f)\<rparr>"
  using assms by (auto simp: mapUser_def liveUser_def split: option.splits if_splits)

text \<open>The account a completed link belongs to.\<close>

lemma completeSetup_cases:
  assumes "completeSetup p token pw hash now f = Inr (nxt, f')"
  obtains u r e where "u \<in> set (users f)" "absent (deletedAt u)" "absent (disabledAt u)"
    "r \<in> set (setupTokens u)" "digestsEqual (t_digest r) (setupTokenDigest p token)"
    "p_parse p (t_expiresAt r) = Some e" "now < e" "MIN_PASSWORD_LENGTH \<le> length pw"
    "nxt = u\<lparr>pwdHash := Some hash, pwdVersion := pwdVersion u + 1, setupTokens := []\<rparr>"
    "f' = f\<lparr>users := map (\<lambda>v. if login v = login u then nxt else v) (users f)\<rparr>"
proof -
  from assms obtain u where pw: "MIN_PASSWORD_LENGTH \<le> length pw"
    and u: "findUserBySetupToken p f token now = Some u"
    and n: "nxt = u\<lparr>pwdHash := Some hash, pwdVersion := pwdVersion u + 1, setupTokens := []\<rparr>"
    and f': "f' = f\<lparr>users := map (\<lambda>v. if login v = login nxt then nxt else v) (users f)\<rparr>"
    by (auto simp: completeSetup_def checkPasswordPolicy_def Let_def not_less split: option.splits if_splits)
  from find_SomeD [OF u [unfolded findUserBySetupToken_def]]
  have u': "u \<in> set (users f)" "absent (deletedAt u)" "absent (disabledAt u)"
    "liveSetupToken p u token now \<noteq> None" by blast+
  from u'(4) obtain r e where r: "find (\<lambda>r. digestsEqual (t_digest r) (setupTokenDigest p token)) (setupTokens u) = Some r"
    and e: "p_parse p (t_expiresAt r) = Some e" "now < e"
    by (auto simp: liveSetupToken_def split: option.splits if_splits)
  show thesis using that [OF u'(1-3) _ _ e pw n] find_SomeD [OF r] f' n by simp
qed

text \<open>The effect on each account: what the call does to the row of its login, and nothing to the others.\<close>

fun touched :: "users_op \<Rightarrow> string option" where
  "touched (Create l r token now) = Some l"
| "touched (Disable l now) = Some l"
| "touched (Remove l now) = Some l"
| "touched (Reset l token now) = Some l"
| "touched (CompleteSetup token pw hash now) = None"
| "touched BumpSessionEpoch = None"

section \<open>The invariant of the file\<close>

definition users_ok :: "users_file \<Rightarrow> bool" where
  "users_ok f \<longleftrightarrow> unique_logins f \<and>
     (\<forall>u \<in> set (users f). disabledAt u \<noteq> Some [] \<and> deletedAt u \<noteq> Some [])"

lemma users_ok_mapped:
  assumes "users_ok f" and "\<And>u. login (g u) = login u"
    and "\<And>u. u \<in> set (users f) \<Longrightarrow> login u = l \<Longrightarrow> disabledAt (g u) \<noteq> Some [] \<and> deletedAt (g u) \<noteq> Some []"
  shows "users_ok (f\<lparr>users := map (\<lambda>u. if login u = l then g u else u) (users f)\<rparr>)"
  using assms(1,3) unfolding users_ok_def unique_logins_def
  by (auto simp: map_login_mapped [of g, OF assms(2)] simp del: map_map)

lemma kept_or_ok: "users_ok f \<Longrightarrow> (\<And>f'. r = Inr f' \<Longrightarrow> users_ok f') \<Longrightarrow> users_ok (kept_or f r)"
  by (cases r) (auto simp: kept_or_def)

lemma users_ok_mapUser:
  assumes "users_ok f" and "\<And>u. login (g u) = login u"
    and "\<And>u. u \<in> set (users f) \<Longrightarrow> disabledAt (g u) \<noteq> Some [] \<and> deletedAt (g u) \<noteq> Some []"
  shows "users_ok (kept_or f (mapUser f l g))"
proof (rule kept_or_ok [OF assms(1)])
  fix f' assume "mapUser f l g = Inr f'"
  then obtain u where "f' = f\<lparr>users := map (\<lambda>u. if login u = l then g u else u) (users f)\<rparr>"
    by (rule mapUser_cases)
  then show "users_ok f'" using users_ok_mapped [OF assms(1,2), of l] assms(3) by blast
qed

lemma users_step_ok:
  assumes p: "sound_clock p" and ok: "users_ok f"
  shows "users_ok (users_step p f op)"
proof (cases op)
  case (Create l r token now)
  then show ?thesis
    using ok by (auto simp: create_user_def kept_or_def users_ok_def unique_logins_def
        distinct_map_filter)
next
  case (Disable l now)
  then show ?thesis
    using ok p unfolding Disable users_step.simps disable_user_def
    by (intro users_ok_mapUser) (auto simp: users_ok_def stamp_once_def or_else_def sound_clock_def split: option.splits)
next
  case (Remove l now)
  then show ?thesis
    using ok p unfolding Remove users_step.simps remove_user_def
    by (intro users_ok_mapUser) (auto simp: users_ok_def stamp_once_def or_else_def sound_clock_def split: option.splits)
next
  case (Reset l token now)
  then show ?thesis
    using ok unfolding Reset users_step.simps reset_user_def
    by (intro users_ok_mapUser) (auto simp: users_ok_def)
next
  case (CompleteSetup token pw hash now)
  show ?thesis
    unfolding CompleteSetup users_step.simps
  proof (rule kept_or_ok [OF ok])
    fix f' assume "map_sum id snd (completeSetup p token pw hash now f) = Inr f'"
    then obtain nxt where c: "completeSetup p token pw hash now f = Inr (nxt, f')"
      by (cases "completeSetup p token pw hash now f") auto
    from c obtain u where "u \<in> set (users f)"
      and n: "nxt = u\<lparr>pwdHash := Some hash, pwdVersion := pwdVersion u + 1, setupTokens := []\<rparr>"
      and f': "f' = f\<lparr>users := map (\<lambda>v. if login v = login u then nxt else v) (users f)\<rparr>"
      by (rule completeSetup_cases)
    have nl: "nxt\<lparr>login := login u\<rparr> = nxt" unfolding n by (cases u) simp
    have "(\<lambda>v. if login v = login u then nxt else v) =
        (\<lambda>v. if login v = login u then nxt\<lparr>login := login v\<rparr> else v)"
      by (rule ext) (metis nl)
    then have "f' = f\<lparr>users := map (\<lambda>v. if login v = login u then nxt\<lparr>login := login v\<rparr> else v) (users f)\<rparr>"
      unfolding f' by (rule arg_cong)
    show "users_ok f'"
      unfolding \<open>f' = f\<lparr>users := map (\<lambda>v. if login v = login u then nxt\<lparr>login := login v\<rparr> else v) (users f)\<rparr>\<close>
    proof (intro users_ok_mapped [OF ok])
      have "disabledAt u \<noteq> Some [] \<and> deletedAt u \<noteq> Some []"
        using ok \<open>u \<in> set (users f)\<close> unfolding users_ok_def by blast
      then show "disabledAt (nxt\<lparr>login := login v\<rparr>) \<noteq> Some [] \<and> deletedAt (nxt\<lparr>login := login v\<rparr>) \<noteq> Some []"
        for v using n by simp
    qed simp
  qed
next
  case BumpSessionEpoch
  with ok show ?thesis by (simp add: bumpSessionEpoch_def users_ok_def unique_logins_def)
qed

interpretation users_runs: kept_invariant "users_step p" "\<lambda>f. sound_clock p \<longrightarrow> users_ok f" for p
  by unfold_locales (use users_step_ok in blast)

section \<open>What a call leaves of an account\<close>

text \<open>No epoch moves back, and neither a deletion nor a disablement is undone.\<close>

definition row_le :: "ui_user \<Rightarrow> ui_user \<Rightarrow> bool" where
  "row_le u v \<longleftrightarrow> credentialEpoch u \<le> credentialEpoch v \<and> pwdVersion u \<le> pwdVersion v \<and>
     lockoutEpoch u \<le> lockoutEpoch v \<and>
     (\<not> absent (deletedAt u) \<longrightarrow> deletedAt v = deletedAt u) \<and>
     (\<not> absent (disabledAt u) \<longrightarrow> disabledAt v = disabledAt u)"

lemma row_le_refl [simp]: "row_le u u"
  by (simp add: row_le_def)

lemma row_le_trans: "row_le u v \<Longrightarrow> row_le v w \<Longrightarrow> row_le u w"
  unfolding row_le_def by force

lemma stamp_once_kept [simp]: "\<not> absent a \<Longrightarrow> stamp_once a b = a"
  by (cases a) (auto simp: stamp_once_def)

lemma row_mapUser:
  assumes "find_login f l = Some u" and "\<And>u. login (g u) = login u" and "\<And>u. row_le u (g u)"
  shows "\<exists>v. find_login (kept_or f (mapUser f l' g)) l = Some v \<and> row_le u v \<and> (v = u \<or> v = g u)"
proof (cases "mapUser f l' g")
  case (Inl e)
  with assms(1) show ?thesis by (simp add: kept_or_def)
next
  case (Inr f')
  then have f': "f' = f\<lparr>users := map (\<lambda>u. if login u = l' then g u else u) (users f)\<rparr>"
    by (auto elim: mapUser_cases)
  have k: "kept_or f (mapUser f l' g) = f'" by (simp add: Inr kept_or_def)
  show ?thesis
    unfolding k f' find_login_mapped [of g, OF assms(2)] using assms(1,3) by (cases "l = l'") auto
qed

lemma users_step_row:
  assumes ok: "users_ok f" and u: "find_login f l = Some u"
    and op: "(\<forall>r token now. op \<noteq> Create l r token now) \<or> absent (deletedAt u)"
  shows "\<exists>v. find_login (users_step p f op) l = Some v \<and> row_le u v \<and>
    ((\<forall>now. op \<noteq> Remove l now) \<longrightarrow> deletedAt v = deletedAt u)"
proof (cases op)
  case (Create l' r token now)
  show ?thesis
  proof (cases "l' = l")
    case True
    then have "liveUser f l \<noteq> None" using op u Create by (auto simp: liveUser_def)
    with u True Create show ?thesis by (auto simp: create_user_def kept_or_def)
  next
    case False
    then have "find_login (users_step p f op) l = Some u"
      using u Create
      by (auto simp: create_user_def kept_or_def find_login_def find_append find_filter
          conj_commute cong: conj_cong)
    then show ?thesis by auto
  qed
next
  case (Disable l' now)
  have "\<exists>v. find_login (users_step p f op) l = Some v \<and> row_le u v \<and>
      (v = u \<or> v = u\<lparr>disabledAt := stamp_once (disabledAt u) (p_iso p now), setupTokens := [],
       credentialEpoch := credentialEpoch u + 1\<rparr>)"
    unfolding Disable users_step.simps disable_user_def
    by (rule row_mapUser [OF u]) (auto simp: row_le_def)
  then show ?thesis by auto
next
  case (Remove l' now)
  have "\<exists>v. find_login (users_step p f op) l = Some v \<and> row_le u v \<and>
      (v = u \<or> v = u\<lparr>deletedAt := stamp_once (deletedAt u) (p_iso p now), setupTokens := [],
       credentialEpoch := credentialEpoch u + 1\<rparr>)"
    unfolding Remove users_step.simps remove_user_def
    by (rule row_mapUser [OF u]) (auto simp: row_le_def)
  moreover have "find_login (users_step p f op) l = Some u" if "l' \<noteq> l"
  proof (cases "remove_user p l' now f")
    case (Inr f')
    then have "f' = f\<lparr>users := map (\<lambda>u. if login u = l' then u\<lparr>deletedAt := stamp_once (deletedAt u) (p_iso p now),
        setupTokens := [], credentialEpoch := credentialEpoch u + 1\<rparr> else u) (users f)\<rparr>"
      unfolding remove_user_def by (auto elim: mapUser_cases)
    then show ?thesis
      using that u by (simp add: Remove Inr kept_or_def find_login_mapped)
  qed (use u Remove in \<open>simp add: kept_or_def\<close>)
  ultimately show ?thesis using Remove by (cases "l' = l") auto
next
  case (Reset l' token now)
  have "\<exists>v. find_login (users_step p f op) l = Some v \<and> row_le u v \<and>
      (v = u \<or> v = u\<lparr>setupTokens := [mintSetupToken p token now], lockoutEpoch := lockoutEpoch u + 1,
       credentialEpoch := credentialEpoch u + 1\<rparr>)"
    unfolding Reset users_step.simps reset_user_def
    by (rule row_mapUser [OF u]) (auto simp: row_le_def)
  then show ?thesis by auto
next
  case (CompleteSetup token pw hash now)
  show ?thesis
  proof (cases "completeSetup p token pw hash now f")
    case (Inl e)
    with u CompleteSetup show ?thesis by (auto simp: kept_or_def)
  next
    case (Inr r)
    obtain nxt f' where r: "r = (nxt, f')" by force
    from Inr r obtain w where w: "w \<in> set (users f)"
      and n: "nxt = w\<lparr>pwdHash := Some hash, pwdVersion := pwdVersion w + 1, setupTokens := []\<rparr>"
      and f': "f' = f\<lparr>users := map (\<lambda>v. if login v = login w then nxt else v) (users f)\<rparr>"
      by (auto elim: completeSetup_cases)
    have step: "users_step p f op = f'" by (simp add: CompleteSetup Inr r kept_or_def)
    have uniq: "unique_logins f" using ok by (simp add: users_ok_def)
    have row: "find_login f' l = (if l = login w then Some nxt else find_login f l)"
      using find_login_replaced [OF uniq w, of nxt] n by (simp add: f')
    show ?thesis
    proof (cases "l = login w")
      case True
      then have "find_login f l = Some w" using find_login_iff [OF uniq] w by blast
      then have "w = u" using u by simp
      with n True row show ?thesis by (auto simp: step row_le_def)
    next
      case False
      with row u show ?thesis by (auto simp: step)
    qed
  qed
next
  case BumpSessionEpoch
  with u show ?thesis by (auto simp: bumpSessionEpoch_def find_login_def)
qed

definition not_removed :: "string \<Rightarrow> users_op list \<Rightarrow> bool" where
  "not_removed l ops \<longleftrightarrow> (\<forall>op \<in> set ops. \<forall>now. op \<noteq> Remove l now)"

lemma users_run_row:
  assumes "sound_clock p" and "users_ok f" and "find_login f l = Some u" and "absent (deletedAt u)"
    and "not_removed l ops"
  shows "\<exists>v. find_login (foldl (users_step p) f ops) l = Some v \<and> row_le u v \<and> absent (deletedAt v)"
  using assms
proof (induction ops arbitrary: f u)
  case Nil
  then show ?case by auto
next
  case (Cons op ops)
  obtain v where v: "find_login (users_step p f op) l = Some v" "row_le u v"
      "(\<forall>now. op \<noteq> Remove l now) \<longrightarrow> deletedAt v = deletedAt u"
    using users_step_row [OF Cons.prems(2,3)] Cons.prems(4) by blast
  with Cons.prems(4,5) have "absent (deletedAt v)" by (auto simp: not_removed_def)
  moreover have "users_ok (users_step p f op)" by (rule users_step_ok [OF Cons.prems(1,2)])
  moreover have "not_removed l ops" using Cons.prems(5) by (simp add: not_removed_def)
  ultimately obtain w where "find_login (foldl (users_step p) (users_step p f op) ops) l = Some w"
      "row_le v w" "absent (deletedAt w)"
    using Cons.IH Cons.prems(1) v(1) by blast
  then show ?case using row_le_trans [OF v(2)] by auto
qed

lemma barred_by_token:
  assumes "users_ok f" and "find_login f l = Some u" and "\<not> absent (disabledAt u)"
    and "findUserBySetupToken p f token t = Some v"
  shows "login v \<noteq> l"
proof
  assume l: "login v = l"
  from find_SomeD [OF assms(4) [unfolded findUserBySetupToken_def]]
  have v: "v \<in> set (users f)" "absent (disabledAt v)" by auto
  then have "find_login f l = Some v" using find_login_iff assms(1) l by (auto simp: users_ok_def)
  with assms(2,3) v(2) show False by simp
qed

lemma session_epoch_run: "sessionEpoch f \<le> sessionEpoch (foldl (users_step p) f ops)"
proof (induction ops arbitrary: f)
  case (Cons op ops)
  have "sessionEpoch f \<le> sessionEpoch (users_step p f op)"
  proof (cases op)
    case (CompleteSetup token pw hash now)
    then show ?thesis
      by (cases "completeSetup p token pw hash now f") (auto simp: kept_or_def elim: completeSetup_cases)
  qed (auto simp: kept_or_def create_user_def disable_user_def remove_user_def reset_user_def mapUser_def
      bumpSessionEpoch_def split: sum.splits option.splits if_splits)
  with Cons.IH show ?case by (metis foldl_Cons order_trans)
qed simp

section \<open>Properties\<close>

text \<open>
  A disabled account stays out. Once \<open>ui user disable\<close> has gone through, nothing the store can do
  afterwards lets the login in again, short of deleting the account: no sequence of
  creations, resets, setup completions, disablements of others and epoch bumps makes it
  eligible to sign in, and no setup link, however it was minted, opens it.
\<close>
theorem disabled_account_stays_out:
  assumes p: "sound_clock p" and ok: "users_ok f" and d: "disable_user p l now f = Inr f'"
    and ops: "not_removed l ops"
  shows "signInEligible (foldl (users_step p) f' ops) l = None \<and>
    (\<forall>token t u. findUserBySetupToken p (foldl (users_step p) f' ops) token t = Some u \<longrightarrow> login u \<noteq> l)"
proof -
  from d obtain u where u: "find_login f l = Some u" "absent (deletedAt u)"
    and f': "f' = f\<lparr>users := map (\<lambda>u. if login u = l then u\<lparr>disabledAt := stamp_once (disabledAt u) (p_iso p now),
      setupTokens := [], credentialEpoch := credentialEpoch u + 1\<rparr> else u) (users f)\<rparr>"
    unfolding disable_user_def by (rule mapUser_cases)
  have "users_step p f (Disable l now) = f'" by (simp add: d kept_or_def)
  then have ok': "users_ok f'" using users_step_ok [OF p ok] by metis
  have "u \<in> set (users f)" using u(1) find_login_iff ok by (auto simp: users_ok_def)
  then have "disabledAt u \<noteq> Some []" using ok by (auto simp: users_ok_def)
  let ?v = "u\<lparr>disabledAt := stamp_once (disabledAt u) (p_iso p now), setupTokens := [],
      credentialEpoch := credentialEpoch u + 1\<rparr>"
  have v: "find_login f' l = Some ?v" unfolding f' by (subst find_login_mapped) (simp_all add: u(1))
  have dis: "\<not> absent (disabledAt ?v)"
    using p \<open>disabledAt u \<noteq> Some []\<close> by (cases "disabledAt u") (auto simp: stamp_once_def sound_clock_def)
  obtain w where w: "find_login (foldl (users_step p) f' ops) l = Some w" "row_le ?v w"
    using users_run_row [OF p ok' v _ ops] u(2) by auto
  then have wd: "\<not> absent (disabledAt w)" using dis by (auto simp: row_le_def)
  have "users_ok (foldl (users_step p) f' ops)" using users_runs.run_ok p ok' by blast
  with w(1) wd show ?thesis
    using barred_by_token by (auto simp: signInEligible_def liveUser_def)
qed

text \<open>
  A setup link sets a password once. When a completion succeeds, the password met the policy, the
  link was one of an account that is neither deleted nor disabled, and it had not run out;
  afterwards that account has the new hash and its next password version, no link opens it any more, and
  every other account is as it was.
\<close>
theorem setup_link_works_once:
  assumes ok: "users_ok f" and c: "completeSetup p token pw hash now f = Inr (nxt, f')"
  shows "(\<exists>u r e. find_login f (login nxt) = Some u \<and> absent (deletedAt u) \<and> absent (disabledAt u) \<and>
      r \<in> set (setupTokens u) \<and> digestsEqual (t_digest r) (setupTokenDigest p token) \<and>
      p_parse p (t_expiresAt r) = Some e \<and> now < e \<and> 10 \<le> length pw \<and>
      find_login f' (login nxt) = Some (u\<lparr>pwdHash := Some hash, pwdVersion := pwdVersion u + 1, setupTokens := []\<rparr>)) \<and>
    (\<forall>token' t v. findUserBySetupToken p f' token' t = Some v \<longrightarrow> login v \<noteq> login nxt) \<and>
    (\<forall>l. l \<noteq> login nxt \<longrightarrow> find_login f' l = find_login f l)"
proof -
  from c obtain u r e where u: "u \<in> set (users f)" "absent (deletedAt u)" "absent (disabledAt u)"
    and r: "r \<in> set (setupTokens u)" "digestsEqual (t_digest r) (setupTokenDigest p token)"
      "p_parse p (t_expiresAt r) = Some e" "now < e" "MIN_PASSWORD_LENGTH \<le> length pw"
    and n: "nxt = u\<lparr>pwdHash := Some hash, pwdVersion := pwdVersion u + 1, setupTokens := []\<rparr>"
    and f': "f' = f\<lparr>users := map (\<lambda>v. if login v = login u then nxt else v) (users f)\<rparr>"
    by (rule completeSetup_cases)
  have uniq: "unique_logins f" using ok by (simp add: users_ok_def)
  have l: "login nxt = login u" using n by simp
  have row: "find_login f' k = (if k = login u then Some nxt else find_login f k)" for k
    using find_login_replaced [OF uniq u(1) l] by (simp add: f')
  have uniq': "unique_logins f'" using unique_replaced [OF uniq l] by (simp add: f')
  have "find_login f (login u) = Some u" using find_login_iff [OF uniq] u(1) by blast
  moreover have "login v \<noteq> login nxt" if "findUserBySetupToken p f' token' t = Some v" for token' t v
  proof
    assume lv: "login v = login nxt"
    from find_SomeD [OF that [unfolded findUserBySetupToken_def]]
    have v: "v \<in> set (users f')" "liveSetupToken p v token' t \<noteq> None" by auto
    then have "find_login f' (login nxt) = Some v" using find_login_iff [OF uniq'] lv by blast
    then have "v = nxt" using row l by simp
    with v(2) n show False by (simp add: liveSetupToken_def)
  qed
  ultimately show ?thesis using u r n row l by (auto simp: MIN_PASSWORD_LENGTH_def)
qed

text \<open>
  Revocation never runs backwards. Through any sequence of store calls that does not delete the
  account, its credential epoch, password version and lockout epoch never decrease, a disablement is
  never lifted, and neither does the global session epoch decrease; so a session refused for one of these
  reasons stays refused.
\<close>
theorem epochs_never_go_back:
  assumes p: "sound_clock p" and ok: "users_ok f" and u: "liveUser f l = Some u"
    and ops: "not_removed l ops"
  shows "\<exists>v. liveUser (foldl (users_step p) f ops) l = Some v \<and>
    credentialEpoch u \<le> credentialEpoch v \<and> pwdVersion u \<le> pwdVersion v \<and>
    lockoutEpoch u \<le> lockoutEpoch v \<and> (\<not> absent (disabledAt u) \<longrightarrow> disabledAt v = disabledAt u) \<and>
    sessionEpoch f \<le> sessionEpoch (foldl (users_step p) f ops)"
proof -
  have u': "find_login f l = Some u" "absent (deletedAt u)"
    using u by (auto simp: liveUser_def split: option.splits if_splits)
  have "sessionEpoch f \<le> sessionEpoch (foldl (users_step p) f ops)"
    by (rule session_epoch_run)
  with users_run_row [OF p ok u' ops] show ?thesis by (auto simp: liveUser_def row_le_def)
qed

text \<open>An operator with a pending link, on the decimal platform.\<close>

definition sample_users :: users_file where
  "sample_users = \<lparr>version = 3, sessionEpoch = 0, users =
     [\<lparr>login = ''ann'', role = Operator, pwdHash = Some ''h0'', pwdVersion = 1, u_createdAt = ''0'',
       disabledAt = None, deletedAt = None, lockoutEpoch = 0, credentialEpoch = 0,
       setupTokens = [mintSetupToken demo_platform ''tok'' 0]\<rparr>]\<rparr>"

lemma sample_users_ok: "users_ok sample_users"
  by (simp add: users_ok_def unique_logins_def sample_users_def)

lemma disabled_account_stays_out_witness:
  "signInEligible (foldl (users_step demo_platform) (kept_or sample_users (disable_user demo_platform ''ann'' 5 sample_users))
     [Reset ''ann'' ''tok2'' 6, CompleteSetup ''tok2'' ''longenough'' ''h1'' 7]) ''ann'' = None"
proof -
  let ?f = "kept_or sample_users (disable_user demo_platform ''ann'' 5 sample_users)"
  have d: "disable_user demo_platform ''ann'' 5 sample_users = Inr ?f"
    by (simp add: disable_user_def mapUser_def liveUser_def find_login_def sample_users_def kept_or_def)
  have "not_removed ''ann'' [Reset ''ann'' ''tok2'' 6, CompleteSetup ''tok2'' ''longenough'' ''h1'' 7]"
    by (simp add: not_removed_def)
  from disabled_account_stays_out [OF demo_clock sample_users_ok d this] show ?thesis by blast
qed

lemma setup_link_works_once_witness:
  "\<exists>nxt f'. completeSetup demo_platform ''tok'' ''longenough'' ''h1'' 5 sample_users = Inr (nxt, f') \<and>
     findUserBySetupToken demo_platform f' ''tok'' 6 \<noteq> Some nxt"
proof -
  have "findUserBySetupToken demo_platform sample_users ''tok'' 5 = Some (hd (users sample_users))"
    using demo_clock
    by (simp add: findUserBySetupToken_def liveSetupToken_def sample_users_def mintSetupToken_def
        digestsEqual_def sound_clock_def SETUP_TOKEN_TTL_MS_def)
  then obtain nxt f' where c: "completeSetup demo_platform ''tok'' ''longenough'' ''h1'' 5 sample_users = Inr (nxt, f')"
    by (auto simp: completeSetup_def checkPasswordPolicy_def MIN_PASSWORD_LENGTH_def Let_def)
  from setup_link_works_once [OF sample_users_ok c] c show ?thesis by blast
qed

lemma epochs_never_go_back_witness:
  "\<exists>v. liveUser (foldl (users_step demo_platform) sample_users [Reset ''ann'' ''tok2'' 6]) ''ann'' = Some v \<and>
     0 \<le> credentialEpoch v"
proof -
  have u: "liveUser sample_users ''ann'' = Some (hd (users sample_users))"
    by (simp add: liveUser_def find_login_def sample_users_def)
  have "not_removed ''ann'' [Reset ''ann'' ''tok2'' 6]" by (simp add: not_removed_def)
  from epochs_never_go_back [OF demo_clock sample_users_ok u this]
  show ?thesis by (auto simp: sample_users_def)
qed

end
