(* ===== verification/Ui_Sessions.thy ===== *)
theory Ui_Sessions
  imports Users
begin

text \<open>
  The console's session table (\<open>src/ui/sessions.ts\<close>). Sessions live in memory, keyed by the digest of
  their token; every request revalidates against the users file as it is now, so a CLI verb in another process
  revokes by moving an epoch. An operation returns its answer, the table, and what it told the drop
  listeners. Minted tokens and ids are arguments. The lemmas show exactly when a request is let in,
  that a revocation in the file reaches every session issued before it, that the check of an open stream
  asks the question of the door, that sweeping changes no answer, and one way back in:
  deleting an account and creating it again resets the epochs a live session is judged by.
\<close>

record ui_session =
  s_id :: string
  userLogin :: string
  s_role :: ui_role
  createdAt :: ms
  lastSeenAt :: ms
  remoteAddr :: string
  workbenchSub :: "string option"
  s_sessionEpoch :: int
  s_credentialEpoch :: int
  s_pwdVersion :: int

record session_policy =
  ttlHours :: int
  idleMinutes :: int

datatype refusal =
    NoToken | UnknownSession | Expired | Idle | UserGone | UserDisabled | CredentialsChanged | Revoked
  | Logout | Shutdown

datatype session_check = SessionOk ui_session ui_user | Refused refusal

type_synonym session_table = "(string \<times> ui_session) list"
type_synonym drops = "(ui_session \<times> refusal) list"

section \<open>The table\<close>

definition drop_session ::
  "string \<Rightarrow> ui_session \<Rightarrow> refusal \<Rightarrow> session_table \<Rightarrow> session_table \<times> drops" where
  "drop_session key s reason t = (AList.delete key t, [(s, reason)])"

definition issue ::
  "platform \<Rightarrow> ui_user \<Rightarrow> users_file \<Rightarrow> string \<Rightarrow> string option \<Rightarrow> ms \<Rightarrow> string \<Rightarrow> string \<Rightarrow>
     session_table \<Rightarrow> ui_session \<times> session_table" where
  "issue p user f addr sub now token sid t =
     (let s = \<lparr>s_id = sid, userLogin = login user, s_role = role user, createdAt = now, lastSeenAt = now,
            remoteAddr = addr, workbenchSub = sub, s_sessionEpoch = sessionEpoch f,
            s_credentialEpoch = credentialEpoch user, s_pwdVersion = pwdVersion user\<rparr>
      in (s, AList.update (p_sha256 p token) s t))"

definition past_ttl :: "session_policy \<Rightarrow> ms \<Rightarrow> ui_session \<Rightarrow> bool" where
  "past_ttl pol now s \<longleftrightarrow> ttlHours pol * 3600000 \<le> now - createdAt s"

definition past_idle :: "session_policy \<Rightarrow> ms \<Rightarrow> ui_session \<Rightarrow> bool" where
  "past_idle pol now s \<longleftrightarrow> idleMinutes pol * 60000 \<le> now - lastSeenAt s"

definition validate ::
  "platform \<Rightarrow> string option \<Rightarrow> users_file \<Rightarrow> session_policy \<Rightarrow> ms \<Rightarrow> session_table \<Rightarrow>
     session_check \<times> session_table \<times> drops" where
  "validate p token f pol now t =
     (if absent token then (Refused NoToken, t, [])
      else case find (\<lambda>(k, s). digestsEqual k (p_sha256 p (the token))) t of
        None \<Rightarrow> (Refused UnknownSession, t, [])
      | Some (key, s) \<Rightarrow>
          if key = [] then (Refused UnknownSession, t, [])
          else if past_ttl pol now s then (Refused Expired, drop_session key s Expired t)
          else if past_idle pol now s then (Refused Idle, drop_session key s Idle t)
          else if s_sessionEpoch s < sessionEpoch f then (Refused Revoked, drop_session key s Revoked t)
          else case find_login f (userLogin s) of
            None \<Rightarrow> (Refused UserGone, drop_session key s UserGone t)
          | Some u \<Rightarrow>
              if \<not> absent (deletedAt u) then (Refused UserGone, drop_session key s UserGone t)
              else if \<not> absent (disabledAt u) then (Refused UserDisabled, drop_session key s UserDisabled t)
              else if s_credentialEpoch s < credentialEpoch u \<or> s_pwdVersion s < pwdVersion u
              then (Refused CredentialsChanged, drop_session key s CredentialsChanged t)
              else let s' = s\<lparr>s_role := role u, lastSeenAt := now\<rparr>
                in (SessionOk s' u, AList.update key s' t, []))"

definition revocationCheck ::
  "string \<Rightarrow> users_file \<Rightarrow> session_table \<Rightarrow> bool \<times> session_table \<times> drops" where
  "revocationCheck sid f t =
     (case find (\<lambda>(k, s). s_id s = sid) t of
        None \<Rightarrow> (False, t, [])
      | Some (digest, s) \<Rightarrow>
          if s_sessionEpoch s < sessionEpoch f then (False, drop_session digest s Revoked t)
          else case find_login f (userLogin s) of
            None \<Rightarrow> (False, drop_session digest s UserGone t)
          | Some u \<Rightarrow>
              if \<not> absent (deletedAt u) then (False, drop_session digest s UserGone t)
              else if \<not> absent (disabledAt u) then (False, drop_session digest s UserDisabled t)
              else if s_credentialEpoch s < credentialEpoch u \<or> s_pwdVersion s < pwdVersion u
              then (False, drop_session digest s CredentialsChanged t)
              else (True, t, []))"

definition list_sessions :: "session_table \<Rightarrow> ui_session list" where
  "list_sessions t = sort_key (\<lambda>s. - lastSeenAt s) (map snd t)"

definition revoke :: "string \<Rightarrow> refusal \<Rightarrow> session_table \<Rightarrow> bool \<times> session_table \<times> drops" where
  "revoke sid reason t =
     (case find (\<lambda>(k, s). s_id s = sid) t of
        None \<Rightarrow> (False, t, [])
      | Some (digest, s) \<Rightarrow> (True, drop_session digest s reason t))"

definition revokeUser :: "string \<Rightarrow> session_table \<Rightarrow> nat \<times> session_table \<times> drops" where
  "revokeUser l t =
     (let hit = filter (\<lambda>(k, s). userLogin s = l) t
      in (length hit, filter (\<lambda>(k, s). userLogin s \<noteq> l) t, map (\<lambda>(k, s). (s, Revoked)) hit))"

definition revokeAll :: "refusal \<Rightarrow> session_table \<Rightarrow> nat \<times> session_table \<times> drops" where
  "revokeAll reason t = (length t, [], map (\<lambda>(k, s). (s, reason)) t)"

definition sweep_sessions ::
  "session_policy \<Rightarrow> ms \<Rightarrow> session_table \<Rightarrow> nat \<times> session_table \<times> drops" where
  "sweep_sessions pol now t =
     (let stale = filter (\<lambda>(k, s). past_ttl pol now s \<or> past_idle pol now s) t
      in (length stale, filter (\<lambda>(k, s). \<not> (past_ttl pol now s \<or> past_idle pol now s)) t,
          map (\<lambda>(k, s). (s, if past_ttl pol now s then Expired else Idle)) stale))"

definition sessionCopy :: "session_policy \<Rightarrow> string" where
  "sessionCopy pol =
     ''Signed-in sessions last '' @ show_int (ttlHours pol) @ '' hours, or '' @ show_int (idleMinutes pol) @
     '' minutes idle, and are held per browser tab '' @ em_dash @ '' a second tab signs in again.''"

section \<open>Looking a token up\<close>

text \<open>Keys are digests, so none is empty and no two of them decode to the same bytes.\<close>

definition table_ok :: "session_table \<Rightarrow> bool" where
  "table_ok t \<longleftrightarrow> distinct (map (\<lambda>(k, s). hex_bytes k) t) \<and> [] \<notin> fst ` set t"

lemma table_ok_keys: "table_ok t \<Longrightarrow> distinct (map fst t)"
  unfolding table_ok_def by (induction t) (force simp: image_iff)+

definition lookup_token :: "platform \<Rightarrow> string \<Rightarrow> session_table \<Rightarrow> (string \<times> ui_session) option" where
  "lookup_token p token t = find (\<lambda>(k, s). digestsEqual k (p_sha256 p token)) t"

lemma lookup_token_iff:
  assumes "table_ok t"
  shows "lookup_token p token t = Some (k, s) \<longleftrightarrow> (k, s) \<in> set t \<and> hex_bytes k = hex_bytes (p_sha256 p token)"
proof -
  have "lookup_token p token t = find (\<lambda>x. (\<lambda>(k, s). hex_bytes k) x = hex_bytes (p_sha256 p token)) t"
    unfolding lookup_token_def digestsEqual_def by (simp add: split_def)
  with find_unique [OF conjunct1 [OF assms [unfolded table_ok_def]]] show ?thesis by simp
qed

text \<open>The predicates both checks share.\<close>

definition revoked_by :: "users_file \<Rightarrow> ui_session \<Rightarrow> refusal option" where
  "revoked_by f s =
     (if s_sessionEpoch s < sessionEpoch f then Some Revoked
      else case find_login f (userLogin s) of
        None \<Rightarrow> Some UserGone
      | Some u \<Rightarrow> if \<not> absent (deletedAt u) then Some UserGone
          else if \<not> absent (disabledAt u) then Some UserDisabled
          else if s_credentialEpoch s < credentialEpoch u \<or> s_pwdVersion s < pwdVersion u
          then Some CredentialsChanged else None)"

lemma validate_unknown:
  "lookup_token p token t = None \<Longrightarrow> token \<noteq> [] \<Longrightarrow> validate p (Some token) f pol now t = (Refused UnknownSession, t, [])"
  by (simp add: validate_def lookup_token_def)

lemma validate_found:
  assumes "table_ok t" and "lookup_token p token t = Some (k, s)" and "token \<noteq> []"
  shows "validate p (Some token) f pol now t =
    (if past_ttl pol now s then (Refused Expired, drop_session k s Expired t)
     else if past_idle pol now s then (Refused Idle, drop_session k s Idle t)
     else case revoked_by f s of
       Some r \<Rightarrow> (Refused r, drop_session k s r t)
     | None \<Rightarrow> let u = the (find_login f (userLogin s)); s' = s\<lparr>s_role := role u, lastSeenAt := now\<rparr>
         in (SessionOk s' u, AList.update k s' t, []))"
proof -
  have "k \<noteq> []" using assms(1,2) lookup_token_iff [OF assms(1)] by (force simp: table_ok_def)
  with assms(2,3) show ?thesis
    by (auto simp: validate_def lookup_token_def revoked_by_def Let_def split: option.splits)
qed

lemma revocationCheck_found:
  assumes "find (\<lambda>(k, s). s_id s = sid) t = Some (k, s)"
  shows "revocationCheck sid f t =
    (case revoked_by f s of Some r \<Rightarrow> (False, drop_session k s r t) | None \<Rightarrow> (True, t, []))"
  using assms by (auto simp: revocationCheck_def revoked_by_def split: option.splits)

lemma table_ok_delete: "table_ok t \<Longrightarrow> table_ok (AList.delete k t)"
  unfolding table_ok_def AList.delete_eq by (auto simp: distinct_map_filter)

lemma table_ok_filter: "table_ok t \<Longrightarrow> table_ok (filter P t)"
  unfolding table_ok_def by (auto simp: distinct_map_filter)

lemma lookup_token_delete:
  assumes "table_ok t" and "lookup_token p token t = Some (k, s)"
  shows "lookup_token p token (AList.delete k t) = None"
proof (rule ccontr)
  assume "lookup_token p token (AList.delete k t) \<noteq> None"
  then obtain k' s' where l: "lookup_token p token (AList.delete k t) = Some (k', s')" by auto
  then have "(k', s') \<in> set t" "hex_bytes k' = hex_bytes (p_sha256 p token)" "k' \<noteq> k"
    using lookup_token_iff [OF table_ok_delete [OF assms(1)]] by (auto simp: AList.delete_eq)
  then have "lookup_token p token t = Some (k', s')" using lookup_token_iff [OF assms(1)] by blast
  with assms(2) \<open>k' \<noteq> k\<close> show False by simp
qed

section \<open>Properties\<close>

text \<open>
  C28. Who gets in. A request is let in exactly when its token is one the table holds, the session is
  within both budgets, and the users file as it is now still vouches for it: the global epoch has not moved, the
  account exists, is neither deleted nor disabled, and its credential epoch and password version have not moved. The
  session then has the account's present role. Anything else about a known session refuses
  and forgets it, with the listeners told why, so the token is unknown from then on.
\<close>
theorem request_is_let_in_exactly:
  assumes ok: "table_ok t" and known: "lookup_token p token t = Some (k, s)" and tok: "token \<noteq> ''''"
  shows "(case validate p (Some token) f pol now t of
      (SessionOk s' u, t', ds) \<Rightarrow>
        now - createdAt s < ttlHours pol * 3600000 \<and> now - lastSeenAt s < idleMinutes pol * 60000 \<and>
        sessionEpoch f \<le> s_sessionEpoch s \<and> find_login f (userLogin s) = Some u \<and>
        absent (deletedAt u) \<and> absent (disabledAt u) \<and>
        credentialEpoch u \<le> s_credentialEpoch s \<and> pwdVersion u \<le> s_pwdVersion s \<and>
        s' = s\<lparr>s_role := role u, lastSeenAt := now\<rparr> \<and> t' = AList.update k s' t \<and> ds = []
    | (Refused r, t', ds) \<Rightarrow>
        (past_ttl pol now s \<or> past_idle pol now s \<or> revoked_by f s \<noteq> None) \<and> ds = [(s, r)] \<and>
        (\<forall>f' pol' later. validate p (Some token) f' pol' later t' = (Refused UnknownSession, t', [])))"
proof -
  have gone: "validate p (Some token) f' pol' later (AList.delete k t) =
      (Refused UnknownSession, AList.delete k t, [])" for f' pol' later
    by (rule validate_unknown [OF lookup_token_delete [OF ok known] tok])
  show ?thesis
    unfolding validate_found [OF ok known tok] drop_session_def
    using gone
    by (auto simp: past_ttl_def past_idle_def revoked_by_def Let_def not_le not_less split: option.splits if_splits)
qed

lemma find_by_id:
  assumes "distinct (map (\<lambda>(k, s). s_id s) t)" and "(k, s) \<in> set t"
  shows "find (\<lambda>(k, s). s_id s = s_id s0) t = Some (k, s) \<longleftrightarrow> s_id s = s_id s0"
proof -
  have "find (\<lambda>(k, s). s_id s = s_id s0) t = find (\<lambda>x. (\<lambda>(k, s). s_id s) x = s_id s0) t"
    by (simp add: split_def)
  with find_unique [OF assms(1)] assms(2) show ?thesis by simp
qed

text \<open>
  The check an open stream makes is the question the door asks. For a session within its two budgets,
  \<open>revocationCheck\<close> keeps the stream exactly when \<open>validate\<close> would let the next request in, and when it
  does not, it drops the same session for the same reason; it never touches the idle clock.
\<close>
theorem stream_check_agrees_with_door:
  assumes ok: "table_ok t" and ids: "distinct (map (\<lambda>(k, s). s_id s) t)"
    and known: "lookup_token p token t = Some (k, s)" and tok: "token \<noteq> ''''"
    and budget: "\<not> past_ttl pol now s" "\<not> past_idle pol now s"
  shows "(case validate p (Some token) f pol now t of
      (SessionOk s' u, t', ds) \<Rightarrow> revocationCheck (s_id s) f t = (True, t, [])
    | (Refused r, t', ds) \<Rightarrow> revocationCheck (s_id s) f t = (False, t', ds))"
proof -
  have "(k, s) \<in> set t" using known lookup_token_iff [OF ok] by blast
  then have "find (\<lambda>(k, s'). s_id s' = s_id s) t = Some (k, s)" using find_by_id [OF ids] by blast
  from revocationCheck_found [OF this, of f] budget show ?thesis
    unfolding validate_found [OF ok known tok] by (auto simp: Let_def split: option.splits)
qed

definition revoking :: "string \<Rightarrow> users_op \<Rightarrow> bool" where
  "revoking l op \<longleftrightarrow> (\<exists>now. op = Disable l now) \<or> (\<exists>token now. op = Reset l token now) \<or> op = BumpSessionEpoch"

text \<open>
  C34. Revocation crosses processes. After the CLI has disabled or reset an account, or bumped the
  global epoch, a session issued to it before is never let in again, whatever the store does next
  short of deleting the account, whatever the policy and however late the request.
\<close>
theorem revocation_reaches_every_session:
  assumes p: "sound_clock p" and f: "users_ok f" and u: "liveUser f (userLogin s) = Some u"
    and issued: "s_sessionEpoch s \<le> sessionEpoch f" "s_credentialEpoch s \<le> credentialEpoch u"
    and op: "revoking (userLogin s) op" and ops: "not_removed (userLogin s) ops"
    and t: "table_ok t" "lookup_token p token t = Some (k, s)" "token \<noteq> ''''"
  shows "\<exists>r t' ds. validate p (Some token) (foldl (users_step p) f (op # ops)) pol now t = (Refused r, t', ds)"
proof -
  let ?l = "userLogin s" and ?f' = "users_step p f op" and ?f = "foldl (users_step p) f (op # ops)"
  have u': "find_login f ?l = Some u" "absent (deletedAt u)"
    using u by (auto simp: liveUser_def split: option.splits if_splits)
  have f': "users_ok ?f'" by (rule users_step_ok [OF p f])
  have nr: "\<forall>now. op \<noteq> Remove ?l now" using op by (auto simp: revoking_def)
  have "not_removed ?l [op]" using nr by (simp add: not_removed_def)
  from users_run_row [OF p f u' this] obtain v where
    v: "find_login ?f' ?l = Some v" "absent (deletedAt v)" by auto
  have moved: "s_credentialEpoch s < credentialEpoch v \<or> s_sessionEpoch s < sessionEpoch ?f'"
    using op u u' issued v(1) unfolding revoking_def
    by (auto simp: disable_user_def reset_user_def mapUser_def kept_or_def bumpSessionEpoch_def find_login_mapped)
  obtain w where w: "find_login ?f ?l = Some w" "row_le v w"
    using users_run_row [OF p f' v ops] by auto
  have "sessionEpoch ?f' \<le> sessionEpoch ?f" using session_epoch_run by simp
  with moved w have "revoked_by ?f s \<noteq> None"
    by (auto simp: revoked_by_def row_le_def split: if_splits)
  then show ?thesis
    unfolding validate_found [OF t] drop_session_def by (auto split: option.splits)
qed

text \<open>Whom a request is let in as: the answer a sweep must not change.\<close>

definition let_in_as ::
  "platform \<Rightarrow> session_policy \<Rightarrow> session_table \<Rightarrow> string \<times> users_file \<Rightarrow> ms \<Rightarrow> (ui_session \<times> ui_user) option" where
  "let_in_as p pol t req now =
     (case validate p (Some (fst req)) (snd req) pol now t of
        (SessionOk s u, _, _) \<Rightarrow> Some (s, u) | _ \<Rightarrow> None)"

definition swept :: "session_policy \<Rightarrow> ms \<Rightarrow> session_table \<Rightarrow> session_table" where
  "swept pol now t = fst (snd (sweep_sessions pol now t))"

lemma swept_filter: "swept pol now t = filter (\<lambda>(k, s). \<not> (past_ttl pol now s \<or> past_idle pol now s)) t"
  by (simp add: swept_def sweep_sessions_def Let_def)

lemma past_mono:
  "now \<le> later \<Longrightarrow> past_ttl pol now s \<Longrightarrow> past_ttl pol later s"
  "now \<le> later \<Longrightarrow> past_idle pol now s \<Longrightarrow> past_idle pol later s"
  by (simp_all add: past_ttl_def past_idle_def)

lemma let_in_found:
  assumes "table_ok t" and "lookup_token p token t = Some (k, s)" and "token \<noteq> []"
  shows "let_in_as p pol t (token, f) now =
    (if past_ttl pol now s \<or> past_idle pol now s \<or> revoked_by f s \<noteq> None then None
     else let u = the (find_login f (userLogin s)) in Some (s\<lparr>s_role := role u, lastSeenAt := now\<rparr>, u))"
  unfolding let_in_as_def fst_conv snd_conv validate_found [OF assms]
  by (auto simp: Let_def split: option.splits)

lemma lookup_swept:
  assumes "table_ok t"
  shows "lookup_token p token (swept pol now t) =
    (case lookup_token p token t of None \<Rightarrow> None
     | Some (k, s) \<Rightarrow> if past_ttl pol now s \<or> past_idle pol now s then None else Some (k, s))"
proof -
  have ok': "table_ok (swept pol now t)" unfolding swept_filter by (rule table_ok_filter [OF assms])
  have iff: "lookup_token p token (swept pol now t) = Some (k, s) \<longleftrightarrow>
      lookup_token p token t = Some (k, s) \<and> \<not> (past_ttl pol now s \<or> past_idle pol now s)" for k s
    unfolding lookup_token_iff [OF assms] lookup_token_iff [OF ok'] by (auto simp: swept_filter)
  show ?thesis
    by (cases "lookup_token p token (swept pol now t)"; cases "lookup_token p token t")
      (use iff in force)+
qed

lemma let_in_swept:
  assumes ok: "table_ok t" and le: "now \<le> later"
  shows "let_in_as p pol (swept pol now t) req later = let_in_as p pol t req later"
proof -
  obtain token f where req: "req = (token, f)" by force
  have ok': "table_ok (swept pol now t)" unfolding swept_filter by (rule table_ok_filter [OF ok])
  note look = lookup_swept [OF ok, of p token pol now]
  show ?thesis
  proof (cases "token = [] \<or> lookup_token p token t = None")
    case True
    then show ?thesis using look by (auto simp: req let_in_as_def validate_def lookup_token_def)
  next
    case False
    then obtain k s where l: "lookup_token p token t = Some (k, s)" and tok: "token \<noteq> []" by auto
    show ?thesis
    proof (cases "past_ttl pol now s \<or> past_idle pol now s")
      case True
      then have "lookup_token p token (swept pol now t) = None" using look l by simp
      moreover have "past_ttl pol later s \<or> past_idle pol later s" using True past_mono [OF le] by blast
      ultimately have gone: "let_in_as p pol (swept pol now t) req later = None"
        and late: "past_ttl pol later s \<or> past_idle pol later s"
        using tok by (auto simp: req let_in_as_def validate_unknown)
      have "let_in_as p pol t req later = None"
        unfolding req let_in_found [OF ok l tok] using late by auto
      with gone show ?thesis by simp
    next
      case False
      then have "lookup_token p token (swept pol now t) = Some (k, s)" using look l by simp
      then show ?thesis
        by (simp add: req let_in_found [OF ok l tok] let_in_found [OF ok' _ tok])
    qed
  qed
qed

interpretation session_sweeps: expiring_table "let_in_as p pol" "swept pol" table_ok for p pol
proof unfold_locales
  fix t and now later :: ms and req
  assume ok: "table_ok t"
  then show "table_ok (swept pol now t)" unfolding swept_filter by (rule table_ok_filter)
  assume "now \<le> later"
  with ok show "let_in_as p pol (swept pol now t) req later = let_in_as p pol t req later"
    by (rule let_in_swept)
qed

text \<open>
  Sweeping signs nobody out. The sweep timer may run any number of times and at any moments before a request: the
  request is let in, with the same session and the same account, exactly when it would have been with no sweep at all.
\<close>
theorem session_sweeps_are_invisible:
  assumes "table_ok t" and "\<forall>s \<in> set sweeps. s \<le> now"
  shows "let_in_as p pol (foldl (\<lambda>t s. swept pol s t) t sweeps) (token, f) now = let_in_as p pol t (token, f) now"
  by (rule session_sweeps.sweeps_invisible [OF assms])

section \<open>The way back in\<close>

text \<open>Ann signs in, is deleted, and another person gets the login; her tab asks again.\<close>

definition ann_session :: ui_session where
  "ann_session = fst (issue demo_platform (hd (users sample_users)) sample_users ''10.0.0.9'' None 1000
     ''abcdef'' ''s1'' [])"

definition ann_table :: session_table where
  "ann_table = snd (issue demo_platform (hd (users sample_users)) sample_users ''10.0.0.9'' None 1000
     ''abcdef'' ''s1'' [])"

definition day_policy :: session_policy where
  "day_policy = \<lparr>ttlHours = 12, idleMinutes = 30\<rparr>"

lemma ann_session_eq: "ann_session = \<lparr>s_id = ''s1'', userLogin = ''ann'', s_role = Operator,
    createdAt = 1000, lastSeenAt = 1000, remoteAddr = ''10.0.0.9'', workbenchSub = None,
    s_sessionEpoch = 0, s_credentialEpoch = 0, s_pwdVersion = 1\<rparr>"
  by (simp add: ann_session_def issue_def sample_users_def Let_def)

lemma ann_table_eq: "ann_table = [(p_sha256 demo_platform ''abcdef'', ann_session)]"
  by (simp add: ann_table_def ann_session_def issue_def Let_def)

lemma ann_known: "table_ok ann_table" "lookup_token demo_platform ''abcdef'' ann_table = Some (p_sha256 demo_platform ''abcdef'', ann_session)"
  by (simp_all add: table_ok_def ann_table_eq lookup_token_def digestsEqual_def demo_platform_def)

lemma request_is_let_in_exactly_witness:
  "\<exists>s' t'. validate demo_platform (Some ''abcdef'') sample_users day_policy 2000 ann_table =
     (SessionOk s' (hd (users sample_users)), t', [])"
proof -
  have tok: "''abcdef'' \<noteq> ''''" by simp
  have "\<exists>s' u t'. validate demo_platform (Some ''abcdef'') sample_users day_policy 2000 ann_table = (SessionOk s' u, t', [])"
    unfolding validate_found [OF ann_known tok]
    by (simp add: past_ttl_def past_idle_def revoked_by_def find_login_def day_policy_def ann_session_eq sample_users_def Let_def)
  with request_is_let_in_exactly [OF ann_known tok, where f = sample_users and pol = day_policy and now = 2000]
  show ?thesis by (auto simp: ann_session_eq find_login_def sample_users_def)
qed

lemma stream_check_agrees_with_door_witness:
  "fst (revocationCheck ''s1'' (kept_or sample_users (disable_user demo_platform ''ann'' 5 sample_users)) ann_table) = False"
proof -
  let ?f = "kept_or sample_users (disable_user demo_platform ''ann'' 5 sample_users)"
  have tok: "''abcdef'' \<noteq> ''''" by simp
  have ids: "distinct (map (\<lambda>(k, s). s_id s) ann_table)" by (simp add: ann_table_eq)
  have b: "\<not> past_ttl day_policy 2000 ann_session" "\<not> past_idle day_policy 2000 ann_session"
    by (simp_all add: past_ttl_def past_idle_def day_policy_def ann_session_eq)
  have r: "revoked_by ?f ann_session = Some UserDisabled"
    by (simp add: revoked_by_def ann_session_eq sample_users_def kept_or_def disable_user_def mapUser_def
        liveUser_def find_login_def stamp_once_def demo_platform_def show_int_def show_nat.simps)
  have "s_id ann_session = ''s1''" by (simp add: ann_session_eq)
  with stream_check_agrees_with_door [OF ann_known(1) ids ann_known(2) tok b, where f = ?f]
  show ?thesis unfolding validate_found [OF ann_known tok] by (simp add: b r drop_session_def)
qed

lemma revocation_reaches_every_session_witness:
  "\<exists>r t' ds. validate demo_platform (Some ''abcdef'')
     (foldl (users_step demo_platform) sample_users [Reset ''ann'' ''tok2'' 6, CompleteSetup ''tok2'' ''longenough'' ''h'' 7])
     day_policy 2000 ann_table = (Refused r, t', ds)"
proof -
  have l: "userLogin ann_session = ''ann''" by (simp add: ann_session_eq sample_users_def)
  have u: "liveUser sample_users (userLogin ann_session) = Some (hd (users sample_users))"
    by (simp add: l liveUser_def find_login_def sample_users_def)
  have i: "s_sessionEpoch ann_session \<le> sessionEpoch sample_users"
    "s_credentialEpoch ann_session \<le> credentialEpoch (hd (users sample_users))"
    by (simp_all add: ann_session_eq sample_users_def)
  have op: "revoking (userLogin ann_session) (Reset ''ann'' ''tok2'' 6)" by (simp add: revoking_def l)
  have ops: "not_removed (userLogin ann_session) [CompleteSetup ''tok2'' ''longenough'' ''h'' 7]"
    by (simp add: not_removed_def)
  show ?thesis
    by (rule revocation_reaches_every_session [OF demo_clock sample_users_ok u i op ops ann_known]) simp
qed

lemma session_sweeps_are_invisible_witness:
  "let_in_as demo_platform day_policy (foldl (\<lambda>t s. swept day_policy s t) ann_table [1500, 1800]) (''abcdef'', sample_users) 2000 \<noteq> None"
proof -
  have tok: "''abcdef'' \<noteq> []" by simp
  have "let_in_as demo_platform day_policy ann_table (''abcdef'', sample_users) 2000 \<noteq> None"
    unfolding let_in_found [OF ann_known tok]
    by (simp add: past_ttl_def past_idle_def revoked_by_def find_login_def day_policy_def ann_session_eq sample_users_def Let_def)
  then show ?thesis using session_sweeps_are_invisible [OF ann_known(1), of "[1500, 1800]" 2000] by simp
qed

text \<open>
  Deleting an account and creating the login again revives the sessions of the old one. \<open>remove\<close> bumps the
  credential epoch, but \<open>create\<close> starts the new row at epoch 0 and password version 0, and a session
  is judged by those numbers and the login alone: a tab that made no request in between
  is let in as the new account, with the new account's role, although the new account has no password yet.
\<close>
theorem recreated_login_revives_old_session:
  "let f = foldl (users_step demo_platform) sample_users
       [Remove ''ann'' 1100, Create ''ann'' Readonly ''tok9'' 1200] in
   signInEligible f ''ann'' = None \<and>
   (\<exists>s' u t'. validate demo_platform (Some ''abcdef'') f day_policy 2000 ann_table = (SessionOk s' u, t', []) \<and>
      s_id s' = ''s1'' \<and> s_role s' = Readonly \<and> pwdHash u = None)"
proof -
  have tok: "''abcdef'' \<noteq> ''''" by simp
  have removed: "kept_or sample_users (remove_user demo_platform ''ann'' 1100 sample_users) =
      sample_users\<lparr>users := [(hd (users sample_users))\<lparr>deletedAt := Some (p_iso demo_platform 1100),
        setupTokens := [], credentialEpoch := 1\<rparr>]\<rparr>"
    by (simp add: kept_or_def remove_user_def mapUser_def liveUser_def find_login_def sample_users_def stamp_once_def)
  have n: "p_iso demo_platform 1100 \<noteq> []" using demo_clock by (simp add: sound_clock_def)
  have f: "foldl (users_step demo_platform) sample_users [Remove ''ann'' 1100, Create ''ann'' Readonly ''tok9'' 1200] =
      sample_users\<lparr>users := [\<lparr>login = ''ann'', role = Readonly, pwdHash = None, pwdVersion = 0,
        u_createdAt = p_iso demo_platform 1200, disabledAt = None, deletedAt = None, lockoutEpoch = 0,
        credentialEpoch = 0, setupTokens = [mintSetupToken demo_platform ''tok9'' 1200]\<rparr>]\<rparr>"
    by (simp add: removed create_user_def kept_or_def [of _ "Inr _"] liveUser_def find_login_def n)
      (simp add: sample_users_def)
  show ?thesis
    unfolding f Let_def validate_found [OF ann_known tok]
    by (simp add: signInEligible_def liveUser_def find_login_def past_ttl_def past_idle_def revoked_by_def
        day_policy_def ann_session_eq sample_users_def)
qed

end
