(* ===== verification/Sign_In.thy ===== *)
theory Sign_In
  imports Rate_Limit Ui_Sessions
begin

text \<open>
  The console's authentication runtime (\<open>src/ui/runtime.ts\<close>) over its route table
  (\<open>src/ui/routes.ts\<close>): the choke point every request passes, and signing in. The runtime holds the
  session table, the rate windows and the lockout table; signing in is two steps, up to the wait for the hashing gate and
  from its answer on, since other requests run in between. The gate's answer and the hash comparison are
  arguments (the gate is \<open>Argon_Gate\<close>); so is the outcome of the Origin comparison, which needs a URL
  parser. The lemmas show what a sign-in needs, that its failures do not tell accounts apart, and who reaches a route.
\<close>

section \<open>Routes\<close>

datatype route_class = Public | Self | Read | ReadAudited | Mutate

record route_spec =
  r_method :: string
  r_path :: string
  r_prefix :: bool
  r_cls :: route_class
  r_bucket :: "bucket_name option"
  r_audited :: bool
  r_originExempt :: bool
  r_loopbackOnly :: bool

definition plain_route :: "string \<Rightarrow> string \<Rightarrow> route_class \<Rightarrow> bucket_name option \<Rightarrow> route_spec" where
  "plain_route m p c b = \<lparr>r_method = m, r_path = p, r_prefix = False, r_cls = c, r_bucket = b,
     r_audited = False, r_originExempt = False, r_loopbackOnly = False\<rparr>"

definition PUBLIC_ROUTES :: "route_spec list" where
  "PUBLIC_ROUTES =
     [(plain_route ''GET'' ''/'' Public (Some Asset))\<lparr>r_prefix := True\<rparr>,
      (plain_route ''GET'' ''/assets/'' Public (Some Asset))\<lparr>r_prefix := True\<rparr>,
      (plain_route ''GET'' ''/fonts/'' Public (Some Asset))\<lparr>r_prefix := True\<rparr>,
      (plain_route ''GET'' ''/healthz'' Public None)\<lparr>r_originExempt := True\<rparr>,
      (plain_route ''POST'' ''/ui/api/session'' Public (Some PublicSignIn))\<lparr>r_audited := True\<rparr>,
      (plain_route ''POST'' ''/ui/api/sso/exchange'' Public (Some SsoEntry))\<lparr>r_audited := True\<rparr>,
      (plain_route ''GET'' ''/ui/api/setup/status'' Public (Some Setup))\<lparr>r_audited := True\<rparr>,
      (plain_route ''POST'' ''/ui/api/setup/complete'' Public (Some Setup))\<lparr>r_audited := True\<rparr>,
      (plain_route ''GET'' ''/ui/api/instance'' Public (Some InstanceProbe))
        \<lparr>r_originExempt := True, r_loopbackOnly := True\<rparr>]"

definition SELF_ROUTES :: "route_spec list" where
  "SELF_ROUTES = [plain_route ''GET'' ''/ui/api/session'' Self None, plain_route ''DELETE'' ''/ui/api/session'' Self None]"

definition API_NAMESPACE :: string where
  "API_NAMESPACE = ''/ui/api/''"

definition route_hit :: "string \<Rightarrow> string \<Rightarrow> route_spec \<Rightarrow> bool" where
  "route_hit wanted path r \<longleftrightarrow>
     r_method r = wanted \<and> (if r_prefix r then prefix (r_path r) path else path = r_path r) \<and>
     \<not> (prefix API_NAMESPACE path \<and> \<not> prefix API_NAMESPACE (r_path r))"

definition better_route :: "route_spec option \<Rightarrow> route_spec \<Rightarrow> route_spec option" where
  "better_route best r = (case best of None \<Rightarrow> Some r
     | Some b \<Rightarrow> if length (r_path b) < length (r_path r) then Some r else best)"

definition lookup_route :: "route_spec list \<Rightarrow> string \<Rightarrow> string \<Rightarrow> route_spec option" where
  "lookup_route routes m path =
     (let wanted = (if m = ''HEAD'' then ''GET'' else m) in
      foldl (\<lambda>best r. if route_hit wanted path r then better_route best r else best) None routes)"

datatype gate_decision = Allow route_class | DenyGate nat string

definition READONLY_REFUSAL_COPY :: string where
  "READONLY_REFUSAL_COPY = ''this account is read-only; ask an administrator for an operator login''"

definition route_gate :: "route_spec option \<Rightarrow> ui_role option \<Rightarrow> gate_decision" where
  "route_gate route r =
     (let cls = (case route of None \<Rightarrow> Mutate | Some s \<Rightarrow> r_cls s) in
      if cls = Public then Allow cls
      else if r = None then DenyGate 401 ''sign in to continue''
      else if cls = Mutate \<and> r \<noteq> Some Operator then DenyGate 403 READONLY_REFUSAL_COPY
      else Allow cls)"

definition requiresOrigin :: "route_spec option \<Rightarrow> string \<Rightarrow> bool" where
  "requiresOrigin route m =
     (if (case route of None \<Rightarrow> False | Some s \<Rightarrow> r_originExempt s) then False
      else if m = ''GET'' \<or> m = ''HEAD'' then False else True)"

section \<open>The gate every request passes\<close>

record ui_runtime =
  sessions :: session_table
  limiter :: windows
  lockouts :: lockout_table

datatype auth_verdict =
    Authorized "route_spec option" "ui_session option" "ui_user option"
  | AuthDenied nat string "ms option"

definition LOOPBACK_PEERS :: "string set" where
  "LOOPBACK_PEERS = {''127.0.0.1'', ''::1'', ''localhost''}"

record auth_request =
  q_method :: string
  q_path :: string
  q_peer :: string
  q_remoteKey :: string
  q_token :: "string option"

text \<open>
  \<open>peer\<close> is the normalized socket address and \<open>remoteKey\<close> the key derived from it (\<open>Remote_Key\<close>);
  \<open>origin\<close> is the Origin comparison, an error reason or nothing.
\<close>

definition authorize ::
  "platform \<Rightarrow> route_spec list \<Rightarrow> auth_request \<Rightarrow> users_file \<Rightarrow> session_policy \<Rightarrow> string option \<Rightarrow> ms \<Rightarrow>
     ui_runtime \<Rightarrow> auth_verdict \<times> ui_runtime" where
  "authorize p routes q f pol origin now rt =
     (let route = lookup_route routes (q_method q) (q_path q);
          (bucket, ws) = (case route of None \<Rightarrow> (Admitted, limiter rt)
            | Some s \<Rightarrow> (case r_bucket s of None \<Rightarrow> (Admitted, limiter rt)
                | Some b \<Rightarrow> take_bucket b (q_remoteKey q) now (limiter rt)));
          rt1 = rt\<lparr>limiter := ws\<rparr>
      in case bucket of Rate_Limit.Refused retry \<Rightarrow> (AuthDenied 429 ''too many requests'' (Some retry), rt1)
      | Admitted \<Rightarrow>
        if (case route of None \<Rightarrow> False | Some s \<Rightarrow> r_loopbackOnly s) \<and> q_peer q \<notin> LOOPBACK_PEERS
        then (AuthDenied 404 ''not found'' None, rt1)
        else
          let isPublic = (case route of None \<Rightarrow> False | Some s \<Rightarrow> r_cls s = Public);
              (who, t) = (if isPublic then (Inr None, sessions rt1)
                else case validate p (q_token q) f pol now (sessions rt1) of
                  (Ui_Sessions.Refused r, t, _) \<Rightarrow> (Inl r, t)
                | (SessionOk s u, t, _) \<Rightarrow> (Inr (Some (s, u)), t));
              rt2 = rt1\<lparr>sessions := t\<rparr>
          in case who of
            Inl _ \<Rightarrow> (AuthDenied 401 ''sign in to continue'' None, rt2)
          | Inr user \<Rightarrow>
              (case route_gate route (map_option (s_role \<circ> fst) user) of
                 DenyGate status why \<Rightarrow> (AuthDenied status why None, rt2)
               | Allow _ \<Rightarrow>
                   (case (if requiresOrigin route (q_method q) then origin else None) of
                      Some why \<Rightarrow> (AuthDenied 403 why None, rt2)
                    | None \<Rightarrow> (Authorized route (map_option fst user) (map_option snd user), rt2))))"

section \<open>Signing in\<close>

record sign_in_args =
  a_login :: string
  a_password :: string
  a_remoteKey :: string
  a_remoteAddr :: string
  a_workbenchSub :: "string option"

datatype sign_in_verdict = SignedIn string ui_session | SignInDenied nat string "ms option"

text \<open>What a sign-in carries across its wait for the gate.\<close>

record pending_sign_in =
  p_args :: sign_in_args
  p_now :: ms
  p_file :: users_file
  p_user :: "ui_user option"
  p_epoch :: nat
  p_clean :: bool

definition sign_in_begin ::
  "sign_in_args \<Rightarrow> users_file \<Rightarrow> ms \<Rightarrow> ui_runtime \<Rightarrow> (sign_in_verdict + pending_sign_in) \<times> ui_runtime" where
  "sign_in_begin args f now rt =
     (let known = liveUser f (a_login args) \<noteq> None;
          (bucket, ws) = take_bucket SignIn (a_login args @ '' '' @ a_remoteKey args) now (limiter rt);
          rt1 = rt\<lparr>limiter := ws\<rparr>
      in case bucket of Rate_Limit.Refused retry \<Rightarrow> (Inl (SignInDenied 429 ''too many attempts'' (Some retry)), rt1)
      | Admitted \<Rightarrow>
        let user = signInEligible f (a_login args);
            epoch = (case user of None \<Rightarrow> 0 | Some u \<Rightarrow> lockoutEpoch u);
            (locked, t) = lockout_state (a_login args) (a_remoteKey args) epoch now (lockouts rt1);
            rt2 = rt1\<lparr>lockouts := t\<rparr>
        in case locked of
          Locked _ retry \<Rightarrow> (Inl (SignInDenied 429 ''too many attempts'' (Some retry)), rt2)
        | Unlocked _ \<Rightarrow>
            (Inr \<lparr>p_args = args, p_now = now, p_file = f, p_user = user, p_epoch = epoch,
               p_clean = (known \<and> isCleanPrincipal (a_login args) (a_remoteKey args) now epoch (lockouts rt2))\<rparr>,
             rt2))"

text \<open>The gate's answer: it shed the request, or it ran the comparison, with this result.\<close>

datatype gate_answer = Shed | Compared bool

definition hash_target :: "pending_sign_in \<Rightarrow> string option" where
  "hash_target pend = (case p_user pend of None \<Rightarrow> None | Some u \<Rightarrow> pwdHash u)"

definition sign_in_end ::
  "platform \<Rightarrow> pending_sign_in \<Rightarrow> gate_answer \<Rightarrow> string \<Rightarrow> string \<Rightarrow> ui_runtime \<Rightarrow> sign_in_verdict \<times> ui_runtime" where
  "sign_in_end p pend answer token sid rt =
     (let l = a_login (p_args pend); r = a_remoteKey (p_args pend) in
      case answer of
        Shed \<Rightarrow> (SignInDenied 503 (''the sign-in path is saturated '' @ em_dash @ '' retry in a moment'') (Some 1000), rt)
      | Compared matched \<Rightarrow>
          (case (p_user pend, matched) of
             (Some u, True) \<Rightarrow>
               let (s, t) = issue p u (p_file pend) (a_remoteAddr (p_args pend)) (a_workbenchSub (p_args pend))
                     (p_now pend) token sid (sessions rt)
               in (SignedIn token s, rt\<lparr>lockouts := recordSuccess l r (lockouts rt), sessions := t\<rparr>)
           | _ \<Rightarrow> (SignInDenied 401 ''sign-in failed'' None,
                 rt\<lparr>lockouts := snd (recordFailure l r (p_epoch pend) (p_now pend) (lockouts rt))\<rparr>)))"

text \<open>The whole sign-in when nothing else runs in between.\<close>

definition signIn ::
  "platform \<Rightarrow> (string \<Rightarrow> string \<Rightarrow> bool) \<Rightarrow> string \<Rightarrow> sign_in_args \<Rightarrow> users_file \<Rightarrow> ms \<Rightarrow> bool \<Rightarrow> string \<Rightarrow> string \<Rightarrow>
     ui_runtime \<Rightarrow> sign_in_verdict \<times> ui_runtime" where
  "signIn p verify dummy args f now shed token sid rt =
     (case sign_in_begin args f now rt of
        (Inl denied, rt1) \<Rightarrow> (denied, rt1)
      | (Inr pend, rt1) \<Rightarrow>
          sign_in_end p pend
            (if shed then Shed
             else Compared (verifyPassword verify dummy (hash_target pend) (a_password args))) token sid rt1)"

section \<open>Lemmas\<close>

lemma verify_true_iff:
  "verifyPassword verify dummy hash pw \<longleftrightarrow> (\<exists>h. hash = Some h \<and> verify pw h)"
  by (cases hash) (auto simp: verifyPassword_def)

text \<open>The epoch a login's failures are counted under.\<close>

definition epoch_of :: "users_file \<Rightarrow> string \<Rightarrow> nat" where
  "epoch_of f l = (case signInEligible f l of None \<Rightarrow> 0 | Some u \<Rightarrow> lockoutEpoch u)"

text \<open>Everything of \<open>sign_in_begin\<close> that does not look at the account.\<close>

definition sign_in_meters :: "sign_in_args \<Rightarrow> nat \<Rightarrow> ms \<Rightarrow> ui_runtime \<Rightarrow> (sign_in_verdict + unit) \<times> ui_runtime" where
  "sign_in_meters args epoch now rt =
     (let (bucket, ws) = take_bucket SignIn (a_login args @ '' '' @ a_remoteKey args) now (limiter rt)
      in case bucket of Rate_Limit.Refused retry \<Rightarrow> (Inl (SignInDenied 429 ''too many attempts'' (Some retry)), rt\<lparr>limiter := ws\<rparr>)
      | Admitted \<Rightarrow>
        let (locked, t) = lockout_state (a_login args) (a_remoteKey args) epoch now (lockouts rt)
        in case locked of
          Locked _ retry \<Rightarrow> (Inl (SignInDenied 429 ''too many attempts'' (Some retry)), rt\<lparr>limiter := ws, lockouts := t\<rparr>)
        | Unlocked _ \<Rightarrow> (Inr (), rt\<lparr>limiter := ws, lockouts := t\<rparr>))"

lemma sign_in_begin_meters:
  "sign_in_begin args f now rt =
    (case sign_in_meters args (epoch_of f (a_login args)) now rt of
       (Inl denied, rt1) \<Rightarrow> (Inl denied, rt1)
     | (Inr _, rt1) \<Rightarrow> (Inr \<lparr>p_args = args, p_now = now, p_file = f, p_user = signInEligible f (a_login args),
           p_epoch = epoch_of f (a_login args),
           p_clean = (liveUser f (a_login args) \<noteq> None \<and>
             isCleanPrincipal (a_login args) (a_remoteKey args) now (epoch_of f (a_login args)) (lockouts rt1))\<rparr>, rt1))"
  unfolding sign_in_begin_def sign_in_meters_def epoch_of_def Let_def
  by (auto split: prod.splits bucket_verdict.splits lockout_state.splits)

text \<open>A sign-in that did not succeed, without the account.\<close>

definition failed_sign_in :: "sign_in_args \<Rightarrow> nat \<Rightarrow> ms \<Rightarrow> bool \<Rightarrow> ui_runtime \<Rightarrow> sign_in_verdict \<times> ui_runtime" where
  "failed_sign_in args epoch now shed rt =
     (case sign_in_meters args epoch now rt of
        (Inl denied, rt1) \<Rightarrow> (denied, rt1)
      | (Inr _, rt1) \<Rightarrow>
          if shed then (SignInDenied 503 (''the sign-in path is saturated '' @ em_dash @ '' retry in a moment'') (Some 1000), rt1)
          else (SignInDenied 401 ''sign-in failed'' None,
            rt1\<lparr>lockouts := snd (recordFailure (a_login args) (a_remoteKey args) epoch now (lockouts rt1))\<rparr>))"

lemma signIn_failed:
  assumes "\<forall>tk s. fst (signIn p verify dummy args f now shed token sid rt) \<noteq> SignedIn tk s"
  shows "signIn p verify dummy args f now shed token sid rt = failed_sign_in args (epoch_of f (a_login args)) now shed rt"
  using assms unfolding signIn_def sign_in_begin_meters failed_sign_in_def sign_in_end_def Let_def
  by (auto split: prod.splits sum.splits option.splits bool.splits if_splits)

lemma meters_never_sign_in: "sign_in_meters args e now rt \<noteq> (Inl (SignedIn tk s), rt')"
  by (auto simp: sign_in_meters_def Let_def split: prod.splits bucket_verdict.splits lockout_state.splits)

lemma signIn_ok_iff:
  "signIn p verify dummy args f now shed token sid rt = (SignedIn tk s, rt') \<longleftrightarrow>
    (\<exists>rt1 u h t. sign_in_meters args (epoch_of f (a_login args)) now rt = (Inr (), rt1) \<and>
       signInEligible f (a_login args) = Some u \<and> pwdHash u = Some h \<and> verify (a_password args) h \<and> \<not> shed \<and>
       issue p u f (a_remoteAddr args) (a_workbenchSub args) now token sid (sessions rt1) = (s, t) \<and> tk = token \<and>
       rt' = rt1\<lparr>lockouts := recordSuccess (a_login args) (a_remoteKey args) (lockouts rt1), sessions := t\<rparr>)"
  unfolding signIn_def sign_in_begin_meters sign_in_end_def Let_def hash_target_def
  by (auto simp: verify_true_iff meters_never_sign_in
      split: prod.splits sum.splits option.splits bool.splits if_splits)

text \<open>The route a lookup finds is a registered one that hits.\<close>

lemma lookup_route_hits:
  assumes "lookup_route routes m path = Some r"
  shows "r \<in> set routes \<and> route_hit (if m = ''HEAD'' then ''GET'' else m) path r"
proof -
  let ?w = "if m = ''HEAD'' then ''GET'' else m"
  have "foldl (\<lambda>best r. if route_hit ?w path r then better_route best r else best) b routes = Some r \<Longrightarrow>
      b = Some r \<or> r \<in> set routes \<and> route_hit ?w path r" for b
  proof (induction routes arbitrary: b)
    case (Cons x routes)
    then show ?case
      by (fastforce simp: better_route_def split: if_splits option.splits)
  qed simp
  from this [of None] assms show ?thesis by (simp add: lookup_route_def Let_def)
qed

lemma lookup_after_issue:
  assumes "issue p u f addr sub now token sid t = (s, t')" and "table_ok t'"
  shows "lookup_token p token t' = Some (p_sha256 p token, s)"
proof -
  have "(p_sha256 p token, s) \<in> set t'"
    using assms(1) by (auto simp: issue_def Let_def intro: map_of_SomeD)
  then show ?thesis using lookup_token_iff [OF assms(2)] by blast
qed

section \<open>Properties\<close>

text \<open>
  C15. Signing in takes the password, and gives a session that works. A sign-in succeeds only for an account that is
  live, enabled and has a password, when the comparison with its hash said yes, the rate bucket admitted it and the
  principal was not locked out; its failures are then forgotten. Against an unchanged users file and a
  policy with positive budgets, the token it returned is let in as that account.
\<close>
theorem sign_in_needs_the_password:
  assumes s: "signIn p verify dummy args f now shed token sid rt = (SignedIn tk s, rt')"
    and t: "table_ok (sessions rt')" and tok: "token \<noteq> ''''" and pol: "0 < ttlHours pol" "0 < idleMinutes pol"
  shows "\<exists>u h. signInEligible f (a_login args) = Some u \<and> pwdHash u = Some h \<and>
      verify (a_password args) h \<and> \<not> shed \<and> tk = token \<and> s_role s = role u \<and>
      fst (take_bucket SignIn (a_login args @ '' '' @ a_remoteKey args) now (limiter rt)) = Admitted \<and>
      (\<exists>n. fst (lockout_state (a_login args) (a_remoteKey args) (lockoutEpoch u) now (lockouts rt)) = Unlocked n) \<and>
      map_of (lt_records (lockouts rt')) (lockout_key (a_login args) (a_remoteKey args)) = None \<and>
      fst (validate p (Some token) f pol now (sessions rt')) = SessionOk s u"
proof -
  from s obtain rt1 u h t' where m: "sign_in_meters args (epoch_of f (a_login args)) now rt = (Inr (), rt1)"
    and u: "signInEligible f (a_login args) = Some u" "pwdHash u = Some h" "verify (a_password args) h" "\<not> shed"
    and i: "issue p u f (a_remoteAddr args) (a_workbenchSub args) now token sid (sessions rt1) = (s, t')"
    and rt': "tk = token" "rt' = rt1\<lparr>lockouts := recordSuccess (a_login args) (a_remoteKey args) (lockouts rt1), sessions := t'\<rparr>"
    unfolding signIn_ok_iff by blast
  have e: "epoch_of f (a_login args) = lockoutEpoch u" using u(1) by (simp add: epoch_of_def)
  from m have b: "fst (take_bucket SignIn (a_login args @ '' '' @ a_remoteKey args) now (limiter rt)) = Admitted"
    "\<exists>n. fst (lockout_state (a_login args) (a_remoteKey args) (lockoutEpoch u) now (lockouts rt)) = Unlocked n"
    unfolding sign_in_meters_def e
    by (auto simp: Let_def split: prod.splits bucket_verdict.splits lockout_state.splits)
  have sess: "s = \<lparr>s_id = sid, userLogin = login u, s_role = role u, createdAt = now, lastSeenAt = now,
      remoteAddr = a_remoteAddr args, workbenchSub = a_workbenchSub args, s_sessionEpoch = sessionEpoch f,
      s_credentialEpoch = credentialEpoch u, s_pwdVersion = pwdVersion u\<rparr>"
    using i by (auto simp: issue_def Let_def)
  have live: "find_login f (a_login args) = Some u" "absent (deletedAt u)" "absent (disabledAt u)"
    using u(1) by (auto simp: signInEligible_def liveUser_def split: option.splits if_splits)
  then have l: "login u = a_login args" using find_SomeD unfolding find_login_def by fastforce
  have "lookup_token p token (sessions rt') = Some (p_sha256 p token, s)"
    using lookup_after_issue [OF i] t rt'(2) by simp
  from validate_found [OF t this tok, of f pol now]
  have v: "fst (validate p (Some token) f pol now (sessions rt')) = SessionOk s u"
    using pol live by (simp add: past_ttl_def past_idle_def revoked_by_def sess l Let_def)
  have "map_of (lt_records (lockouts rt')) (lockout_key (a_login args) (a_remoteKey args)) = None"
    by (simp add: rt'(2) recordSuccess_def)
  with u b rt'(1) sess v show ?thesis by auto
qed



text \<open>
  The API namespace is public only by name. With the shipped public and self routes and any further routes that are not public, a path
  under \<open>/ui/api/\<close> resolves to a public route only if it is, letter for letter, one of the five listed ones: the shell's
  prefix never makes an unlisted endpoint public.
\<close>
theorem api_namespace_is_public_by_name_only:
  assumes extra: "\<forall>r \<in> set others. r_cls r \<noteq> Public"
    and api: "prefix ''/ui/api/'' path"
    and hit: "lookup_route (PUBLIC_ROUTES @ SELF_ROUTES @ others) m path = Some r" and pub: "r_cls r = Public"
  shows "path = r_path r \<and> path \<in> {''/ui/api/session'', ''/ui/api/sso/exchange'', ''/ui/api/setup/status'',
    ''/ui/api/setup/complete'', ''/ui/api/instance''}"
proof -
  from lookup_route_hits [OF hit] have r: "r \<in> set (PUBLIC_ROUTES @ SELF_ROUTES @ others)"
    and h: "route_hit (if m = ''HEAD'' then ''GET'' else m) path r" by blast+
  have "r \<notin> set others" using extra pub by auto
  moreover have "r \<notin> set SELF_ROUTES" using pub by (auto simp: SELF_ROUTES_def plain_route_def)
  ultimately have p: "r \<in> set PUBLIC_ROUTES" using r by auto
  have "prefix API_NAMESPACE (r_path r)" and path: "if r_prefix r then prefix (r_path r) path else path = r_path r"
    using h api by (auto simp: route_hit_def API_NAMESPACE_def)
  then have "\<not> r_prefix r \<and> r_path r \<in> {''/ui/api/session'', ''/ui/api/sso/exchange'', ''/ui/api/setup/status'',
    ''/ui/api/setup/complete'', ''/ui/api/instance''}"
    using p unfolding PUBLIC_ROUTES_def plain_route_def API_NAMESPACE_def by auto
  with path show ?thesis by auto
qed

text \<open>
  Without a session, what exists and what does not look alike. An unauthenticated request whose path resolves to nothing, or to any route that is
  neither public nor loopback-only, is answered 401 with one sentence, as long as no rate bucket refuses it.
\<close>
theorem unauthenticated_requests_learn_nothing:
  assumes r: "case lookup_route routes (q_method q) (q_path q) of None \<Rightarrow> True
      | Some r \<Rightarrow> r_cls r \<noteq> Public \<and> \<not> r_loopbackOnly r \<and>
          (\<forall>b. r_bucket r = Some b \<longrightarrow> fst (take_bucket b (q_remoteKey q) now (limiter rt)) = Admitted)"
    and v: "validate p (q_token q) f pol now (sessions rt) = (Ui_Sessions.Refused why, t, ds)"
  shows "fst (authorize p routes q f pol origin now rt) = AuthDenied 401 ''sign in to continue'' None"
  using r v by (auto simp: authorize_def Let_def split: option.splits prod.splits bucket_verdict.splits)

text \<open>A path nobody registered, and the control route.\<close>

definition control_route :: route_spec where
  "control_route = plain_route ''POST'' ''/ui/api/service'' Mutate (Some Control)"

definition demo_routes :: "route_spec list" where
  "demo_routes = PUBLIC_ROUTES @ SELF_ROUTES @ [control_route]"

lemma control_route_fields [simp]:
  "r_cls control_route = Mutate" "r_bucket control_route = Some Control" "r_loopbackOnly control_route = False"
  by (simp_all add: control_route_def plain_route_def)

definition probe :: "string \<Rightarrow> auth_request" where
  "probe path = \<lparr>q_method = ''POST'', q_path = path, q_peer = ''10.0.0.9'', q_remoteKey = ''10.0.0.9'', q_token = None\<rparr>"

definition quiet_runtime :: ui_runtime where
  "quiet_runtime = \<lparr>sessions = [], limiter = [], lockouts = new_lockout_table\<rparr>"

definition worn_runtime :: ui_runtime where
  "worn_runtime = quiet_runtime\<lparr>limiter := [(''control:10.0.0.9'', \<lparr>cw_start = 0, cw_count = 30\<rparr>)]\<rparr>"

text \<open>What the route resolves to and what an unauthenticated request leaves of the windows.\<close>

lemma lookup_service:
  "lookup_route demo_routes ''POST'' ''/ui/api/service'' = Some control_route"
  "lookup_route demo_routes ''POST'' ''/ui/api/nothing'' = None"
  by code_simp+

definition probe_windows :: "nat \<Rightarrow> windows" where
  "probe_windows n = (if n = 0 then [] else [(''control:10.0.0.9'', \<lparr>cw_start = 0, cw_count = n\<rparr>)])"

lemma probe_step:
  assumes "n < 30"
  shows "authorize demo_platform demo_routes (probe ''/ui/api/service'') f pol None 0
      (quiet_runtime\<lparr>limiter := probe_windows n\<rparr>) =
    (AuthDenied 401 ''sign in to continue'' None, quiet_runtime\<lparr>limiter := probe_windows (Suc n)\<rparr>)"
  using assms
  by (simp add: authorize_def probe_def lookup_service Let_def take_bucket_def
      takeWith_def probe_windows_def validate_def quiet_runtime_def)

lemma probe_run:
  "n \<le> 30 \<Longrightarrow> ((\<lambda>rt. snd (authorize demo_platform demo_routes
      (probe ''/ui/api/service'') f pol None 0 rt)) ^^ n) quiet_runtime = quiet_runtime\<lparr>limiter := probe_windows n\<rparr>"
proof (induction n)
  case 0
  show ?case by (simp add: probe_windows_def quiet_runtime_def)
next
  case (Suc n)
  then show ?case by (simp add: probe_step)
qed

text \<open>
  The meters do tell. The rate bucket of a route is drawn before the session is asked for, so thirty unauthenticated requests to a
  control route are answered 401 and the next one 429, where a path that does not exist goes on
  answering 401: the console confirms to a caller with no session that the route exists.
\<close>
theorem meters_reveal_a_route:
  "((\<lambda>rt. snd (authorize demo_platform demo_routes
       (probe ''/ui/api/service'') EMPTY_USERS_FILE day_policy None 0 rt)) ^^ 30) quiet_runtime = worn_runtime \<and>
   fst (authorize demo_platform demo_routes (probe ''/ui/api/service'')
       EMPTY_USERS_FILE day_policy None 0 worn_runtime) = AuthDenied 429 ''too many requests'' (Some 60000) \<and>
   fst (authorize demo_platform demo_routes (probe ''/ui/api/nothing'')
       EMPTY_USERS_FILE day_policy None 0 worn_runtime) = AuthDenied 401 ''sign in to continue'' None"
proof -
  have "worn_runtime = quiet_runtime\<lparr>limiter := probe_windows 30\<rparr>" by (simp add: worn_runtime_def probe_windows_def)
  moreover have "fst (authorize demo_platform demo_routes (probe ''/ui/api/service'') EMPTY_USERS_FILE day_policy None 0
      worn_runtime) = AuthDenied 429 ''too many requests'' (Some 60000)"
    by (simp add: authorize_def probe_def lookup_service Let_def take_bucket_def takeWith_def worn_runtime_def)
  moreover have "fst (authorize demo_platform demo_routes (probe ''/ui/api/nothing'') EMPTY_USERS_FILE day_policy None 0
      worn_runtime) = AuthDenied 401 ''sign in to continue'' None"
    by (simp add: authorize_def probe_def lookup_service Let_def validate_def)
  ultimately show ?thesis by (simp add: probe_run)
qed

text \<open>Ann's sign-in, with a comparison that knows her password.\<close>

definition ann_args :: sign_in_args where
  "ann_args = \<lparr>a_login = ''ann'', a_password = ''pw'', a_remoteKey = ''k'', a_remoteAddr = ''10.0.0.9'', a_workbenchSub = None\<rparr>"

definition ann_verify :: "string \<Rightarrow> string \<Rightarrow> bool" where
  "ann_verify pw h \<longleftrightarrow> pw = ''pw'' \<and> h = ''h0''"

definition one_attempt :: ui_runtime where
  "one_attempt = quiet_runtime\<lparr>limiter := [(''signIn:ann k'', \<lparr>cw_start = 1000, cw_count = 1\<rparr>)]\<rparr>"

lemma ann_meters: "sign_in_meters ann_args 0 1000 quiet_runtime = (Inr (), one_attempt)"
  by (simp add: sign_in_meters_def ann_args_def quiet_runtime_def take_bucket_def takeWith_def Let_def
      lockout_state_def new_lockout_table_def one_attempt_def)

lemma ann_eligible:
  "signInEligible sample_users ''ann'' = Some (hd (users sample_users))" "epoch_of sample_users ''ann'' = 0"
  by (simp_all add: signInEligible_def liveUser_def find_login_def sample_users_def epoch_of_def)

lemma sign_in_needs_the_password_witness:
  "\<exists>s rt'. signIn demo_platform ann_verify ''dummy'' ann_args sample_users 1000 False ''abcdef'' ''s1'' quiet_runtime =
      (SignedIn ''abcdef'' s, rt') \<and>
    fst (validate demo_platform (Some ''abcdef'') sample_users day_policy 1000 (sessions rt')) = SessionOk s (hd (users sample_users))"
proof -
  let ?u = "hd (users sample_users)"
  have l: "a_login ann_args = ''ann''" by (simp add: ann_args_def)
  obtain s t where i: "issue demo_platform ?u sample_users (a_remoteAddr ann_args) (a_workbenchSub ann_args) 1000
      ''abcdef'' ''s1'' (sessions one_attempt) = (s, t)" by force
  let ?rt = "one_attempt\<lparr>lockouts := recordSuccess (a_login ann_args) (a_remoteKey ann_args) (lockouts one_attempt), sessions := t\<rparr>"
  have "pwdHash ?u = Some ''h0''" "ann_verify (a_password ann_args) ''h0''"
    by (simp_all add: sample_users_def ann_verify_def ann_args_def)
  then have s: "signIn demo_platform ann_verify ''dummy'' ann_args sample_users 1000 False ''abcdef'' ''s1'' quiet_runtime =
      (SignedIn ''abcdef'' s, ?rt)"
    unfolding signIn_ok_iff l ann_eligible using ann_meters i by (simp add: l ann_eligible)
  have t: "table_ok (sessions ?rt)"
    using i by (auto simp: issue_def one_attempt_def quiet_runtime_def table_ok_def demo_platform_def Let_def)
  have pol: "0 < ttlHours day_policy" "0 < idleMinutes day_policy" by (simp_all add: day_policy_def)
  have tok: "''abcdef'' \<noteq> ''''" by simp
  from sign_in_needs_the_password [OF s t tok pol] s show ?thesis by (auto simp: l ann_eligible)
qed


definition ann_runtime :: ui_runtime where
  "ann_runtime = quiet_runtime\<lparr>sessions := ann_table\<rparr>"

definition ann_request :: auth_request where
  "ann_request = (probe ''/ui/api/service'')\<lparr>q_token := Some ''abcdef''\<rparr>"

lemma ann_control:
  "\<exists>s rt'. authorize demo_platform demo_routes ann_request sample_users day_policy None 2000 ann_runtime =
     (Authorized (Some control_route) (Some s) (Some (hd (users sample_users))), rt')"
proof -
  have tok: "''abcdef'' \<noteq> ''''" by simp
  have "validate demo_platform (Some ''abcdef'') sample_users day_policy 2000 ann_table =
      (SessionOk (ann_session\<lparr>s_role := Operator, lastSeenAt := 2000\<rparr>) (hd (users sample_users)),
       AList.update (p_sha256 demo_platform ''abcdef'') (ann_session\<lparr>s_role := Operator, lastSeenAt := 2000\<rparr>) ann_table, [])"
    unfolding validate_found [OF ann_known tok]
    by (simp add: past_ttl_def past_idle_def revoked_by_def find_login_def day_policy_def ann_session_eq
        sample_users_def Let_def)
  then show ?thesis
    by (simp add: authorize_def ann_request_def ann_runtime_def probe_def lookup_service Let_def take_bucket_def
        takeWith_def quiet_runtime_def route_gate_def)
qed


lemma api_namespace_is_public_by_name_only_witness:
  "\<exists>r. lookup_route (PUBLIC_ROUTES @ SELF_ROUTES @ [control_route]) ''GET'' ''/ui/api/setup/status'' = Some r \<and>
     r_path r = ''/ui/api/setup/status''"
proof -
  have "(case lookup_route (PUBLIC_ROUTES @ SELF_ROUTES @ [control_route]) ''GET'' ''/ui/api/setup/status'' of
      None \<Rightarrow> False | Some r \<Rightarrow> r_cls r = Public)" by code_simp
  then obtain r where r: "lookup_route (PUBLIC_ROUTES @ SELF_ROUTES @ [control_route]) ''GET'' ''/ui/api/setup/status'' = Some r"
      "r_cls r = Public" by (auto split: option.splits)
  have e: "\<forall>r \<in> set [control_route]. r_cls r \<noteq> Public" by simp
  have a: "prefix ''/ui/api/'' ''/ui/api/setup/status''" by simp
  from api_namespace_is_public_by_name_only [OF e a r] r show ?thesis by auto
qed

lemma unauthenticated_requests_learn_nothing_witness:
  "fst (authorize demo_platform demo_routes (probe ''/ui/api/service'') EMPTY_USERS_FILE day_policy None 0 quiet_runtime) =
     AuthDenied 401 ''sign in to continue'' None"
proof (rule unauthenticated_requests_learn_nothing)
  show "validate demo_platform (q_token (probe ''/ui/api/service'')) EMPTY_USERS_FILE day_policy 0 (sessions quiet_runtime) =
      (Ui_Sessions.Refused NoToken, [], [])" by (simp add: validate_def probe_def quiet_runtime_def)
qed (simp add: probe_def lookup_service take_bucket_def takeWith_def quiet_runtime_def Let_def)

end
