(* ===== verification/Store_Lock.thy ===== *)
theory Store_Lock
  imports Prelude
begin

text \<open>
  The single-writer door of the console's state files (\<open>src/ui/store-lock.ts\<close>): the compare-and-swap
  loop of \<open>JsonCasStore.update\<close>, and the lock protocol as an interleaving of writers. A writer is one process; the
  world holds the lock file, the document with its version, the clock and what each
  writer is doing; an event is one system call or one decision of a writer: \<open>Expire\<close> is the wait for a held
  lock running out, \<open>Throw\<close> a corrupt read or a failing change, which leaves through the \<open>finally\<close>. The lemmas show that a writer
  never overwrites a corrupt file nor a version it did not read, that with no reclaim the lock excludes and no
  update is lost, and that two writers reclaiming one dead owner's lock can both enter and lose one.
\<close>

section \<open>The compare-and-swap loop\<close>

datatype 'd store_read = Absent | Corrupt | Good 'd

definition LOCK_STALE_MS :: ms where
  "LOCK_STALE_MS = 10000"

definition MAX_CAS_RETRIES :: nat where
  "MAX_CAS_RETRIES = 5"

fun doc_of :: "'d store_read \<Rightarrow> 'd option" where
  "doc_of (Good d) = Some d"
| "doc_of _ = None"

text \<open>\<open>version\<close> reads the field of a document, \<open>None\<close> when it is not a finite number.\<close>

definition versionOf :: "('d \<Rightarrow> rat option) \<Rightarrow> 'd option \<Rightarrow> int" where
  "versionOf version d = (case d of None \<Rightarrow> 0
     | Some x \<Rightarrow> (case version x of None \<Rightarrow> 0 | Some v \<Rightarrow> if 0 < v then \<lfloor>v\<rfloor> else 0))"

datatype cas_error = StoreCorrupt | LostRaces int | MutateFailed string

text \<open>
  One attempt per element of the list: what the read under the lock found and what the read right
  before the rename found. The result is the document written, or the error.
\<close>

fun update_loop ::
  "('d \<Rightarrow> rat option) \<Rightarrow> (int \<Rightarrow> 'd \<Rightarrow> 'd) \<Rightarrow> ('d option \<Rightarrow> string + 'd) \<Rightarrow> nat \<Rightarrow> int \<Rightarrow>
     ('d store_read \<times> 'd store_read) list \<Rightarrow> cas_error + 'd" where
  "update_loop version stamp mutate 0 observed reads = Inl (LostRaces observed)"
| "update_loop version stamp mutate (Suc n) observed [] = Inl (LostRaces observed)"
| "update_loop version stamp mutate (Suc n) observed ((current, confirm) # reads) =
     (if current = Corrupt then Inl StoreCorrupt
      else let expected = versionOf version (doc_of current) in
        case mutate (doc_of current) of
          Inl e \<Rightarrow> Inl (MutateFailed e)
        | Inr nxt \<Rightarrow>
            if confirm = Corrupt then Inl StoreCorrupt
            else if versionOf version (doc_of confirm) \<noteq> expected
            then update_loop version stamp mutate n (versionOf version (doc_of confirm)) reads
            else Inr (stamp (expected + 1) nxt))"

definition store_update where
  "store_update version stamp mutate reads = update_loop version stamp mutate MAX_CAS_RETRIES 0 reads"

section \<open>Writers and the lock file\<close>

datatype phase =
    Idle
  | Wanting nat
  | Reclaiming nat
  | Holding nat
  | Mutating nat nat "nat list"
  | Confirmed nat nat "nat list"
  | Written
  | Done
  | GaveUp
  | Dead

text \<open>
  The document is the list of writers whose change it carries. \<open>Wanting n\<close> is before the \<open>(n+1)\<close>th
  attempt; \<open>Mutating n v d\<close> has read version \<open>v\<close> and document \<open>d\<close>.
\<close>

record lock_world =
  lock_file :: "(nat \<times> ms) option"
  wall :: ms
  contents :: "nat list"
  ver :: nat
  phase_of :: "nat \<Rightarrow> phase"

definition quiet_world :: lock_world where
  "quiet_world = \<lparr>lock_file = None, wall = 0, contents = [], ver = 0, phase_of = (\<lambda>_. Idle)\<rparr>"

datatype lock_event =
    Want nat
  | Take nat
  | Inspect nat
  | Unlink nat
  | ReadDoc nat
  | Confirm nat
  | Rename nat
  | Unlock nat
  | Expire nat
  | Throw nat
  | Die nat
  | Tick nat

definition set_phase :: "nat \<Rightarrow> phase \<Rightarrow> lock_world \<Rightarrow> lock_world" where
  "set_phase w ph s = s\<lparr>phase_of := (phase_of s)(w := ph)\<rparr>"

text \<open>\<open>reclaimableLock\<close>: liveness first, then age. Every writer is a process of its own, so its boot id differs.\<close>

definition reclaimable :: "lock_world \<Rightarrow> bool" where
  "reclaimable s = (case lock_file s of None \<Rightarrow> False
     | Some (owner, since) \<Rightarrow> phase_of s owner = Dead \<or> LOCK_STALE_MS < wall s - since)"

fun lock_exec :: "lock_event \<Rightarrow> lock_world \<Rightarrow> lock_world option" where
  "lock_exec (Want w) s = (if phase_of s w = Idle then Some (set_phase w (Wanting 0) s) else None)"
| "lock_exec (Take w) s = (case phase_of s w of
     Wanting n \<Rightarrow> if lock_file s = None then Some ((set_phase w (Holding n) s)\<lparr>lock_file := Some (w, wall s)\<rparr>) else None
   | _ \<Rightarrow> None)"
| "lock_exec (Inspect w) s = (case phase_of s w of
     Wanting n \<Rightarrow> if reclaimable s then Some (set_phase w (Reclaiming n) s) else None
   | _ \<Rightarrow> None)"
| "lock_exec (Unlink w) s = (case phase_of s w of
     Reclaiming n \<Rightarrow> Some ((set_phase w (Wanting n) s)\<lparr>lock_file := None\<rparr>)
   | _ \<Rightarrow> None)"
| "lock_exec (ReadDoc w) s = (case phase_of s w of
     Holding n \<Rightarrow> Some (set_phase w (Mutating n (ver s) (contents s)) s)
   | _ \<Rightarrow> None)"
| "lock_exec (Confirm w) s = (case phase_of s w of
     Mutating n v d \<Rightarrow>
       if ver s = v then Some (set_phase w (Confirmed n v d) s)
       else Some ((set_phase w (if Suc n < MAX_CAS_RETRIES then Wanting (Suc n) else GaveUp) s)\<lparr>lock_file := None\<rparr>)
   | _ \<Rightarrow> None)"
| "lock_exec (Rename w) s = (case phase_of s w of
     Confirmed n v d \<Rightarrow> Some ((set_phase w Written s)\<lparr>contents := d @ [w], ver := v + 1\<rparr>)
   | _ \<Rightarrow> None)"
| "lock_exec (Unlock w) s = (case phase_of s w of
     Written \<Rightarrow> Some ((set_phase w Done s)\<lparr>lock_file := None\<rparr>)
   | _ \<Rightarrow> None)"
| "lock_exec (Expire w) s = (case phase_of s w of
     Wanting n \<Rightarrow> Some (set_phase w GaveUp s)
   | _ \<Rightarrow> None)"
| "lock_exec (Throw w) s = (case phase_of s w of
     Holding n \<Rightarrow> Some ((set_phase w GaveUp s)\<lparr>lock_file := None\<rparr>)
   | Mutating n v d \<Rightarrow> Some ((set_phase w GaveUp s)\<lparr>lock_file := None\<rparr>)
   | _ \<Rightarrow> None)"
| "lock_exec (Die w) s = (if phase_of s w = Done then None else Some (set_phase w Dead s))"
| "lock_exec (Tick n) s = Some (s\<lparr>wall := wall s + int n\<rparr>)"

fun lock_run :: "lock_event list \<Rightarrow> lock_world \<Rightarrow> lock_world option" where
  "lock_run [] s = Some s"
| "lock_run (e # es) s = (case lock_exec e s of None \<Rightarrow> None | Some s' \<Rightarrow> lock_run es s')"

section \<open>The invariant without reclaims\<close>

definition inside :: "phase \<Rightarrow> bool" where
  "inside ph \<longleftrightarrow> (\<exists>n. ph = Holding n) \<or> (\<exists>n v d. ph = Mutating n v d) \<or> (\<exists>n v d. ph = Confirmed n v d) \<or> ph = Written"

lemma inside_simps [simp]:
  "inside (Holding n)" "inside (Mutating n v d)" "inside (Confirmed n v d)" "inside Written"
  "\<not> inside Idle" "\<not> inside (Wanting n)" "\<not> inside (Reclaiming n)" "\<not> inside Done" "\<not> inside GaveUp" "\<not> inside Dead"
  by (auto simp: inside_def)

fun reads_of :: "phase \<Rightarrow> (nat \<times> nat list) option" where
  "reads_of (Mutating n v d) = Some (v, d)"
| "reads_of (Confirmed n v d) = Some (v, d)"
| "reads_of _ = None"

definition excl :: "lock_world \<Rightarrow> bool" where
  "excl s \<longleftrightarrow>
     (\<forall>w. inside (phase_of s w) \<longrightarrow> (\<exists>t. lock_file s = Some (w, t))) \<and>
     (\<forall>w v d. reads_of (phase_of s w) = Some (v, d) \<longrightarrow> v = ver s \<and> d = contents s) \<and>
     (\<forall>w n. phase_of s w \<noteq> Reclaiming n) \<and>
     (\<forall>w. phase_of s w = Written \<or> phase_of s w = Done \<longrightarrow> w \<in> set (contents s)) \<and>
     ver s = length (contents s)"

definition no_inspect :: "lock_event list \<Rightarrow> bool" where
  "no_inspect es \<longleftrightarrow> (\<forall>w. Inspect w \<notin> set es)"

lemma excl_lock: "excl s \<Longrightarrow> inside (phase_of s w) \<Longrightarrow> \<exists>t. lock_file s = Some (w, t)"
  and excl_read: "excl s \<Longrightarrow> reads_of (phase_of s w) = Some (v, d) \<Longrightarrow> v = ver s \<and> d = contents s"
  and excl_reclaim: "excl s \<Longrightarrow> phase_of s w \<noteq> Reclaiming n"
  and excl_done: "excl s \<Longrightarrow> phase_of s w = Written \<or> phase_of s w = Done \<Longrightarrow> w \<in> set (contents s)"
  and excl_ver: "excl s \<Longrightarrow> ver s = length (contents s)"
  unfolding excl_def by blast+

lemma excl_one:
  assumes "excl s" and "inside (phase_of s w)" and "inside (phase_of s w')"
  shows "w = w'"
  using excl_lock [OF assms(1,2)] excl_lock [OF assms(1,3)] by auto

lemma reads_inside: "reads_of ph = Some x \<Longrightarrow> inside ph"
  by (cases ph) auto

text \<open>A move of one writer that leaves the document alone.\<close>

lemma excl_move:
  assumes ex: "excl s" and ph: "\<forall>n. ph \<noteq> Reclaiming n" "ph = Written \<or> ph = Done \<longrightarrow> w \<in> set (contents s)"
    and read: "\<forall>v d. reads_of ph = Some (v, d) \<longrightarrow> v = ver s \<and> d = contents s"
    and lock: "inside ph \<longrightarrow> (\<exists>t. l = Some (w, t))" "\<forall>w'. w' \<noteq> w \<and> inside (phase_of s w') \<longrightarrow> l = lock_file s"
  shows "excl ((set_phase w ph s)\<lparr>lock_file := l\<rparr>)" (is "excl ?s")
  unfolding excl_def
proof (intro conjI allI impI)
  have f: "phase_of ?s = (phase_of s)(w := ph)" "lock_file ?s = l" "contents ?s = contents s" "ver ?s = ver s"
    by (simp_all add: set_phase_def)
  show "\<exists>t. lock_file ?s = Some (w', t)" if "inside (phase_of ?s w')" for w'
    using that lock excl_lock [OF ex, of w'] unfolding f by (cases "w' = w") auto
  show "v = ver ?s" and "d = contents ?s" if "reads_of (phase_of ?s w') = Some (v, d)" for w' v d
    using that read excl_read [OF ex, of w' v d] unfolding f by (cases "w' = w"; simp)+
  show "phase_of ?s w' \<noteq> Reclaiming n" for w' n
    using ph(1) excl_reclaim [OF ex] unfolding f by (cases "w' = w") auto
  show "w' \<in> set (contents ?s)" if "phase_of ?s w' = Written \<or> phase_of ?s w' = Done" for w'
    using that ph(2) excl_done [OF ex, of w'] unfolding f by (cases "w' = w") auto
  show "ver ?s = length (contents ?s)" using excl_ver [OF ex] unfolding f .
qed

lemma excl_move_same:
  assumes "excl s" and "\<forall>n. ph \<noteq> Reclaiming n" "ph = Written \<or> ph = Done \<longrightarrow> w \<in> set (contents s)"
    and "\<forall>v d. reads_of ph = Some (v, d) \<longrightarrow> v = ver s \<and> d = contents s"
    and "inside ph \<longrightarrow> inside (phase_of s w)"
  shows "excl (set_phase w ph s)"
proof -
  have "(set_phase w ph s)\<lparr>lock_file := lock_file s\<rparr> = set_phase w ph s" by (simp add: set_phase_def)
  with excl_move [OF assms(1-4), of "lock_file s"] assms(5) excl_lock [OF assms(1)] show ?thesis by simp
qed

lemma excl_write:
  assumes ex: "excl s" and ph: "inside (phase_of s w)"
  shows "excl ((set_phase w Written s)\<lparr>contents := contents s @ [w], ver := ver s + 1\<rparr>)" (is "excl ?s")
  unfolding excl_def
proof (intro conjI allI impI)
  have f: "phase_of ?s = (phase_of s)(w := Written)" "lock_file ?s = lock_file s" "contents ?s = contents s @ [w]" "ver ?s = ver s + 1"
    by (simp_all add: set_phase_def)
  have alone: "reads_of (phase_of s w') = None" if "w' \<noteq> w" for w'
    using excl_one [OF ex ph, of w'] that reads_inside by (cases "reads_of (phase_of s w')") auto
  show "\<exists>t. lock_file ?s = Some (w', t)" if "inside (phase_of ?s w')" for w'
    using that excl_lock [OF ex, of w'] excl_lock [OF ex ph] unfolding f by (cases "w' = w") auto
  show "v = ver ?s" and "d = contents ?s" if "reads_of (phase_of ?s w') = Some (v, d)" for w' v d
    using that alone [of w'] unfolding f by (cases "w' = w"; simp)+
  show "phase_of ?s w' \<noteq> Reclaiming n" for w' n
    using excl_reclaim [OF ex] unfolding f by (cases "w' = w") auto
  show "w' \<in> set (contents ?s)" if "phase_of ?s w' = Written \<or> phase_of ?s w' = Done" for w'
    using that excl_done [OF ex, of w'] unfolding f by (cases "w' = w") auto
  show "ver ?s = length (contents ?s)" using excl_ver [OF ex] unfolding f by simp
qed

lemma excl_step:
  assumes ex: "excl s" and step: "lock_exec e s = Some s'" and no: "\<forall>w. e \<noteq> Inspect w"
  shows "excl s'"
proof (cases e)
  case (Want w)
  with step have "s' = set_phase w (Wanting 0) s" by (auto split: if_splits)
  then show ?thesis using excl_move_same [OF ex, of "Wanting 0" w] by simp
next
  case (Take w)
  with step obtain n where s': "s' = (set_phase w (Holding n) s)\<lparr>lock_file := Some (w, wall s)\<rparr>"
    and free: "lock_file s = None" by (auto split: phase.splits if_splits)
  have "\<not> inside (phase_of s w')" for w' using excl_lock [OF ex, of w'] free by auto
  then show ?thesis unfolding s' by (intro excl_move [OF ex]) auto
next
  case (Inspect w)
  with no show ?thesis by blast
next
  case (Unlink w)
  with step excl_reclaim [OF ex] show ?thesis by (auto split: phase.splits)
next
  case (ReadDoc w)
  with step obtain n where s': "s' = set_phase w (Mutating n (ver s) (contents s)) s" and "phase_of s w = Holding n"
    by (auto split: phase.splits)
  then show ?thesis unfolding s' by (intro excl_move_same [OF ex]) auto
next
  case (Confirm w)
  with step obtain n v d where ph: "phase_of s w = Mutating n v d" by (auto split: phase.splits)
  then have "v = ver s" "d = contents s" using excl_read [OF ex, of w v d] by auto
  then have "s' = set_phase w (Confirmed n v d) s" using step Confirm ph by auto
  moreover have "excl (set_phase w (Confirmed n v d) s)"
    by (rule excl_move_same [OF ex]) (simp_all add: ph \<open>v = ver s\<close> \<open>d = contents s\<close>)
  ultimately show ?thesis by simp
next
  case (Rename w)
  with step obtain n v d where ph: "phase_of s w = Confirmed n v d"
    and s': "s' = (set_phase w Written s)\<lparr>contents := d @ [w], ver := v + 1\<rparr>" by (auto split: phase.splits)
  have "v = ver s" "d = contents s" using excl_read [OF ex, of w v d] ph by auto
  then show ?thesis using excl_write [OF ex, of w] ph s' by simp
next
  case (Unlock w)
  with step have ph: "phase_of s w = Written" and s': "s' = (set_phase w Done s)\<lparr>lock_file := None\<rparr>"
    by (auto split: phase.splits)
  have "\<not> inside (phase_of s w')" if "w' \<noteq> w" for w' using excl_one [OF ex, of w w'] ph that by auto
  moreover have "w \<in> set (contents s)" using excl_done [OF ex] ph by blast
  ultimately show ?thesis unfolding s' by (intro excl_move [OF ex]) auto
next
  case (Expire w)
  with step have "s' = set_phase w GaveUp s" by (auto split: phase.splits)
  then show ?thesis using excl_move_same [OF ex, of GaveUp w] by simp
next
  case (Throw w)
  with step have ph: "inside (phase_of s w)" and s': "s' = (set_phase w GaveUp s)\<lparr>lock_file := None\<rparr>"
    by (auto split: phase.splits)
  have "\<not> inside (phase_of s w')" if "w' \<noteq> w" for w' using excl_one [OF ex, of w w'] ph that by auto
  then show ?thesis unfolding s' by (intro excl_move [OF ex]) auto
next
  case (Die w)
  with step have "s' = set_phase w Dead s" by (auto split: if_splits)
  then show ?thesis using excl_move_same [OF ex, of Dead w] by simp
next
  case (Tick n)
  with step have s': "s' = s\<lparr>wall := wall s + int n\<rparr>" by simp
  have f: "phase_of s' = phase_of s" "lock_file s' = lock_file s" "contents s' = contents s" "ver s' = ver s"
    by (simp_all add: s')
  show ?thesis using ex unfolding excl_def f .
qed

lemma excl_run: "excl s \<Longrightarrow> lock_run es s = Some s' \<Longrightarrow> no_inspect es \<Longrightarrow> excl s'"
proof (induction es arbitrary: s)
  case (Cons e es)
  then obtain s1 where s1: "lock_exec e s = Some s1" "lock_run es s1 = Some s'" by (auto split: option.splits)
  have "\<forall>w. e \<noteq> Inspect w" "no_inspect es" using Cons.prems(3) by (auto simp: no_inspect_def)
  with Cons.IH s1 excl_step [OF Cons.prems(1) s1(1)] show ?case by blast
qed simp

lemma excl_quiet: "excl quiet_world"
  by (simp add: excl_def quiet_world_def)

section \<open>Properties\<close>

text \<open>
  C29. What the compare-and-swap loop writes. Whatever the file held at each of its reads, a write happens only in an attempt whose two
  reads, both intact, found one version, its content is the change applied to what the first of them
  found, and it carries the next version; and there are at most five attempts.
\<close>
theorem update_writes_what_it_read:
  assumes "store_update version stamp mutate reads = Inr written"
  shows "\<exists>i < 5. \<exists>current confirm nxt. i < length reads \<and> reads ! i = (current, confirm) \<and>
    current \<noteq> Corrupt \<and> confirm \<noteq> Corrupt \<and>
    versionOf version (doc_of confirm) = versionOf version (doc_of current) \<and>
    mutate (doc_of current) = Inr nxt \<and> written = stamp (versionOf version (doc_of current) + 1) nxt"
proof -
  have "update_loop version stamp mutate n observed reads = Inr written \<Longrightarrow>
    \<exists>i < n. \<exists>current confirm nxt. i < length reads \<and> reads ! i = (current, confirm) \<and>
      current \<noteq> Corrupt \<and> confirm \<noteq> Corrupt \<and>
      versionOf version (doc_of confirm) = versionOf version (doc_of current) \<and>
      mutate (doc_of current) = Inr nxt \<and> written = stamp (versionOf version (doc_of current) + 1) nxt" for n observed
  proof (induction version stamp mutate n observed reads rule: update_loop.induct)
    case (3 version stamp mutate n observed current confirm reads)
    obtain nxt where nxt: "mutate (doc_of current) = Inr nxt" "current \<noteq> Corrupt" "confirm \<noteq> Corrupt"
      using 3(2) by (auto simp: Let_def split: if_splits sum.splits)
    show ?case
    proof (cases "versionOf version (doc_of confirm) = versionOf version (doc_of current)")
      case True
      with 3(2) nxt have "written = stamp (versionOf version (doc_of current) + 1) nxt" by (simp add: Let_def)
      with True nxt show ?thesis by (intro exI [of _ 0]) auto
    next
      case False
      with 3(2) nxt have "update_loop version stamp mutate n (versionOf version (doc_of confirm)) reads = Inr written"
        by (simp add: Let_def)
      from 3(1) [OF nxt(2) refl nxt(1,3) False this] obtain i where "i < n" "\<exists>current confirm nxt. i < length reads \<and>
        reads ! i = (current, confirm) \<and> current \<noteq> Corrupt \<and> confirm \<noteq> Corrupt \<and>
        versionOf version (doc_of confirm) = versionOf version (doc_of current) \<and>
        mutate (doc_of current) = Inr nxt \<and> written = stamp (versionOf version (doc_of current) + 1) nxt" by blast
      then show ?thesis by (intro exI [of _ "Suc i"]) auto
    qed
  qed simp_all
  with assms show ?thesis by (simp add: store_update_def MAX_CAS_RETRIES_def)
qed

text \<open>
  The lock excludes and no write is lost, as long as nobody reclaims it. In every interleaving of any writers, some of which may
  die, in which no writer takes a lock for abandoned, at most one is between taking and releasing it, every finished writer's change is
  in the document, and the version counts the changes.
\<close>
theorem lock_without_reclaim_loses_nothing:
  assumes "lock_run es quiet_world = Some s" and "no_inspect es"
  shows "(\<forall>w w'. inside (phase_of s w) \<and> inside (phase_of s w') \<longrightarrow> w = w') \<and>
    (\<forall>w. phase_of s w = Done \<longrightarrow> w \<in> set (contents s)) \<and> ver s = length (contents s)"
proof -
  have "excl s" by (rule excl_run [OF excl_quiet assms])
  then show ?thesis using excl_one unfolding excl_def by blast
qed

lemma update_writes_what_it_read_witness:
  "\<exists>i < (5::nat). \<exists>current confirm nxt. i < 2 \<and>
     ([(Good 3, Good 4), (Good 4, Good 4)] :: (nat store_read \<times> nat store_read) list) ! i = (current, confirm) \<and>
     (case doc_of current of None \<Rightarrow> Inl ''absent'' | Some d \<Rightarrow> Inr (10 * d)) = (Inr nxt :: string + nat)"
proof -
  let ?mutate = "\<lambda>d. case d of None \<Rightarrow> Inl ''absent'' | Some d \<Rightarrow> Inr (10 * d)"
  let ?reads = "[(Good (3::nat), Good 4), (Good 4, Good 4)]"
  have "store_update (\<lambda>d. Some (of_nat d)) (\<lambda>v d. d + 1) ?mutate ?reads = Inr 41"
    by (simp add: store_update_def MAX_CAS_RETRIES_def versionOf_def numeral_eq_Suc)
  from update_writes_what_it_read [OF this] show ?thesis by fastforce
qed

lemma lock_without_reclaim_loses_nothing_witness:
  "\<exists>s. lock_run [Want 1, Want 2, Take 1, ReadDoc 1, Confirm 1, Rename 1, Unlock 1,
     Take 2, ReadDoc 2, Confirm 2, Rename 2, Unlock 2] quiet_world = Some s \<and> {1, 2} \<subseteq> set (contents s) \<and> ver s = 2"
proof -
  let ?es = "[Want 1, Want 2, Take 1, ReadDoc 1, Confirm 1, Rename 1, Unlock 1,
     Take 2, ReadDoc 2, Confirm 2, Rename 2, Unlock 2]"
  obtain s where s: "lock_run ?es quiet_world = Some s" and d: "contents s = [1, 2]"
    by (simp add: quiet_world_def set_phase_def)
  have "no_inspect ?es" by (simp add: no_inspect_def)
  from lock_without_reclaim_loses_nothing [OF s this] s d show ?thesis by auto
qed

text \<open>The interleaving: writer 0 dies holding the lock; 1 and 2 both judge it; 1 removes it and enters; 2 removes 1's lock and enters.\<close>

definition reclaim_race :: "lock_event list" where
  "reclaim_race = [Want 0, Take 0, Die 0, Want 1, Want 2, Inspect 1, Inspect 2, Unlink 1, Take 1, Unlink 2, Take 2]"

definition race_writes :: "lock_event list" where
  "race_writes = [ReadDoc 1, ReadDoc 2, Confirm 1, Confirm 2, Rename 1, Rename 2, Unlock 1, Unlock 2]"

text \<open>
  Two writers can reclaim one dead owner's lock and both enter. The judgement of a lock and its removal are two calls, and the removal goes by
  path: a writer that judged the dead owner's lock removes the lock a faster writer has just taken. Both are then
  inside with neither dead and no time gone by, both confirm the version they read, and one of two updates that both reported success is lost.
\<close>
theorem two_reclaimers_lose_an_update:
  "(\<exists>s. lock_run reclaim_race quiet_world = Some s \<and>
      inside (phase_of s 1) \<and> inside (phase_of s 2) \<and> wall s = 0) \<and>
   (\<exists>s. lock_run (reclaim_race @ race_writes) quiet_world = Some s \<and>
      phase_of s 1 = Done \<and> phase_of s 2 = Done \<and> contents s = [2] \<and> ver s = 1)"
  by (simp add: reclaim_race_def race_writes_def quiet_world_def set_phase_def reclaimable_def)

end
