(* ===== verification/Remote_Key.thy ===== *)
theory Remote_Key
  imports Prelude
begin

unbundle bit_operations_syntax

text \<open>
  Who a request is from (\<open>src/ui/remote-key.ts\<close>): the key every rate bucket and lockout counter is
  stored under. \<open>X-Forwarded-For\<close> is honoured only from a configured proxy, and walked from the
  right. The lemmas show that an untrusted peer's header is ignored, that what a client prepends
  never reaches the walk, that the byte-and-mask comparison is prefix matching on bits, and what a
  trailing slash in an entry does.
\<close>

definition HOP_CAP :: nat where
  "HOP_CAP = 16"

section \<open>Addresses\<close>

text \<open>\<open>indexOf\<close> a character, from the front.\<close>

fun index_char :: "char \<Rightarrow> string \<Rightarrow> nat option" where
  "index_char c [] = None"
| "index_char c (x # xs) = (if x = c then Some 0 else map_option Suc (index_char c xs))"

definition cut_at :: "char \<Rightarrow> nat \<Rightarrow> string \<Rightarrow> string" where
  "cut_at c from s = (case index_char c s of None \<Rightarrow> s
     | Some e \<Rightarrow> if 0 < e then drop from (take e s) else s)"

definition normalizeAddress :: "string \<Rightarrow> string" where
  "normalizeAddress raw =
     (let v1 = js_lower (js_trim raw);
          v2 = (if prefix ''['' v1 then cut_at CHR '']'' 1 v1 else v1);
          v3 = cut_at CHR ''%'' 0 v2
      in if prefix ''::ffff:'' v3 \<and> CHR ''.'' \<in> set v3 then drop 7 v3 else v3)"

definition octet :: "string \<Rightarrow> nat option" where
  "octet part =
     (if \<not> (list_all is_digit part \<and> 1 \<le> length part \<and> length part \<le> 3) then None
      else if 255 < read_nat part then None else Some (read_nat part))"

text \<open>A loop that returns null at the first part it cannot read.\<close>

fun read_all :: "('a \<Rightarrow> 'b option) \<Rightarrow> 'a list \<Rightarrow> 'b list option" where
  "read_all f [] = Some []"
| "read_all f (x # xs) = (case f x of None \<Rightarrow> None | Some y \<Rightarrow> map_option (Cons y) (read_all f xs))"

definition parseIpv4 :: "string \<Rightarrow> nat list option" where
  "parseIpv4 v =
     (let parts = split_on CHR ''.'' v in
      if length parts \<noteq> 4 then None else read_all octet parts)"

text \<open>\<open>v.split('::')\<close>.\<close>

fun split_colons :: "string \<Rightarrow> string list" where
  "split_colons [] = [[]]"
| "split_colons [x] = [[x]]"
| "split_colons (x # y # r) =
     (if x = CHR '':'' \<and> y = CHR '':'' then [] # split_colons r
      else case split_colons (y # r) of [] \<Rightarrow> [[x]] | w # ws \<Rightarrow> (x # w) # ws)"

definition lower_hex :: "char \<Rightarrow> bool" where
  "lower_hex c = (let n = of_char c :: nat in 48 \<le> n \<and> n \<le> 57 \<or> 97 \<le> n \<and> n \<le> 102)"

definition group_bytes :: "string \<Rightarrow> nat list option" where
  "group_bytes g =
     (case parseIpv4 g of Some v4 \<Rightarrow> Some v4
      | None \<Rightarrow>
        if \<not> (list_all lower_hex g \<and> 1 \<le> length g \<and> length g \<le> 4) then None
        else let word = foldl (\<lambda>n c. 16 * n + the (hex_digit c)) 0 g in Some [drop_bit 8 word, word AND 0xff])"

definition expand :: "string \<Rightarrow> nat list option" where
  "expand part = (if part = [] then Some []
     else map_option concat (read_all group_bytes (split_on CHR '':'' part)))"

definition parseIpv6 :: "string \<Rightarrow> nat list option" where
  "parseIpv6 v =
     (let halves = split_colons v in
      if 2 < length halves then None
      else case (expand (halves ! 0), if length halves = 2 then expand (halves ! 1) else Some []) of
        (Some hd6, Some tl6) \<Rightarrow>
          if length halves = 1 then (if length hd6 = 16 then Some hd6 else None)
          else if 16 < length hd6 + length tl6 then None
          else Some (hd6 @ replicate (16 - length hd6 - length tl6) 0 @ tl6)
      | _ \<Rightarrow> None)"

definition parseAddress :: "string \<Rightarrow> nat list option" where
  "parseAddress v =
     (let normalized = normalizeAddress v in
      if CHR '':'' \<in> set normalized then parseIpv6 normalized else parseIpv4 normalized)"

definition addressMatches :: "string \<Rightarrow> string \<Rightarrow> bool" where
  "addressMatches address entry =
     (let parts = split_on CHR ''/'' entry in
      case (parseAddress address, parseAddress (parts ! 0)) of
        (Some left, Some right) \<Rightarrow>
          if length left \<noteq> length right then False
          else (case (if length parts = 1 then Some (int (length left) * 8) else js_integer (parts ! 1)) of
              None \<Rightarrow> False
            | Some bits \<Rightarrow>
                if bits < 0 \<or> int (length left) * 8 < bits then False
                else let whole = nat bits div 8; rest = nat bits mod 8 in
                  if take whole left \<noteq> take whole right then False
                  else if rest = 0 then True
                  else let mask = push_bit (8 - rest) 0xff AND 0xff in
                    left ! whole AND mask = right ! whole AND mask)
      | _ \<Rightarrow> False)"

definition isTrustedProxy :: "string \<Rightarrow> string list \<Rightarrow> bool" where
  "isTrustedProxy address trusted = list_ex (addressMatches address) trusted"

section \<open>The walk\<close>

definition hops_of :: "string \<Rightarrow> string list" where
  "hops_of header = filter (\<lambda>h. h \<noteq> []) (map normalizeAddress (split_on CHR '','' header))"

text \<open>The hops from the right.\<close>

fun walk_hops :: "string \<Rightarrow> string list \<Rightarrow> string list \<Rightarrow> string" where
  "walk_hops peer trusted [] = peer"
| "walk_hops peer trusted (hop # rest) =
     (if parseAddress hop = None then peer
      else if \<not> isTrustedProxy hop trusted then hop
      else walk_hops peer trusted rest)"

definition last_hops :: "string list \<Rightarrow> string list" where
  "last_hops hops = drop (length hops - HOP_CAP) hops"

definition remoteKeyFor :: "string \<Rightarrow> string option \<Rightarrow> string list \<Rightarrow> string" where
  "remoteKeyFor rawPeer forwardedFor trusted =
     (let peer = normalizeAddress rawPeer in
      if trusted = [] then peer
      else if \<not> isTrustedProxy peer trusted then peer
      else let header = map_option js_trim forwardedFor in
        if absent header then peer
        else walk_hops peer trusted (rev (last_hops (hops_of (the header)))))"

definition remoteKeySourceLine :: "string list \<Rightarrow> string option \<Rightarrow> string" where
  "remoteKeySourceLine trusted observedPeer =
     (if trusted = [] then
        let keyedOn = (if absent observedPeer then ''the socket peer address'' else the observedPeer) in
        ''X-Forwarded-For ignored - all sign-in limits keyed on '' @ keyedOn @ ''. '' @
        ''Behind a proxy or a platform edge, set `hx-fortress ui config set trustedProxies <csv>` or every '' @
        ''key collapses onto that one address.''
      else ''X-Forwarded-For honored via trustedProxies ('' @ join_with '', '' trusted @ '') - the walk is rightmost '' @
        ''to left, skipping trusted entries, so a client-supplied prefix cannot change the key.'')"

section \<open>Trimming a header does not change its hops\<close>

lemma js_trim_spaces_left: "list_all js_space a \<Longrightarrow> js_trim (a @ w) = js_trim w"
  by (simp add: js_trim_def dropWhile_append2 list_all_iff)

lemma js_trim_spaces_right:
  assumes "list_all js_space b"
  shows "js_trim (w @ b) = js_trim w"
proof (cases "list_all js_space w")
  case True
  then have "dropWhile js_space w = []" "dropWhile js_space (w @ b) = []"
    using assms by (auto simp: list_all_iff)
  then show ?thesis unfolding js_trim_def by (simp only: rev.simps dropWhile.simps)
next
  case False
  then have "dropWhile js_space (w @ b) = dropWhile js_space w @ b"
    by (auto simp: list_all_iff intro: dropWhile_append1)
  moreover have "dropWhile js_space (rev b @ v) = dropWhile js_space v" for v
    using assms by (intro dropWhile_append2) (auto simp: list_all_iff)
  ultimately show ?thesis by (simp add: js_trim_def)
qed

lemma js_trim_parts:
  obtains a b where "s = a @ js_trim s @ b" "list_all js_space a" "list_all js_space b"
proof -
  let ?m = "dropWhile js_space s"
  have "s = takeWhile js_space s @ ?m" by simp
  moreover have "?m = rev (dropWhile js_space (rev ?m)) @ rev (takeWhile js_space (rev ?m))"
    by (metis rev_append rev_rev_ident takeWhile_dropWhile_id)
  ultimately show thesis
    by (intro that [of "takeWhile js_space s" "rev (takeWhile js_space (rev ?m))"])
      (auto simp: js_trim_def list_all_iff dest: set_takeWhileD)
qed

lemma split_on_prefix: "c \<notin> set a \<Longrightarrow> split_on c (a @ t) = (a @ hd (split_on c t)) # tl (split_on c t)"
  by (induction a) (auto split: list.splits)

lemma split_on_suffix: "c \<notin> set b \<Longrightarrow> split_on c (t @ b) = butlast (split_on c t) @ [last (split_on c t) @ b]"
proof (induction t)
  case Nil
  then show ?case by (simp add: split_on_no_sep)
next
  case (Cons x t)
  then show ?case by (cases "split_on c t") (auto split: list.splits)
qed

lemma split_on_sep: "split_on c (u @ c # v) = split_on c u @ split_on c v"
proof (induction u)
  case (Cons x u)
  then show ?case by (cases "split_on c u") auto
qed simp

lemma no_comma_in_spaces: "list_all js_space a \<Longrightarrow> CHR '','' \<notin> set a"
  by (auto simp: list_all_iff js_space_def)

lemma hops_of_trim: "hops_of (js_trim s) = hops_of s"
proof -
  obtain a b where s: "s = a @ js_trim s @ b" and a: "list_all js_space a" and b: "list_all js_space b"
    by (rule js_trim_parts)
  let ?t = "js_trim s"
  have na: "normalizeAddress (a @ w) = normalizeAddress w" "normalizeAddress (w @ b) = normalizeAddress w" for w
    by (simp_all add: normalizeAddress_def js_trim_spaces_left [OF a] js_trim_spaces_right [OF b])
  have "map normalizeAddress (split_on CHR '','' (?t @ b)) = map normalizeAddress (split_on CHR '','' ?t)"
    unfolding split_on_suffix [OF no_comma_in_spaces [OF b]]
    by (cases "split_on CHR '','' ?t" rule: rev_cases) (auto simp: na)
  moreover have "map normalizeAddress (split_on CHR '','' (a @ ?t @ b)) = map normalizeAddress (split_on CHR '','' (?t @ b))"
    unfolding split_on_prefix [OF no_comma_in_spaces [OF a]]
    by (cases "split_on CHR '','' (?t @ b)") (auto simp: na)
  ultimately show ?thesis using s unfolding hops_of_def by metis
qed

lemma hops_of_append: "hops_of (u @ '','' @ v) = hops_of u @ hops_of v"
  by (simp add: hops_of_def split_on_sep)

lemma hops_of_blank:
  assumes "js_trim s = []"
  shows "hops_of s = []"
proof -
  have "hops_of [] = []" by code_simp
  with hops_of_trim [of s] show ?thesis unfolding assms by simp
qed

lemma remoteKeyFor_walk:
  assumes "trusted \<noteq> []" and "isTrustedProxy (normalizeAddress peer) trusted"
  shows "remoteKeyFor peer (Some header) trusted =
    walk_hops (normalizeAddress peer) trusted (rev (last_hops (hops_of header)))"
  using assms hops_of_blank [of header]
  by (auto simp: remoteKeyFor_def Let_def hops_of_trim last_hops_def)

lemma walk_past_proxies:
  "list_all (\<lambda>h. parseAddress h \<noteq> None \<and> isTrustedProxy h trusted) ps \<Longrightarrow>
    walk_hops peer trusted (ps @ rest) = walk_hops peer trusted rest"
  by (induction ps) auto

lemma last_hops_suffix:
  assumes "length suf \<le> HOP_CAP"
  obtains pre' where "last_hops (pre @ suf) = pre' @ suf"
  by (rule that [of "drop (length pre + length suf - HOP_CAP) pre"]) (use assms in \<open>simp add: last_hops_def\<close>)

section \<open>Addresses as bit strings\<close>

text \<open>Most significant bit first.\<close>

definition byte_bits :: "nat \<Rightarrow> bool list" where
  "byte_bits b = map (\<lambda>j. bit b (7 - j)) [0..<8]"

definition address_bits :: "nat list \<Rightarrow> bool list" where
  "address_bits bs = concat (map byte_bits bs)"

lemma length_byte_bits [simp]: "length (byte_bits b) = 8"
  by (simp add: byte_bits_def)

lemma from_the_top:
  fixes k :: nat
  assumes "k \<le> 8"
  shows "(\<forall>j<k. P (7 - j)) \<longleftrightarrow> (\<forall>i<8. 8 - k \<le> i \<longrightarrow> P i)"
proof (intro iffI allI impI)
  fix i assume all: "\<forall>j<k. P (7 - j)" and i: "i < 8" "8 - k \<le> i"
  have "7 - i < k" "7 - (7 - i) = i" using i assms by auto
  with all show "P i" by metis
next
  fix j assume "\<forall>i<8. 8 - k \<le> i \<longrightarrow> P i" "j < k"
  then show "P (7 - j)" using assms by auto
qed

lemma take_byte_bits_eq:
  "k \<le> 8 \<Longrightarrow> take k (byte_bits l) = take k (byte_bits r) \<longleftrightarrow> (\<forall>i<8. 8 - k \<le> i \<longrightarrow> bit l i = bit r i)"
proof -
  assume k: "k \<le> 8"
  have "take k (byte_bits l) = take k (byte_bits r) \<longleftrightarrow> (\<forall>j<k. bit l (7 - j) = bit r (7 - j))"
    using k by (auto simp: byte_bits_def take_map)
  also have "\<dots> \<longleftrightarrow> (\<forall>i<8. 8 - k \<le> i \<longrightarrow> bit l i = bit r i)"
    by (rule from_the_top [OF k])
  finally show ?thesis .
qed

lemma bit_byte: "b < 256 \<Longrightarrow> bit b i \<Longrightarrow> i < 8" for b :: nat
proof (rule ccontr)
  assume b: "b < 256" "bit b i" "\<not> i < 8"
  then have "(2::nat) ^ 8 \<le> 2 ^ i" by (intro power_increasing) auto
  with b(1) have "b div 2 ^ i = 0" by simp
  with b(2) show False by (simp add: bit_iff_odd)
qed

lemma byte_bits_inject:
  assumes "l < 256" and "r < 256"
  shows "byte_bits l = byte_bits r \<longleftrightarrow> l = r"
proof -
  have "byte_bits l = byte_bits r \<longleftrightarrow> (\<forall>i<8. bit l i = bit r i)"
    using take_byte_bits_eq [of 8 l r] by simp
  also have "\<dots> \<longleftrightarrow> l = r" using bit_byte assms by (auto simp: bit_eq_iff)
  finally show ?thesis .
qed

lemma bit_255: "bit (0xff :: nat) n \<longleftrightarrow> n < 8"
proof -
  have m: "(255 :: nat) = mask 8" by (simp add: mask_eq_exp_minus_1)
  show ?thesis unfolding m bit_mask_iff by simp
qed

lemma bit_mask_byte:
  assumes "k \<le> 8"
  shows "bit (push_bit (8 - k) 0xff AND 0xff :: nat) i \<longleftrightarrow> 8 - k \<le> i \<and> i < 8"
  unfolding bit_and_iff bit_push_bit_iff bit_255 using assms by auto

lemma masked_eq:
  fixes l r :: nat
  assumes "k \<le> 8"
  shows "l AND (push_bit (8 - k) 0xff AND 0xff) = r AND (push_bit (8 - k) 0xff AND 0xff) \<longleftrightarrow>
    take k (byte_bits l) = take k (byte_bits r)"
  unfolding take_byte_bits_eq [OF assms] bit_eq_iff [of "l AND _"] bit_and_iff [of l] bit_and_iff [of r]
    bit_mask_byte [OF assms] by auto

lemma byte_of_bit:
  fixes m n :: nat
  shows "m \<le> 8 * n \<Longrightarrow> m div 8 < n \<or> m mod 8 = 0 \<and> m div 8 \<le> n"
  by presburger

lemma take_address_bits:
  assumes "length l = length r" and "w < length l \<or> k = 0 \<and> w \<le> length l" and "k < 8"
    and "\<forall>b \<in> set l \<union> set r. b < 256"
  shows "take (8 * w + k) (address_bits l) = take (8 * w + k) (address_bits r) \<longleftrightarrow>
    take w l = take w r \<and> (k = 0 \<or> take k (byte_bits (l ! w)) = take k (byte_bits (r ! w)))"
  using assms
proof (induction w arbitrary: l r)
  case 0
  show ?case
  proof (cases l)
    case Nil
    with 0 show ?thesis by (auto simp: address_bits_def)
  next
    case (Cons x l')
    with 0 obtain y r' where "r = y # r'" by (cases r) auto
    with 0 Cons show ?thesis by (auto simp: address_bits_def)
  qed
next
  case (Suc w)
  then obtain x l' where l: "l = x # l'" by (cases l) auto
  with Suc.prems obtain y r' where r: "r = y # r'" by (cases r) auto
  have bits: "address_bits (z # zs) = byte_bits z @ address_bits zs" for z zs
    by (simp add: address_bits_def)
  have "take (8 * Suc w + k) (address_bits l) = byte_bits x @ take (8 * w + k) (address_bits l')"
    "take (8 * Suc w + k) (address_bits r) = byte_bits y @ take (8 * w + k) (address_bits r')"
    by (simp_all add: l r bits)
  then have "take (8 * Suc w + k) (address_bits l) = take (8 * Suc w + k) (address_bits r) \<longleftrightarrow>
      byte_bits x = byte_bits y \<and> take (8 * w + k) (address_bits l') = take (8 * w + k) (address_bits r')"
    by (simp only: append_eq_append_conv length_byte_bits simp_thms)
  also have "\<dots> \<longleftrightarrow> x = y \<and> take w l' = take w r' \<and>
      (k = 0 \<or> take k (byte_bits (l' ! w)) = take k (byte_bits (r' ! w)))"
    using Suc.IH [of l' r'] Suc.prems byte_bits_inject [of x y] by (simp add: l r)
  finally show ?case by (simp add: l r)
qed
text \<open>What the parsers return are bytes.\<close>

lemma read_all_elem: "read_all f xs = Some ys \<Longrightarrow> y \<in> set ys \<Longrightarrow> \<exists>x \<in> set xs. f x = Some y"
proof (induction xs arbitrary: ys)
  case (Cons x xs)
  then show ?case by (force split: option.splits)
qed simp

lemma parseIpv4_bytes: "parseIpv4 v = Some l \<Longrightarrow> b \<in> set l \<Longrightarrow> b < 256"
  by (auto simp: parseIpv4_def Let_def octet_def split: if_splits dest!: read_all_elem)

lemma hex_digit_bound: "hex_digit c = Some d \<Longrightarrow> d < 16"
  by (auto simp: hex_digit_def Let_def split: if_splits)

lemma hex_fold_bound:
  "list_all lower_hex g \<Longrightarrow> foldl (\<lambda>n c. 16 * n + the (hex_digit c)) m g < 16 ^ length g * (m + 1)"
proof (induction g arbitrary: m)
  case (Cons c g)
  obtain d where d: "hex_digit c = Some d" "d < 16"
    using Cons.prems hex_digit_bound [of c] by (auto simp: lower_hex_def hex_digit_def Let_def split: if_splits)
  have "foldl (\<lambda>n c. 16 * n + the (hex_digit c)) (16 * m + d) g < 16 ^ length g * (16 * m + d + 1)"
    using Cons.IH [of "16 * m + d"] Cons.prems by simp
  also have "\<dots> \<le> 16 ^ length g * (16 * (m + 1))" using d(2) by (intro mult_left_mono) auto
  finally show ?case using d by (simp add: algebra_simps)
qed simp

lemma low_byte: "(w :: nat) AND 0xff < 256"
proof -
  have m: "(255 :: nat) = mask 8" by (simp add: mask_eq_exp_minus_1)
  have "w AND 255 = take_bit 8 w" unfolding m by (simp only: take_bit_eq_mask)
  then show ?thesis by (simp add: take_bit_eq_mod)
qed

lemma group_bytes_bytes:
  assumes "group_bytes g = Some l" and "b \<in> set l"
  shows "b < 256"
proof (cases "parseIpv4 g")
  case (Some v4)
  with assms parseIpv4_bytes show ?thesis by (auto simp: group_bytes_def)
next
  case None
  let ?w = "foldl (\<lambda>n c. 16 * n + the (hex_digit c)) 0 g"
  from None assms have g: "list_all lower_hex g" "length g \<le> 4" and b: "b = drop_bit 8 ?w \<or> b = ?w AND 0xff"
    by (auto simp: group_bytes_def Let_def split: if_splits)
  have "?w < 16 ^ length g" using hex_fold_bound [OF g(1), of 0] by simp
  also have "(16::nat) ^ length g \<le> 16 ^ 4" using g(2) by (intro power_increasing) auto
  finally have w: "?w < 256 * 256" by simp
  have "drop_bit 8 ?w < 256" using w by (simp add: drop_bit_eq_div less_mult_imp_div_less)
  moreover have "?w AND 0xff < 256" by (rule low_byte)
  ultimately show ?thesis using b by auto
qed

lemma expand_bytes: "expand part = Some l \<Longrightarrow> b \<in> set l \<Longrightarrow> b < 256"
  by (auto simp: expand_def split: if_splits) (blast dest: read_all_elem group_bytes_bytes)

lemma parseIpv6_bytes: "parseIpv6 v = Some l \<Longrightarrow> b \<in> set l \<Longrightarrow> b < 256"
  by (auto simp: parseIpv6_def Let_def split: if_splits option.splits dest: expand_bytes)

lemma parseAddress_bytes: "parseAddress v = Some l \<Longrightarrow> b \<in> set l \<Longrightarrow> b < 256"
  by (auto simp: parseAddress_def Let_def split: if_splits dest: parseIpv4_bytes parseIpv6_bytes)

section \<open>Properties\<close>

text \<open>
  A header is believed only from a configured proxy. When no proxy is configured, or the socket peer is
  not one, the key is the peer's own address and no \<open>X-Forwarded-For\<close> changes it: a client
  cannot give itself a fresh identity per request.
\<close>
theorem untrusted_peer_cannot_forward:
  assumes "trusted = [] \<or> \<not> isTrustedProxy (normalizeAddress peer) trusted"
  shows "remoteKeyFor peer header trusted = normalizeAddress peer"
  using assms by (auto simp: remoteKeyFor_def Let_def)

lemma untrusted_peer_cannot_forward_witness:
  "remoteKeyFor ''203.0.113.5'' (Some ''9.9.9.9'') [''10.0.0.0/8''] = ''203.0.113.5''"
proof -
  have "\<not> isTrustedProxy (normalizeAddress ''203.0.113.5'') [''10.0.0.0/8'']" by code_simp
  moreover have "normalizeAddress ''203.0.113.5'' = ''203.0.113.5''" by code_simp
  ultimately show ?thesis
    using untrusted_peer_cannot_forward [of "[''10.0.0.0/8'']" "''203.0.113.5''" "Some ''9.9.9.9''"] by simp
qed

text \<open>
  What a client types never reaches the walk. Suppose the proxies appended the client's address and then their own,
  fewer than the cap: whatever text the client had put in front, commas, white space and malformed entries
  included, the key is the address the outermost proxy observed.
\<close>
theorem forged_prefix_changes_nothing:
  assumes t: "trusted \<noteq> []" "isTrustedProxy (normalizeAddress peer) trusted"
    and honest: "hops_of appended = client # proxies"
    and proxies: "list_all (\<lambda>h. parseAddress h \<noteq> None \<and> isTrustedProxy h trusted) proxies"
    and client: "parseAddress client \<noteq> None" "\<not> isTrustedProxy client trusted"
    and cap: "length proxies < 16"
  shows "remoteKeyFor peer (Some (forged @ '','' @ appended)) trusted = client"
proof -
  have "length (client # proxies) \<le> HOP_CAP" using cap by (simp add: HOP_CAP_def)
  then obtain pre' where l: "last_hops (hops_of forged @ client # proxies) = pre' @ client # proxies"
    by (rule last_hops_suffix)
  have p: "list_all (\<lambda>h. parseAddress h \<noteq> None \<and> isTrustedProxy h trusted) (rev proxies)"
    using proxies by (simp add: list_all_iff)
  have "rev (last_hops (hops_of (forged @ '','' @ appended))) = rev proxies @ client # rev pre'"
    unfolding hops_of_append honest l by simp
  then show ?thesis
    unfolding remoteKeyFor_walk [OF t] by (simp add: walk_past_proxies [OF p] client)
qed

lemma forged_prefix_changes_nothing_witness:
  "remoteKeyFor ''10.0.0.2'' (Some (''9.9.9.9, bogus'' @ '','' @ '' 198.51.100.7, 10.0.0.1'')) [''10.0.0.0/8''] =
     ''198.51.100.7''"
proof (rule forged_prefix_changes_nothing)
  show "isTrustedProxy (normalizeAddress ''10.0.0.2'') [''10.0.0.0/8'']" by code_simp
  show "hops_of '' 198.51.100.7, 10.0.0.1'' = [''198.51.100.7'', ''10.0.0.1'']" by code_simp
  show "list_all (\<lambda>h. parseAddress h \<noteq> None \<and> isTrustedProxy h [''10.0.0.0/8'']) [''10.0.0.1'']" by code_simp
  show "parseAddress ''198.51.100.7'' \<noteq> None" by code_simp
  show "\<not> isTrustedProxy ''198.51.100.7'' [''10.0.0.0/8'']" by code_simp
qed simp_all

text \<open>
  C35. A CIDR entry means its bit prefix. For an entry \<open>network/n\<close> with an integral \<open>n\<close> inside the family's width, an address
  matches exactly when both are of the same family and their first \<open>n\<close> bits agree: the whole-byte
  loop and the masked last byte together are the prefix test, for IPv4 and IPv6 and every \<open>n\<close>.
\<close>
theorem cidr_entry_is_its_bit_prefix:
  assumes e: "split_on CHR ''/'' entry = [net, len]"
    and a: "parseAddress address = Some l" and r: "parseAddress net = Some r"
    and n: "js_integer len = Some n" "0 \<le> n" "n \<le> 8 * int (length l)"
  shows "addressMatches address entry \<longleftrightarrow>
    length l = length r \<and> take (nat n) (address_bits l) = take (nat n) (address_bits r)"
proof (cases "length l = length r")
  case False
  with e a r show ?thesis by (simp add: addressMatches_def)
next
  case True
  let ?w = "nat n div 8" and ?k = "nat n mod 8"
  have split: "nat n = 8 * ?w + ?k" by simp
  have "nat n \<le> 8 * length l" using n(2,3) by linarith
  then have "?w < length l \<or> ?k = 0 \<and> ?w \<le> length l" by (rule byte_of_bit)
  then have eq: "take (8 * ?w + ?k) (address_bits l) = take (8 * ?w + ?k) (address_bits r) \<longleftrightarrow>
      take ?w l = take ?w r \<and> (?k = 0 \<or> take ?k (byte_bits (l ! ?w)) = take ?k (byte_bits (r ! ?w)))"
    by (rule take_address_bits [OF True]) (use parseAddress_bytes [OF a] parseAddress_bytes [OF r] in auto)
  have "?k \<le> 8" by (rule less_imp_le) simp
  have "addressMatches address entry \<longleftrightarrow>
      take ?w l = take ?w r \<and> (?k = 0 \<or> take ?k (byte_bits (l ! ?w)) = take ?k (byte_bits (r ! ?w)))"
    unfolding masked_eq [OF \<open>?k \<le> 8\<close>, symmetric]
    using e a r n True by (simp add: addressMatches_def Let_def)
  then show ?thesis unfolding eq [symmetric] using True split by metis
qed

lemma cidr_entry_is_its_bit_prefix_witness:
  "addressMatches ''::ffff:10.77.3.9'' ''10.64.0.0/10'' \<longleftrightarrow>
     take 10 (address_bits [10, 77, 3, 9]) = take 10 (address_bits [10, 64, 0, 0])"
proof -
  have 1: "split_on CHR ''/'' ''10.64.0.0/10'' = [''10.64.0.0'', ''10'']" by code_simp
  have 2: "parseAddress ''::ffff:10.77.3.9'' = Some [10, 77, 3, 9]" by code_simp
  have 3: "parseAddress ''10.64.0.0'' = Some [10, 64, 0, 0]" by code_simp
  have 4: "js_integer ''10'' = Some 10" by code_simp
  from cidr_entry_is_its_bit_prefix [OF 1 2 3 4] show ?thesis by simp
qed

end
