(* ===== verification/Ui_Config.thy ===== *)
theory Ui_Config
  imports Store_Lock Remote_Key Ui_Sessions
begin

text \<open>
  The console's own configuration (\<open>src/ui/config.ts\<close>) and where it listens (\<open>src/ui/bind.ts\<close>): how
  \<open>ui.json\<close> is read, the reader that holds its last good value, what \<open>ui config set\<close> accepts,
  and the bind rule. The URL parser of the platform is the parameter \<open>new_URL\<close>. Not modelled:
  the lines \<open>ui config\<close> prints. The lemmas show that a torn read never changes the configuration,
  that the console is never bound wider than a gesture allows, and two values that \<open>ui config set\<close>
  accepts and the readers take for something else.
\<close>

record ui_config =
  c_version :: int
  c_enabled :: bool
  c_port :: int
  c_bind :: string
  c_publicUrl :: "string option"
  c_trustedProxies :: "string list"
  c_sso :: bool
  c_sessionTtlHours :: int
  c_sessionIdleMinutes :: int
  c_databaseUrl :: "string option"
  c_allowInsecureBind :: bool
  c_marker :: "string option"

definition DEFAULT_UI_PORT :: int where
  "DEFAULT_UI_PORT = 8788"

definition LOOPBACK_BIND :: string where
  "LOOPBACK_BIND = ''127.0.0.1''"

definition UI_CONFIG_DEFAULTS :: ui_config where
  "UI_CONFIG_DEFAULTS = \<lparr>c_version = 0, c_enabled = False, c_port = DEFAULT_UI_PORT, c_bind = LOOPBACK_BIND,
     c_publicUrl = None, c_trustedProxies = [], c_sso = False, c_sessionTtlHours = 12,
     c_sessionIdleMinutes = 60, c_databaseUrl = None, c_allowInsecureBind = False, c_marker = None\<rparr>"

section \<open>Reading \<open>ui.json\<close>\<close>

fun asBool :: "js_value \<Rightarrow> bool \<Rightarrow> bool" where
  "asBool (Bool b) fallback = b"
| "asBool _ fallback = fallback"

definition js_trunc :: "rat \<Rightarrow> int" where
  "js_trunc q = (if q < 0 then - \<lfloor>- q\<rfloor> else \<lfloor>q\<rfloor>)"

fun asInt :: "js_value \<Rightarrow> int \<Rightarrow> int" where
  "asInt (Number (Some q)) fallback = js_trunc q"
| "asInt _ fallback = fallback"

fun asStringOrNull :: "js_value \<Rightarrow> string option" where
  "asStringOrNull (Str s) = (if js_trim s = [] then None else Some (js_trim s))"
| "asStringOrNull _ = None"

fun proxies_of :: "js_value \<Rightarrow> string list" where
  "proxies_of (Arr vs) = filter (\<lambda>e. js_trim e \<noteq> []) (List.map_filter js_string vs)"
| "proxies_of _ = []"

fun parseUiConfig :: "js_value \<Rightarrow> ui_config option" where
  "parseUiConfig (Obj v) = Some \<lparr>
     c_version = asInt (js_field v ''version'') 0,
     c_enabled = asBool (js_field v ''enabled'') False,
     c_port = asInt (js_field v ''port'') DEFAULT_UI_PORT,
     c_bind = (case asStringOrNull (js_field v ''bind'') of None \<Rightarrow> LOOPBACK_BIND | Some b \<Rightarrow> b),
     c_publicUrl = asStringOrNull (js_field v ''publicUrl''),
     c_trustedProxies = map js_trim (proxies_of (js_field v ''trustedProxies'')),
     c_sso = asBool (js_field v ''sso'') False,
     c_sessionTtlHours = asInt (js_field v ''sessionTtlHours'') 12,
     c_sessionIdleMinutes = asInt (js_field v ''sessionIdleMinutes'') 60,
     c_databaseUrl = asStringOrNull (js_field v ''databaseUrl''),
     c_allowInsecureBind = asBool (js_field v ''allowInsecureBind'') False,
     c_marker = asStringOrNull (js_field v ''marker'')\<rparr>"
| "parseUiConfig _ = None"

section \<open>The live reader\<close>

text \<open>The signature is \<open>dev:ino:mtime:size\<close>, \<open>None\<close> when the file could not be statted.\<close>

record live_config =
  lastGood :: "ui_config option"
  signature :: "string option"
  degraded :: bool

definition new_live :: live_config where
  "new_live = \<lparr>lastGood = None, signature = None, degraded = False\<rparr>"

definition vanished_message :: "string \<Rightarrow> string" where
  "vanished_message file = file @ '' vanished '' @ em_dash @ '' holding the last good configuration''"

definition torn_message :: "string \<Rightarrow> string" where
  "torn_message file = file @ '' did not parse '' @ em_dash @ '' holding the last good configuration''"

datatype config_answer = ColdStartRefused | Config ui_config

definition live_read ::
  "string \<Rightarrow> string option \<Rightarrow> ui_config store_read \<Rightarrow> live_config \<Rightarrow> config_answer \<times> string list \<times> live_config" where
  "live_read file info read l =
     (case lastGood l of
        Some good \<Rightarrow>
          if info \<noteq> None \<and> signature l = info then (Config good, [], l)
          else (case read of
              Good doc \<Rightarrow> (Config doc, [], \<lparr>lastGood = Some doc, signature = info, degraded = False\<rparr>)
            | _ \<Rightarrow> (Config good,
                  if degraded l then [] else [if read = Absent then vanished_message file else torn_message file],
                  l\<lparr>degraded := True, signature := None\<rparr>))
      | None \<Rightarrow>
          (case read of
              Good doc \<Rightarrow> (Config doc, [], \<lparr>lastGood = Some doc, signature = info, degraded = False\<rparr>)
            | Corrupt \<Rightarrow> (ColdStartRefused, [], l)
            | Absent \<Rightarrow> (Config UI_CONFIG_DEFAULTS, [],
                l\<lparr>lastGood := Some UI_CONFIG_DEFAULTS, signature := None\<rparr>)))"

section \<open>Enablement and \<open>ui config set\<close>\<close>

definition uiEnabledFromEnv :: "(string \<Rightarrow> string option) \<Rightarrow> bool" where
  "uiEnabledFromEnv env =
     (let raw = map_option (js_lower \<circ> js_trim) (env ''FORTRESS_UI_ENABLE'') in
      raw = Some ''1'' \<or> raw = Some ''true'')"

definition effectiveUiEnabled :: "ui_config \<Rightarrow> (string \<Rightarrow> string option) \<Rightarrow> bool" where
  "effectiveUiEnabled config env \<longleftrightarrow> uiEnabledFromEnv env \<or> c_enabled config"

definition UI_CONFIG_SET_KEYS :: "string list" where
  "UI_CONFIG_SET_KEYS = [''publicUrl'', ''trustedProxies'', ''port'', ''bind'', ''sessionTtlHours'',
     ''sessionIdleMinutes'', ''databaseUrl'']"

definition STDIN_ONLY_KEYS :: "string list" where
  "STDIN_ONLY_KEYS = [''databaseUrl'']"

definition isStdinOnlyKey :: "string \<Rightarrow> bool" where
  "isStdinOnlyKey key \<longleftrightarrow> key \<in> set STDIN_ONLY_KEYS"

definition isUiConfigSetKey :: "string \<Rightarrow> bool" where
  "isUiConfigSetKey key \<longleftrightarrow> key \<in> set UI_CONFIG_SET_KEYS"

definition unknownKeyMessage :: "string \<Rightarrow> string" where
  "unknownKeyMessage key = ''unknown config key '' @ quoted key @ '' '' @ em_dash @ '' settable keys are '' @
     join_with '', '' UI_CONFIG_SET_KEYS"

definition checkPort :: "string \<Rightarrow> string + int" where
  "checkPort raw = (case js_integer raw of
       Some port \<Rightarrow> if port < 1 \<or> 65535 < port
         then Inl (''port must be an integer in 1-65535 (got '' @ raw @ '')'') else Inr port
     | None \<Rightarrow> Inl (''port must be an integer in 1-65535 (got '' @ raw @ '')''))"

definition isIpv4 :: "string \<Rightarrow> bool" where
  "isIpv4 v =
     (let parts = split_on CHR ''.'' v in
      length parts = 4 \<and>
      list_all (\<lambda>part. list_all is_digit part \<and> 1 \<le> length part \<and> length part \<le> 3 \<and>
        read_nat part \<le> 255 \<and> show_nat (read_nat part) = part) parts)"

definition isIpv6 :: "string \<Rightarrow> bool" where
  "isIpv6 v \<longleftrightarrow> v \<noteq> [] \<and> list_all (\<lambda>c. hex_digit c \<noteq> None \<or> c = CHR '':'') v \<and> CHR '':'' \<in> set v"

definition isIpOrCidr :: "string \<Rightarrow> bool" where
  "isIpOrCidr entry =
     (let parts = split_on CHR ''/'' entry; address = parts ! 0 in
      if 2 < length parts \<or> address = [] then False
      else if 2 \<le> length parts \<and>
         (case js_integer (parts ! 1) of None \<Rightarrow> True
          | Some bits \<Rightarrow> bits < 0 \<or> (if isIpv4 address then 32 < bits else 128 < bits)) then False
      else isIpv4 address \<or> isIpv6 address)"

definition checkTrustedProxies :: "string \<Rightarrow> string + string list" where
  "checkTrustedProxies raw =
     (let entries = filter (\<lambda>e. e \<noteq> []) (map js_trim (split_on CHR '','' raw));
          bad = filter (\<lambda>e. \<not> isIpOrCidr e) entries
      in if bad \<noteq> [] then Inl (''trustedProxies entries must be an IP or CIDR '' @ em_dash @ '' rejected: '' @
             join_with '', '' bad)
         else Inr entries)"

definition le_sign :: string where
  "le_sign = [CHR 0xE2, CHR 0x89, CHR 0xA4]"

definition checkSessionTtlHours :: "string \<Rightarrow> string + rat" where
  "checkSessionTtlHours raw = (case js_number raw of
       Some hours \<Rightarrow> if hours \<le> 0 \<or> 24 * 7 < hours
         then Inl (''sessionTtlHours must be a positive number of hours '' @ le_sign @ '' 168 (got '' @ raw @ '')'')
         else Inr hours
     | None \<Rightarrow> Inl (''sessionTtlHours must be a positive number of hours '' @ le_sign @ '' 168 (got '' @ raw @ '')''))"

definition checkSessionIdleMinutes :: "string \<Rightarrow> string + rat" where
  "checkSessionIdleMinutes raw = (case js_number raw of
       Some minutes \<Rightarrow> if minutes \<le> 0 \<or> 24 * 60 < minutes
         then Inl (''sessionIdleMinutes must be a positive number of minutes '' @ le_sign @ '' 1440 (got '' @ raw @ '')'')
         else Inr minutes
     | None \<Rightarrow> Inl (''sessionIdleMinutes must be a positive number of minutes '' @ le_sign @ '' 1440 (got '' @ raw @ '')''))"

definition policyOf :: "ui_config \<Rightarrow> session_policy" where
  "policyOf c = \<lparr>ttlHours = c_sessionTtlHours c, idleMinutes = c_sessionIdleMinutes c\<rparr>"

section \<open>Where the console listens\<close>

text \<open>What the URL parser of the platform returns; \<open>None\<close> where it throws.\<close>

record parsed_url =
  protocol :: string
  pathname :: string
  search :: string
  hash :: string
  username :: string
  password :: string
  url_origin :: string

datatype public_url = NotHttps string | NotAUrl string | NotAnOrigin string | PublicOrigin string

definition parsePublicUrl :: "(string \<Rightarrow> parsed_url option) \<Rightarrow> string \<Rightarrow> public_url" where
  "parsePublicUrl new_URL raw = (case new_URL raw of
       None \<Rightarrow> NotAUrl (''public URL is not a URL: '' @ raw)
     | Some url \<Rightarrow>
         if pathname url \<noteq> ''/'' \<or> search url \<noteq> [] \<or> hash url \<noteq> [] \<or> username url \<noteq> [] \<or> password url \<noteq> []
         then NotAnOrigin (''public URL must be a bare origin '' @ em_dash @
           '' no path, query, fragment or userinfo: '' @ raw)
         else if protocol url \<noteq> ''https:''
         then NotHttps (''public URL must be https (got '' @ remove1 CHR '':'' (protocol url) @ ''): '' @ raw)
         else PublicOrigin (url_origin url))"

definition isLoopbackBind :: "string \<Rightarrow> bool" where
  "isLoopbackBind bind \<longleftrightarrow>
     js_lower (js_trim bind) \<in> {''127.0.0.1'', ''::1'', ''localhost'', ''[::1]''}"

record container_verdict =
  container :: bool
  dockerClass :: bool
  signals :: "string list"

record bind_inputs =
  b_bind :: string
  b_port :: int
  b_publicUrl :: "string option"
  b_uiEnable :: bool
  b_containerBind :: bool
  b_allowInsecureBind :: bool
  b_container :: container_verdict

datatype bind_clause = Loopback | ContainerPublish | ContainerGesture | PublicUrl | InsecureFlag

datatype bind_resolution =
    BindAccepted (clause: bind_clause) (hostname: string) (dual_stack: bool) (accepted_notes: "string list")
  | BindRefused (reason: string) (refused_notes: "string list")

definition DUAL_STACK_BIND :: string where
  "DUAL_STACK_BIND = ''::''"

definition RESIDUAL :: string where
  "RESIDUAL = ''residual: a non-loopback listener is reachable by anything that can route to this host. '' @
     ''The only barrier is the console password over the ingress you chose '' @ em_dash @ '' publish to loopback, '' @
     ''or terminate TLS in front of it.''"

definition HOST_NETWORK_RESIDUAL :: string where
  "HOST_NETWORK_RESIDUAL = ''residual: with host networking (--network host, hostNetwork: true) this is a real LAN bind, '' @
     ''not a published port. That is undetectable from inside the container.''"

definition ellipsis :: string where
  "ellipsis = [CHR 0xE2, CHR 0x80, CHR 0xA6]"

definition publishGuidance :: "int \<Rightarrow> string list" where
  "publishGuidance port =
     [''publish it to the host'' @ [CHR 0x27] @ ''s loopback: docker run -p 127.0.0.1:'' @ show_int port @ '':'' @
        show_int port @ '' '' @ ellipsis, HOST_NETWORK_RESIDUAL]"

definition GESTURES :: string where
  "GESTURES = ''set FORTRESS_UI_CONTAINER_BIND=1, or pass --allow-insecure-bind''"

text \<open>The rule after the public URL has been judged; \<open>warnings\<close> is what that left to print.\<close>

definition bind_clauses :: "bind_inputs \<Rightarrow> bool \<Rightarrow> string list \<Rightarrow> bind_resolution" where
  "bind_clauses i publicUrlOk warnings =
     (if \<not> isLoopbackBind (b_bind i) then
        if publicUrlOk then BindAccepted PublicUrl (b_bind i) False warnings
        else if b_allowInsecureBind i then BindAccepted InsecureFlag (b_bind i) False (warnings @ [RESIDUAL])
        else BindRefused (''refusing to bind '' @ b_bind i @ '':'' @ show_int (b_port i) @ '' '' @ em_dash @
               '' a non-loopback bind needs an https FORTRESS_UI_PUBLIC_URL or --allow-insecure-bind'') [RESIDUAL]
      else if b_containerBind i then BindAccepted ContainerGesture DUAL_STACK_BIND True (warnings @ [RESIDUAL])
      else if dockerClass (b_container i) \<and> b_uiEnable i then
        BindAccepted ContainerPublish DUAL_STACK_BIND True (warnings @ [RESIDUAL] @ publishGuidance (b_port i))
      else if container (b_container i) \<and> b_allowInsecureBind i then
        BindAccepted ContainerGesture DUAL_STACK_BIND True (warnings @ [RESIDUAL])
      else if container (b_container i) \<and> b_uiEnable i then
        BindRefused (''refusing to widen the bind '' @ em_dash @ '' this looks like a container ('' @
          join_with '', '' (signals (b_container i)) @
          '') with no published-port indirection, so a wildcard bind here is a LAN bind'')
          [''to accept that: '' @ GESTURES, RESIDUAL]
      else BindAccepted Loopback LOOPBACK_BIND False warnings)"

definition resolveUiBind :: "(string \<Rightarrow> parsed_url option) \<Rightarrow> bind_inputs \<Rightarrow> bind_resolution" where
  "resolveUiBind new_URL i =
     (case map_option (parsePublicUrl new_URL) (b_publicUrl i) of
        None \<Rightarrow> bind_clauses i False []
      | Some (PublicOrigin _) \<Rightarrow> bind_clauses i True []
      | Some (NotAUrl r) \<Rightarrow> BindRefused r []
      | Some (NotAnOrigin r) \<Rightarrow> BindRefused r []
      | Some (NotHttps r) \<Rightarrow>
          if \<not> b_allowInsecureBind i then BindRefused r [''override with --allow-insecure-bind'', RESIDUAL]
          else bind_clauses i False [''warning: '' @ r @ '' '' @ em_dash @
                 '' every console password will cross the network in clear text''])"

definition checkBind :: "(string \<Rightarrow> parsed_url option) \<Rightarrow> string \<Rightarrow> bind_inputs \<Rightarrow> string + string" where
  "checkBind new_URL raw ctx =
     (let bind = js_trim raw in
      if bind = [] then Inl ''bind must be an address''
      else case resolveUiBind new_URL (ctx\<lparr>b_bind := bind\<rparr>) of
        BindRefused r _ \<Rightarrow> Inl (r @ ''. Set an https publicUrl first '' @
          ''(hx-fortress ui config set publicUrl https://'' @ ellipsis @ ''), or start the console with --allow-insecure-bind '' @
          em_dash @ '' a unit cannot pass that flag, so it is persisted by `ui --install-service`, not by this key.'')
      | BindAccepted _ _ _ _ \<Rightarrow> Inr bind)"

section \<open>Properties\<close>

text \<open>
  The console listens beyond loopback only on a gesture. When the bind rule accepts an address that is not a loopback one,
  the operator named an https origin, passed the insecure flag, set the container gesture, or asked for the
  console inside a runtime that publishes ports; every such answer but the https one carries the
  residual among the lines to print; and a public URL that is not https is accepted only with the flag
  and a warning.
\<close>
theorem wide_bind_needs_a_gesture:
  assumes "resolveUiBind new_URL i = BindAccepted c host dual notes" and "\<not> isLoopbackBind host"
  shows "(c = PublicUrl \<and> (\<exists>u og. b_publicUrl i = Some u \<and> parsePublicUrl new_URL u = PublicOrigin og) \<or>
      b_allowInsecureBind i \<or> b_containerBind i \<or> dockerClass (b_container i) \<and> b_uiEnable i) \<and>
    (c \<noteq> PublicUrl \<longrightarrow> RESIDUAL \<in> set notes) \<and>
    (\<forall>u r. b_publicUrl i = Some u \<and> parsePublicUrl new_URL u = NotHttps r \<longrightarrow>
      b_allowInsecureBind i \<and> notes \<noteq> [])"
proof -
  have "isLoopbackBind LOOPBACK_BIND" by code_simp
  then have l: "host \<noteq> LOOPBACK_BIND" using assms(2) by auto
  have clauses: "bind_clauses i ok ws = BindAccepted c host dual notes \<Longrightarrow>
      (c = PublicUrl \<and> ok \<or> b_allowInsecureBind i \<or> b_containerBind i \<or> dockerClass (b_container i) \<and> b_uiEnable i) \<and>
      (c \<noteq> PublicUrl \<longrightarrow> RESIDUAL \<in> set notes) \<and> (ws \<noteq> [] \<longrightarrow> notes \<noteq> [])" for ok ws
    using l by (auto simp: bind_clauses_def split: if_splits)
  show ?thesis
  proof (cases "b_publicUrl i")
    case None
    with assms(1) clauses [of False "[]"] show ?thesis by (auto simp: resolveUiBind_def)
  next
    case (Some u)
    show ?thesis
      by (cases "parsePublicUrl new_URL u")
        (use Some assms(1) clauses in \<open>auto simp: resolveUiBind_def split: if_splits dest!: clauses\<close>)
  qed
qed

lemma wide_bind_needs_a_gesture_witness:
  "\<exists>notes. resolveUiBind (\<lambda>_. None) \<lparr>b_bind = ''10.0.0.7'', b_port = 8788, b_publicUrl = None, b_uiEnable = False,
     b_containerBind = False, b_allowInsecureBind = True,
     b_container = \<lparr>container = False, dockerClass = False, signals = []\<rparr>\<rparr> =
     BindAccepted InsecureFlag ''10.0.0.7'' False notes \<and> RESIDUAL \<in> set notes"
proof -
  let ?i = "\<lparr>b_bind = ''10.0.0.7'', b_port = 8788, b_publicUrl = None, b_uiEnable = False,
     b_containerBind = False, b_allowInsecureBind = True,
     b_container = \<lparr>container = False, dockerClass = False, signals = []\<rparr>\<rparr>"
  have w: "\<not> isLoopbackBind ''10.0.0.7''" by code_simp
  then have a: "resolveUiBind (\<lambda>_. None) ?i = BindAccepted InsecureFlag ''10.0.0.7'' False [RESIDUAL]"
    by (simp add: resolveUiBind_def bind_clauses_def)
  from wide_bind_needs_a_gesture [OF a w] a show ?thesis by blast
qed

text \<open>A run of reads: what the file's signature was and what reading it would give, each time.\<close>

fun live_run ::
  "string \<Rightarrow> (string option \<times> ui_config store_read) list \<Rightarrow> live_config \<Rightarrow>
     config_answer list \<times> string list \<times> live_config" where
  "live_run file [] l = ([], [], l)"
| "live_run file ((info, read) # rs) l =
     (let (a, w, l1) = live_read file info read l; (as, ws, l2) = live_run file rs l1
      in (a # as, w @ ws, l2))"

text \<open>
  A torn write never changes the configuration. Once a good document has been read, any number of reads that find the
  file missing or unparsable go on answering it, with one warning in all; and the first read that
  finds a good document again answers that one, unless the file's signature says it has not moved.
\<close>
theorem torn_reads_hold_the_last_good:
  assumes "lastGood l = Some good" and "\<forall>(info, read) \<in> set rs. \<forall>d. read \<noteq> Good d"
    and "live_run file rs l = (answers, warnings, l')"
  shows "answers = replicate (length rs) (Config good) \<and>
    length warnings \<le> (if degraded l then 0 else 1) \<and>
    (\<forall>info doc. info \<noteq> signature l' \<longrightarrow> fst (live_read file info (Good doc) l') = Config doc)"
  using assms
proof (induction rs arbitrary: l answers warnings l')
  case Nil
  then show ?case by (auto simp: live_read_def)
next
  case (Cons r rs)
  obtain info read where r: "r = (info, read)" by force
  obtain a w l1 where h: "live_read file info read l = (a, w, l1)" by (metis prod_cases3)
  obtain as ws l2 where t: "live_run file rs l1 = (as, ws, l2)" by (metis prod_cases3)
  have e: "answers = a # as" "warnings = w @ ws" "l' = l2" using Cons.prems(3) by (auto simp: r h t)
  have nr: "\<forall>(info, read) \<in> set rs. \<forall>d. read \<noteq> Good d" using Cons.prems(2) by simp
  have "\<forall>d. read \<noteq> Good d" using Cons.prems(2) r by auto
  then have s: "a = Config good" "lastGood l1 = Some good"
    "length w \<le> (if degraded l then 0 else 1)" "w \<noteq> [] \<or> degraded l \<longrightarrow> degraded l1"
    using h Cons.prems(1) by (auto simp: live_read_def split: if_splits store_read.splits)
  have "as = replicate (length rs) (Config good) \<and> length ws \<le> (if degraded l1 then 0 else 1) \<and>
      (\<forall>info doc. info \<noteq> signature l2 \<longrightarrow> fst (live_read file info (Good doc) l2) = Config doc)"
    by (rule Cons.IH [OF s(2) nr t])
  with s e show ?case by (cases w) (auto split: if_splits)
qed

lemma torn_reads_hold_the_last_good_witness:
  "fst (live_run ''ui.json'' [(None, Absent), (Some ''s2'', Corrupt)]
     \<lparr>lastGood = Some UI_CONFIG_DEFAULTS, signature = Some ''s1'', degraded = False\<rparr>) =
     [Config UI_CONFIG_DEFAULTS, Config UI_CONFIG_DEFAULTS]"
proof -
  let ?l = "\<lparr>lastGood = Some UI_CONFIG_DEFAULTS, signature = Some ''s1'', degraded = False\<rparr>"
  obtain as ws l' where r: "live_run ''ui.json'' [(None, Absent), (Some ''s2'', Corrupt)] ?l = (as, ws, l')"
    by (metis prod_cases3)
  have "lastGood ?l = Some UI_CONFIG_DEFAULTS" by simp
  from torn_reads_hold_the_last_good [OF this _ r] have "as = replicate (Suc (Suc 0)) (Config UI_CONFIG_DEFAULTS)" by auto
  then show ?thesis unfolding r by simp
qed

lemma zero_bits_match:
  "split_on CHR ''/'' entry = [net, len] \<Longrightarrow> parseAddress a = Some l \<Longrightarrow> parseAddress net = Some r \<Longrightarrow>
    length l = length r \<Longrightarrow> js_integer len = Some 0 \<Longrightarrow> addressMatches a entry"
  by (simp add: addressMatches_def)

text \<open>
  A trailing slash makes every IPv4 address a trusted proxy. \<open>ui config set trustedProxies\<close> accepts an address with
  an empty prefix length, since \<open>Number('')\<close> is 0, and the matcher then compares no bits; with it configured, an
  attacker behind any IPv4 peer picks the key of each request by sending an IPv6 address.
\<close>
theorem empty_prefix_length_trusts_every_ipv4:
  "checkTrustedProxies ''203.0.113.5/'' = Inr [''203.0.113.5/''] \<and>
   (\<forall>a l. parseAddress a = Some l \<and> length l = 4 \<longrightarrow> isTrustedProxy a [''203.0.113.5/'']) \<and>
   remoteKeyFor ''198.51.100.9'' (Some ''fd::1, 192.0.2.7'') [''203.0.113.5/''] = ''fd::1'' \<and>
   remoteKeyFor ''198.51.100.9'' (Some ''fd::2, 192.0.2.7'') [''203.0.113.5/''] = ''fd::2''"
proof -
  have p: "split_on CHR ''/'' ''203.0.113.5/'' = [''203.0.113.5'', '''']" by code_simp
  have a: "parseAddress ''203.0.113.5'' = Some [203, 0, 113, 5]" by code_simp
  have n: "js_integer '''' = Some 0" by code_simp
  have "addressMatches b ''203.0.113.5/''" if "parseAddress b = Some l" "length l = 4" for b l
    by (rule zero_bits_match [OF p that(1) a _ n]) (simp add: that(2))
  then have "\<forall>a l. parseAddress a = Some l \<and> length l = 4 \<longrightarrow> isTrustedProxy a [''203.0.113.5/'']"
    unfolding isTrustedProxy_def by simp
  moreover have "checkTrustedProxies ''203.0.113.5/'' = Inr [''203.0.113.5/'']" by code_simp
  moreover have "remoteKeyFor ''198.51.100.9'' (Some ''fd::1, 192.0.2.7'') [''203.0.113.5/''] = ''fd::1''"
    by code_simp
  moreover have "remoteKeyFor ''198.51.100.9'' (Some ''fd::2, 192.0.2.7'') [''203.0.113.5/''] = ''fd::2''"
    by code_simp
  ultimately show ?thesis by blast
qed

text \<open>
  A fractional session lifetime locks everyone out. \<open>ui config set sessionTtlHours\<close> accepts any positive number up to 168, but the
  reader truncates it, so a value below one hour is read as 0, and then no session is ever let in, not even on
  the request right after the sign-in that issued it.
\<close>
theorem fractional_ttl_refuses_every_session:
  assumes set: "checkSessionTtlHours raw = Inr q" and q: "q < 1"
    and read: "js_field ps ''sessionTtlHours'' = Number (Some q)" "parseUiConfig (Obj ps) = Some c"
    and t: "table_ok t" "lookup_token p token t = Some (k, s)" "token \<noteq> ''''" and now: "createdAt s \<le> now"
  shows "c_sessionTtlHours c = 0 \<and>
    validate p (Some token) f (policyOf c) now t = (Refused Expired, drop_session k s Expired t)"
proof -
  have "0 < q" using set by (auto simp: checkSessionTtlHours_def split: option.splits if_splits)
  then have "js_trunc q = 0" using q by (simp add: js_trunc_def floor_eq_iff)
  then have c: "c_sessionTtlHours c = 0" using read by auto
  then show ?thesis
    unfolding validate_found [OF t] using now by (simp add: past_ttl_def policyOf_def)
qed

lemma fractional_ttl_refuses_every_session_witness:
  "\<exists>c. parseUiConfig (Obj [(''sessionTtlHours'', Number (Some (1/2)))]) = Some c \<and> c_sessionTtlHours c = 0"
proof -
  let ?ps = "[(''sessionTtlHours'', Number (Some (1/2)))]"
  obtain c where c: "parseUiConfig (Obj ?ps) = Some c" by simp
  have set: "checkSessionTtlHours ''0.5'' = Inr (1/2)" by code_simp
  have f: "js_field ?ps ''sessionTtlHours'' = Number (Some (1/2))" by (simp add: js_field_def)
  have tok: "''abcdef'' \<noteq> ''''" by simp
  have now: "createdAt ann_session \<le> 1000" by (simp add: ann_session_eq)
  from fractional_ttl_refuses_every_session [OF set _ f c ann_known tok now, of sample_users] c
  show ?thesis by auto
qed

end
