(* ===== verification/Watchdog.thy ===== *)
theory Watchdog
  imports Prelude
begin

text \<open>
  The daemon's liveness judged from outside (\<open>src/container-watchdog.ts\<close>, with \<open>src/env.ts\<close>): the settings
  read from the environment, the decision fed with each read of the heartbeat file, and the lines it
  writes. A mark is the file's modification time, \<open>None\<close> when it cannot be read. The code keeps
  absolute reference points and shifts them over unwatched gaps; the lemmas show that this is exactly the
  accumulation of watched time, so that it stops a daemon for watched silence only, and always does.
\<close>

definition parseBooleanEnv :: "string option \<Rightarrow> bool" where
  "parseBooleanEnv value =
     (let v = map_option (js_lower \<circ> js_trim) value in
      v = Some ''1'' \<or> v = Some ''true'' \<or> v = Some ''yes'' \<or> v = Some ''on'')"

section \<open>Settings\<close>

definition METRICS_INTERVAL_MS :: ms where "METRICS_INTERVAL_MS = 10000"
definition DEFAULT_STALE_MS :: ms where "DEFAULT_STALE_MS = 120000"
definition MIN_STALE_MS :: ms where "MIN_STALE_MS = 3 * METRICS_INTERVAL_MS"
definition DEFAULT_GRACE_MS :: ms where "DEFAULT_GRACE_MS = 300000"
definition HEARTBEAT_CHECK_MS :: ms where "HEARTBEAT_CHECK_MS = 5000"
definition UNWATCHED_GAP_MS :: ms where "UNWATCHED_GAP_MS = 6 * HEARTBEAT_CHECK_MS"
definition HEARTBEAT_STALE_EXIT_CODE :: int where "HEARTBEAT_STALE_EXIT_CODE = 70"

record watchdog_settings =
  staleMs :: ms
  graceMs :: ms

record watchdog_config =
  settings :: "watchdog_settings option"
  wd_notes :: "string list"

datatype ms_reading = Unset | Invalid | Millis ms

text \<open>\<open>Number.isSafeInteger\<close> of a string of digits: rounding never brings a larger value below \<open>2 ^ 53\<close>.\<close>

definition readMilliseconds :: "string option \<Rightarrow> ms_reading" where
  "readMilliseconds raw =
     (let text = (case raw of None \<Rightarrow> [] | Some s \<Rightarrow> js_trim s) in
      if text = [] then Unset
      else if \<not> list_all is_digit text then Invalid
      else if read_nat text < 2 ^ 53 then Millis (int (read_nat text)) else Invalid)"

definition stale_setting :: "(string \<Rightarrow> string option) \<Rightarrow> ms \<times> string list" where
  "stale_setting env =
     (case readMilliseconds (env ''FORTRESS_WATCHDOG_STALE_MS'') of
        Invalid \<Rightarrow> (DEFAULT_STALE_MS, [''FORTRESS_WATCHDOG_STALE_MS='' @ the (env ''FORTRESS_WATCHDOG_STALE_MS'') @
          '' is not a number of milliseconds; using '' @ show_int DEFAULT_STALE_MS])
      | Unset \<Rightarrow> (DEFAULT_STALE_MS, [])
      | Millis stale \<Rightarrow>
          if 0 < stale then
            (max stale MIN_STALE_MS,
             if stale < MIN_STALE_MS then [''FORTRESS_WATCHDOG_STALE_MS='' @ show_int stale @ '' is below the '' @
               show_int MIN_STALE_MS @ '' ms floor; using '' @ show_int MIN_STALE_MS] else [])
          else (DEFAULT_STALE_MS, []))"

definition grace_setting :: "(string \<Rightarrow> string option) \<Rightarrow> ms \<times> string list" where
  "grace_setting env =
     (case readMilliseconds (env ''FORTRESS_WATCHDOG_GRACE_MS'') of
        Invalid \<Rightarrow> (DEFAULT_GRACE_MS, [''FORTRESS_WATCHDOG_GRACE_MS='' @ the (env ''FORTRESS_WATCHDOG_GRACE_MS'') @
          '' is not a number of milliseconds; using '' @ show_int DEFAULT_GRACE_MS])
      | Unset \<Rightarrow> (DEFAULT_GRACE_MS, [])
      | Millis grace \<Rightarrow> (grace, []))"

definition watchdogConfig :: "(string \<Rightarrow> string option) \<Rightarrow> watchdog_config" where
  "watchdogConfig env =
     (if parseBooleanEnv (env ''FORTRESS_WATCHDOG_DISABLED'') then \<lparr>settings = None, wd_notes = []\<rparr>
      else let (stale, n1) = stale_setting env; (grace, n2) = grace_setting env
        in \<lparr>settings = Some \<lparr>staleMs = stale, graceMs = grace\<rparr>, wd_notes = n1 @ n2\<rparr>)"

section \<open>The decision\<close>

type_synonym heartbeat_mark = "int option"

record heartbeat_watch =
  last_mark :: heartbeat_mark
  firstBeatAt :: "ms option"
  lastBeatAt :: ms
  lastReadAt :: "ms option"

definition new_watch :: "heartbeat_mark \<Rightarrow> heartbeat_watch" where
  "new_watch baseline = \<lparr>last_mark = baseline, firstBeatAt = None, lastBeatAt = 0, lastReadAt = None\<rparr>"

datatype watch_verdict = WaitingBeat | Grace | Alive | Stale ms

definition skip_gap :: "ms \<Rightarrow> heartbeat_watch \<Rightarrow> heartbeat_watch" where
  "skip_gap now h =
     (case (lastReadAt h, firstBeatAt h) of
        (Some r, Some b) \<Rightarrow>
          let gap = now - r in
          if gap < 0 \<or> UNWATCHED_GAP_MS < gap
          then h\<lparr>firstBeatAt := Some (b + gap), lastBeatAt := lastBeatAt h + gap\<rparr> else h
      | _ \<Rightarrow> h)"

definition observe_beat :: "watchdog_settings \<Rightarrow> ms \<Rightarrow> heartbeat_mark \<Rightarrow> heartbeat_watch \<Rightarrow> watch_verdict \<times> heartbeat_watch" where
  "observe_beat st now mark h0 =
     (let h1 = (skip_gap now h0)\<lparr>lastReadAt := Some now\<rparr>;
          h2 = (if mark \<noteq> None \<and> mark \<noteq> last_mark h1
                then h1\<lparr>last_mark := mark, firstBeatAt := or_else (firstBeatAt h1) (Some now), lastBeatAt := now\<rparr>
                else h1)
      in case firstBeatAt h2 of
           None \<Rightarrow> (WaitingBeat, h2)
         | Some b \<Rightarrow>
             if now - b < graceMs st then (Grace, h2)
             else let silentMs = now - lastBeatAt h2 in
               (if staleMs st < silentMs then Stale silentMs else Alive, h2))"

section \<open>The lines\<close>

text \<open>\<open>Math.round\<close> of a number of milliseconds over a thousand: halves go up.\<close>

definition seconds :: "ms \<Rightarrow> string" where
  "seconds t = show_int ((t + 500) div 1000) @ ''s''"

definition watchingLine :: "string \<Rightarrow> watchdog_settings \<Rightarrow> string" where
  "watchingLine file st =
     ''liveness watchdog: first daemon heartbeat seen in '' @ file @ ''. '' @
     (if 0 < graceMs st then ''From '' @ seconds (graceMs st) @ '' after it'' else ''From now on'') @ '', '' @
     seconds (staleMs st) @ '' without a new one stops the daemon and exits the container with code '' @
     show_int HEARTBEAT_STALE_EXIT_CODE"

definition staleLine :: "platform \<Rightarrow> string \<Rightarrow> heartbeat_mark \<Rightarrow> watchdog_settings \<Rightarrow> int option \<Rightarrow> string" where
  "staleLine p file mark st pid =
     ''daemon heartbeat is stale: '' @ file @ '' has not been rewritten for more than '' @ seconds (staleMs st) @
     (case mark of None \<Rightarrow> [] | Some m \<Rightarrow> '' (last written '' @ p_iso p m @ '')'') @ ''; stopping '' @
     (case pid of None \<Rightarrow> ''the daemon'' | Some n \<Rightarrow> ''the daemon (pid '' @ show_int n @ '')'') @
     '' and exiting with code '' @ show_int HEARTBEAT_STALE_EXIT_CODE @ '' so the container is restarted''"

section \<open>Watched time\<close>

text \<open>
  What the watchdog promises, with no clock in it: since the first heartbeat, and since the
  latest, so much time passed under its eyes. A gap between two reads counts when it is neither negative nor
  longer than \<open>UNWATCHED_GAP_MS\<close>.
\<close>

record watched =
  wt_mark :: heartbeat_mark
  wt_beating :: bool
  wt_first :: ms
  wt_last :: ms
  wt_read :: "ms option"

definition counted_gap :: "ms option \<Rightarrow> ms \<Rightarrow> ms" where
  "counted_gap r now = (case r of None \<Rightarrow> 0
     | Some t \<Rightarrow> if now - t < 0 \<or> UNWATCHED_GAP_MS < now - t then 0 else now - t)"

definition watch_more :: "ms \<Rightarrow> heartbeat_mark \<Rightarrow> watched \<Rightarrow> watched" where
  "watch_more now mark w =
     (let g = counted_gap (wt_read w) now;
          beat = (mark \<noteq> None \<and> mark \<noteq> wt_mark w)
      in \<lparr>wt_mark = (if beat then mark else wt_mark w),
          wt_beating = (wt_beating w \<or> beat),
          wt_first = (if wt_beating w then wt_first w + g else 0),
          wt_last = (if beat then 0 else if wt_beating w then wt_last w + g else 0),
          wt_read = Some now\<rparr>)"

definition judge :: "watchdog_settings \<Rightarrow> watched \<Rightarrow> watch_verdict" where
  "judge st w =
     (if \<not> wt_beating w then WaitingBeat
      else if wt_first w < graceMs st then Grace
      else if staleMs st < wt_last w then Stale (wt_last w) else Alive)"

definition new_watched :: "heartbeat_mark \<Rightarrow> watched" where
  "new_watched baseline = \<lparr>wt_mark = baseline, wt_beating = False, wt_first = 0, wt_last = 0, wt_read = None\<rparr>"

definition watch_rel :: "heartbeat_watch \<Rightarrow> watched \<Rightarrow> bool" where
  "watch_rel h w \<longleftrightarrow> last_mark h = wt_mark w \<and> lastReadAt h = wt_read w \<and>
     (firstBeatAt h \<noteq> None \<longleftrightarrow> wt_beating w) \<and>
     (wt_beating w \<longrightarrow> (\<exists>r. lastReadAt h = Some r \<and> firstBeatAt h = Some (r - wt_first w) \<and>
        lastBeatAt h = r - wt_last w))"

lemma watch_rel_new: "watch_rel (new_watch b) (new_watched b)"
  by (simp add: watch_rel_def new_watch_def new_watched_def)

text \<open>One read: the code's reference points and the accumulated time stay in step, and give the same verdict.\<close>

lemma skip_gap_beating:
  assumes "lastReadAt h = Some r" "firstBeatAt h = Some (r - a)" "lastBeatAt h = r - l"
  shows "last_mark (skip_gap now h) = last_mark h"
    and "firstBeatAt (skip_gap now h) = Some (now - (a + counted_gap (Some r) now))"
    and "lastBeatAt (skip_gap now h) = now - (l + counted_gap (Some r) now)"
  using assms by (simp_all add: skip_gap_def counted_gap_def Let_def)

lemma skip_gap_silent: "firstBeatAt h = None \<Longrightarrow> skip_gap now h = h"
  by (simp add: skip_gap_def split: option.splits)

lemma observe_rel:
  assumes rel: "watch_rel h w"
  shows "watch_rel (snd (observe_beat st now mark h)) (watch_more now mark w)"
    and "fst (observe_beat st now mark h) = judge st (watch_more now mark w)"
proof -
  obtain m b f l r where w: "w = \<lparr>wt_mark = m, wt_beating = b, wt_first = f, wt_last = l, wt_read = r\<rparr>"
    by (cases w)
  have "watch_rel (snd (observe_beat st now mark h)) (watch_more now mark w) \<and>
    fst (observe_beat st now mark h) = judge st (watch_more now mark w)"
  proof (cases b)
    case False
    with rel have n: "firstBeatAt h = None" "last_mark h = m" by (simp_all add: w watch_rel_def)
    show ?thesis
      by (simp add: w False n observe_beat_def skip_gap_silent watch_rel_def watch_more_def judge_def Let_def)
  next
    case True
    with rel obtain t where t: "r = Some t" "lastReadAt h = Some t" "firstBeatAt h = Some (t - f)"
        "lastBeatAt h = t - l" "last_mark h = m" by (auto simp: w watch_rel_def)
    show ?thesis
      by (simp add: w True t observe_beat_def skip_gap_beating [OF t(2-4)] watch_rel_def watch_more_def judge_def Let_def)
  qed
  then show "watch_rel (snd (observe_beat st now mark h)) (watch_more now mark w)"
    "fst (observe_beat st now mark h) = judge st (watch_more now mark w)" by simp_all
qed

fun observe_all ::
  "watchdog_settings \<Rightarrow> (ms \<times> heartbeat_mark) list \<Rightarrow> heartbeat_watch \<Rightarrow> watch_verdict list \<times> heartbeat_watch" where
  "observe_all st [] h = ([], h)"
| "observe_all st ((now, mark) # rs) h =
     (let (v, h1) = observe_beat st now mark h; (vs, h2) = observe_all st rs h1 in (v # vs, h2))"

fun judge_all :: "watchdog_settings \<Rightarrow> (ms \<times> heartbeat_mark) list \<Rightarrow> watched \<Rightarrow> watch_verdict list" where
  "judge_all st [] w = []"
| "judge_all st ((now, mark) # rs) w = judge st (watch_more now mark w) # judge_all st rs (watch_more now mark w)"

lemma observe_all_Cons:
  "fst (observe_all st ((now, mark) # rs) h) =
     fst (observe_beat st now mark h) # fst (observe_all st rs (snd (observe_beat st now mark h)))"
  "snd (observe_all st ((now, mark) # rs) h) = snd (observe_all st rs (snd (observe_beat st now mark h)))"
  by (simp_all add: case_prod_unfold Let_def)

lemma observe_all_rel: "watch_rel h w \<Longrightarrow> fst (observe_all st rs h) = judge_all st rs w"
proof (induction rs arbitrary: h w)
  case (Cons r rs)
  obtain now mark where r: "r = (now, mark)" by (cases r)
  show ?case
    using Cons.IH observe_rel [OF Cons.prems, of st now mark] by (simp only: r observe_all_Cons judge_all.simps)
qed simp

text \<open>
  C30. The watchdog refines an accumulator of watched time: over any sequence of reads, whatever the clock
  does, the verdicts given with shifted reference points are those of counting, since the first and
  since the latest heartbeat, only the gaps between reads that are neither negative nor longer than
  \<open>UNWATCHED_GAP_MS\<close>. So a sleeping host or a clock step is never held against the daemon.
\<close>
theorem watchdog_refines_watched_time:
  "fst (observe_all st rs (new_watch b)) = judge_all st rs (new_watched b)"
  by (rule observe_all_rel [OF watch_rel_new])

section \<open>A silent daemon is caught\<close>

definition sane :: "watched \<Rightarrow> bool" where "sane w \<longleftrightarrow> 0 \<le> wt_first w \<and> 0 \<le> wt_last w"

lemma counted_gap_nonneg: "0 \<le> counted_gap r now"
  by (simp add: counted_gap_def split: option.splits)

lemma sane_watch_more: "sane w \<Longrightarrow> sane (watch_more now mark w)"
  using counted_gap_nonneg [of "wt_read w" now] by (simp add: sane_def watch_more_def Let_def)

lemma run_reaches:
  "watch_rel h w \<Longrightarrow> sane w \<Longrightarrow> \<exists>w'. watch_rel (snd (observe_all st rs h)) w' \<and> sane w'"
proof (induction rs arbitrary: h w)
  case (Cons r rs)
  obtain now mark where r: "r = (now, mark)" by (cases r)
  show ?case
    using Cons.IH [OF observe_rel(1) [OF Cons.prems(1), of st now mark] sane_watch_more [OF Cons.prems(2)]]
    by (simp only: r observe_all_Cons)
qed auto

text \<open>Reads that see no new heartbeat, each in time after the one before.\<close>

fun silent_reads :: "ms \<Rightarrow> heartbeat_mark \<Rightarrow> (ms \<times> heartbeat_mark) list \<Rightarrow> bool" where
  "silent_reads t m [] \<longleftrightarrow> True"
| "silent_reads t m ((now, mark) # rs) \<longleftrightarrow>
     t \<le> now \<and> now - t \<le> UNWATCHED_GAP_MS \<and> (mark = None \<or> mark = m) \<and> silent_reads now m rs"

fun final_read :: "ms \<Rightarrow> (ms \<times> heartbeat_mark) list \<Rightarrow> ms" where
  "final_read t [] = t"
| "final_read t ((now, mark) # rs) = final_read now rs"

lemma silent_read:
  assumes "wt_beating w" "wt_read w = Some t" "t \<le> now" "now - t \<le> UNWATCHED_GAP_MS" "mark = None \<or> mark = wt_mark w"
  shows "watch_more now mark w = w\<lparr>wt_first := wt_first w + (now - t), wt_last := wt_last w + (now - t), wt_read := Some now\<rparr>"
  using assms by (cases w) (auto simp: watch_more_def counted_gap_def Let_def)

lemma silence_is_judged:
  assumes "wt_beating w" "wt_read w = Some t" "silent_reads t (wt_mark w) rs" "rs \<noteq> []"
    "graceMs st \<le> wt_first w + (final_read t rs - t)" "staleMs st < wt_last w + (final_read t rs - t)"
  shows "last (judge_all st rs w) = Stale (wt_last w + (final_read t rs - t))"
  using assms
proof (induction rs arbitrary: w t)
  case (Cons r rs)
  obtain now mark where r: "r = (now, mark)" by (cases r)
  let ?w = "w\<lparr>wt_first := wt_first w + (now - t), wt_last := wt_last w + (now - t), wt_read := Some now\<rparr>"
  have m: "watch_more now mark w = ?w" using Cons.prems(1-3) by (intro silent_read) (simp_all add: r)
  show ?case
  proof (cases "rs = []")
    case True
    with Cons.prems show ?thesis by (simp add: r m judge_def)
  next
    case False
    have "last (judge_all st rs ?w) = Stale (wt_last ?w + (final_read now rs - now))"
      using Cons.prems False by (intro Cons.IH) (simp_all add: r algebra_simps)
    moreover have "judge_all st rs ?w \<noteq> []" using False by (cases rs) auto
    ultimately show ?thesis by (simp add: r m)
  qed
qed simp

text \<open>
  A frozen daemon is stopped: whatever was read before, once the daemon has beaten and then writes
  nothing, reads that keep coming at most \<open>UNWATCHED_GAP_MS\<close> apart end in a stale verdict as
  soon as they span the grace period and more than the silence limit.
\<close>
theorem frozen_daemon_is_caught:
  assumes "h = snd (observe_all st before (new_watch b))"
    and "firstBeatAt h \<noteq> None" and "lastReadAt h = Some t"
    and "silent_reads t (last_mark h) rs"
    and "0 \<le> staleMs st" and "graceMs st \<le> final_read t rs - t" and "staleMs st < final_read t rs - t"
  shows "\<exists>silent. last (fst (observe_all st rs h)) = Stale silent \<and> staleMs st < silent"
proof -
  have "sane (new_watched b)" by (simp add: sane_def new_watched_def)
  then obtain w where w: "watch_rel h w" "sane w"
    using run_reaches [OF watch_rel_new, of b st before] assms(1) by auto
  with assms have s: "wt_beating w" "wt_read w = Some t" "wt_mark w = last_mark h" "0 \<le> wt_first w" "0 \<le> wt_last w"
    by (auto simp: watch_rel_def sane_def)
  have "rs \<noteq> []" using assms(5,7) by auto
  then have "last (judge_all st rs w) = Stale (wt_last w + (final_read t rs - t))"
    using s assms(4-7) by (intro silence_is_judged) simp_all
  with s(5) assms(7) show ?thesis by (simp add: observe_all_rel [OF w(1)])
qed

theorem frozen_daemon_is_caught_witness:
  "\<exists>silent. last (fst (observe_all \<lparr>staleMs = 30000, graceMs = 0\<rparr>
      [(20000, Some 8), (40000, None), (60000, Some 8)]
      (snd (observe_all \<lparr>staleMs = 30000, graceMs = 0\<rparr> [(0, Some 7), (10000, Some 8)] (new_watch (Some 7)))))) = Stale silent
    \<and> 30000 < silent"
  using frozen_daemon_is_caught [of "snd (observe_all \<lparr>staleMs = 30000, graceMs = 0\<rparr> [(0, Some 7), (10000, Some 8)] (new_watch (Some 7)))"
      "\<lparr>staleMs = 30000, graceMs = 0\<rparr>" "[(0, Some 7), (10000, Some 8)]" "Some 7" 10000
      "[(20000, Some 8), (40000, None), (60000, Some 8)]"]
  by (simp add: new_watch_def observe_beat_def skip_gap_def or_else_def UNWATCHED_GAP_MS_def HEARTBEAT_CHECK_MS_def)

lemma watchdog_floor:
  assumes "settings (watchdogConfig env) = Some st"
  shows "MIN_STALE_MS \<le> staleMs st \<and> 0 \<le> graceMs st"
proof -
  have "MIN_STALE_MS \<le> fst (stale_setting env)"
    by (simp add: stale_setting_def MIN_STALE_MS_def METRICS_INTERVAL_MS_def DEFAULT_STALE_MS_def split: ms_reading.splits)
  moreover have "0 \<le> fst (grace_setting env)"
    by (auto simp: grace_setting_def DEFAULT_GRACE_MS_def readMilliseconds_def Let_def split: ms_reading.splits if_splits)
  ultimately show ?thesis
    using assms by (auto simp: watchdogConfig_def Let_def case_prod_unfold split: if_splits)
qed

end
