(* ===== verification/Effects.thy ===== *)
theory Effects
  imports Prelude
begin

text \<open>
  Stateful code that may throw: an effect takes the state and gives a value, or the message of what was thrown, with the
  state it leaves. \<open>await f()\<close> followed by the rest of a block is \<open>bind\<close>, a block with a
  \<open>finally\<close> clause is \<open>ensuring\<close>. The rules of \<open>hoare\<close> carry a precondition through a block: \<open>Q\<close> holds after a
  normal end, \<open>E\<close> after a throw.
\<close>

named_theorems hoare_rules \<open>rules of the calculus, one per construct\<close>

type_synonym ('w, 'a) eff = "'w \<Rightarrow> (string + 'a) \<times> 'w"

definition ret :: "'a \<Rightarrow> ('w, 'a) eff" where "ret x w = (Inr x, w)"
definition raise :: "string \<Rightarrow> ('w, 'a) eff" where "raise e w = (Inl e, w)"
definition get :: "('w \<Rightarrow> 'a) \<Rightarrow> ('w, 'a) eff" where "get f w = (Inr (f w), w)"
definition update :: "('w \<Rightarrow> 'w) \<Rightarrow> ('w, unit) eff" where "update f w = (Inr (), f w)"

definition bind :: "('w, 'a) eff \<Rightarrow> ('a \<Rightarrow> ('w, 'b) eff) \<Rightarrow> ('w, 'b) eff" where
  "bind m f w = (case m w of (Inl e, w1) \<Rightarrow> (Inl e, w1) | (Inr x, w1) \<Rightarrow> f x w1)"

definition seq :: "('w, 'a) eff \<Rightarrow> ('w, 'b) eff \<Rightarrow> ('w, 'b) eff" where
  "seq m n = bind m (\<lambda>_. n)"

text \<open>\<open>try { m } finally { f }\<close>: what \<open>f\<close> throws replaces the outcome of \<open>m\<close>.\<close>

definition ensuring :: "('w, 'a) eff \<Rightarrow> ('w, unit) eff \<Rightarrow> ('w, 'a) eff" where
  "ensuring m f w = (case m w of (r, w1) \<Rightarrow> (case f w1 of (Inl e, w2) \<Rightarrow> (Inl e, w2) | (Inr _, w2) \<Rightarrow> (r, w2)))"

definition catching :: "('w, 'a) eff \<Rightarrow> (string \<Rightarrow> ('w, 'a) eff) \<Rightarrow> ('w, 'a) eff" where
  "catching m h w = (case m w of (Inl e, w1) \<Rightarrow> h e w1 | (Inr x, w1) \<Rightarrow> (Inr x, w1))"

text \<open>\<open>for (const x of xs) await f(x)\<close>.\<close>

fun each :: "('a \<Rightarrow> ('w, unit) eff) \<Rightarrow> 'a list \<Rightarrow> ('w, unit) eff" where
  "each f [] = ret ()"
| "each f (x # xs) = seq (f x) (each f xs)"

section \<open>Rules\<close>

definition hoare :: "('w \<Rightarrow> bool) \<Rightarrow> ('w, 'a) eff \<Rightarrow> ('a \<Rightarrow> 'w \<Rightarrow> bool) \<Rightarrow> ('w \<Rightarrow> bool) \<Rightarrow> bool" where
  "hoare P m Q E \<longleftrightarrow> (\<forall>w. P w \<longrightarrow> (case m w of (Inr x, w') \<Rightarrow> Q x w' | (Inl e, w') \<Rightarrow> E w'))"

lemma hoareI:
  assumes "\<And>w x w'. P w \<Longrightarrow> m w = (Inr x, w') \<Longrightarrow> Q x w'" and "\<And>w e w'. P w \<Longrightarrow> m w = (Inl e, w') \<Longrightarrow> E w'"
  shows "hoare P m Q E"
  unfolding hoare_def
proof (intro allI impI)
  fix w assume w: "P w"
  obtain r w' where m: "m w = (r, w')" by force
  show "case m w of (Inl e, w') \<Rightarrow> E w' | (Inr x, w') \<Rightarrow> Q x w'"
    using assms w m by (cases r) simp_all
qed

lemma hoareD: "hoare P m Q E \<Longrightarrow> P w \<Longrightarrow> m w = (Inr x, w') \<Longrightarrow> Q x w'"
  and hoareD_err: "hoare P m Q E \<Longrightarrow> P w \<Longrightarrow> m w = (Inl e, w') \<Longrightarrow> E w'"
  unfolding hoare_def by force+

lemma hoare_weaken:
  assumes "hoare P m Q E" and "\<And>w. P' w \<Longrightarrow> P w" and "\<And>x w. Q x w \<Longrightarrow> Q' x w" and "\<And>w. E w \<Longrightarrow> E' w"
  shows "hoare P' m Q' E'"
  using hoareD [OF assms(1)] hoareD_err [OF assms(1)] assms(2-4) by (intro hoareI) blast+

lemma hoare_pre: "hoare P m Q E \<Longrightarrow> (\<And>w. P' w \<Longrightarrow> P w) \<Longrightarrow> hoare P' m Q E"
  by (rule hoare_weaken)

lemma hoare_ret [hoare_rules]: "hoare (Q x) (ret x) Q E"
  by (simp add: hoare_def ret_def)

lemma hoare_raise [hoare_rules]: "hoare E (raise e) Q E"
  by (simp add: hoare_def raise_def)

lemma hoare_get [hoare_rules]: "hoare (\<lambda>w. Q (f w) w) (get f) Q E"
  by (simp add: hoare_def get_def)

lemma hoare_update [hoare_rules]: "hoare (\<lambda>w. Q () (f w)) (update f) Q E"
  by (simp add: hoare_def update_def)

text \<open>The same as introduction rules, and a read of the state.\<close>

lemma hoare_retI: "(\<And>w. P w \<Longrightarrow> Q x w) \<Longrightarrow> hoare P (ret x) Q E"
  by (simp add: hoare_def ret_def)

lemma hoare_raiseI: "(\<And>w. P w \<Longrightarrow> E w) \<Longrightarrow> hoare P (raise e) Q E"
  by (simp add: hoare_def raise_def)

lemma hoare_updateI: "(\<And>w. P w \<Longrightarrow> Q () (f w)) \<Longrightarrow> hoare P (update f) Q E"
  by (simp add: hoare_def update_def)

lemma bind_get: "bind (get f) g w = g (f w) w"
  by (simp add: bind_def get_def)

lemma hoare_bind_get: "(\<And>x. hoare (\<lambda>w. P w \<and> f w = x) (g x) Q E) \<Longrightarrow> hoare P (bind (get f) g) Q E"
  unfolding hoare_def by (simp add: bind_get)

lemma bind_Inr: "bind m f w = (Inr y, w') \<longleftrightarrow> (\<exists>x w1. m w = (Inr x, w1) \<and> f x w1 = (Inr y, w'))"
  and bind_Inl: "bind m f w = (Inl e, w') \<longleftrightarrow> m w = (Inl e, w') \<or> (\<exists>x w1. m w = (Inr x, w1) \<and> f x w1 = (Inl e, w'))"
  by (auto simp: bind_def split: prod.splits sum.splits)

lemma hoare_bind:
  assumes m: "hoare P m R E" and f: "\<And>x. hoare (R x) (f x) Q E"
  shows "hoare P (bind m f) Q E"
  using hoareD [OF m] hoareD_err [OF m] hoareD [OF f] hoareD_err [OF f]
  by (intro hoareI) (unfold bind_Inr bind_Inl, blast+)

lemma hoare_seq: "hoare P m (\<lambda>_. R) E \<Longrightarrow> hoare R n Q E \<Longrightarrow> hoare P (seq m n) Q E"
  unfolding seq_def by (rule hoare_bind)

lemma hoare_conj:
  assumes "hoare P m Q E" and "hoare P' m Q' E'"
  shows "hoare (\<lambda>w. P w \<and> P' w) m (\<lambda>x w. Q x w \<and> Q' x w) (\<lambda>w. E w \<and> E' w)"
  using hoareD [OF assms(1)] hoareD_err [OF assms(1)] hoareD [OF assms(2)] hoareD_err [OF assms(2)]
  by (intro hoareI) blast+

lemma hoare_ex: "(\<And>x. hoare (P x) m Q E) \<Longrightarrow> hoare (\<lambda>w. \<exists>x. P x w) m Q E"
  by (rule hoareI) (blast dest: hoareD hoareD_err)+

lemma hoare_if: "(b \<Longrightarrow> hoare P m Q E) \<Longrightarrow> (\<not> b \<Longrightarrow> hoare P n Q E) \<Longrightarrow> hoare P (if b then m else n) Q E"
  by simp

lemma ensuring_cases:
  assumes "ensuring m f w = (r, w')"
  obtains r1 w1 where "m w = (r1, w1)" "f w1 = (Inr (), w')" "r = r1"
    | r1 w1 e where "m w = (r1, w1)" "f w1 = (Inl e, w')" "r = Inl e"
  using assms by (auto simp: ensuring_def split: prod.splits sum.splits)

lemma hoare_ensuring:
  assumes m: "hoare P m R R'" and f: "\<And>x. hoare (R x) f (\<lambda>_. Q x) E" and f': "hoare R' f (\<lambda>_. E) E"
  shows "hoare P (ensuring m f) Q E"
  by (rule hoareI; erule ensuring_cases)
    (use hoareD [OF m] hoareD_err [OF m] hoareD [OF f] hoareD_err [OF f] hoareD [OF f'] hoareD_err [OF f'] in
      \<open>metis sum.exhaust sum.inject sum.distinct\<close>)+

lemma catching_cases:
  assumes "catching m h w = (r, w')"
  obtains x where "m w = (Inr x, w')" "r = Inr x" | e w1 where "m w = (Inl e, w1)" "h e w1 = (r, w')"
  using assms by (auto simp: catching_def split: prod.splits sum.splits)

lemma hoare_catching:
  assumes m: "hoare P m Q R" and h: "\<And>e. hoare R (h e) Q E"
  shows "hoare P (catching m h) Q E"
  by (rule hoareI; erule catching_cases)
    (use hoareD [OF m] hoareD_err [OF m] hoareD [OF h] hoareD_err [OF h] in blast)+

lemma hoare_each:
  "(\<And>x. x \<in> set xs \<Longrightarrow> hoare P (f x) (\<lambda>_. P) E) \<Longrightarrow> hoare P (each f xs) (\<lambda>_. P) E"
  by (induction xs) (auto intro!: hoare_seq hoare_ret [where Q = "\<lambda>_. P"])

text \<open>A predicate every outcome keeps.\<close>

definition keeps :: "('w \<Rightarrow> bool) \<Rightarrow> ('w, 'a) eff \<Rightarrow> bool" where
  "keeps P m \<longleftrightarrow> hoare P m (\<lambda>_. P) P"

lemma keepsI: "(\<And>w. P w \<Longrightarrow> P (snd (m w))) \<Longrightarrow> keeps P m"
  unfolding keeps_def by (rule hoareI) force+

lemma keepsD: "keeps P m \<Longrightarrow> P w \<Longrightarrow> P (snd (m w))"
  unfolding keeps_def hoare_def by (cases "m w") (auto split: sum.splits)

lemma keeps_ret [simp, intro]: "keeps P (ret x)"
  by (rule keepsI) (simp add: ret_def)

lemma keeps_raise [simp, intro]: "keeps P (raise e)"
  by (rule keepsI) (simp add: raise_def)

lemma keeps_get [simp, intro]: "keeps P (get f)"
  by (rule keepsI) (simp add: get_def)

lemma keeps_update: "(\<And>w. P w \<Longrightarrow> P (f w)) \<Longrightarrow> keeps P (update f)"
  by (rule keepsI) (simp add: update_def)

lemma keeps_bind: "keeps P m \<Longrightarrow> (\<And>x. keeps P (f x)) \<Longrightarrow> keeps P (bind m f)"
  unfolding keeps_def by (rule hoare_bind)

lemma keeps_seq: "keeps P m \<Longrightarrow> keeps P n \<Longrightarrow> keeps P (seq m n)"
  unfolding keeps_def by (rule hoare_seq)

lemma keeps_if: "(b \<Longrightarrow> keeps P m) \<Longrightarrow> (\<not> b \<Longrightarrow> keeps P n) \<Longrightarrow> keeps P (if b then m else n)"
  by simp

lemma keeps_ensuring: "keeps P m \<Longrightarrow> keeps P f \<Longrightarrow> keeps P (ensuring m f)"
  unfolding keeps_def by (rule hoare_ensuring)

lemma keeps_catching: "keeps P m \<Longrightarrow> (\<And>e. keeps P (h e)) \<Longrightarrow> keeps P (catching m h)"
  unfolding keeps_def by (rule hoare_catching)

lemma keeps_each: "(\<And>x. x \<in> set xs \<Longrightarrow> keeps P (f x)) \<Longrightarrow> keeps P (each f xs)"
  unfolding keeps_def by (rule hoare_each)

lemma keeps_option:
  "keeps P m \<Longrightarrow> (\<And>x. keeps P (f x)) \<Longrightarrow> keeps P (case a of None \<Rightarrow> m | Some x \<Rightarrow> f x)"
  by (cases a) simp_all

lemmas keeps_rules = keeps_option keeps_bind keeps_seq keeps_if keeps_ensuring keeps_catching keeps_each

end
