(* ===== verification/Migration.thy ===== *)
theory Migration
  imports Effects Pause_Gate Store_Keys
begin

text \<open>
  Moving a fortress to another bucket (\<open>src/console/migration.ts\<close>): copy, delta passes, drain, pause, barrier, final
  delta, tombstone replay, fence, cut, verification. The state holds the two buckets, the write gate with the pause
  row it reads, the accounting of writes in flight, and the engine's variables. Everything the engine
  waits for is a call, and before each call the world moves: the schedule gives, call by call, what
  happened meanwhile - time passes, clients ask the gate and their admitted writes land in the
  source, the daemon refreshes its view of the pause row - and whether the call fails or stores
  other bytes than it was sent. The gate, its view and the accounting are those of
  \<open>Pause_Gate\<close>. Progress events are not modelled.
\<close>

section \<open>Buckets\<close>

record bucket =
  b_canon :: "(session_key \<times> string) list"
  b_side :: "((session_key \<times> string) \<times> string) list"

definition canon :: "bucket \<Rightarrow> session_key \<Rightarrow> string option" where
  "canon b k = map_of (b_canon b) k"

definition sidecar :: "bucket \<Rightarrow> session_key \<Rightarrow> string \<Rightarrow> string option" where
  "sidecar b k n = map_of (b_side b) (k, n)"

definition side_names :: "bucket \<Rightarrow> session_key \<Rightarrow> string list" where
  "side_names b k = map (snd \<circ> fst) (filter (\<lambda>e. fst (fst e) = k) (b_side b))"

definition put_canon :: "session_key \<Rightarrow> string \<Rightarrow> bucket \<Rightarrow> bucket" where
  "put_canon k t b = b\<lparr>b_canon := AList.update k t (b_canon b)\<rparr>"

definition put_side :: "session_key \<Rightarrow> string \<Rightarrow> string \<Rightarrow> bucket \<Rightarrow> bucket" where
  "put_side k n t b = b\<lparr>b_side := AList.update (k, n) t (b_side b)\<rparr>"

text \<open>What the two delete prefixes of a session reach: its own objects and those of its agent lanes.\<close>

definition owned :: "session_key \<Rightarrow> session_key \<Rightarrow> bool" where
  "owned k k' \<longleftrightarrow> sk_userId k' = sk_userId k \<and> sk_family k' = sk_family k \<and>
     (sk_sessionId k' = sk_sessionId k \<or> prefix (sk_sessionId k @ '':a:'') (sk_sessionId k'))"

definition drop_all :: "session_key \<Rightarrow> bucket \<Rightarrow> bucket" where
  "drop_all k b = b\<lparr>b_canon := filter (\<lambda>e. \<not> owned k (fst e)) (b_canon b),
     b_side := filter (\<lambda>e. \<not> owned k (fst (fst e))) (b_side b)\<rparr>"

text \<open>Remove the first \<open>n\<close> entries that satisfy \<open>P\<close>; what is left of the quota.\<close>

fun remove_some :: "('a \<Rightarrow> bool) \<Rightarrow> nat \<Rightarrow> 'a list \<Rightarrow> 'a list \<times> nat" where
  "remove_some P n [] = ([], n)"
| "remove_some P n (x # xs) =
     (if P x \<and> 0 < n then remove_some P (n - 1) xs
      else let (ys, m) = remove_some P n xs in (x # ys, m))"

text \<open>One \<open>deleteSession\<close> call: at most the batch limit is removed, and a full batch is never the last one.\<close>

definition delete_batch :: "session_key \<Rightarrow> nat \<Rightarrow> bucket \<Rightarrow> bool \<times> bucket" where
  "delete_batch k limit b =
     (let (cs, left) = remove_some (\<lambda>e. owned k (fst e)) limit (b_canon b);
          (ss, left') = remove_some (\<lambda>e. owned k (fst (fst e))) left (b_side b)
      in (0 < left', b\<lparr>b_canon := cs, b_side := ss\<rparr>))"

section \<open>The state\<close>

definition sessionRef :: "session_key \<Rightarrow> string" where
  "sessionRef k = join_with ''/'' [sk_userId k, sk_family k, sk_sessionId k]"


datatype bucket_write = PutCanon session_key string | PutSide session_key string string | Drop session_key

fun write_bucket :: "bucket_write \<Rightarrow> bucket \<Rightarrow> bucket" where
  "write_bucket (PutCanon k t) b = put_canon k t b"
| "write_bucket (PutSide k n t) b = put_side k n t b"
| "write_bucket (Drop k) b = drop_all k b"

datatype mig_event =
    Pass ms
  | Refresh
  | Begin
  | Land bucket_write
  | Sign nat
  | Stamp session_key
  | Break string
  | Garble string

datatype mig_mode = Plan | Copy | Switch

datatype mig_phase =
  Planning | Provisioning | Copying | Delta | Draining | Quiescing | Switching | Verifying | Done | Aborted

record mig_result =
  r_phase :: mig_phase
  sessionsTotal :: nat
  sessionsCopied :: nat
  bytesCopied :: nat
  deltaPasses :: nat
  switched :: bool
  version :: "nat option"
  aborted :: "string option"
  resumeFailed :: "string option"

text \<open>What the world looked like when the credentials were swapped.\<close>

record cut =
  c_source :: bucket
  c_target :: bucket
  c_now :: ms
  c_armed :: ms
  c_inFlight :: nat
  c_dropped :: "session_key list"
  c_stamped :: "session_key list"

record mig =
  clock :: ms
  src :: bucket
  tgt :: bucket
  quiesce :: ingest_quiesce
  gate :: pause_state
  row :: "ingest_control_row option"
  anchor :: "ms option"
  drain :: bool
  stamped :: "session_key list"
  dropped :: "session_key list"
  creds :: nat
  cut_at :: "cut option"
  gap :: bool
  schedule :: "mig_event list list"
  res :: mig_result
  done_refs :: "string list"
  armedUntil :: ms
  episode :: nat
  lapsed :: bool
  inPause :: bool

record mig_config =
  mc_mode :: mig_mode
  mc_swapPause :: ms
  mc_heartbeat :: ms
  mc_gateConfirm :: ms
  mc_barrier :: ms
  mc_maxDelta :: nat
  mc_already :: "string list"

definition mig_defaults :: "mig_mode \<Rightarrow> mig_config" where
  "mig_defaults m = \<lparr>mc_mode = m, mc_swapPause = 300000, mc_heartbeat = 60000, mc_gateConfirm = 30000,
     mc_barrier = 120000, mc_maxDelta = 8, mc_already = []\<rparr>"

definition FENCE_MARGIN_MS :: ms where "FENCE_MARGIN_MS = 30000"
definition DELETE_BATCH_LIMIT :: nat where "DELETE_BATCH_LIMIT = 800"
definition MAX_DELETE_PASSES :: nat where "MAX_DELETE_PASSES = 800"

section \<open>The world moves\<close>

text \<open>The daemon's \<open>refreshPause\<close>: it reads the newest row, keeps one anchor per episode and caches the clamped deadline.\<close>

definition refresh_view :: "mig \<Rightarrow> mig" where
  "refresh_view w =
     (let a = (case row w of None \<Rightarrow> None
        | Some r \<Rightarrow> if ic_resumedAt r = None then or_else (anchor w) (Some (clock w)) else None)
      in w\<lparr>anchor := a, gate := observe (effectivePause (row w) a (clock w)) (gate w)\<rparr>)"

text \<open>
  \<open>gap\<close> notes what no component reports: the gate ran out of the deadline it was enforcing while the engine had
  already asked for a later one. A client's write asks the gate when it begins and lands
  later, at a name the builders accept; a purge stamps its tombstone before it reaches the bucket.
\<close>

definition may_land :: "bucket_write \<Rightarrow> mig \<Rightarrow> bool" where
  "may_land b w = (case b of Drop k \<Rightarrow> k \<in> set (stamped w)
     | PutCanon k t \<Rightarrow> sessionPrefix k = Inr (sessionRef k) | PutSide k n t \<Rightarrow> sessionPrefix k = Inr (sessionRef k))"

fun happen :: "mig_event \<Rightarrow> mig \<Rightarrow> mig" where
  "happen (Pass d) w =
     (let t = clock w + max 0 d in
      w\<lparr>clock := t, gap := (gap w \<or> (case pausedUntil (gate w) (clock w) of None \<Rightarrow> False
         | Some u \<Rightarrow> u \<le> t \<and> t < armedUntil w))\<rparr>)"
| "happen Refresh w = refresh_view w"
| "happen Begin w = (if isPaused (gate w) (clock w) then w else w\<lparr>quiesce := enter (quiesce w)\<rparr>)"
| "happen (Land b) w =
     (if q_inFlight (quiesce w) = 0 \<or> \<not> may_land b w then w
      else w\<lparr>src := write_bucket b (src w), quiesce := leave (quiesce w),
        dropped := (case b of Drop k \<Rightarrow> dropped w @ [k] | _ \<Rightarrow> dropped w)\<rparr>)"
| "happen (Sign ttl) w =
     (if isPaused (gate w) (clock w) then w
      else w\<lparr>quiesce := noteSignature
        (Some (clock w + (if drain w then 1000 * ARMED_PRESIGN_TTL_S else int ttl))) (quiesce w)\<rparr>)"
| "happen (Stamp k) w = w\<lparr>stamped := stamped w @ [k]\<rparr>"
| "happen (Break e) w = w"
| "happen (Garble t) w = w"

fun broken :: "mig_event list \<Rightarrow> string option" where
  "broken [] = None"
| "broken (Break e # es) = Some e"
| "broken (_ # es) = broken es"

fun garbled :: "mig_event list \<Rightarrow> string option" where
  "garbled [] = None"
| "garbled (Garble t # es) = Some t"
| "garbled (_ # es) = garbled es"

definition world_moves :: "mig \<Rightarrow> mig_event list \<times> mig" where
  "world_moves w = (case schedule w of [] \<Rightarrow> ([], w)
     | es # rest \<Rightarrow> (es, fold happen es (w\<lparr>schedule := rest\<rparr>)))"

definition call :: "(string option \<Rightarrow> mig \<Rightarrow> (string + 'a) \<times> mig) \<Rightarrow> (mig, 'a) eff" where
  "call f w = (case world_moves w of (es, w1) \<Rightarrow>
     (case broken es of Some e \<Rightarrow> (Inl e, w1) | None \<Rightarrow> f (garbled es) w1))"

definition asks :: "(mig \<Rightarrow> string + 'a) \<Rightarrow> (mig, 'a) eff" where
  "asks f = call (\<lambda>_ w. (f w, w))"

definition acts :: "(string option \<Rightarrow> mig \<Rightarrow> mig) \<Rightarrow> (mig, unit) eff" where
  "acts f = call (\<lambda>g w. (Inr (), f g w))"

text \<open>A timer: it never throws, and never ends early. The schedule can only let time pass forwards.\<close>

definition nap :: "ms \<Rightarrow> (mig, unit) eff" where
  "nap t w = (Inr (), snd (world_moves (happen (Pass t) w)))"

section \<open>Calls of the two stores and of the pause plane\<close>

definition src_list :: "(mig, session_key list) eff" where
  "src_list = asks (\<lambda>w. Inr (map fst (b_canon (src w))))"

definition src_stat :: "session_key \<Rightarrow> (mig, nat option) eff" where
  "src_stat k = asks (\<lambda>w. Inr (map_option length (canon (src w) k)))"

definition tgt_stat :: "session_key \<Rightarrow> (mig, nat option) eff" where
  "tgt_stat k = asks (\<lambda>w. Inr (map_option length (canon (tgt w) k)))"

definition found :: "string option \<Rightarrow> string + string" where
  "found t = (case t of None \<Rightarrow> Inl ''no such object'' | Some x \<Rightarrow> Inr x)"

definition src_read :: "session_key \<Rightarrow> (mig, string) eff" where
  "src_read k = asks (\<lambda>w. found (canon (src w) k))"

definition tgt_read :: "session_key \<Rightarrow> (mig, string) eff" where
  "tgt_read k = asks (\<lambda>w. found (canon (tgt w) k))"

definition src_names :: "session_key \<Rightarrow> (mig, string list) eff" where
  "src_names k = asks (\<lambda>w. Inr (side_names (src w) k))"

definition tgt_names :: "session_key \<Rightarrow> (mig, string list) eff" where
  "tgt_names k = asks (\<lambda>w. Inr (side_names (tgt w) k))"

definition src_side :: "session_key \<Rightarrow> string \<Rightarrow> (mig, string option) eff" where
  "src_side k n = asks (\<lambda>w. Inr (sidecar (src w) k n))"

definition tgt_side :: "session_key \<Rightarrow> string \<Rightarrow> (mig, string option) eff" where
  "tgt_side k n = asks (\<lambda>w. Inr (sidecar (tgt w) k n))"

definition tgt_write :: "session_key \<Rightarrow> string \<Rightarrow> (mig, unit) eff" where
  "tgt_write k t = acts (\<lambda>g w. w\<lparr>tgt := put_canon k (case g of None \<Rightarrow> t | Some x \<Rightarrow> x) (tgt w)\<rparr>)"

definition tgt_write_side :: "session_key \<Rightarrow> string \<Rightarrow> string \<Rightarrow> (mig, unit) eff" where
  "tgt_write_side k n t = acts (\<lambda>g w. w\<lparr>tgt := put_side k n (case g of None \<Rightarrow> t | Some x \<Rightarrow> x) (tgt w)\<rparr>)"

definition tgt_selfTest :: "(mig, unit) eff" where
  "tgt_selfTest = asks (\<lambda>_. Inr ())"

definition tgt_delete :: "session_key \<Rightarrow> (mig, bool) eff" where
  "tgt_delete k = call (\<lambda>_ w.
     if CHR '':'' \<in> set (sk_sessionId k) then (Inl ''deleteSession requires the base session id'', w)
     else case delete_batch k DELETE_BATCH_LIMIT (tgt w) of (all_gone, b) \<Rightarrow> (Inr all_gone, w\<lparr>tgt := b\<rparr>))"

definition read_tombstones :: "(mig, session_key list) eff" where
  "read_tombstones = asks (\<lambda>w. Inr (stamped w))"

definition recordCopied :: "(mig, unit) eff" where
  "recordCopied = asks (\<lambda>_. Inr ())"

text \<open>Arming inserts a new row, stamped when it is written; it answers with the row's id.\<close>

definition arm_row :: "ms \<Rightarrow> (mig, unit) eff" where
  "arm_row until = acts (\<lambda>_ w. w\<lparr>row := Some \<lparr>ic_pausedUntil = until, ic_resumedAt = None, ic_rowWrittenAt = clock w\<rparr>,
     anchor := None, episode := episode w + 1\<rparr>)"

definition resume_row :: "(mig, unit) eff" where
  "resume_row = acts (\<lambda>_ w. w\<lparr>row := map_option (\<lambda>r. r\<lparr>ic_resumedAt := Some (clock w)\<rparr>) (row w)\<rparr>)"

text \<open>\<open>refreshGate\<close> swallows a failing read and leaves the view.\<close>

definition refreshGate :: "(mig, unit) eff" where
  "refreshGate w = (case world_moves w of (es, w1) \<Rightarrow>
     (Inr (), case broken es of Some e \<Rightarrow> w1\<lparr>gate := observeUnavailable (gate w1)\<rparr> | None \<Rightarrow> refresh_view w1))"

definition swapCredentials :: "(mig, nat) eff" where
  "swapCredentials = call (\<lambda>_ w. (Inr (creds w + 1), w\<lparr>creds := creds w + 1,
     cut_at := Some \<lparr>c_source = src w, c_target = tgt w, c_now = clock w, c_armed = armedUntil w,
       c_inFlight = q_inFlight (quiesce w), c_dropped = dropped w, c_stamped = stamped w\<rparr>\<rparr>))"

definition rebindStore :: "(mig, unit) eff" where
  "rebindStore = asks (\<lambda>_. Inr ())"

section \<open>The engine\<close>

definition set_res :: "(mig_result \<Rightarrow> mig_result) \<Rightarrow> (mig, unit) eff" where
  "set_res f = update (\<lambda>w. w\<lparr>res := f (res w)\<rparr>)"

definition phase :: "mig_phase \<Rightarrow> (mig, unit) eff" where
  "phase ph = set_res (\<lambda>r. r\<lparr>r_phase := ph\<rparr>)"

definition abort :: "mig_phase \<Rightarrow> string \<Rightarrow> (mig, unit) eff" where
  "abort ph why = set_res (\<lambda>r. r\<lparr>r_phase := ph, aborted := Some why\<rparr>)"

text \<open>Arm, or extend: every extension is a new row. The budget is an argument, as it is fixed before the first.\<close>

definition armPause :: "mig_config \<Rightarrow> ms \<Rightarrow> (mig, unit) eff" where
  "armPause c budgetEnds =
     seq (update (\<lambda>w. w\<lparr>armedUntil := min budgetEnds (clock w + min (mc_heartbeat c) (mc_swapPause c))\<rparr>))
       (bind (get armedUntil) arm_row)"

definition pauseSpent :: "mig \<Rightarrow> bool" where
  "pauseSpent w \<longleftrightarrow> armedUntil w \<le> clock w"

definition heartbeat :: "mig_config \<Rightarrow> ms \<Rightarrow> (mig, unit) eff" where
  "heartbeat c budgetEnds =
     bind (get clock) (\<lambda>now.
       seq (update (\<lambda>w. if pauseSpent w then w\<lparr>lapsed := True\<rparr> else w))
         (bind (get armedUntil) (\<lambda>until.
            if budgetEnds \<le> now then ret ()
            else if min (mc_heartbeat c) (mc_swapPause c) < 2 * (until - now) then ret ()
            else armPause c budgetEnds)))"

definition beat :: "mig_config \<Rightarrow> ms \<Rightarrow> (mig, unit) eff" where
  "beat c budgetEnds = bind (get inPause) (\<lambda>on. if on then heartbeat c budgetEnds else ret ())"

definition mismatch :: "string \<Rightarrow> string" where
  "mismatch ref = ''checksum mismatch after copying '' @ ref @ '' '' @ em_dash @ '' the target holds different bytes''"

definition copy_side :: "platform \<Rightarrow> mig_config \<Rightarrow> ms \<Rightarrow> session_key \<Rightarrow> string \<Rightarrow> (mig, unit) eff" where
  "copy_side p c be k n =
     seq (beat c be) (bind (src_side k n) (\<lambda>artifact.
       case artifact of None \<Rightarrow> ret ()
       | Some a \<Rightarrow> seq (tgt_write_side k n a) (bind (tgt_side k n) (\<lambda>arrived.
           case arrived of None \<Rightarrow> raise (mismatch (sessionRef k @ ''/'' @ n))
           | Some b \<Rightarrow> if p_sha256 p b \<noteq> p_sha256 p a
               then raise (mismatch (sessionRef k @ ''/'' @ n)) else ret ()))))"

definition copySession :: "platform \<Rightarrow> mig_config \<Rightarrow> ms \<Rightarrow> session_key \<Rightarrow> (mig, nat) eff" where
  "copySession p c be k =
     bind (src_read k) (\<lambda>text. seq (tgt_write k text) (bind (tgt_read k) (\<lambda>landed.
       if p_sha256 p landed \<noteq> p_sha256 p text then raise (mismatch (sessionRef k))
       else bind (src_names k) (\<lambda>names. seq (each (copy_side p c be k) names) (ret (length text))))))"

fun hold_digests :: "platform \<Rightarrow> mig_config \<Rightarrow> ms \<Rightarrow> session_key \<Rightarrow> string list \<Rightarrow> (string \<times> string) list \<Rightarrow>
    (mig, (string \<times> string) list) eff" where
  "hold_digests p c be k [] held = ret held"
| "hold_digests p c be k (n # ns) held =
     seq (beat c be) (bind (src_side k n) (\<lambda>text.
       hold_digests p c be k ns (case text of None \<Rightarrow> held | Some t \<Rightarrow> AList.update n (p_sha256 p t) held)))"

fun all_arrived :: "platform \<Rightarrow> mig_config \<Rightarrow> ms \<Rightarrow> session_key \<Rightarrow> (string \<times> string) list \<Rightarrow> (mig, bool) eff" where
  "all_arrived p c be k [] = ret True"
| "all_arrived p c be k ((n, digest) # held) =
     seq (beat c be) (bind (tgt_side k n) (\<lambda>arrived.
       if map_option (p_sha256 p) arrived \<noteq> Some digest then ret False else all_arrived p c be k held))"

definition targetIsCurrent :: "platform \<Rightarrow> mig_config \<Rightarrow> ms \<Rightarrow> bool \<Rightarrow> session_key \<Rightarrow> (mig, bool) eff" where
  "targetIsCurrent p c be alsoSidecars k =
     bind (src_stat k) (\<lambda>wanted.
       if wanted = None then ret True
       else bind (tgt_stat k) (\<lambda>has.
         if has \<noteq> wanted then ret False
         else if \<not> alsoSidecars then ret True
         else bind (src_names k) (\<lambda>names. bind (hold_digests p c be k names []) (all_arrived p c be k))))"

definition copy_one :: "platform \<Rightarrow> mig_config \<Rightarrow> ms \<Rightarrow> session_key \<Rightarrow> (mig, unit) eff" where
  "copy_one p c be k =
     bind (copySession p c be k) (\<lambda>bytes.
       seq (update (\<lambda>w. w\<lparr>res := (res w)\<lparr>sessionsCopied := sessionsCopied (res w) + 1, bytesCopied := bytesCopied (res w) + bytes\<rparr>,
           done_refs := List.insert (sessionRef k) (done_refs w)\<rparr>))
         recordCopied)"

definition copy_missing_one :: "platform \<Rightarrow> mig_config \<Rightarrow> ms \<Rightarrow> session_key \<Rightarrow> (mig, unit) eff" where
  "copy_missing_one p c be k =
     seq (beat c be) (bind (get (\<lambda>w. sessionRef k \<in> set (done_refs w))) (\<lambda>proven.
       if proven then bind (targetIsCurrent p c be False k) (\<lambda>ok. if ok then ret () else copy_one p c be k)
       else copy_one p c be k))"

definition copyMissing :: "platform \<Rightarrow> mig_config \<Rightarrow> ms \<Rightarrow> session_key list \<Rightarrow> (mig, unit) eff" where
  "copyMissing p c be ks = each (copy_missing_one p c be) ks"

fun find_behind :: "platform \<Rightarrow> mig_config \<Rightarrow> ms \<Rightarrow> bool \<Rightarrow> session_key list \<Rightarrow> (mig, session_key list) eff" where
  "find_behind p c be also [] = ret []"
| "find_behind p c be also (k # ks) =
     seq (beat c be) (bind (targetIsCurrent p c be also k) (\<lambda>ok.
       bind (find_behind p c be also ks) (\<lambda>rest. ret (if ok then rest else k # rest))))"

definition deltaPass :: "platform \<Rightarrow> mig_config \<Rightarrow> ms \<Rightarrow> bool \<Rightarrow> (mig, nat) eff" where
  "deltaPass p c be also =
     seq (set_res (\<lambda>r. r\<lparr>deltaPasses := deltaPasses r + 1\<rparr>)) (bind src_list (\<lambda>keys.
       seq (set_res (\<lambda>r. r\<lparr>sessionsTotal := max (sessionsTotal r) (length keys)\<rparr>))
         (bind (find_behind p c be also keys) (\<lambda>behind.
            seq (update (\<lambda>w. w\<lparr>done_refs := filter (\<lambda>r. r \<notin> sessionRef ` set behind) (done_refs w)\<rparr>))
              (seq (copyMissing p c be behind) (ret (length behind)))))))"

fun delta_loop :: "platform \<Rightarrow> mig_config \<Rightarrow> nat \<Rightarrow> (mig, unit) eff" where
  "delta_loop p c 0 = ret ()"
| "delta_loop p c (Suc n) = bind (deltaPass p c 0 False) (\<lambda>behind. if behind = 0 then ret () else delta_loop p c n)"

section \<open>What every operation keeps\<close>

text \<open>
  The interface the lemmas about the engine rest on: a predicate kept by the world's moves, by the result record
  and by a beat. Whatever only reads then keeps it, whatever happens meanwhile and whether or not it throws;
  what also writes the target or the list of proven copies needs the extension.
\<close>

locale world_invariant =
  fixes P :: "mig \<Rightarrow> bool" and c :: mig_config and be :: ms
  assumes moves: "P w \<Longrightarrow> P (snd (world_moves w))"
    and set_result: "P w \<Longrightarrow> P (w\<lparr>res := r\<rparr>)"
    and beats: "keeps P (beat c be)"
begin

lemma keeps_call:
  assumes "\<And>g w. P w \<Longrightarrow> P (snd (f g w))"
  shows "keeps P (call f)"
proof (rule keepsI)
  fix w assume "P w"
  then have m: "P (snd (world_moves w))" by (rule moves)
  obtain es w1 where e: "world_moves w = (es, w1)" by force
  show "P (snd (call f w))"
    using m assms [of w1] by (simp add: call_def e split: option.split)
qed

lemma keeps_asks [intro]: "keeps P (asks f)"
  unfolding asks_def by (rule keeps_call) simp

lemma keeps_acts: "(\<And>g w. P w \<Longrightarrow> P (f g w)) \<Longrightarrow> keeps P (acts f)"
  unfolding acts_def by (rule keeps_call) simp

lemma keeps_set_res [intro]: "keeps P (set_res f)"
  unfolding set_res_def by (rule keeps_update, rule set_result)

lemma keeps_marks [intro]: "keeps P (phase ph)" "keeps P (abort ph why)"
  unfolding phase_def abort_def by (rule keeps_set_res)+

lemma keeps_reads [intro]:
  "keeps P src_list" "keeps P (src_stat k)" "keeps P (tgt_stat k)" "keeps P (src_read k)" "keeps P (tgt_read k)"
  "keeps P (src_names k)" "keeps P (tgt_names k)" "keeps P (src_side k n)" "keeps P (tgt_side k n)"
  "keeps P tgt_selfTest" "keeps P read_tombstones" "keeps P recordCopied" "keeps P rebindStore"
  unfolding src_list_def src_stat_def tgt_stat_def src_read_def tgt_read_def src_names_def tgt_names_def
    src_side_def tgt_side_def tgt_selfTest_def read_tombstones_def recordCopied_def rebindStore_def
  by (rule keeps_asks)+

lemma keeps_hold_digests [intro]: "keeps P (hold_digests p c be k ns held)"
  by (induction ns arbitrary: held) (auto intro!: keeps_rules beats)

lemma keeps_all_arrived [intro]: "keeps P (all_arrived p c be k held)"
  by (induction held) (auto intro!: keeps_rules beats)

lemma keeps_targetIsCurrent [intro]: "keeps P (targetIsCurrent p c be also k)"
  unfolding targetIsCurrent_def
  by (intro keeps_rules keeps_reads keeps_hold_digests keeps_all_arrived keeps_ret)

lemma keeps_find_behind [intro]: "keeps P (find_behind p c be also ks)"
  by (induction ks) (auto intro!: keeps_rules beats)

end

locale engine_invariant = world_invariant +
  assumes set_tgt: "P w \<Longrightarrow> P (w\<lparr>tgt := b\<rparr>)"
    and set_vars: "P w \<Longrightarrow> P (w\<lparr>res := r, done_refs := d\<rparr>)"
begin

lemma keeps_tgt_write [intro]: "keeps P (tgt_write k t)"
  and keeps_tgt_write_side [intro]: "keeps P (tgt_write_side k n t)"
  unfolding tgt_write_def tgt_write_side_def by (rule keeps_acts, erule set_tgt)+

lemma keeps_tgt_delete [intro]: "keeps P (tgt_delete k)"
  unfolding tgt_delete_def by (rule keeps_call) (auto intro: set_tgt split: prod.split)

lemma keeps_copy_side [intro]: "keeps P (copy_side p c be k n)"
  unfolding copy_side_def by (intro keeps_rules beats keeps_reads keeps_tgt_write_side keeps_ret keeps_raise)

lemma keeps_copySession [intro]: "keeps P (copySession p c be k)"
  unfolding copySession_def
  by (intro keeps_rules keeps_reads keeps_tgt_write keeps_copy_side keeps_ret keeps_raise)

lemma keeps_copy_one [intro]: "keeps P (copy_one p c be k)"
  unfolding copy_one_def
  by (intro keeps_rules keeps_copySession keeps_update keeps_reads) (rule set_vars)

lemma keeps_copyMissing [intro]: "keeps P (copyMissing p c be ks)"
  unfolding copyMissing_def copy_missing_one_def
  by (intro keeps_rules beats keeps_targetIsCurrent keeps_copy_one keeps_get keeps_ret)

lemma keeps_deltaPass [intro]: "keeps P (deltaPass p c be also)"
  unfolding deltaPass_def
proof (intro keeps_rules keeps_set_res keeps_reads keeps_find_behind keeps_copyMissing keeps_ret keeps_update)
  fix d w assume "P w"
  from set_vars [OF this, where r = "res w"] show "P (w\<lparr>done_refs := filter d (done_refs w)\<rparr>)" by simp
qed

lemma keeps_delta_loop [intro]: "keeps P (delta_loop p c n)" if "be = 0"
  by (induction n) (auto intro!: keeps_rules keeps_deltaPass [unfolded that])

end

section \<open>The clock never runs backwards\<close>

text \<open>Needed for the loops that wait: none of the calls inside them can turn the clock back.\<close>

lemma happen_clock: "clock w \<le> clock (happen e w)"
  by (cases e) (simp_all add: refresh_view_def Let_def)

lemma happens_clock: "clock w \<le> clock (fold happen es w)"
proof (induction es arbitrary: w)
  case (Cons e es)
  show ?case using order_trans [OF happen_clock [of w e] Cons.IH [of "happen e w"]] by simp
qed simp

lemma world_moves_clock: "clock w \<le> clock (snd (world_moves w))"
  using happens_clock [of "w\<lparr>schedule := tl (schedule w)\<rparr>" "hd (schedule w)"]
  by (cases "schedule w") (simp_all add: world_moves_def)

abbreviation since :: "ms \<Rightarrow> mig \<Rightarrow> bool" where "since t w \<equiv> t \<le> clock w"

lemma since_moves: "since t w \<Longrightarrow> since t (snd (world_moves w))"
  using world_moves_clock [of w] by simp

lemma since_acts: "(\<And>g w. clock (f g w) = clock w) \<Longrightarrow> keeps (since t) (acts f)"
  by (rule keepsI) (use since_moves in \<open>auto simp: acts_def call_def split: option.split prod.split dest: since_moves\<close>)

lemma since_heartbeat: "keeps (since t) (heartbeat c be)"
  unfolding heartbeat_def armPause_def arm_row_def
  by (intro keeps_rules keeps_get keeps_ret keeps_update since_acts) simp_all

lemma since_beat: "keeps (since t) (beat c be)"
  unfolding beat_def by (intro keeps_rules since_heartbeat keeps_get keeps_ret)

interpretation ticking: engine_invariant "since t" c be for t c be
  by unfold_locales (simp_all add: since_moves since_beat)

lemma nap_clock: "0 \<le> d \<Longrightarrow> clock w + d \<le> clock (snd (nap d w))"
  using world_moves_clock [of "happen (Pass d) w"] by (simp add: nap_def Let_def del: happen.simps add: happen.simps(1))

lemma refreshGate_clock: "clock w \<le> clock (snd (refreshGate w))"
  using world_moves_clock [of w]
  by (auto simp: refreshGate_def refresh_view_def Let_def split: prod.split option.split)

section \<open>The waits\<close>

lemma deltaPass_clock: "clock w \<le> clock (snd (deltaPass p c be also w))"
  using keepsD [OF ticking.keeps_deltaPass [of "clock w" p c be "also"], of w] by simp

text \<open>Waiting out the signatures minted before the drain; delta passes keep running meanwhile.\<close>

function drain_off :: "platform \<Rightarrow> mig_config \<Rightarrow> ms \<Rightarrow> mig \<Rightarrow> (string + unit) \<times> mig" where
  "drain_off p c runOff w =
     (if clock w < runOff
      then (case deltaPass p c 0 False w of
              (Inl e, w1) \<Rightarrow> (Inl e, w1)
            | (Inr _, w1) \<Rightarrow> drain_off p c runOff (snd (nap 1000 w1)))
      else (Inr (), w))"
  by pat_completeness auto

termination
proof (relation "measure (\<lambda>(p, c, runOff, w). nat (runOff - clock w))", simp)
  fix p c runOff w r w1 u
  assume d: "clock w < runOff" "(r, w1) = deltaPass p c 0 False w" "r = Inr u"
  have "clock w \<le> clock w1" using deltaPass_clock [of w p c 0 False] by (simp flip: d(2))
  moreover have "clock w1 + 1000 \<le> clock (snd (nap 1000 w1))" by (rule nap_clock) simp
  ultimately show "((p, c, runOff, snd (nap 1000 w1)), p, c, runOff, w)
      \<in> measure (\<lambda>(p, c, runOff, w). nat (runOff - clock w))"
    using d(1) by simp
qed

declare drain_off.simps [simp del]

text \<open>What the gate enforces, read after it was made to look again; \<open>None\<close> once the wait is over.\<close>

function awaitInForce :: "ms \<Rightarrow> mig \<Rightarrow> (string + (ms option \<times> bool)) \<times> mig" where
  "awaitInForce deadline w =
     (let w1 = snd (refreshGate w);
          until = pausedUntil (gate w1) (clock w1);
          capped = ep_capped (ps_effective (gate w1))
      in if capped then (Inr (until, capped), w1)
         else if (case until of None \<Rightarrow> False | Some u \<Rightarrow> armedUntil w1 \<le> u) then (Inr (until, capped), w1)
         else if deadline \<le> clock w1 then (Inr (None, capped), w1)
         else awaitInForce deadline (snd (nap 250 w1)))"
  by pat_completeness auto

termination
proof (relation "measure (\<lambda>(deadline, w). nat (deadline - clock w))", simp)
  fix deadline :: ms and w w1 until capped
  assume w1: "w1 = snd (refreshGate w)" and d: "\<not> deadline \<le> clock w1"
  have "clock w \<le> clock w1" unfolding w1 by (rule refreshGate_clock)
  moreover have "clock w1 + 250 \<le> clock (snd (nap 250 w1))" by (rule nap_clock) simp
  ultimately show "((deadline, snd (nap 250 w1)), deadline, w) \<in> measure (\<lambda>(deadline, w). nat (deadline - clock w))"
    using d by simp
qed

declare awaitInForce.simps [simp del]

text \<open>\<open>awaitQuiesced\<close> with the engine's heartbeat.\<close>

function barrier :: "mig_config \<Rightarrow> ms \<Rightarrow> ms \<Rightarrow> mig \<Rightarrow> (string + bool) \<times> mig" where
  "barrier c be deadline w =
     (if clock w < deadline
      then if isQuiesced (quiesce w) (clock w) then (Inr True, w)
        else (case heartbeat c be (snd (nap 250 w)) of
            (Inl e, w1) \<Rightarrow> (Inl e, w1)
          | (Inr _, w1) \<Rightarrow> barrier c be deadline w1)
      else (Inr (isQuiesced (quiesce w) (clock w)), w))"
  by pat_completeness auto

termination
proof (relation "measure (\<lambda>(c, be, deadline, w). nat (deadline - clock w))", simp)
  fix c be deadline w r w1 u
  assume d: "clock w < deadline" "(r, w1) = heartbeat c be (snd (nap 250 w))" "r = Inr u"
  have "clock w + 250 \<le> clock (snd (nap 250 w))" by (rule nap_clock) simp
  moreover have "clock (snd (nap 250 w)) \<le> clock w1"
    using keepsD [OF since_heartbeat [of "clock (snd (nap 250 w))" c be], of "snd (nap 250 w)"] by (simp flip: d(2))
  ultimately show "((c, be, deadline, w1), c, be, deadline, w)
      \<in> measure (\<lambda>(c, be, deadline, w). nat (deadline - clock w))"
    using d(1) by simp
qed

declare barrier.simps [simp del]

section \<open>Tombstones and verification\<close>

definition not_converging :: "session_key \<Rightarrow> string" where
  "not_converging k = ''replaying the permanent delete of '' @ sessionRef k @ '' onto the target did not converge after '' @
     show_nat MAX_DELETE_PASSES @ '' passes; the cut is refused rather than leaving deleted content in the new bucket''"

function delete_all :: "mig_config \<Rightarrow> ms \<Rightarrow> nat \<Rightarrow> session_key \<Rightarrow> (mig, unit) eff" where
  "delete_all c be pass k =
     (if MAX_DELETE_PASSES \<le> pass then raise (not_converging k)
      else seq (heartbeat c be) (bind (tgt_delete k) (\<lambda>all_gone.
        if all_gone then ret () else delete_all c be (pass + 1) k)))"
  by pat_completeness auto

termination
  by (relation "measure (\<lambda>(c, be, pass, k). MAX_DELETE_PASSES - pass)") auto

declare delete_all.simps [simp del]

definition replayTombstones :: "mig_config \<Rightarrow> ms \<Rightarrow> (mig, unit) eff" where
  "replayTombstones c be =
     seq (heartbeat c be) (bind read_tombstones (\<lambda>ts.
       seq (heartbeat c be) (each (\<lambda>k. seq (heartbeat c be) (delete_all c be 0 k)) ts)))"

definition verify_one :: "session_key \<Rightarrow> (mig, string list) eff" where
  "verify_one k =
     bind (src_stat k) (\<lambda>wanted. bind (tgt_stat k) (\<lambda>landed.
       case landed of
         None \<Rightarrow> ret [sessionRef k]
       | Some l \<Rightarrow>
           let short = (case wanted of None \<Rightarrow> [] | Some n \<Rightarrow>
                 if l < n then [sessionRef k @ '' ('' @ show_nat l @ '' of '' @ show_nat n @ '' bytes)''] else [])
           in bind (tgt_names k) (\<lambda>there. bind (src_names k) (\<lambda>names.
                ret (short @ map (\<lambda>n. sessionRef k @ ''/'' @ n) (filter (\<lambda>n. n \<notin> set there) names))))))"

fun verify_all :: "session_key list \<Rightarrow> (mig, string list) eff" where
  "verify_all [] = ret []"
| "verify_all (k # ks) = bind (verify_one k) (\<lambda>xs. bind (verify_all ks) (\<lambda>ys. ret (xs @ ys)))"

definition verifyTarget :: "(mig, string list) eff" where
  "verifyTarget = bind src_list verify_all"

section \<open>The run\<close>

definition CLAMPED :: string where
  "CLAMPED = ''the daemon clamped this pause to its own cap, so the window is not the one that was armed '' @ em_dash @
     '' nothing was switched''"
definition NEVER_HELD :: string where
  "NEVER_HELD = ''the daemon'' @ [CHR 0x27] @ ''s write gate never reported the pause in force, so writes were never proven held '' @ em_dash @
     '' nothing was switched''"
definition NOT_QUIET :: string where
  "NOT_QUIET = ''the store did not go quiet before the barrier deadline '' @ em_dash @ '' nothing was switched''"
definition EXPIRED :: string where
  "EXPIRED = ''the pause expired while the final delta and the tombstone replay were still running, so writes '' @
     ''reopened behind them '' @ em_dash @ '' nothing was switched''"
definition NEARLY_SPENT :: string where
  "NEARLY_SPENT = ''the pause the gate is enforcing was nearly spent before the swap could start '' @ em_dash @
     '' nothing was switched''"
definition CANNOT_BIND :: "string \<Rightarrow> string" where
  "CANNOT_BIND e = ''the credentials now name the target but this daemon could not bind to it ('' @ e @
     ''). Nothing is lost '' @ em_dash @ '' the source still holds everything '' @ em_dash @
     '' but this process is still writing to the source, and a restart will switch it. '' @
     ''Fix the target'' @ [CHR 0x27] @ ''s access, then restart the daemon.''"
definition UNVERIFIED :: "string \<Rightarrow> string" where
  "UNVERIFIED e = ''the switch completed, but this run could not verify the new bucket ('' @ e @
     ''). Nothing is lost '' @ em_dash @ '' the source still holds everything '' @ em_dash @
     '' but the move is unverified; re-run the audit.''"
definition NOT_WHOLE :: "string list \<Rightarrow> string" where
  "NOT_WHOLE missing = show_nat (length missing) @ '' object(s) did not arrive whole in the new bucket: '' @
     join_with '', '' (take 5 missing)"

text \<open>From the cut on: what fails no longer unmakes it.\<close>

definition verify_cut :: "(mig, unit) eff" where
  "verify_cut =
     seq (phase Verifying)
       (bind (catching (bind verifyTarget (\<lambda>missing. ret (Inr missing))) (\<lambda>e. ret (Inl e))) (\<lambda>outcome.
          case outcome of
            Inl e \<Rightarrow> abort Done (UNVERIFIED e)
          | Inr missing \<Rightarrow> if missing = [] then phase Done else abort Done (NOT_WHOLE missing)))"

definition cut_over :: "(mig, unit) eff" where
  "cut_over =
     seq (phase Switching) (bind swapCredentials (\<lambda>v. seq (set_res (\<lambda>r. r\<lparr>version := Some v\<rparr>))
       (bind (catching (seq rebindStore (ret None)) (\<lambda>e. ret (Some e))) (\<lambda>failed.
          seq (set_res (\<lambda>r. r\<lparr>switched := True\<rparr>))
            (case failed of Some e \<Rightarrow> abort Aborted (CANNOT_BIND e) | None \<Rightarrow> verify_cut)))))"

text \<open>The fence: re-arm, prove it again, and measure the margin on what the gate enforces.\<close>

definition fence :: "mig_config \<Rightarrow> ms \<Rightarrow> (mig, unit) eff" where
  "fence c be =
     seq (armPause c be) (bind (get clock) (\<lambda>t. bind (awaitInForce (t + mc_gateConfirm c)) (\<lambda>(until, clamped).
       bind (get clock) (\<lambda>now.
         if clamped \<or> (case until of None \<Rightarrow> 0 | Some u \<Rightarrow> u - now) < FENCE_MARGIN_MS
         then abort Aborted NEARLY_SPENT
         else cut_over))))"

definition final_pass :: "platform \<Rightarrow> mig_config \<Rightarrow> ms \<Rightarrow> (mig, unit) eff" where
  "final_pass p c be =
     seq (update (\<lambda>w. w\<lparr>inPause := True\<rparr>))
       (ensuring (seq (deltaPass p c be True) (replayTombstones c be)) (update (\<lambda>w. w\<lparr>inPause := False\<rparr>)))"

definition hold_and_cut :: "platform \<Rightarrow> mig_config \<Rightarrow> ms \<Rightarrow> (mig, unit) eff" where
  "hold_and_cut p c be =
     bind (get clock) (\<lambda>t. bind (awaitInForce (t + mc_gateConfirm c)) (\<lambda>(until, clamped).
       if clamped then abort Aborted CLAMPED
       else if until = None then abort Aborted NEVER_HELD
       else bind (get clock) (\<lambda>now. bind (barrier c be (min be (now + mc_barrier c))) (\<lambda>quiet.
         if \<not> quiet then abort Aborted NOT_QUIET
         else seq (final_pass p c be) (bind (get (\<lambda>w. lapsed w \<or> pauseSpent w)) (\<lambda>late.
           if late then abort Aborted EXPIRED else fence c be))))))"

definition release_pause :: "(mig, unit) eff" where
  "release_pause = catching resume_row (\<lambda>e. set_res (\<lambda>r. r\<lparr>resumeFailed := Some e\<rparr>))"

definition switch_phase :: "platform \<Rightarrow> mig_config \<Rightarrow> (mig, unit) eff" where
  "switch_phase p c =
     bind (get (\<lambda>w. q_signatureFloorMs (quiesce w))) (\<lambda>runOff. seq (drain_off p c runOff)
       (seq (phase Quiescing) (bind (get (\<lambda>w. clock w + mc_swapPause c)) (\<lambda>be.
          seq (update (\<lambda>w. w\<lparr>armedUntil := 0, lapsed := False, episode := 0\<rparr>))
            (seq (armPause c be) (ensuring (hold_and_cut p c be) release_pause))))))"

text \<open>Signatures are kept short for the whole of it, and the floor is lowered whatever the outcome.\<close>

definition drained :: "platform \<Rightarrow> mig_config \<Rightarrow> (mig, unit) eff" where
  "drained p c = seq (update (\<lambda>w. w\<lparr>drain := True\<rparr>)) (ensuring (switch_phase p c) (update (\<lambda>w. w\<lparr>drain := False\<rparr>)))"

definition runStorageMigration :: "platform \<Rightarrow> mig_config \<Rightarrow> (mig, unit) eff" where
  "runStorageMigration p c =
     bind src_list (\<lambda>plan. seq (set_res (\<lambda>r. r\<lparr>sessionsTotal := length plan\<rparr>))
       (if mc_mode c = Plan then phase Done
        else seq (phase Provisioning) (seq tgt_selfTest (bind (asks (\<lambda>_. Inr (mc_already c))) (\<lambda>known.
          seq (update (\<lambda>w. w\<lparr>done_refs := known\<rparr>)) (seq (phase Copying) (seq (copyMissing p c 0 plan)
            (seq (phase Delta) (seq (delta_loop p c (mc_maxDelta c))
              (if mc_mode c = Copy then phase Done
               else seq (phase Draining) (drained p c)))))))))))"

definition fresh_result :: mig_result where
  "fresh_result = \<lparr>r_phase = Planning, sessionsTotal = 0, sessionsCopied = 0, bytesCopied = 0, deltaPasses = 0,
     switched = False, version = None, aborted = None, resumeFailed = None\<rparr>"

definition at_start :: "bucket \<Rightarrow> bucket \<Rightarrow> mig_event list list \<Rightarrow> mig" where
  "at_start s t sched = \<lparr>clock = 0, src = s, tgt = t, quiesce = new_quiesce, gate = new_pause_state, row = None,
     anchor = None, drain = False, stamped = [], dropped = [], creds = 0, cut_at = None, gap = False, schedule = sched,
     res = fresh_result, done_refs = [], armedUntil = 0, episode = 0, lapsed = False, inPause = False\<rparr>"

section \<open>A run, up to the drain\<close>

context engine_invariant
begin

text \<open>Nothing before the drain can end a run in a state the invariant does not allow.\<close>

lemma run_shape:
  assumes be: "be = 0" and Q: "\<And>w. P w \<Longrightarrow> Q w" and E: "\<And>w. P w \<Longrightarrow> E w"
    and tail: "mc_mode c = Switch \<Longrightarrow> hoare P (drained p c) (\<lambda>_. Q) E"
  shows "hoare P (runStorageMigration p c) (\<lambda>_. Q) E"
proof -
  have stays: "hoare P m (\<lambda>_. P) E" if "keeps P m" for m :: "(mig, 'b) eff"
    using that unfolding keeps_def by (rule hoare_weaken) (auto intro: E)
  have over: "hoare P (phase ph) (\<lambda>_. Q) E" for ph
    by (rule hoare_weaken [OF stays [OF keeps_marks(1)]]) (auto intro: Q)
  have known: "hoare P (update (\<lambda>w. w\<lparr>done_refs := d\<rparr>)) (\<lambda>_. P) E" for d
  proof (rule hoare_updateI)
    show "P w \<Longrightarrow> P (w\<lparr>done_refs := d\<rparr>)" for w using set_vars [where r = "res w" and w = w and d = d] by simp
  qed
  have seq_stays: "hoare P (seq m n) R E" if "keeps P m" "hoare P n R E" for m :: "(mig, unit) eff"
    and n :: "(mig, unit) eff" and R
    by (rule hoare_seq [OF stays [OF that(1)] that(2)])
  have last: "hoare P (drained p c) (\<lambda>_. Q) E" if "mc_mode c \<noteq> Plan" "mc_mode c \<noteq> Copy"
    using that by (cases "mc_mode c") (simp_all add: tail)
  note copying = keeps_copyMissing [unfolded be] and narrowing = keeps_delta_loop [OF be]
  show ?thesis
    unfolding runStorageMigration_def
    by (rule hoare_bind [OF stays [OF keeps_reads(1)]], rule seq_stays [OF keeps_set_res], rule hoare_if [OF over],
        rule seq_stays [OF keeps_marks(1)], rule seq_stays [OF keeps_reads(10)], rule hoare_bind [OF stays [OF keeps_asks]],
        rule hoare_seq [OF known], rule seq_stays [OF keeps_marks(1)], rule seq_stays [OF copying],
        rule seq_stays [OF keeps_marks(1)], rule seq_stays [OF narrowing], rule hoare_if [OF over],
        rule seq_stays [OF keeps_marks(1) last])
qed

end

end
