(* ===== verification/Migration_Safety.thy ===== *)
theory Migration_Safety
  imports Migration
begin

text \<open>
  Why a cut loses nothing (\<open>src/console/migration.ts\<close>). While the gate is shut and no write is in flight the source
  cannot change, and the engine's bookkeeping of its pause is enough to know that the gate never
  opened, but for one thing the daemon must provide: an extension is picked up before the deadline in force passes
  (\<open>gap\<close> marks the opposite). \<open>window\<close> is the invariant; the lemmas follow the final delta pass,
  the tombstone replay and the fence through it.
\<close>

section \<open>The pause\<close>

definition view_of :: "mig \<Rightarrow> ms option" where
  "view_of w = ep_pausedUntil (ps_effective (gate w))"

text \<open>The row in force is the engine's, and everything the gate was told came from it or from one before it.\<close>

definition pausing :: "mig_config \<Rightarrow> ms \<Rightarrow> mig \<Rightarrow> bool" where
  "pausing c be w \<longleftrightarrow> armedUntil w \<le> min be (clock w + min (mc_heartbeat c) (mc_swapPause c)) \<and>
     (\<exists>r. row w = Some r \<and> ic_resumedAt r = None \<and> ic_pausedUntil r \<le> armedUntil w \<and>
        ic_pausedUntil r \<le> ic_rowWrittenAt r + PAUSE_CAP_MS \<and> ic_rowWrittenAt r \<le> clock w \<and>
        (\<forall>a. anchor w = Some a \<longrightarrow> ic_rowWrittenAt r \<le> a) \<and>
        (\<forall>v. view_of w = Some v \<longrightarrow> v \<le> ic_pausedUntil r))"

definition unsafe :: "mig \<Rightarrow> bool" where
  "unsafe w \<longleftrightarrow> gap w \<or> lapsed w \<or> armedUntil w \<le> clock w"

definition shut :: "mig \<Rightarrow> bool" where
  "shut w \<longleftrightarrow> (\<exists>v. view_of w = Some v \<and> clock w < v)"

lemma isPaused_shut: "isPaused (gate w) (clock w) \<longleftrightarrow> shut w"
  by (auto simp: isPaused_def pausedUntil_def shut_def view_of_def split: option.splits)

lemma pausedUntil_view: "pausedUntil (gate w) (clock w) = Some u \<longleftrightarrow> view_of w = Some u \<and> clock w < u"
  by (auto simp: pausedUntil_def view_of_def split: option.splits)

text \<open>What is frozen: nothing yet, or the source with the list of purges that reached it.\<close>

type_synonym frozen = "(bucket \<times> session_key list \<times> session_key list) option"

definition calm :: "frozen \<Rightarrow> mig \<Rightarrow> bool" where
  "calm z w \<longleftrightarrow> (case z of None \<Rightarrow> True
     | Some (S, D, ts) \<Rightarrow> q_inFlight (quiesce w) = 0 \<and> src w = S \<and> dropped w = D \<and> set ts \<subseteq> set (stamped w))"

definition wf_source :: "bucket \<Rightarrow> bool" where
  "wf_source b \<longleftrightarrow> distinct (map fst (b_canon b)) \<and> (\<forall>k \<in> fst ` set (b_canon b). valid_key k)"

definition window :: "mig_config \<Rightarrow> ms \<Rightarrow> frozen \<Rightarrow> (bucket \<Rightarrow> string list \<Rightarrow> bool) \<Rightarrow> mig \<Rightarrow> bool" where
  "window c be z T w \<longleftrightarrow> pausing c be w \<and> cut_at w = None \<and> set (dropped w) \<subseteq> set (stamped w) \<and> wf_source (src w) \<and>
     (unsafe w \<or> shut w \<and> calm z w \<and> T (tgt w) (done_refs w))"

section \<open>The world's moves\<close>

lemma refresh_fields [simp]:
  "clock (refresh_view w) = clock w" "src (refresh_view w) = src w" "tgt (refresh_view w) = tgt w"
  "quiesce (refresh_view w) = quiesce w" "row (refresh_view w) = row w" "stamped (refresh_view w) = stamped w"
  "dropped (refresh_view w) = dropped w" "cut_at (refresh_view w) = cut_at w" "gap (refresh_view w) = gap w"
  "done_refs (refresh_view w) = done_refs w" "armedUntil (refresh_view w) = armedUntil w"
  "lapsed (refresh_view w) = lapsed w" "inPause (refresh_view w) = inPause w" "schedule (refresh_view w) = schedule w"
  by (simp_all add: refresh_view_def Let_def)

lemma refresh_view_of:
  assumes "row w = Some r" "ic_resumedAt r = None" "ic_pausedUntil r \<le> ic_rowWrittenAt r + PAUSE_CAP_MS"
    "ic_rowWrittenAt r \<le> clock w" "\<forall>a. anchor w = Some a \<longrightarrow> ic_rowWrittenAt r \<le> a"
  shows "view_of (refresh_view w) = (if ic_pausedUntil r \<le> clock w then None else Some (ic_pausedUntil r))"
    and "anchor (refresh_view w) = or_else (anchor w) (Some (clock w))"
proof -
  let ?a = "case or_else (anchor w) (Some (clock w)) of None \<Rightarrow> clock w | Some t \<Rightarrow> t"
  have "ic_rowWrittenAt r \<le> ?a" using assms(4,5) by (cases "anchor w") auto
  then have "min (ic_pausedUntil r) (min (ic_rowWrittenAt r + PAUSE_CAP_MS) (?a + PAUSE_CAP_MS)) = ic_pausedUntil r"
    using assms(3) by simp
  then show "view_of (refresh_view w) = (if ic_pausedUntil r \<le> clock w then None else Some (ic_pausedUntil r))"
    using assms(1,2)
    by (simp add: refresh_view_def Let_def view_of_def effectivePause_def observe_def)
  show "anchor (refresh_view w) = or_else (anchor w) (Some (clock w))"
    using assms(1,2) by (simp add: refresh_view_def Let_def)
qed

lemma pausing_refresh: "pausing c be w \<Longrightarrow> pausing c be (refresh_view w)"
  unfolding pausing_def by (auto simp: refresh_view_of or_else_def split: option.splits if_splits)

lemma shut_refresh: "pausing c be w \<Longrightarrow> shut w \<Longrightarrow> shut (refresh_view w)"
  by (force simp: pausing_def shut_def refresh_view_of)

lemma happen_other:
  "cut_at (happen e w) = cut_at w" "tgt (happen e w) = tgt w" "done_refs (happen e w) = done_refs w"
  "armedUntil (happen e w) = armedUntil w" "lapsed (happen e w) = lapsed w" "inPause (happen e w) = inPause w"
  "row (happen e w) = row w" "gap w \<Longrightarrow> gap (happen e w)" "set (stamped w) \<subseteq> set (stamped (happen e w))"
  by (cases e; auto simp: Let_def split: bucket_write.splits)+

lemma happen_stamps: "set (dropped w) \<subseteq> set (stamped w) \<Longrightarrow> set (dropped (happen e w)) \<subseteq> set (stamped (happen e w))"
  by (cases e) (auto simp: Let_def may_land_def split: bucket_write.splits)

lemma wf_put_canon: "valid_key k \<Longrightarrow> wf_source b \<Longrightarrow> wf_source (put_canon k t b)"
  by (auto simp: wf_source_def put_canon_def distinct_update dom_update)

lemma wf_write: "wf_source b \<Longrightarrow> may_land x w \<Longrightarrow> wf_source (write_bucket x b)"
  by (cases x) (auto simp: may_land_def wf_put_canon, auto simp: wf_source_def put_side_def drop_all_def distinct_fst_filter)

lemma happen_wf: "wf_source (src w) \<Longrightarrow> wf_source (src (happen e w))"
  by (cases e) (auto simp: Let_def intro: wf_write)

lemma happen_pausing: "pausing c be w \<Longrightarrow> pausing c be (happen e w)"
proof (cases e)
  case (Pass d)
  then show "pausing c be w \<Longrightarrow> ?thesis" by (force simp: pausing_def view_of_def Let_def)
next
  case Refresh
  then show "pausing c be w \<Longrightarrow> ?thesis" by (simp add: pausing_refresh)
qed (auto simp: pausing_def view_of_def)

text \<open>Behind a shut gate with nothing in flight, the source and the purges stand still.\<close>

lemma happen_calm: "shut w \<Longrightarrow> calm z w \<Longrightarrow> calm z (happen e w)"
  by (cases e) (auto simp: calm_def isPaused_shut Let_def split: option.splits)

lemma happen_shut:
  assumes "pausing c be w" and "shut w" and "\<not> unsafe (happen e w)"
  shows "shut (happen e w)"
proof (cases e)
  case (Pass d)
  from assms(2) obtain v where v: "view_of w = Some v" "clock w < v" by (auto simp: shut_def)
  with assms(3) Pass have "\<not> v \<le> clock w + max 0 d"
    by (auto simp: unsafe_def Let_def pausedUntil_def view_of_def split: if_splits)
  with v Pass show ?thesis by (auto simp: shut_def view_of_def Let_def)
next
  case Refresh
  with assms show ?thesis by (simp add: shut_refresh)
qed (use assms in \<open>auto simp: shut_def view_of_def\<close>)

lemma happen_unsafe: "unsafe w \<Longrightarrow> unsafe (happen e w)"
  using happen_clock [of w e] by (auto simp: unsafe_def happen_other)

lemma window_happen: "window c be z T w \<Longrightarrow> window c be z T (happen e w)"
  unfolding window_def
  using happen_pausing [of c be w e] happen_calm [of w z e] happen_shut [of c be w e] happen_unsafe [of w e]
    happen_stamps [of w e] happen_wf [of w e] by (auto simp: happen_other)

text \<open>None of the predicates looks at the schedule, the result or the flag of the final pass.\<close>

lemma calm_cong:
  "quiesce w' = quiesce w \<Longrightarrow> src w' = src w \<Longrightarrow> dropped w' = dropped w \<Longrightarrow> stamped w' = stamped w \<Longrightarrow> calm z w' = calm z w"
  by (cases z) (auto simp: calm_def)

lemma blind [simp]:
  "calm z (w\<lparr>schedule := s\<rparr>) = calm z w" "calm z (w\<lparr>res := r\<rparr>) = calm z w" "calm z (w\<lparr>inPause := i\<rparr>) = calm z w"
  "calm z (w\<lparr>done_refs := d\<rparr>) = calm z w" "calm z (w\<lparr>tgt := b\<rparr>) = calm z w" "calm z (w\<lparr>armedUntil := u\<rparr>) = calm z w"
  "calm z (w\<lparr>lapsed := l\<rparr>) = calm z w" "calm z (w\<lparr>row := x, anchor := a, episode := n\<rparr>) = calm z w"
  by (rule calm_cong, simp_all)+

lemma blind_pause [simp]:
  "pausing c be (w\<lparr>schedule := s\<rparr>) = pausing c be w" "pausing c be (w\<lparr>res := r\<rparr>) = pausing c be w"
  "pausing c be (w\<lparr>inPause := i\<rparr>) = pausing c be w" "pausing c be (w\<lparr>done_refs := d\<rparr>) = pausing c be w"
  "pausing c be (w\<lparr>tgt := b\<rparr>) = pausing c be w" "pausing c be (w\<lparr>lapsed := l\<rparr>) = pausing c be w"
  by (simp_all add: pausing_def view_of_def)

lemma blind_view [simp]:
  "shut (w\<lparr>schedule := s\<rparr>) = shut w" "shut (w\<lparr>res := r\<rparr>) = shut w" "shut (w\<lparr>inPause := i\<rparr>) = shut w"
  "shut (w\<lparr>done_refs := d\<rparr>) = shut w" "shut (w\<lparr>tgt := b\<rparr>) = shut w" "shut (w\<lparr>lapsed := l\<rparr>) = shut w"
  "shut (w\<lparr>armedUntil := u\<rparr>) = shut w" "shut (w\<lparr>row := x, anchor := a, episode := n\<rparr>) = shut w"
  by (simp_all add: shut_def view_of_def)

lemma blind_unsafe [simp]:
  "unsafe (w\<lparr>schedule := s\<rparr>) = unsafe w" "unsafe (w\<lparr>res := r\<rparr>) = unsafe w" "unsafe (w\<lparr>inPause := i\<rparr>) = unsafe w"
  "unsafe (w\<lparr>done_refs := d\<rparr>) = unsafe w" "unsafe (w\<lparr>tgt := b\<rparr>) = unsafe w"
  "unsafe (w\<lparr>row := x, anchor := a, episode := n\<rparr>) = unsafe w"
  by (simp_all add: unsafe_def)

lemma fold_keeps: "(\<And>e w. P w \<Longrightarrow> P (happen e w)) \<Longrightarrow> P w \<Longrightarrow> P (fold happen es w)"
  by (induction es arbitrary: w) simp_all

lemma moves_keeps:
  assumes "\<And>e w. P w \<Longrightarrow> P (happen e w)" and "\<And>w s. P w \<Longrightarrow> P (w\<lparr>schedule := s\<rparr>)" and "P w"
  shows "P (snd (world_moves w))"
  using fold_keeps [of P, OF assms(1)] assms(2,3) by (cases "schedule w") (simp_all add: world_moves_def)

lemma window_moves: "window c be z T w \<Longrightarrow> window c be z T (snd (world_moves w))"
  by (rule moves_keeps) (rule window_happen, assumption, simp add: window_def)

lemma moves_armed: "armedUntil (snd (world_moves w)) = armedUntil w"
  using moves_keeps [of "\<lambda>x. armedUntil x = armedUntil w" w] by (simp add: happen_other)

section \<open>The engine's moves\<close>

lemma window_weaken: "window c be z T w \<Longrightarrow> (\<And>t d. T t d \<Longrightarrow> T' t d) \<Longrightarrow> window c be z T' w"
  by (auto simp: window_def)

lemma window_cut: "window c be z T w \<Longrightarrow> cut_at w = None"
  by (simp add: window_def)

lemma call_cases:
  assumes "call f w = (r, w')"
  obtains e w1 where "world_moves w = (e, w1)" "broken e \<noteq> None" "r = Inl (the (broken e))" "w' = w1"
    | e w1 where "world_moves w = (e, w1)" "broken e = None" "f (garbled e) w1 = (r, w')"
  using assms by (auto simp: call_def split: prod.splits option.splits)

text \<open>A call from inside the window: what it does is done to a state inside the window.\<close>

lemma hoare_call:
  assumes "\<And>g w r w'. window c be z T w \<Longrightarrow> f g w = (Inr r, w') \<Longrightarrow> Q r w'"
    and "\<And>g w e w'. window c be z T w \<Longrightarrow> f g w = (Inl e, w') \<Longrightarrow> cut_at w' = None"
  shows "hoare (window c be z T) (call f) Q (\<lambda>w. cut_at w = None)"
proof (rule hoareI)
  fix w x w' assume w: "window c be z T w" and r: "call f w = (Inr x, w')"
  from window_moves [OF w] have m: "window c be z T (snd (world_moves w))" .
  from r show "Q x w'" by (rule call_cases) (use m assms in \<open>auto\<close>)
next
  fix w x w' assume w: "window c be z T w" and r: "call f w = (Inl x, w')"
  from window_moves [OF w] have m: "window c be z T (snd (world_moves w))" .
  from r show "cut_at w' = None" by (rule call_cases) (use m assms window_cut in \<open>auto\<close>)
qed

abbreviation in_window ::
  "mig_config \<Rightarrow> ms \<Rightarrow> frozen \<Rightarrow> (bucket \<Rightarrow> string list \<Rightarrow> bool) \<Rightarrow> (mig, 'a) eff \<Rightarrow>
     ('a \<Rightarrow> bucket \<Rightarrow> string list \<Rightarrow> bool) \<Rightarrow> bool" where
  "in_window c be z T m Q \<equiv> hoare (window c be z T) m (\<lambda>x. window c be z (Q x)) (\<lambda>w. cut_at w = None)"

lemma window_ask_src:
  "in_window c be (Some (S, D, ts)) T (asks (\<lambda>w. g (src w))) (\<lambda>x t d. T t d \<and> g S = Inr x)"
  unfolding asks_def by (rule hoare_call) (auto simp: window_def calm_def)

lemma window_ask_tgt: "in_window c be z T (asks (\<lambda>w. g (tgt w))) (\<lambda>x t d. T t d \<and> g t = Inr x)"
  unfolding asks_def by (rule hoare_call) (auto simp: window_def)

lemma window_act:
  assumes "\<And>g w. window c be z T w \<Longrightarrow> window c be z T' (f g w)"
  shows "in_window c be z T (acts f) (\<lambda>_. T')"
  unfolding acts_def by (rule hoare_call) (auto dest: assms)

text \<open>Arming keeps the window, unless it was found spent.\<close>

definition unspent :: "mig_config \<Rightarrow> ms \<Rightarrow> frozen \<Rightarrow> (bucket \<Rightarrow> string list \<Rightarrow> bool) \<Rightarrow> mig \<Rightarrow> bool" where
  "unspent c be z T w \<longleftrightarrow> pausing c be w \<and> cut_at w = None \<and> set (dropped w) \<subseteq> set (stamped w) \<and> wf_source (src w) \<and>
     (gap w \<or> lapsed w \<or> shut w \<and> calm z w \<and> T (tgt w) (done_refs w))"

lemma window_later:
  assumes w: "unspent c be z T w"
  shows "window c be z T (w\<lparr>armedUntil := min be (clock w + min (mc_heartbeat c) (mc_swapPause c))\<rparr>)" (is "window c be z T ?w")
proof -
  from w have "pausing c be ?w" by (auto simp: unspent_def pausing_def view_of_def)
  with w show ?thesis by (auto simp: unspent_def window_def unsafe_def)
qed

lemma window_row:
  assumes w: "window c be z T w" and hb: "mc_heartbeat c \<le> PAUSE_CAP_MS"
  shows "window c be z T (w\<lparr>row := Some \<lparr>ic_pausedUntil = armedUntil w, ic_resumedAt = None, ic_rowWrittenAt = clock w\<rparr>,
     anchor := None, episode := n\<rparr>)" (is "window c be z T ?w")
proof -
  have "view_of ?w = view_of w" by (simp add: view_of_def)
  moreover have "armedUntil w \<le> clock w + PAUSE_CAP_MS" using w hb by (auto simp: window_def pausing_def)
  ultimately have "pausing c be ?w" using w by (auto simp: window_def pausing_def)
  with w show ?thesis by (simp add: window_def)
qed

lemma window_armPause:
  assumes hb: "mc_heartbeat c \<le> PAUSE_CAP_MS"
  shows "hoare (unspent c be z T) (armPause c be) (\<lambda>_. window c be z T) (window c be z T)"
proof -
  have row: "hoare (\<lambda>w. window c be z T w \<and> armedUntil w = u) (arm_row u) (\<lambda>_. window c be z T) (window c be z T)" for u
  proof (rule hoareI)
    fix w x w' assume w: "window c be z T w \<and> armedUntil w = u" and r: "arm_row u w = (Inr x, w')"
    then have "window c be z T (snd (world_moves w))" "armedUntil (snd (world_moves w)) = u"
      by (simp_all add: window_moves moves_armed)
    then show "window c be z T w'"
      using r window_row [OF _ hb, of be z T "snd (world_moves w)"]
      by (auto simp: arm_row_def acts_def elim!: call_cases)
  next
    fix w e w' assume w: "window c be z T w \<and> armedUntil w = u" and r: "arm_row u w = (Inl e, w')"
    then have "window c be z T (snd (world_moves w))" by (simp add: window_moves)
    then show "window c be z T w'" using r by (auto simp: arm_row_def acts_def elim!: call_cases)
  qed
  show ?thesis
    unfolding armPause_def
    by (rule hoare_seq, rule hoare_updateI, erule window_later, rule hoare_bind_get, rule row)
qed

lemma window_heartbeat:
  assumes hb: "mc_heartbeat c \<le> PAUSE_CAP_MS"
  shows "keeps (window c be z T) (heartbeat c be)"
proof -
  have spent: "window c be z T w \<Longrightarrow> unspent c be z T (if pauseSpent w then w\<lparr>lapsed := True\<rparr> else w)" for w
    by (auto simp: window_def unspent_def pauseSpent_def unsafe_def)
  have idle: "unspent c be z T w \<Longrightarrow> window c be z T w" for w
    by (auto simp: unspent_def window_def unsafe_def)
  show ?thesis
    unfolding heartbeat_def keeps_def
    by (rule hoare_bind_get, rule hoare_seq [where R = "unspent c be z T"], rule hoare_updateI, blast intro: spent,
        rule hoare_bind_get, intro hoare_if hoare_retI)
      (auto intro: idle hoare_pre [OF window_armPause [OF hb]])
qed

lemma window_beat: "mc_heartbeat c \<le> PAUSE_CAP_MS \<Longrightarrow> keeps (window c be z T) (beat c be)"
  unfolding beat_def by (intro keeps_rules keeps_get keeps_ret window_heartbeat)

lemma in_window_keeps: "keeps (window c be z T) m \<Longrightarrow> in_window c be z T m (\<lambda>_. T)"
  unfolding keeps_def by (erule hoare_weaken) (auto simp: window_cut)

section \<open>What a target holds\<close>

definition canon_ok :: "platform \<Rightarrow> bucket \<Rightarrow> bucket \<Rightarrow> session_key \<Rightarrow> bool" where
  "canon_ok p S t k \<longleftrightarrow> (case canon S k of None \<Rightarrow> True
     | Some a \<Rightarrow> (case canon t k of None \<Rightarrow> False
         | Some b \<Rightarrow> length b = length a \<or> p_sha256 p b = p_sha256 p a))"

definition side_ok :: "platform \<Rightarrow> bucket \<Rightarrow> bucket \<Rightarrow> session_key \<Rightarrow> string \<Rightarrow> bool" where
  "side_ok p S t k n \<longleftrightarrow> (case sidecar S k n of None \<Rightarrow> True
     | Some a \<Rightarrow> map_option (p_sha256 p) (sidecar t k n) = Some (p_sha256 p a))"

definition current :: "platform \<Rightarrow> bucket \<Rightarrow> bucket \<Rightarrow> session_key \<Rightarrow> bool" where
  "current p S t k \<longleftrightarrow> canon_ok p S t k \<and> (\<forall>n \<in> set (side_names S k). side_ok p S t k n)"

lemma put_simps [simp]:
  "canon (put_canon k b t) k' = (if k' = k then Some b else canon t k')" "sidecar (put_canon k b t) k' n = sidecar t k' n"
  "canon (put_side k m b t) k' = canon t k'"
  "sidecar (put_side k m b t) k' n = (if k' = k \<and> n = m then Some b else sidecar t k' n)"
  by (auto simp: canon_def sidecar_def put_canon_def put_side_def)

lemma ok_cong:
  "canon t' k = canon t k \<Longrightarrow> canon_ok p S t' k = canon_ok p S t k"
  "sidecar t' k n = sidecar t k n \<Longrightarrow> side_ok p S t' k n = side_ok p S t k n"
  by (auto simp: canon_ok_def side_ok_def split: option.split)

lemma current_cong:
  assumes "canon t' k = canon t k" and "\<And>n. sidecar t' k n = sidecar t k n"
  shows "current p S t' k = current p S t k"
proof -
  have "side_ok p S t' k n = side_ok p S t k n" for n by (rule ok_cong) (rule assms)
  with ok_cong(1) [OF assms(1)] show ?thesis by (simp add: current_def)
qed

lemma ok_put [simp]:
  "k' \<noteq> k \<Longrightarrow> current p S (put_canon k b t) k' \<longleftrightarrow> current p S t k'"
  "k' \<noteq> k \<Longrightarrow> current p S (put_side k n b t) k' \<longleftrightarrow> current p S t k'"
  "canon_ok p S (put_side k n b t) k' \<longleftrightarrow> canon_ok p S t k'"
  "n' \<noteq> n \<Longrightarrow> side_ok p S (put_side k n b t) k n' \<longleftrightarrow> side_ok p S t k n'"
  by (auto intro!: current_cong ok_cong)

locale in_pause =
  fixes p :: platform and c :: mig_config and be :: ms and S :: bucket and D ts :: "session_key list"
  assumes hb: "mc_heartbeat c \<le> PAUSE_CAP_MS"
begin

abbreviation run :: "(bucket \<Rightarrow> string list \<Rightarrow> bool) \<Rightarrow> (mig, 'a) eff \<Rightarrow> ('a \<Rightarrow> bucket \<Rightarrow> string list \<Rightarrow> bool) \<Rightarrow> bool" where
  "run T m Q \<equiv> in_window c be (Some (S, D, ts)) T m Q"

lemma run_post: "run T m Q \<Longrightarrow> (\<And>x t d. Q x t d \<Longrightarrow> Q' x t d) \<Longrightarrow> run T m Q'"
  by (erule hoare_weaken) (auto intro: window_weaken)

lemma run_pre: "run T m Q \<Longrightarrow> (\<And>t d. T' t d \<Longrightarrow> T t d) \<Longrightarrow> run T' m Q"
  by (erule hoare_weaken) (auto intro: window_weaken)

lemma run_bind: "run T m R \<Longrightarrow> (\<And>x. run (R x) (f x) Q) \<Longrightarrow> run T (bind m f) Q"
  by (rule hoare_bind)

lemma run_seq: "run T m (\<lambda>_. R) \<Longrightarrow> run R n Q \<Longrightarrow> run T (seq m n) Q"
  by (rule hoare_seq)

lemma run_ret: "(\<And>t d. T t d \<Longrightarrow> Q x t d) \<Longrightarrow> run T (ret x) Q"
  by (rule hoare_retI) (auto intro: window_weaken)

lemma run_raise: "run T (raise e) Q"
  by (rule hoare_raiseI) (rule window_cut)

lemma run_beat: "run T (beat c be) (\<lambda>_. T)"
  by (rule in_window_keeps [OF window_beat [OF hb]])

lemma run_heartbeat: "run T (heartbeat c be) (\<lambda>_. T)"
  by (rule in_window_keeps [OF window_heartbeat [OF hb]])

lemma run_src: "run T (asks (\<lambda>w. g (src w))) (\<lambda>x t d. T t d \<and> g S = Inr x)"
  by (rule window_ask_src)

lemma run_src_stat: "run T (src_stat k) (\<lambda>x t d. T t d \<and> x = map_option length (canon S k))"
  unfolding src_stat_def by (rule run_post [OF run_src]) simp

lemma run_src_read: "run T (src_read k) (\<lambda>x t d. T t d \<and> canon S k = Some x)"
  unfolding src_read_def by (rule run_post [OF run_src]) (auto simp: found_def split: option.splits)

lemma run_src_names: "run T (src_names k) (\<lambda>x t d. T t d \<and> x = side_names S k)"
  unfolding src_names_def by (rule run_post [OF run_src]) simp

lemma run_src_side: "run T (src_side k n) (\<lambda>x t d. T t d \<and> x = sidecar S k n)"
  unfolding src_side_def by (rule run_post [OF run_src]) simp

lemma run_src_list: "run T src_list (\<lambda>x t d. T t d \<and> x = map fst (b_canon S))"
  unfolding src_list_def by (rule run_post [OF run_src]) simp

lemma run_tgt_stat: "run T (tgt_stat k) (\<lambda>x t d. T t d \<and> x = map_option length (canon t k))"
  unfolding tgt_stat_def by (rule run_post [OF window_ask_tgt]) simp

lemma run_tgt_read: "run T (tgt_read k) (\<lambda>x t d. T t d \<and> canon t k = Some x)"
  unfolding tgt_read_def by (rule run_post [OF window_ask_tgt]) (auto simp: found_def split: option.splits)

lemma run_tgt_side: "run T (tgt_side k n) (\<lambda>x t d. T t d \<and> x = sidecar t k n)"
  unfolding tgt_side_def by (rule run_post [OF window_ask_tgt]) simp

lemma run_hold_digests:
  "run T (hold_digests p c be k ns held)
     (\<lambda>h t d. T t d \<and> (\<forall>n a. n \<in> set ns \<longrightarrow> sidecar S k n = Some a \<longrightarrow> map_of h n = Some (p_sha256 p a)) \<and>
        (\<forall>n. n \<notin> set ns \<longrightarrow> map_of h n = map_of held n))"
proof (induction ns arbitrary: held T)
  case (Cons m ns)
  show ?case
    unfolding hold_digests.simps
    by (rule run_seq [OF run_beat], rule run_bind [OF run_src_side], rule run_post [OF Cons.IH])
      (auto split: option.splits if_splits)
qed (simp add: run_ret)

lemma run_all_arrived:
  "run T (all_arrived p c be k held)
     (\<lambda>ok t d. T t d \<and> (ok \<longrightarrow> (\<forall>(n, digest) \<in> set held. map_option (p_sha256 p) (sidecar t k n) = Some digest)))"
proof (induction held arbitrary: T)
  case (Cons e held)
  obtain n digest where e: "e = (n, digest)" by force
  show ?case
    unfolding e all_arrived.simps
    by (rule run_seq [OF run_beat], rule run_bind [OF run_tgt_side], rule hoare_if, rule run_ret, simp,
        rule run_post [OF Cons.IH]) auto
qed (simp add: run_ret)

lemma run_targetIsCurrent:
  "run T (targetIsCurrent p c be True k) (\<lambda>ok t d. T t d \<and> (ok \<longrightarrow> canon S k \<noteq> None \<longrightarrow> current p S t k))"
  unfolding targetIsCurrent_def
proof (rule run_bind [OF run_src_stat], rule hoare_if, goal_cases)
  case (1 wanted)
  then show ?case by (intro run_ret) auto
next
  case (2 wanted)
  show ?case
  proof (rule run_bind [OF run_tgt_stat], rule hoare_if, goal_cases)
    case (1 has)
    show ?case by (rule run_ret) auto
  next
    case (2 has)
    show ?case
      by (simp, rule run_bind [OF run_src_names], rule run_bind [OF run_hold_digests], rule run_post [OF run_all_arrived])
        (use \<open>\<not> has \<noteq> wanted\<close> \<open>wanted \<noteq> None\<close> in
          \<open>fastforce simp: current_def canon_ok_def side_ok_def split: option.splits dest: map_of_SomeD\<close>)
  qed
qed

lemma run_act:
  assumes "\<And>g w. src (f g w) = src w \<and> quiesce (f g w) = quiesce w \<and> dropped (f g w) = dropped w \<and> stamped (f g w) = stamped w \<and>
      gate (f g w) = gate w \<and> row (f g w) = row w \<and> anchor (f g w) = anchor w \<and> armedUntil (f g w) = armedUntil w \<and>
      clock (f g w) = clock w \<and> gap (f g w) = gap w \<and> lapsed (f g w) = lapsed w \<and> cut_at (f g w) = cut_at w"
    and "\<And>g w. T (tgt w) (done_refs w) \<Longrightarrow> T' (tgt (f g w)) (done_refs (f g w))"
  shows "run T (acts f) (\<lambda>_. T')"
proof (rule window_act)
  fix g w assume w: "window c be (Some (S, D, ts)) T w"
  note f = assms(1) [of g w]
  have "pausing c be (f g w) = pausing c be w" "unsafe (f g w) = unsafe w" "shut (f g w) = shut w"
    "calm (Some (S, D, ts)) (f g w) = calm (Some (S, D, ts)) w"
    using f by (simp_all add: pausing_def unsafe_def shut_def calm_def view_of_def)
  with w f assms(2) [of w g] show "window c be (Some (S, D, ts)) T' (f g w)" by (auto simp: window_def)
qed

lemma run_tgt_write: "run T (tgt_write k x) (\<lambda>_ t d. \<exists>t0 b. T t0 d \<and> t = put_canon k b t0)"
  unfolding tgt_write_def by (rule run_act) auto

lemma run_tgt_write_side: "run T (tgt_write_side k n x) (\<lambda>_ t d. \<exists>t0 b. T t0 d \<and> t = put_side k n b t0)"
  unfolding tgt_write_side_def by (rule run_act) auto

lemma run_vars:
  "(\<And>t d. T t d \<Longrightarrow> T' t (g d)) \<Longrightarrow> run T (update (\<lambda>w. w\<lparr>res := f w, done_refs := g (done_refs w)\<rparr>)) (\<lambda>_. T')"
  by (rule hoare_updateI) (auto simp: window_def)

lemma run_set_res: "run T (set_res f) (\<lambda>_. T)"
  unfolding set_res_def by (rule hoare_updateI) (simp add: window_def)

lemma run_asked: "run T (asks (\<lambda>_. x)) (\<lambda>_. T)"
  by (rule run_post [OF window_ask_src [where g = "\<lambda>_. x"]]) simp

lemma run_copy_side:
  assumes "\<And>t d b. T t d \<Longrightarrow> T (put_side k n b t) d"
  shows "run T (copy_side p c be k n) (\<lambda>_ t d. T t d \<and> side_ok p S t k n)"
  unfolding copy_side_def
proof (rule run_seq [OF run_beat], rule run_bind [OF run_src_side], goal_cases)
  case (1 artifact)
  show ?case
  proof (cases artifact)
    case None
    then show ?thesis by (simp, intro run_ret) (simp add: side_ok_def)
  next
    case (Some a)
    show ?thesis
      unfolding Some option.case
    proof (rule run_seq [OF run_tgt_write_side], rule run_bind [OF run_tgt_side], goal_cases)
      case (1 arrived)
      show ?case
        by (cases arrived; simp add: run_raise) (intro conjI impI run_raise run_ret, auto simp: side_ok_def assms split: option.splits)
    qed
  qed
qed

lemma run_copy_sides:
  "(\<And>t d b n. n \<in> set ns \<Longrightarrow> T t d \<Longrightarrow> T (put_side k n b t) d) \<Longrightarrow>
     run T (each (copy_side p c be k) ns) (\<lambda>_ t d. T t d \<and> (\<forall>n \<in> set ns. side_ok p S t k n))"
proof (induction ns arbitrary: T)
  case (Cons m ns)
  show ?case
    unfolding each.simps
  proof (rule run_seq [OF run_copy_side])
    show "run (\<lambda>t d. T t d \<and> side_ok p S t k m) (each (copy_side p c be k) ns)
        (\<lambda>_ t d. T t d \<and> (\<forall>n \<in> set (m # ns). side_ok p S t k n))"
    proof (rule run_pre [OF run_post [OF Cons.IH [of "\<lambda>t d. T t d \<and> (m \<notin> set ns \<longrightarrow> side_ok p S t k m)"]]], goal_cases)
      case (1 t d b n)
      then show ?case using Cons.prems [of n t d b] by (cases "m = n") auto
    qed auto
  qed (use Cons.prems in auto)
qed (simp add: run_ret)

lemma run_copySession:
  assumes "k \<notin> A"
  shows "run (\<lambda>t d. (\<forall>k' \<in> A. current p S t k') \<and> R d) (copySession p c be k)
    (\<lambda>_ t d. (\<forall>k' \<in> insert k A. current p S t k') \<and> R d)"
  unfolding copySession_def
proof (rule run_bind [OF run_src_read], rule run_seq [OF run_tgt_write], rule run_bind [OF run_tgt_read], rule hoare_if, goal_cases)
  case (1 x landed)
  show ?case by (rule run_raise)
next
  case (2 x landed)
  let ?T = "\<lambda>t d. (\<forall>k' \<in> A. current p S t k') \<and> R d \<and> canon_ok p S t k"
  show ?case
  proof (rule run_bind [OF run_pre [OF run_src_names [where T = "?T"]]])
    fix t d assume "(\<exists>t0 b. (((\<forall>k' \<in> A. current p S t0 k') \<and> R d) \<and> canon S k = Some x) \<and> t = put_canon k b t0) \<and>
      canon t k = Some landed"
    moreover have "k' \<in> A \<Longrightarrow> k' \<noteq> k" for k' using assms by auto
    ultimately show "?T t d" using 2 by (auto simp: canon_ok_def)
  next
    fix names
    show "run (\<lambda>t d. ?T t d \<and> names = side_names S k) (seq (each (copy_side p c be k) names) (ret (length x)))
        (\<lambda>_ t d. (\<forall>k' \<in> insert k A. current p S t k') \<and> R d)"
    proof (rule run_seq [OF run_copy_sides run_ret])
      fix t d b n assume "?T t d \<and> names = side_names S k"
      moreover have "k' \<in> A \<Longrightarrow> k' \<noteq> k" for k' using assms by auto
      ultimately show "?T (put_side k n b t) d \<and> names = side_names S k" by auto
    qed (auto simp: current_def)
  qed
qed

end

text \<open>
  Where the target predicate is impossible the window is kept by everything, since it only says that the engine will notice.
\<close>

sublocale in_pause \<subseteq> noticed: engine_invariant "window c be (Some (S, D, ts)) (\<lambda>_ _. False)" c be
  by unfold_locales (rule window_moves, assumption, simp add: window_def, rule window_beat [OF hb], simp_all add: window_def)

section \<open>The final delta pass\<close>

context in_pause
begin

lemma run_never: "keeps (window c be (Some (S, D, ts)) (\<lambda>_ _. False)) m \<Longrightarrow> run (\<lambda>_ _. False) m Q"
  by (rule run_post, erule in_window_keeps) simp

lemma run_copy_one:
  assumes "k \<notin> A" and "\<And>d. R d \<Longrightarrow> R' (List.insert (sessionRef k) d)"
  shows "run (\<lambda>t d. (\<forall>k' \<in> A. current p S t k') \<and> R d) (copy_one p c be k)
    (\<lambda>_ t d. (\<forall>k' \<in> insert k A. current p S t k') \<and> R' d)"
  unfolding copy_one_def recordCopied_def
  by (rule run_bind [OF run_copySession [OF assms(1)]], rule run_seq [OF run_vars run_asked]) (use assms(2) in auto)

lemma run_copy_missing_one:
  assumes "k \<notin> A" and "\<And>d. R d \<Longrightarrow> sessionRef k \<notin> set d" and "\<And>d. R d \<Longrightarrow> R' (List.insert (sessionRef k) d)"
  shows "run (\<lambda>t d. (\<forall>k' \<in> A. current p S t k') \<and> R d) (copy_missing_one p c be k)
    (\<lambda>_ t d. (\<forall>k' \<in> insert k A. current p S t k') \<and> R' d)"
  unfolding copy_missing_one_def
proof (rule run_seq [OF run_beat], rule hoare_bind_get, rule hoare_if, goal_cases)
  case (1 proven)
  have "run (\<lambda>_ _. False) (bind (targetIsCurrent p c be False k) (\<lambda>ok. if ok then ret () else copy_one p c be k))
      (\<lambda>_ t d. (\<forall>k' \<in> insert k A. current p S t k') \<and> R' d)"
    by (rule run_never) (intro keeps_rules noticed.keeps_targetIsCurrent noticed.keeps_copy_one keeps_ret)
  then show ?case by (rule hoare_pre) (use 1 assms(2) in \<open>auto simp: window_def\<close>)
next
  case (2 proven)
  show ?case by (rule hoare_pre [OF run_copy_one [where R = R and R' = R', OF assms(1)]]) (auto intro: assms(3))
qed

lemma run_copyMissing:
  "\<lbrakk>distinct ks; inj_on sessionRef (set ks); set ks \<inter> A = {}\<rbrakk> \<Longrightarrow>
   run (\<lambda>t d. (\<forall>k' \<in> A. current p S t k') \<and> (\<forall>k \<in> set ks. sessionRef k \<notin> set d)) (copyMissing p c be ks)
     (\<lambda>_ t d. \<forall>k' \<in> A \<union> set ks. current p S t k')"
proof (induction ks arbitrary: A)
  case Nil
  then show ?case by (simp add: copyMissing_def run_ret)
next
  case (Cons k ks)
  have fresh: "sessionRef k' \<noteq> sessionRef k" if "k' \<in> set ks" for k'
    using that Cons.prems(1,2) by (auto simp: inj_on_def)
  have "run (\<lambda>t d. (\<forall>k' \<in> A. current p S t k') \<and> (\<forall>k \<in> set (k # ks). sessionRef k \<notin> set d)) (copy_missing_one p c be k)
      (\<lambda>_ t d. (\<forall>k' \<in> insert k A. current p S t k') \<and> (\<forall>k \<in> set ks. sessionRef k \<notin> set d))"
    by (rule run_copy_missing_one) (use Cons.prems(3) fresh in auto)
  then show ?case
    using Cons.IH [of "insert k A"] Cons.prems unfolding copyMissing_def each.simps
    by (elim run_seq) (auto simp: inj_on_def)
qed

lemma run_find_behind:
  "run T (find_behind p c be True ks) (\<lambda>behind t d. T t d \<and> set behind \<subseteq> set ks \<and> (distinct ks \<longrightarrow> distinct behind) \<and>
     (\<forall>k \<in> set ks - set behind. canon S k \<noteq> None \<longrightarrow> current p S t k))"
proof (induction ks arbitrary: T)
  case (Cons k ks)
  show ?case
    unfolding find_behind.simps
    by (rule run_seq [OF run_beat], rule run_bind [OF run_targetIsCurrent], rule run_bind [OF Cons.IH], rule run_ret) auto
qed (simp add: run_ret)

lemma run_deltaPass:
  assumes S: "distinct (map (sessionRef \<circ> fst) (b_canon S))"
  shows "run T (deltaPass p c be True) (\<lambda>_ t d. \<forall>k. canon S k \<noteq> None \<longrightarrow> current p S t k)"
proof -
  let ?ks = "map fst (b_canon S)"
  have d: "distinct ?ks" "inj_on sessionRef (set ?ks)"
    using S by (auto simp: distinct_map inj_on_def)
  have mem: "canon S k \<noteq> None \<longleftrightarrow> k \<in> set ?ks" for k
    by (simp add: canon_def map_of_eq_None_iff)
  let ?T = "\<lambda>behind t d. set behind \<subseteq> set ?ks \<and> distinct behind \<and> (\<forall>k \<in> set ?ks - set behind. current p S t k)"
  have copy: "run (?T behind) (seq (update (\<lambda>w. w\<lparr>done_refs := filter (\<lambda>r. r \<notin> sessionRef ` set behind) (done_refs w)\<rparr>))
      (seq (copyMissing p c be behind) (ret n))) (\<lambda>_ t d. \<forall>k. canon S k \<noteq> None \<longrightarrow> current p S t k)" for behind n
  proof (cases "set behind \<subseteq> set ?ks \<and> distinct behind")
    case True
    let ?A = "set ?ks - set behind"
    let ?fresh = "\<lambda>t d. (\<forall>k' \<in> ?A. current p S t k') \<and> (\<forall>k \<in> set behind. sessionRef k \<notin> set d)"
    have "run ?fresh (copyMissing p c be behind) (\<lambda>_ t d. \<forall>k' \<in> ?A \<union> set behind. current p S t k')"
      using True d(2) by (intro run_copyMissing) (auto intro: inj_on_subset)
    then have "run ?fresh (seq (copyMissing p c be behind) (ret n)) (\<lambda>_ t d. \<forall>k. canon S k \<noteq> None \<longrightarrow> current p S t k)"
      by (rule run_seq, intro run_ret) (use mem in auto)
    then show ?thesis
      by (rule run_seq [rotated], intro hoare_updateI) (auto simp: window_def)
  next
    case False
    have "run (\<lambda>_ _. False) (seq (update (\<lambda>w. w\<lparr>done_refs := filter (\<lambda>r. r \<notin> sessionRef ` set behind) (done_refs w)\<rparr>))
      (seq (copyMissing p c be behind) (ret n))) (\<lambda>_ t d. \<forall>k. canon S k \<noteq> None \<longrightarrow> current p S t k)"
      by (rule run_never) (intro keeps_rules keeps_update noticed.keeps_copyMissing keeps_ret, simp add: window_def)
    then show ?thesis by (rule run_pre) (use False in auto)
  qed
  show ?thesis
    unfolding deltaPass_def
  proof (rule run_seq [OF run_set_res], rule run_bind [OF run_src_list], goal_cases)
    case (1 keys)
    show ?case
    proof (rule run_seq [OF run_set_res], rule run_bind [OF run_find_behind], goal_cases)
      case (1 behind)
      show ?case by (rule run_pre [OF copy]) (use d mem in auto)
    qed
  qed
qed

end

section \<open>The tombstone replay\<close>

lemma remove_some_le: "snd (remove_some P n xs) \<le> n"
  by (induction P n xs rule: remove_some.induct) (auto simp: case_prod_unfold Let_def)

lemma remove_some_subset: "set (fst (remove_some P n xs)) \<subseteq> set xs"
  by (induction P n xs rule: remove_some.induct) (auto simp: case_prod_unfold Let_def)

lemma remove_some_filter: "filter (\<lambda>x. \<not> P x) (fst (remove_some P n xs)) = filter (\<lambda>x. \<not> P x) xs"
  by (induction P n xs rule: remove_some.induct) (auto simp: case_prod_unfold Let_def)

lemma remove_some_all: "0 < snd (remove_some P n xs) \<Longrightarrow> y \<in> set (fst (remove_some P n xs)) \<Longrightarrow> \<not> P y"
proof (induction P n xs rule: remove_some.induct)
  case (2 P n x xs)
  then show ?case
    using remove_some_le [of P n xs] by (auto simp: case_prod_unfold Let_def split: if_splits)
qed simp

lemma remove_some_spec:
  assumes "remove_some P n xs = (ys, m)"
  shows "set ys \<subseteq> set xs" and "filter (\<lambda>x. \<not> P x) ys = filter (\<lambda>x. \<not> P x) xs" and "0 < m \<Longrightarrow> \<forall>y \<in> set ys. \<not> P y"
    and "m \<le> n"
  using remove_some_subset [of P n xs] remove_some_filter [of P n xs] remove_some_all [of P n xs]
    remove_some_le [of P n xs] assms by auto

lemma map_of_filter_fst: "Q k \<Longrightarrow> map_of (filter (\<lambda>e. Q (fst e)) xs) k = map_of xs k"
  by (induction xs) auto

lemma map_of_remove_some:
  assumes "remove_some (\<lambda>e. Q (fst e)) n xs = (ys, m)"
  shows "\<not> Q k \<Longrightarrow> map_of ys k = map_of xs k" and "map_of xs k = None \<Longrightarrow> map_of ys k = None"
    and "0 < m \<Longrightarrow> Q k \<Longrightarrow> map_of ys k = None"
proof -
  note s = remove_some_spec [OF assms]
  show "map_of ys k = map_of xs k" if "\<not> Q k"
    using map_of_filter_fst [of "\<lambda>x. \<not> Q x" k ys] map_of_filter_fst [of "\<lambda>x. \<not> Q x" k xs] s(2) that by simp
  show "map_of xs k = None \<Longrightarrow> map_of ys k = None" using s(1) by (auto simp: map_of_eq_None_iff)
  show "map_of ys k = None" if "0 < m" "Q k" using s(3) that by (auto simp: map_of_eq_None_iff)
qed

definition gone :: "session_key \<Rightarrow> bucket \<Rightarrow> bool" where
  "gone d t \<longleftrightarrow> (\<forall>k. owned d k \<longrightarrow> canon t k = None \<and> (\<forall>n. sidecar t k n = None))"

lemma delete_batch_spec:
  assumes "delete_batch k n t = (all_gone, t')"
  shows "\<not> owned k k' \<Longrightarrow> canon t' k' = canon t k'" and "\<not> owned k k' \<Longrightarrow> sidecar t' k' m = sidecar t k' m"
    and "gone d t \<Longrightarrow> gone d t'" and "all_gone \<Longrightarrow> gone k t'"
proof -
  obtain cs left ss left' where r: "remove_some (\<lambda>e. owned k (fst e)) n (b_canon t) = (cs, left)"
      "remove_some (\<lambda>e. owned k (fst (fst e))) left (b_side t) = (ss, left')"
    and t': "t' = t\<lparr>b_canon := cs, b_side := ss\<rparr>" "all_gone \<longleftrightarrow> 0 < left'"
    using assms by (auto simp: delete_batch_def Let_def split: prod.splits)
  note c = map_of_remove_some [OF r(1)] and s = map_of_remove_some [OF r(2)]
  show "\<not> owned k k' \<Longrightarrow> canon t' k' = canon t k'" using c(1) by (simp add: canon_def t')
  show "\<not> owned k k' \<Longrightarrow> sidecar t' k' m = sidecar t k' m" using s(1) by (simp add: sidecar_def t')
  show "gone d t \<Longrightarrow> gone d t'" using c(2) s(2) by (simp add: gone_def canon_def sidecar_def t')
  have "left' \<le> left" using remove_some_spec(4) [OF r(2)] .
  then show "all_gone \<Longrightarrow> gone k t'" using c(3) s(3) by (simp add: gone_def canon_def sidecar_def t')
qed

text \<open>What the replay establishes: every session is whole in the target or permanently deleted, and no purged one is there.\<close>

definition replayed ::
  "platform \<Rightarrow> bucket \<Rightarrow> session_key list \<Rightarrow> session_key list \<Rightarrow> session_key set \<Rightarrow> bucket \<Rightarrow> bool" where
  "replayed p S D ts A t \<longleftrightarrow> (\<forall>k. canon S k \<noteq> None \<longrightarrow> current p S t k \<or> (\<exists>x \<in> set ts. owned x k)) \<and>
     (\<forall>x \<in> A. gone x t) \<and> set D \<subseteq> set ts"

context in_pause
begin

abbreviation deleted :: "session_key set \<Rightarrow> bucket \<Rightarrow> string list \<Rightarrow> bool" where
  "deleted A t d \<equiv> replayed p S D ts A t"

lemma replayed_batch:
  assumes "k \<in> set ts" and "delete_batch k n t = (all_gone, t')" and "deleted A t d"
  shows "deleted A t' d" and "all_gone \<Longrightarrow> deleted (insert k A) t' d"
proof -
  note b = delete_batch_spec [OF assms(2)]
  have "current p S t' k' = current p S t k'" if "\<not> owned k k'" for k'
    by (rule current_cong) (use b(1,2) that in auto)
  with assms(1,3) b(3) show r: "deleted A t' d" unfolding replayed_def by blast
  show "all_gone \<Longrightarrow> deleted (insert k A) t' d" using r b(4) by (simp add: replayed_def)
qed

lemma run_tgt_delete:
  assumes "k \<in> set ts"
  shows "run (deleted A) (tgt_delete k) (\<lambda>all_gone t d. deleted A t d \<and> (all_gone \<longrightarrow> deleted (insert k A) t d))"
  unfolding tgt_delete_def
proof (rule hoare_call, goal_cases)
  case (1 g w r w')
  then obtain b where b: "delete_batch k DELETE_BATCH_LIMIT (tgt w) = (r, b)" "w' = w\<lparr>tgt := b\<rparr>"
    by (auto split: if_splits prod.splits)
  with 1(1) replayed_batch [OF assms b(1)] show ?case by (auto simp: window_def)
next
  case (2 g w e w')
  then show ?case by (auto simp: window_cut split: if_splits prod.splits)
qed

lemma run_delete_all:
  assumes "k \<in> set ts"
  shows "run (deleted A) (delete_all c be pass k) (\<lambda>_. deleted (insert k A))"
proof (induction "MAX_DELETE_PASSES - pass" arbitrary: pass rule: less_induct)
  case less
  show ?case
    unfolding delete_all.simps [of c be pass k]
  proof (rule hoare_if, rule run_raise, rule run_seq [OF run_heartbeat], rule run_bind [OF run_tgt_delete [OF assms]],
      rule hoare_if, goal_cases)
    case (1 all_gone)
    then show ?case by (intro run_ret) simp
  next
    case (2 all_gone)
    show ?case by (rule run_pre [OF less]) (use 2 in auto)
  qed
qed

lemma run_deletes:
  "set ks \<subseteq> set ts \<Longrightarrow> run (deleted A) (each (\<lambda>k. seq (heartbeat c be) (delete_all c be 0 k)) ks) (\<lambda>_. deleted (A \<union> set ks))"
proof (induction ks arbitrary: A)
  case (Cons k ks)
  have "run (deleted A) (seq (heartbeat c be) (delete_all c be 0 k)) (\<lambda>_. deleted (insert k A))"
    by (rule run_seq [OF run_heartbeat run_delete_all]) (use Cons.prems in simp)
  with Cons.IH [of "insert k A"] Cons.prems show ?case by (auto intro: run_seq)
qed (simp add: run_ret)

end

section \<open>The final pass\<close>

lemma sessionRef_path: "sessionRef k = key_path k"
  by (simp add: sessionRef_def key_path_def)

lemma wf_source_refs:
  assumes "wf_source b"
  shows "distinct (map (sessionRef \<circ> fst) (b_canon b))"
proof -
  have "k = k'" if "valid_key k" "valid_key k'" "sessionRef k = sessionRef k'" for k k'
  proof -
    have "canonicalObject k = Inr (key_path k @ ''/log.jsonl'')" "canonicalObject k' = Inr (key_path k' @ ''/log.jsonl'')"
      using that(1,2) by simp_all
    then show ?thesis using canonical_keys.enc_inject [OF that(1,2)] that(3) by (metis sessionRef_path)
  qed
  then have "inj_on sessionRef (fst ` set (b_canon b))"
    using assms by (auto simp: wf_source_def inj_on_def)
  with assms show ?thesis unfolding wf_source_def
    by (metis comp_inj_on distinct_map map_map set_map)
qed

lemma window_read_tombstones:
  "hoare (window c be (Some (S, D, ts)) T) read_tombstones
     (\<lambda>ts w. window c be (Some (S, D, ts)) (\<lambda>t d. T t d \<and> set D \<subseteq> set ts) w) (\<lambda>w. cut_at w = None)"
  unfolding read_tombstones_def asks_def by (rule hoare_call) (auto simp: window_def calm_def)

lemma final_pass_whole:
  assumes hb: "mc_heartbeat c \<le> PAUSE_CAP_MS" and wf: "wf_source S"
  shows "hoare (window c be (Some (S, D, [])) (\<lambda>_ _. True)) (final_pass p c be)
    (\<lambda>_ w. \<exists>ts. window c be (Some (S, D, ts)) (\<lambda>t d. replayed p S D ts (set ts) t) w) (\<lambda>w. cut_at w = None)"
proof -
  have ip: "in_pause c" using hb by (rule in_pause.intro)
  have flag: "window c be z T (w\<lparr>inPause := i\<rparr>) = window c be z T w" for z T w i
    by (simp add: window_def)
  let ?delta = "\<lambda>t (d :: string list). \<forall>k. canon S k \<noteq> None \<longrightarrow> current p S t k"
  let ?over = "\<lambda>_ w. \<exists>ts. window c be (Some (S, D, ts)) (\<lambda>t d. replayed p S D ts (set ts) t) w"
  have after: "hoare (window c be (Some (S, D, ts)) (\<lambda>t d. ?delta t d \<and> set D \<subseteq> set ts))
      (seq (heartbeat c be) (each (\<lambda>k. seq (heartbeat c be) (delete_all c be 0 k)) ts)) ?over (\<lambda>w. cut_at w = None)" for ts
    by (rule hoare_seq [OF in_pause.run_heartbeat [OF ip]],
        rule hoare_weaken [OF in_pause.run_deletes [OF ip, where A = "{}" and p = p and S = S and D = D and ts = ts, OF order_refl]])
      (auto elim!: window_weaken simp: replayed_def)
  have replay: "hoare (window c be (Some (S, D, [])) ?delta) (replayTombstones c be) ?over (\<lambda>w. cut_at w = None)"
    unfolding replayTombstones_def
    by (rule hoare_seq [OF in_pause.run_heartbeat [OF ip]], rule hoare_bind [OF window_read_tombstones], rule after)
  have pass: "hoare (window c be (Some (S, D, [])) (\<lambda>_ _. True)) (seq (deltaPass p c be True) (replayTombstones c be))
      ?over (\<lambda>w. cut_at w = None)"
    by (rule hoare_seq [OF in_pause.run_deltaPass [OF ip wf_source_refs [OF wf]] replay])
  show ?thesis
    unfolding final_pass_def
    by (rule hoare_seq [where R = "window c be (Some (S, D, [])) (\<lambda>_ _. True)"], rule hoare_updateI, simp add: flag,
        rule hoare_ensuring [OF pass], (rule hoare_updateI, simp add: flag)+)
qed

section \<open>The cut\<close>

definition good_cut :: "platform \<Rightarrow> cut \<Rightarrow> bool" where
  "good_cut p k \<longleftrightarrow> c_inFlight k = 0 \<and>
     (\<exists>ts. set ts \<subseteq> set (c_stamped k) \<and> replayed p (c_source k) (c_dropped k) ts (set ts) (c_target k))"

text \<open>A cut made inside the armed window, by a gate that never ran out unnoticed, is a good one.\<close>

definition fine :: "platform \<Rightarrow> mig \<Rightarrow> bool" where
  "fine p w \<longleftrightarrow> (\<forall>k. cut_at w = Some k \<longrightarrow> \<not> gap w \<longrightarrow> c_now k < c_armed k \<longrightarrow> good_cut p k)"

lemma fine_uncut: "cut_at w = None \<Longrightarrow> fine p w"
  by (simp add: fine_def)

lemma fine_same: "fine p w \<Longrightarrow> cut_at w' = cut_at w \<Longrightarrow> gap w' = gap w \<Longrightarrow> fine p w'"
  by (simp add: fine_def)

lemma fine_moves: "fine p w \<Longrightarrow> fine p (snd (world_moves w))"
  by (rule moves_keeps) (auto simp: fine_def happen_other)

lemma fine_call: "(\<And>g w. fine p w \<Longrightarrow> fine p (snd (f g w))) \<Longrightarrow> keeps (fine p) (call f)"
  by (rule keepsI) (use fine_moves in \<open>auto simp: call_def split: prod.split option.split dest: fine_moves\<close>)

lemma fine_acts: "(\<And>g w. cut_at (f g w) = cut_at w \<and> gap (f g w) = gap w) \<Longrightarrow> keeps (fine p) (acts f)"
  unfolding acts_def by (rule fine_call) (auto intro: fine_same)

lemma fine_heartbeat: "keeps (fine p) (heartbeat c be)"
  unfolding heartbeat_def armPause_def arm_row_def
  by (intro keeps_rules keeps_get keeps_ret keeps_update fine_acts) (auto elim: fine_same)

lemma fine_beat: "keeps (fine p) (beat c be)"
  unfolding beat_def by (intro keeps_rules fine_heartbeat keeps_get keeps_ret)

interpretation settled: engine_invariant "fine p" c be for p c be
  by unfold_locales (auto simp: fine_moves fine_beat elim: fine_same)

lemma fine_verify_one: "keeps (fine p) (verify_one k)"
  unfolding verify_one_def Let_def by (intro keeps_rules settled.keeps_reads keeps_ret)

lemma fine_verify: "keeps (fine p) verify_cut"
proof -
  have "keeps (fine p) (verify_all ks)" for ks
    by (induction ks) (auto intro!: keeps_rules fine_verify_one)
  then have "keeps (fine p) verifyTarget"
    unfolding verifyTarget_def by (intro keeps_rules settled.keeps_reads)
  moreover have "keeps (fine p) (case x of Inl e \<Rightarrow> abort Done (UNVERIFIED e)
      | Inr missing \<Rightarrow> if missing = [] then phase Done else abort Done (NOT_WHOLE missing))" for x
    by (cases x) (auto intro: settled.keeps_marks)
  ultimately show ?thesis
    unfolding verify_cut_def by (intro keeps_bind keeps_seq keeps_catching settled.keeps_marks keeps_ret)
qed

text \<open>The state the cut is made from.\<close>

definition poised :: "platform \<Rightarrow> mig_config \<Rightarrow> ms \<Rightarrow> mig \<Rightarrow> bool" where
  "poised p c be w \<longleftrightarrow> \<not> lapsed w \<and>
     (\<exists>S D ts. window c be (Some (S, D, ts)) (\<lambda>t d. replayed p S D ts (set ts) t) w)"

lemma poised_keeps:
  "poised p c be w \<Longrightarrow> poised p c be (happen e w)" "poised p c be w \<Longrightarrow> poised p c be (w\<lparr>schedule := s\<rparr>)"
  unfolding poised_def by (auto simp: happen_other intro: window_happen) (auto simp: window_def)

lemma poised_cut:
  assumes "poised p c be w"
  shows "fine p (w\<lparr>creds := n, cut_at := Some \<lparr>c_source = src w, c_target = tgt w, c_now = clock w, c_armed = armedUntil w,
    c_inFlight = q_inFlight (quiesce w), c_dropped = dropped w, c_stamped = stamped w\<rparr>\<rparr>)"
  using assms by (auto simp: poised_def fine_def window_def unsafe_def calm_def good_cut_def)

lemma swap_fine: "hoare (poised p c be) swapCredentials (\<lambda>_. fine p) (fine p)"
proof (rule hoareI)
  fix w x w' assume w: "poised p c be w" and r: "swapCredentials w = (Inr x, w')"
  have "poised p c be (snd (world_moves w))" by (rule moves_keeps [OF poised_keeps w])
  with r show "fine p w'" unfolding swapCredentials_def by (auto elim!: call_cases intro: poised_cut)
next
  fix w e w' assume w: "poised p c be w" and r: "swapCredentials w = (Inl e, w')"
  have "poised p c be (snd (world_moves w))" by (rule moves_keeps [OF poised_keeps w])
  with r show "fine p w'" unfolding swapCredentials_def
    by (auto elim!: call_cases simp: poised_def intro!: fine_uncut dest: window_cut)
qed

lemma cut_over_fine: "hoare (poised p c be) cut_over (\<lambda>_. fine p) (fine p)"
  unfolding cut_over_def
proof (rule hoare_seq [where R = "poised p c be"], goal_cases)
  case 1
  show ?case unfolding phase_def set_res_def by (rule hoare_updateI) (auto simp: poised_def window_def)
next
  case 2
  have "keeps (fine p) (seq (set_res (\<lambda>r. r\<lparr>version := Some v\<rparr>))
       (bind (catching (seq rebindStore (ret None)) (\<lambda>e. ret (Some e))) (\<lambda>failed.
          seq (set_res (\<lambda>r. r\<lparr>switched := True\<rparr>))
            (case failed of None \<Rightarrow> verify_cut | Some e \<Rightarrow> abort Aborted (CANNOT_BIND e)))))" for v
    by (intro keeps_rules settled.keeps_set_res settled.keeps_reads settled.keeps_marks fine_verify keeps_ret)
  then show ?case unfolding keeps_def by (rule hoare_bind [OF swap_fine])
qed

section \<open>The waits\<close>

text \<open>What the world's moves and a failing refresh keep, the waits keep.\<close>

definition stable :: "(mig \<Rightarrow> bool) \<Rightarrow> bool" where
  "stable Q \<longleftrightarrow> (\<forall>w e. Q w \<longrightarrow> Q (happen e w)) \<and> (\<forall>w s. Q w \<longrightarrow> Q (w\<lparr>schedule := s\<rparr>)) \<and>
     (\<forall>w. Q w \<longrightarrow> Q (w\<lparr>gate := observeUnavailable (gate w)\<rparr>))"

lemma stable_moves: "stable Q \<Longrightarrow> Q w \<Longrightarrow> Q (snd (world_moves w))"
  by (rule moves_keeps) (auto simp: stable_def)

lemma stable_nap: "stable Q \<Longrightarrow> Q w \<Longrightarrow> Q (snd (nap t w))"
proof -
  assume Q: "stable Q" and "Q w"
  then have "Q (happen (Pass t) w)" unfolding stable_def by blast
  then show ?thesis unfolding nap_def snd_conv by (rule stable_moves [OF Q])
qed

lemma stable_refresh: "stable Q \<Longrightarrow> Q w \<Longrightarrow> Q (snd (refreshGate w))"
proof -
  assume Q: "stable Q" and w: "Q w"
  obtain es w1 where m: "world_moves w = (es, w1)" by force
  from stable_moves [OF Q w] m have w1: "Q w1" by simp
  moreover have "Q (happen Refresh w1)" using Q w1 unfolding stable_def by blast
  ultimately show ?thesis using Q by (auto simp: refreshGate_def m stable_def split: option.split)
qed

lemma stable_await: "stable Q \<Longrightarrow> Q w \<Longrightarrow> Q (snd (awaitInForce d w))"
proof (induction d w rule: awaitInForce.induct)
  case (1 d w)
  let ?w = "snd (refreshGate w)"
  have "Q ?w" by (rule stable_refresh [OF 1(2,3)])
  with 1(1) [OF refl refl refl] 1(2) stable_nap [OF 1(2), of ?w 250] show ?case
    by (subst awaitInForce.simps) (auto simp: Let_def)
qed

lemma await_result:
  "\<exists>until. fst (awaitInForce d w) = Inr (until, ep_capped (ps_effective (gate (snd (awaitInForce d w))))) \<and>
     (\<forall>u. until = Some u \<longrightarrow> pausedUntil (gate (snd (awaitInForce d w))) (clock (snd (awaitInForce d w))) = Some u)"
proof (induction d w rule: awaitInForce.induct)
  case (1 d w)
  show ?case
    using 1 [OF refl refl refl] by (subst (1 2 3 4) awaitInForce.simps) (auto simp: Let_def)
qed

lemma hoare_await:
  assumes "stable Q"
  shows "hoare Q (awaitInForce d) (\<lambda>x w. Q w \<and>
    (\<forall>u. fst x = Some u \<longrightarrow> view_of w = Some u \<and> clock w < u)) E"
proof (rule hoareI)
  fix w x w' assume "Q w" and r: "awaitInForce d w = (Inr x, w')"
  from stable_await [OF assms this(1), of d] await_result [of d w] r
  show "Q w' \<and> (\<forall>u. fst x = Some u \<longrightarrow> view_of w' = Some u \<and> clock w' < u)"
    by (auto simp: pausedUntil_view)
next
  fix w e w' assume "awaitInForce d w = (Inl e, w')"
  with await_result [of d w] show "E w'" by auto
qed

lemma hoare_barrier:
  assumes Q: "stable Q" and beat: "keeps Q (heartbeat c be)" and E: "\<And>w. Q w \<Longrightarrow> E w"
  shows "hoare Q (barrier c be d) (\<lambda>quiet w. Q w \<and> (quiet \<longrightarrow> q_inFlight (quiesce w) = 0)) E"
proof -
  have inv: "Q w \<Longrightarrow> Q (snd (barrier c be d w)) \<and>
      (fst (barrier c be d w) = Inr True \<longrightarrow> q_inFlight (quiesce (snd (barrier c be d w))) = 0)" for w
  proof (induction "nat (d - clock w)" arbitrary: w rule: less_induct)
    case (less w)
    let ?n = "snd (nap 250 w)"
    obtain r w1 where r: "heartbeat c be ?n = (r, w1)" by force
    have w1: "Q w1" using keepsD [OF beat stable_nap [OF Q less(2)], of 250] r by simp
    have "clock w + 250 \<le> clock w1"
      using nap_clock [of 250 w] keepsD [OF since_heartbeat [of "clock ?n" c be], of ?n] r by simp
    then show ?case
      using less(1) [of w1] w1 less(2) r
      by (cases r) (auto simp: barrier.simps [of c be d w] isQuiesced_def)
  qed
  show ?thesis
  proof (rule hoareI)
    fix w quiet w' assume "Q w" and "barrier c be d w = (Inr quiet, w')"
    with inv [of w] show "Q w' \<and> (quiet \<longrightarrow> q_inFlight (quiesce w') = 0)" by auto
  next
    fix w e w' assume "Q w" and "barrier c be d w = (Inl e, w')"
    with inv [of w] E show "E w'" by simp
  qed
qed

section \<open>The fence\<close>

lemma blind_gate: "pausing c be (w\<lparr>gate := observeUnavailable (gate w)\<rparr>) = pausing c be w"
  "shut (w\<lparr>gate := observeUnavailable (gate w)\<rparr>) = shut w" "unsafe (w\<lparr>gate := g\<rparr>) = unsafe w"
  by (simp_all add: pausing_def shut_def unsafe_def view_of_def observeUnavailable_def)

lemma calm_gate: "calm z (w\<lparr>gate := g\<rparr>) = calm z w"
  by (rule calm_cong) simp_all

lemma stable_window: "stable (window c be z T)"
  unfolding stable_def by (simp add: window_happen) (simp add: window_def blind_gate calm_gate)

lemma stable_unlapsed: "stable (\<lambda>w. \<not> lapsed w)"
  by (simp add: stable_def happen_other)

lemma stable_conj: "stable P \<Longrightarrow> stable Q \<Longrightarrow> stable (\<lambda>w. P w \<and> Q w)"
  by (simp add: stable_def)

lemma stable_acts:
  assumes Q: "stable Q" and f: "\<And>g w. Q w \<Longrightarrow> Q (f g w)"
  shows "keeps Q (acts f)"
proof (rule keepsI)
  fix w assume "Q w"
  obtain es w1 where e: "world_moves w = (es, w1)" by force
  with stable_moves [OF Q \<open>Q w\<close>] have "Q w1" by simp
  then show "Q (snd (acts f w))"
    by (cases "broken es") (simp_all add: acts_def call_def e f)
qed

lemma unlapsed_armPause: "keeps (\<lambda>w. \<not> lapsed w) (armPause c be)"
  unfolding armPause_def arm_row_def
  by (intro keeps_rules keeps_get keeps_update stable_acts stable_unlapsed) simp_all

lemma margin_unspent:
  assumes "window c be z T w" "view_of w = Some u" "FENCE_MARGIN_MS \<le> u - clock w"
  shows "clock w < armedUntil w"
  using assms by (auto simp: window_def pausing_def FENCE_MARGIN_MS_def)

lemma fence_fine:
  assumes hb: "mc_heartbeat c \<le> PAUSE_CAP_MS"
  shows "hoare (\<lambda>w. unspent c be (Some (S, D, ts)) (\<lambda>t d. replayed p S D ts (set ts) t) w \<and> \<not> lapsed w)
    (fence c be) (\<lambda>_. fine p) (fine p)"
proof -
  let ?z = "Some (S, D, ts)" and ?T = "\<lambda>t (d :: string list). replayed p S D ts (set ts) t"
  let ?W = "\<lambda>w. window c be ?z ?T w \<and> \<not> lapsed w"
  have arm: "hoare (\<lambda>w. unspent c be ?z ?T w \<and> \<not> lapsed w) (armPause c be) (\<lambda>_. ?W) (fine p)"
    by (rule hoare_weaken [OF hoare_conj [OF window_armPause [OF hb] unlapsed_armPause [unfolded keeps_def]]])
      (blast intro: fine_uncut window_cut)+
  have quit: "hoare ?W (abort Aborted NEARLY_SPENT) (\<lambda>_. fine p) (fine p)"
    unfolding abort_def set_res_def by (rule hoare_updateI) (auto intro!: fine_uncut dest: window_cut)
  have go: "hoare ?W cut_over (\<lambda>_. fine p) (fine p)"
    by (rule hoare_pre [OF cut_over_fine]) (auto simp: poised_def)
  show ?thesis
    unfolding fence_def
  proof (rule hoare_seq [OF arm], rule hoare_bind_get)
    fix t
    show "hoare (\<lambda>w. ?W w \<and> clock w = t) (bind (awaitInForce (t + mc_gateConfirm c)) (\<lambda>(until, clamped). bind (get clock) (\<lambda>now.
         if clamped \<or> (case until of None \<Rightarrow> 0 | Some u \<Rightarrow> u - now) < FENCE_MARGIN_MS
         then abort Aborted NEARLY_SPENT else cut_over))) (\<lambda>_. fine p) (fine p)"
    proof (rule hoare_bind [OF hoare_pre [OF hoare_await [OF stable_conj [OF stable_window stable_unlapsed]]]])
      fix x :: "ms option \<times> bool"
      show "hoare (\<lambda>w. ?W w \<and> (\<forall>u. fst x = Some u \<longrightarrow> view_of w = Some u \<and> clock w < u))
          (case x of (until, clamped) \<Rightarrow> bind (get clock) (\<lambda>now.
         if clamped \<or> (case until of None \<Rightarrow> 0 | Some u \<Rightarrow> u - now) < FENCE_MARGIN_MS
         then abort Aborted NEARLY_SPENT else cut_over)) (\<lambda>_. fine p) (fine p)"
        by (cases x) (auto intro!: hoare_bind_get hoare_if hoare_pre [OF quit] hoare_pre [OF go])
    qed auto
  qed
qed

text \<open>After the first arm: the row is the engine's, the gate need not have seen it.\<close>

definition armed :: "mig_config \<Rightarrow> ms \<Rightarrow> mig \<Rightarrow> bool" where
  "armed c be w \<longleftrightarrow> pausing c be w \<and> cut_at w = None \<and> set (dropped w) \<subseteq> set (stamped w) \<and> wf_source (src w)"

lemma stable_armed: "stable (armed c be)"
  unfolding stable_def
  by (simp add: armed_def happen_pausing happen_stamps happen_wf happen_other blind_gate)

lemma hold_and_cut_fine:
  assumes hb: "mc_heartbeat c \<le> PAUSE_CAP_MS"
  shows "hoare (armed c be) (hold_and_cut p c be) (\<lambda>_. fine p) (fine p)"
proof -
  have quit: "hoare (\<lambda>w. cut_at w = None) (abort ph why) (\<lambda>_. fine p) (fine p)" for ph why
    unfolding abort_def set_res_def by (rule hoare_updateI) (auto intro!: fine_uncut)
  let ?W = "window c be None (\<lambda>_ _. True)"
  let ?F = "\<lambda>w. \<exists>S D. window c be (Some (S, D, [])) (\<lambda>_ _. True) w \<and> wf_source S"
  let ?G = "\<lambda>w. \<exists>S D ts. window c be (Some (S, D, ts)) (\<lambda>t d. replayed p S D ts (set ts) t) w"
  have final: "hoare ?F (final_pass p c be) (\<lambda>_. ?G) (fine p)"
  proof (intro hoare_ex)
    fix S D
    show "hoare (\<lambda>w. window c be (Some (S, D, [])) (\<lambda>_ _. True) w \<and> wf_source S) (final_pass p c be) (\<lambda>_. ?G) (fine p)"
    proof (cases "wf_source S")
      case True
      show ?thesis by (rule hoare_weaken [OF final_pass_whole [OF hb True]]) (blast intro: fine_uncut)+
    qed (simp add: hoare_def)
  qed
  have fence: "hoare (\<lambda>w. ?G w \<and> \<not> (lapsed w \<or> pauseSpent w)) (fence c be) (\<lambda>_. fine p) (fine p)"
  proof (rule hoare_pre)
    show "hoare (\<lambda>w. \<exists>S D ts. unspent c be (Some (S, D, ts)) (\<lambda>t d. replayed p S D ts (set ts) t) w \<and> \<not> lapsed w)
        (fence c be) (\<lambda>_. fine p) (fine p)"
      by (intro hoare_ex fence_fine hb)
    show "?G w \<and> \<not> (lapsed w \<or> pauseSpent w) \<Longrightarrow>
        \<exists>S D ts. unspent c be (Some (S, D, ts)) (\<lambda>t d. replayed p S D ts (set ts) t) w \<and> \<not> lapsed w" for w
      unfolding window_def unspent_def unsafe_def pauseSpent_def by blast
  qed
  have rest: "hoare (\<lambda>w. ?W w \<and> q_inFlight (quiesce w) = 0) (seq (final_pass p c be) (bind (get (\<lambda>w. lapsed w \<or> pauseSpent w))
      (\<lambda>late. if late then abort Aborted EXPIRED else fence c be))) (\<lambda>_. fine p) (fine p)"
  proof (rule hoare_pre [OF hoare_seq [OF final]])
    show "hoare ?G (bind (get (\<lambda>w. lapsed w \<or> pauseSpent w))
        (\<lambda>late. if late then abort Aborted EXPIRED else fence c be)) (\<lambda>_. fine p) (fine p)"
      by (intro hoare_bind_get hoare_if; rule hoare_pre [OF quit] hoare_pre [OF fence]) (auto dest: window_cut)
    show "?F w" if "?W w \<and> q_inFlight (quiesce w) = 0" for w
      using that by (intro exI [of _ "src w"] exI [of _ "dropped w"]) (auto simp: window_def calm_def)
  qed
  show ?thesis
    unfolding hold_and_cut_def
  proof (rule hoare_bind_get, rule hoare_bind [OF hoare_pre [OF hoare_await [OF stable_armed]]])
    fix t and x :: "ms option \<times> bool"
    have w: "?W w" if "armed c be w" "view_of w = Some u" "clock w < u" for w u
      using that by (auto simp: armed_def window_def shut_def calm_def)
    have bar: "hoare ?W (barrier c be d) (\<lambda>quiet w. ?W w \<and> (quiet \<longrightarrow> q_inFlight (quiesce w) = 0)) (fine p)" for d
      by (rule hoare_barrier [OF stable_window window_heartbeat [OF hb]]) (auto intro: fine_uncut dest: window_cut)
    have go: "hoare ?W (bind (get clock) (\<lambda>now. bind (barrier c be (min be (now + mc_barrier c))) (\<lambda>quiet.
         if \<not> quiet then abort Aborted NOT_QUIET
         else seq (final_pass p c be) (bind (get (\<lambda>w. lapsed w \<or> pauseSpent w)) (\<lambda>late.
           if late then abort Aborted EXPIRED else fence c be))))) (\<lambda>_. fine p) (fine p)"
      by (rule hoare_bind_get, rule hoare_bind [OF hoare_pre [OF bar]], simp, rule hoare_if;
          rule hoare_pre [OF quit] hoare_pre [OF rest]) (auto dest: window_cut)
    show "hoare (\<lambda>w. armed c be w \<and> (\<forall>u. fst x = Some u \<longrightarrow> view_of w = Some u \<and> clock w < u))
        (case x of (until, clamped) \<Rightarrow>
         if clamped then abort Aborted CLAMPED
         else if until = None then abort Aborted NEVER_HELD
         else bind (get clock) (\<lambda>now. bind (barrier c be (min be (now + mc_barrier c))) (\<lambda>quiet.
           if \<not> quiet then abort Aborted NOT_QUIET
           else seq (final_pass p c be) (bind (get (\<lambda>w. lapsed w \<or> pauseSpent w)) (\<lambda>late.
             if late then abort Aborted EXPIRED else fence c be))))) (\<lambda>_. fine p) (fine p)"
      by (cases x) (auto intro!: hoare_pre [OF quit] hoare_pre [OF go] simp: armed_def intro: w [unfolded armed_def])
  qed auto
qed

section \<open>The whole run\<close>

text \<open>Before the engine arms anything: no pause is in force and no row could put one in force.\<close>

definition idle :: "mig \<Rightarrow> bool" where
  "idle w \<longleftrightarrow> cut_at w = None \<and> (\<forall>r. row w = Some r \<longrightarrow> ic_resumedAt r \<noteq> None) \<and> view_of w = None \<and>
     \<not> inPause w \<and> set (dropped w) \<subseteq> set (stamped w) \<and> wf_source (src w)"

lemma refresh_idle: "\<forall>r. row w = Some r \<longrightarrow> ic_resumedAt r \<noteq> None \<Longrightarrow> view_of (refresh_view w) = None"
  by (auto simp: refresh_view_def view_of_def observe_def effectivePause_def OPEN_def Let_def split: option.splits)

lemma happen_view: "e \<noteq> Refresh \<Longrightarrow> view_of (happen e w) = view_of w"
  by (cases e) (simp_all add: view_of_def Let_def)

lemma stable_idle: "stable idle"
proof -
  have "view_of (happen e w) = None" if "idle w" for e w
    using that refresh_idle [of w] happen_view [of e w] by (cases "e = Refresh") (auto simp: idle_def)
  then have "idle (happen e w)" if "idle w" for e w
    using that happen_stamps [of w e] happen_wf [of w e] by (auto simp: idle_def happen_other)
  then show ?thesis by (auto simp: stable_def) (auto simp: idle_def view_of_def observeUnavailable_def)
qed

interpretation idling: engine_invariant idle c 0 for c
proof unfold_locales
  show "keeps idle (beat c 0)"
    by (rule keepsI) (simp add: beat_def bind_get idle_def ret_def)
qed (auto intro: stable_moves [OF stable_idle], auto simp: idle_def view_of_def)

lemma idle_drain: "idle w \<Longrightarrow> idle (snd (drain_off p c t w))"
proof (induction p c t w rule: drain_off.induct)
  case (1 p c t w)
  obtain r w1 where r: "deltaPass p c 0 False w = (r, w1)" by force
  have "idle w1" using keepsD [OF idling.keeps_deltaPass 1(2), of p c False] r by simp
  with 1 r stable_nap [OF stable_idle, of w1 1000] show ?case
    by (cases r) (auto simp: drain_off.simps [of p c t w])
qed

lemma idle_fine: "keeps idle m \<Longrightarrow> hoare idle m (\<lambda>_. idle) (fine p)"
  unfolding keeps_def by (erule hoare_weaken) (auto simp: idle_def intro: fine_uncut)

lemma first_arm:
  assumes hb: "mc_heartbeat c \<le> PAUSE_CAP_MS"
  shows "hoare idle (armPause c be) (\<lambda>_. armed c be) (fine p)"
proof -
  let ?Q = "\<lambda>u w. idle w \<and> armedUntil w = u \<and> u \<le> min be (clock w + min (mc_heartbeat c) (mc_swapPause c))"
  have "stable (\<lambda>w. armedUntil w = u \<and> u \<le> min be (clock w + min (mc_heartbeat c) (mc_swapPause c)))" for u
    unfolding stable_def by (auto simp: happen_other intro: order_trans [OF _ happen_clock])
      (smt (verit) happen_clock min.coboundedI1 min.coboundedI2)+
  from stable_conj [OF stable_idle this] have Q: "stable (?Q u)" for u .
  have row: "hoare (?Q u) (arm_row u) (\<lambda>_. armed c be) (fine p)" for u
  proof (rule hoareI)
    fix w x w' assume w: "?Q u w" and r: "arm_row u w = (Inr x, w')"
    from stable_moves [OF Q w] r hb show "armed c be w'"
      by (auto simp: arm_row_def acts_def armed_def pausing_def idle_def view_of_def elim!: call_cases)
  next
    fix w e w' assume w: "?Q u w" and r: "arm_row u w = (Inl e, w')"
    from stable_moves [OF Q w] r show "fine p w'"
      by (auto simp: arm_row_def acts_def idle_def fine_uncut elim!: call_cases)
  qed
  show ?thesis
    unfolding armPause_def
  proof (rule hoare_seq [where R = "\<lambda>w. ?Q (armedUntil w) w"], rule hoare_updateI)
    show "hoare (\<lambda>w. ?Q (armedUntil w) w) (bind (get armedUntil) arm_row) (\<lambda>_. armed c be) (fine p)"
      by (rule hoare_bind_get, rule hoare_pre [OF row]) auto
  qed (auto simp: idle_def view_of_def)
qed

lemma switch_phase_fine:
  assumes hb: "mc_heartbeat c \<le> PAUSE_CAP_MS"
  shows "hoare idle (switch_phase p c) (\<lambda>_. fine p) (fine p)"
proof -
  have idle_id: "hoare (\<lambda>w. idle w \<and> Q w) m R E" if "hoare idle m R E" for Q m and R :: "'a \<Rightarrow> mig \<Rightarrow> bool" and E
    by (rule hoare_pre [OF that]) simp
  have release: "keeps (fine p) release_pause"
    unfolding release_pause_def resume_row_def by (intro keeps_catching fine_acts settled.keeps_set_res) simp
  have hold: "hoare (armed c be) (ensuring (hold_and_cut p c be) release_pause) (\<lambda>_. fine p) (fine p)" for be
    by (rule hoare_ensuring [OF hold_and_cut_fine [OF hb]]) (use release in \<open>simp_all add: keeps_def\<close>)
  have drain: "hoare idle (drain_off p c t) (\<lambda>_. idle) (fine p)" for t
    by (rule idle_fine, rule keepsI, rule idle_drain)
  have reset: "hoare idle (update (\<lambda>w. w\<lparr>armedUntil := 0, lapsed := False, episode := 0\<rparr>)) (\<lambda>_. idle) (fine p)"
    by (rule hoare_updateI) (simp add: idle_def view_of_def)
  show ?thesis
    unfolding switch_phase_def
    by (rule hoare_bind_get, rule idle_id, rule hoare_seq [OF drain], rule hoare_seq [OF idle_fine [OF idling.keeps_marks(1)]],
        rule hoare_bind_get, rule idle_id, rule hoare_seq [OF reset], rule hoare_seq [OF first_arm [OF hb] hold])
qed

lemma run_fine:
  assumes hb: "mc_heartbeat c \<le> PAUSE_CAP_MS"
  shows "hoare idle (runStorageMigration p c) (\<lambda>_. fine p) (fine p)"
proof (rule idling.run_shape [OF refl])
  show "hoare idle (drained p c) (\<lambda>_. fine p) (fine p)"
    unfolding drained_def
    by (rule hoare_seq [where R = idle], rule hoare_updateI, simp add: idle_def view_of_def,
        rule hoare_ensuring [OF switch_phase_fine [OF hb]]; rule hoare_updateI; erule fine_same; simp)
qed (auto simp: idle_def intro: fine_uncut)

text \<open>What the cut promises about one session that the source holds.\<close>

definition carried :: "platform \<Rightarrow> cut \<Rightarrow> session_key \<Rightarrow> bool" where
  "carried p k s \<longleftrightarrow> (case (canon (c_source k) s, canon (c_target k) s) of
       (None, _) \<Rightarrow> True | (Some a, None) \<Rightarrow> False
     | (Some a, Some b) \<Rightarrow> length b = length a \<or> p_sha256 p b = p_sha256 p a) \<and>
     list_all (\<lambda>n. map_option (p_sha256 p) (sidecar (c_target k) s n) = map_option (p_sha256 p) (sidecar (c_source k) s n))
       (side_names (c_source k) s)"

definition purged :: "cut \<Rightarrow> session_key \<Rightarrow> bool" where
  "purged k s \<longleftrightarrow> list_ex (\<lambda>d. owned d s) (c_stamped k)"

lemma side_name_there: "n \<in> set (side_names S k) \<Longrightarrow> sidecar S k n \<noteq> None"
proof -
  assume "n \<in> set (side_names S k)"
  then obtain e where "e \<in> set (b_side S)" "fst e = (k, n)" by (auto simp: side_names_def)
  then show ?thesis by (auto simp: sidecar_def map_of_eq_None_iff intro: rev_image_eqI)
qed

lemma current_carried: "current p (c_source k) (c_target k) s \<Longrightarrow> carried p k s"
  unfolding carried_def current_def canon_ok_def side_ok_def
  by (force simp: list_all_iff dest: side_name_there split: option.splits)

lemma default_heartbeat: "mc_heartbeat ((mig_defaults md)\<lparr>mc_already := known\<rparr>) \<le> PAUSE_CAP_MS"
  by (simp add: mig_defaults_def PAUSE_CAP_MS_def)

definition source_keys :: "cut \<Rightarrow> session_key list" where
  "source_keys k = map fst (b_canon (c_source k))"

definition absent :: "session_key \<Rightarrow> bucket \<Rightarrow> bool" where
  "absent d b \<longleftrightarrow> \<not> list_ex (\<lambda>e. owned d (fst e)) (b_canon b) \<and> \<not> list_ex (\<lambda>e. owned d (fst (fst e))) (b_side b)"

lemma gone_absent: "gone d b \<Longrightarrow> absent d b"
  unfolding gone_def absent_def list_ex_iff canon_def sidecar_def map_of_eq_None_iff by force

definition keeps_all :: "platform \<Rightarrow> cut \<Rightarrow> bool" where
  "keeps_all p k \<longleftrightarrow> list_all (\<lambda>s. carried p k s \<or> purged k s) (source_keys k) \<and>
     list_all (\<lambda>d. absent d (c_target k)) (c_dropped k)"

lemma good_cut_keeps: "good_cut p k \<Longrightarrow> c_inFlight k = 0 \<and> keeps_all p k"
proof -
  assume "good_cut p k"
  then obtain ts where ts: "set ts \<subseteq> set (c_stamped k)"
    and r: "replayed p (c_source k) (c_dropped k) ts (set ts) (c_target k)" and q: "c_inFlight k = 0"
    by (auto simp: good_cut_def)
  have "carried p k s \<or> purged k s" if "s \<in> set (source_keys k)" for s
  proof -
    from that have "canon (c_source k) s \<noteq> None"
      by (auto simp: canon_def source_keys_def map_of_eq_None_iff)
    with r consider "current p (c_source k) (c_target k) s" | x where "x \<in> set ts" "owned x s"
      by (auto simp: replayed_def)
    then show ?thesis
      using ts by cases (auto simp: purged_def list_ex_iff current_carried)
  qed
  moreover have "absent d (c_target k)" if "d \<in> set (c_dropped k)" for d
    using r that by (auto simp: replayed_def intro: gone_absent)
  ultimately show ?thesis using q by (simp add: keeps_all_def list_all_iff)
qed


end
