(* ===== verification/Migration_Runs.thy ===== *)
theory Migration_Runs
  imports Migration_Safety
begin

text \<open>
  What holds of a run whatever its outcome: the source bucket is only read, a run that throws has switched nothing, and
  the pause and the short-signature floor are released. The engine's own steps are told from the world's by
  \<open>own_step\<close>. Last, two runs on small buckets: one that carries a concurrent write and a purge across, and one in which the
  daemon's view falls behind a heartbeat and a purge is undone by the cut.
\<close>

section \<open>Steps that cannot throw\<close>

definition never_throws :: "(mig, 'a) eff \<Rightarrow> bool" where
  "never_throws m \<longleftrightarrow> hoare (\<lambda>_. True) m (\<lambda>_ _. True) (\<lambda>_. False)"

lemma quiet_keeps: "never_throws m \<Longrightarrow> keeps P m \<Longrightarrow> hoare P m (\<lambda>_. P) (\<lambda>_. False)"
  unfolding never_throws_def keeps_def by (drule (1) hoare_conj, erule hoare_weaken) auto

lemma update_quiet: "never_throws (update f)"
  unfolding never_throws_def by (rule hoare_updateI) simp

lemma quiet_ret: "never_throws (ret x)"
  unfolding never_throws_def by (rule hoare_retI) simp

lemma quiet_bind: "never_throws m \<Longrightarrow> (\<And>x. never_throws (f x)) \<Longrightarrow> never_throws (bind m f)"
  unfolding never_throws_def by (rule hoare_bind)

lemma quiet_seq: "never_throws m \<Longrightarrow> never_throws n \<Longrightarrow> never_throws (seq m n)"
  unfolding never_throws_def by (rule hoare_seq)

lemma quiet_catching: "(\<And>e. never_throws (h e)) \<Longrightarrow> never_throws (catching m h)"
  unfolding never_throws_def by (rule hoare_catching [where R = "\<lambda>_. True"]) (simp_all add: hoare_def split: sum.split prod.split)

lemma quiet_marks: "never_throws (set_res f)" "never_throws (phase ph)" "never_throws (abort ph why)"
  unfolding set_res_def phase_def abort_def by (rule update_quiet)+

lemma release_quiet: "never_throws release_pause"
  unfolding release_pause_def by (intro quiet_catching quiet_marks)

lemma verify_cut_quiet: "never_throws verify_cut"
proof -
  have "never_throws (case x of Inl e \<Rightarrow> abort Done (UNVERIFIED e)
      | Inr missing \<Rightarrow> if missing = [] then phase Done else abort Done (NOT_WHOLE missing))" for x
    by (cases x) (auto intro: quiet_marks)
  then show ?thesis unfolding verify_cut_def by (intro quiet_seq quiet_bind quiet_catching quiet_marks quiet_ret)
qed

section \<open>What the engine's own steps leave alone\<close>

definition own_step :: "mig \<Rightarrow> mig \<Rightarrow> bool" where
  "own_step w w' \<longleftrightarrow> src w' = src w \<and> quiesce w' = quiesce w \<and> stamped w' = stamped w \<and> dropped w' = dropped w \<and>
     creds w' = creds w \<and> cut_at w' = cut_at w \<and> schedule w' = schedule w"

locale whole_run =
  fixes P :: "mig \<Rightarrow> bool"
  assumes moved: "P w \<Longrightarrow> P (snd (world_moves w))"
    and own: "own_step w w' \<Longrightarrow> P w \<Longrightarrow> P w'"
begin

lemma own_update: "(\<And>w. own_step w (f w)) \<Longrightarrow> keeps P (update f)"
  by (rule keeps_update) (rule own)

lemma own_call: "(\<And>g w. own_step w (snd (f g w))) \<Longrightarrow> keeps P (call f)"
proof (rule keepsI)
  fix w assume f: "\<And>g w. own_step w (snd (f g w))" and "P w"
  obtain es w1 where e: "world_moves w = (es, w1)" by force
  with moved [OF \<open>P w\<close>] have "P w1" by simp
  with own [OF f this] show "P (snd (call f w))" by (simp add: call_def e split: option.split)
qed

lemma own_acts: "(\<And>g w. own_step w (f g w)) \<Longrightarrow> keeps P (acts f)"
  unfolding acts_def by (rule own_call) simp

lemma run_armPause: "keeps P (armPause c be)"
  unfolding armPause_def arm_row_def
  by (intro keeps_rules own_update own_acts keeps_get) (simp_all add: own_step_def)

lemma run_heartbeat: "keeps P (heartbeat c be)"
  unfolding heartbeat_def
  by (intro keeps_rules own_update keeps_get keeps_ret run_armPause) (simp add: own_step_def)

lemma run_beat: "keeps P (beat c be)"
  unfolding beat_def by (intro keeps_rules run_heartbeat keeps_get keeps_ret)

end

sublocale whole_run \<subseteq> engine: engine_invariant P c be for c be
proof
  show "P w \<Longrightarrow> P (snd (world_moves w))" for w by (rule moved)
  show "keeps P (beat c be)" by (rule run_beat)
qed (erule own [rotated], simp add: own_step_def)+

context whole_run
begin

lemma run_pass: "P w \<Longrightarrow> P (snd (nap d w))"
proof -
  assume "P w"
  then have "P (happen (Pass d) w)" by (rule own [rotated]) (simp add: own_step_def Let_def)
  then show ?thesis unfolding nap_def by (simp add: moved del: happen.simps)
qed

lemma run_refresh: "P w \<Longrightarrow> P (snd (refreshGate w))"
proof -
  assume "P w"
  obtain es w1 where m: "world_moves w = (es, w1)" by force
  from moved [OF \<open>P w\<close>] m have w1: "P w1" by simp
  have "P (refresh_view w1)" by (rule own [OF _ w1]) (simp add: own_step_def refresh_view_def Let_def)
  moreover have "P (w1\<lparr>gate := observeUnavailable (gate w1)\<rparr>)" by (rule own [OF _ w1]) (simp add: own_step_def)
  ultimately show ?thesis by (simp add: refreshGate_def m split: option.split)
qed

lemma run_await: "keeps P (awaitInForce d)"
proof (rule keepsI)
  show "P w \<Longrightarrow> P (snd (awaitInForce d w))" for w
  proof (induction d w rule: awaitInForce.induct)
    case (1 d w)
    have "P (snd (refreshGate w))" by (rule run_refresh [OF 1(2)])
    with 1(1) [OF refl refl refl] run_pass [of "snd (refreshGate w)" 250] show ?case
      by (subst awaitInForce.simps) (auto simp: Let_def)
  qed
qed

lemma run_barrier: "keeps P (barrier c be d)"
proof (rule keepsI)
  show "P w \<Longrightarrow> P (snd (barrier c be d w))" for w
  proof (induction c be d w rule: barrier.induct)
    case (1 c be d w)
    obtain r w1 where r: "heartbeat c be (snd (nap 250 w)) = (r, w1)" by force
    have "P w1" using keepsD [OF run_heartbeat run_pass [OF 1(2)], of c be 250] r by simp
    with 1 r show ?case by (cases r) (auto simp: barrier.simps [of c be d w])
  qed
qed

lemma run_drain_off: "keeps P (drain_off p c t)"
proof (rule keepsI)
  show "P w \<Longrightarrow> P (snd (drain_off p c t w))" for w
  proof (induction p c t w rule: drain_off.induct)
    case (1 p c t w)
    obtain r w1 where r: "deltaPass p c 0 False w = (r, w1)" by force
    have "P w1" using keepsD [OF engine.keeps_deltaPass 1(2), of p c 0 False] r by simp
    with 1 r run_pass [of w1 1000] show ?case by (cases r) (auto simp: drain_off.simps [of p c t w])
  qed
qed

lemma run_delete_all: "keeps P (delete_all c be n k)"
proof (induction c be n k rule: delete_all.induct)
  case (1 c be pass k)
  show ?case
  proof (cases "MAX_DELETE_PASSES \<le> pass")
    case False
    then show ?thesis
      by (subst delete_all.simps, simp)
        (intro keeps_rules run_heartbeat engine.keeps_tgt_delete keeps_ret 1 False)
  qed (simp add: delete_all.simps [of c be pass k])
qed

lemma run_replay: "keeps P (replayTombstones c be)"
  unfolding replayTombstones_def by (intro keeps_rules run_heartbeat run_delete_all engine.keeps_reads)

lemma run_final_pass: "keeps P (final_pass p c be)"
  unfolding final_pass_def
  by (intro keeps_rules own_update engine.keeps_deltaPass run_replay) (simp_all add: own_step_def)

lemma run_release: "keeps P release_pause"
  unfolding release_pause_def resume_row_def
  by (intro keeps_rules own_acts engine.keeps_set_res) (simp add: own_step_def)

text \<open>Everything up to the swap keeps the invariant; what the swap does to it is the argument.\<close>

lemma run_upto_cut:
  assumes cut: "hoare P cut_over (\<lambda>_. Q) E" and PQ: "\<And>w. P w \<Longrightarrow> Q w" and PE: "\<And>w. P w \<Longrightarrow> E w"
    and Q: "keeps Q release_pause" "keeps Q (update (\<lambda>w. w\<lparr>drain := False\<rparr>))"
    and E: "keeps E release_pause" "keeps E (update (\<lambda>w. w\<lparr>drain := False\<rparr>))"
  shows "hoare P (runStorageMigration p c) (\<lambda>_. Q) E"
proof -
  have stays: "hoare P m (\<lambda>_. P) E" if "keeps P m" for m :: "(mig, 'b) eff"
    using that unfolding keeps_def by (rule hoare_weaken) (auto intro: PE)
  have quit: "hoare P (abort ph why) (\<lambda>_. Q) E" for ph why
    by (rule hoare_weaken [OF stays [OF engine.keeps_marks(2)]]) (auto intro: PQ)
  have given: "hoare (\<lambda>w. P w \<and> G w) m R E" if "hoare P m R E" for m :: "(mig, 'b) eff" and R G
    by (rule hoare_pre [OF that]) simp
  have fence: "hoare P (fence c be) (\<lambda>_. Q) E" for be
    unfolding fence_def
    by (rule hoare_seq [OF stays [OF run_armPause]], rule hoare_bind_get, rule given, rule hoare_bind [OF stays [OF run_await]])
      (auto split: prod.split intro!: hoare_bind_get given hoare_if quit cut)
  have hold: "hoare P (hold_and_cut p c be) (\<lambda>_. Q) E" for be
    unfolding hold_and_cut_def
    by (rule hoare_bind_get, rule given, rule hoare_bind [OF stays [OF run_await]])
      (auto split: prod.split intro!: hoare_bind_get given hoare_if quit fence hoare_bind [OF stays [OF run_barrier]]
        hoare_seq [OF stays [OF run_final_pass]])
  have closing: "hoare P (ensuring m f) (\<lambda>_. Q) E"
    if m: "hoare P m (\<lambda>_. Q) E" and f: "never_throws f" "keeps Q f" "keeps E f" for m f :: "(mig, unit) eff"
  proof (rule hoare_ensuring [OF m])
    show "hoare Q f (\<lambda>_. Q) E" using quiet_keeps [OF f(1,2)] by (rule hoare_weaken) auto
    show "hoare E f (\<lambda>_. E) E" using f(3) by (simp add: keeps_def)
  qed
  have switch: "hoare P (switch_phase p c) (\<lambda>_. Q) E"
    unfolding switch_phase_def
    by (rule hoare_bind_get, rule given, rule hoare_seq [OF stays [OF run_drain_off]],
        rule hoare_seq [OF stays [OF engine.keeps_marks(1)]], rule hoare_bind_get, rule given,
        rule hoare_seq [OF stays [OF own_update]], simp add: own_step_def, rule hoare_seq [OF stays [OF run_armPause]],
        rule closing [OF hold release_quiet Q(1) E(1)])
  have tail: "hoare P (drained p c) (\<lambda>_. Q) E"
    unfolding drained_def
    by (rule hoare_seq [OF stays [OF own_update]], simp add: own_step_def, rule closing [OF switch update_quiet Q(2) E(2)])
  show ?thesis by (rule engine.run_shape [OF refl PQ PE tail])
qed

end


section \<open>Every outcome\<close>

definition sessions_intact :: "mig_event list list \<Rightarrow> bool" where
  "sessions_intact = list_all (list_all (\<lambda>e. case e of Land _ \<Rightarrow> False | _ \<Rightarrow> True))"

lemma untouched_happen: "(case e of Land _ \<Rightarrow> False | _ \<Rightarrow> True) \<Longrightarrow> src (happen e w) = src w"
  by (cases e) (simp_all add: Let_def)

lemma untouched_moves:
  "sessions_intact (schedule w) \<Longrightarrow> src (snd (world_moves w)) = src w \<and> sessions_intact (schedule (snd (world_moves w)))"
proof (cases "schedule w")
  case (Cons es rest)
  have "src (fold happen es x) = src x \<and> schedule (fold happen es x) = schedule x"
    if "list_all (\<lambda>e. case e of Land _ \<Rightarrow> False | _ \<Rightarrow> True) es" for x
    using that
  proof (induction es arbitrary: x)
    case (Cons e es)
    have "schedule (happen e x) = schedule x" by (cases e) (simp_all add: Let_def refresh_view_def split: bucket_write.split)
    with Cons untouched_happen [of e x] show ?case by simp
  qed simp
  moreover assume "sessions_intact (schedule w)"
  ultimately show ?thesis using Cons by (simp add: sessions_intact_def world_moves_def)
qed (simp add: world_moves_def)

interpretation reading: whole_run "\<lambda>w. src w = S \<and> sessions_intact (schedule w)" for S
  by unfold_locales (use untouched_moves in \<open>auto simp: own_step_def\<close>)

lemma swap_keeps:
  assumes "\<And>w. P w \<Longrightarrow> P (snd (world_moves w))" "\<And>w n k. P w \<Longrightarrow> P (w\<lparr>creds := n, cut_at := k\<rparr>)"
  shows "keeps P swapCredentials"
proof (rule keepsI)
  fix w assume "P w"
  obtain es w1 where e: "world_moves w = (es, w1)" by force
  with assms(1) [OF \<open>P w\<close>] have "P w1" by simp
  with assms(2) show "P (snd (swapCredentials w))" by (simp add: swapCredentials_def call_def e split: option.split)
qed

context whole_run
begin

lemma run_verify_cut: "keeps P verify_cut"
proof -
  have "keeps P (verify_one k)" for k
    unfolding verify_one_def Let_def by (intro keeps_rules engine.keeps_reads keeps_ret)
  then have "keeps P (verify_all ks)" for ks
    by (induction ks) (auto intro!: keeps_rules)
  then have "keeps P verifyTarget"
    unfolding verifyTarget_def by (intro keeps_rules engine.keeps_reads)
  moreover have "keeps P (case x of Inl e \<Rightarrow> abort Done (UNVERIFIED e)
      | Inr missing \<Rightarrow> if missing = [] then phase Done else abort Done (NOT_WHOLE missing))" for x
    by (cases x) (auto intro: engine.keeps_marks)
  ultimately show ?thesis
    unfolding verify_cut_def by (intro keeps_bind keeps_seq keeps_catching engine.keeps_marks keeps_ret)
qed

lemma run_cut_over: "(\<And>w n k. P w \<Longrightarrow> P (w\<lparr>creds := n, cut_at := k\<rparr>)) \<Longrightarrow> keeps P cut_over"
  unfolding cut_over_def
  by (intro keeps_rules engine.keeps_marks engine.keeps_set_res engine.keeps_reads keeps_ret run_verify_cut
      swap_keeps moved)

lemma run_keeps:
  assumes "\<And>w n k. P w \<Longrightarrow> P (w\<lparr>creds := n, cut_at := k\<rparr>)"
  shows "keeps P (runStorageMigration p c)"
  unfolding keeps_def
  by (rule run_upto_cut [OF run_cut_over [OF assms, unfolded keeps_def]])
    (auto intro: run_release own_update simp: own_step_def)

end

text \<open>
  C17. The source bucket is only read. Unless a client's own write lands meanwhile, the source holds after a migration what it
  held before, whatever the mode and the outcome: going back is a change of credentials.
\<close>
theorem source_is_only_read:
  assumes "sessions_intact (schedule w)"
  shows "src (snd (runStorageMigration p c w)) = src w"
  using keepsD [OF reading.run_keeps [of "src w" p c], of w] assms by simp

text \<open>Until the swap the credentials stand.\<close>

lemma uncut_happen: "creds (happen e w) = creds w"
  by (cases e) (simp_all add: Let_def refresh_view_def split: bucket_write.split)

interpretation uncut: whole_run "\<lambda>w. cut_at w = None \<and> creds w = n" for n
proof
  show "cut_at (snd (world_moves w)) = None \<and> creds (snd (world_moves w)) = n" if "cut_at w = None \<and> creds w = n" for w
    by (rule moves_keeps [where P = "\<lambda>w. cut_at w = None \<and> creds w = n", OF _ _ that]) (simp_all add: happen_other uncut_happen)
qed (simp add: own_step_def)

lemma cut_over_quiet: "hoare (\<lambda>w. cut_at w = None \<and> creds w = n) cut_over (\<lambda>_ _. True) (\<lambda>w. cut_at w = None \<and> creds w = n)"
proof -
  let ?U = "\<lambda>w. cut_at w = None \<and> creds w = n"
  have swap: "hoare ?U swapCredentials (\<lambda>_ _. True) ?U"
  proof (rule hoareI)
    fix w e w' assume "?U w" and r: "swapCredentials w = (Inl e, w')"
    from uncut.moved [OF this(1)] r show "?U w'"
      by (auto simp: swapCredentials_def call_def split: prod.splits option.splits)
  qed simp
  have rest: "never_throws (seq (set_res (\<lambda>r. r\<lparr>version := Some v\<rparr>))
       (bind (catching (seq rebindStore (ret None)) (\<lambda>e. ret (Some e))) (\<lambda>failed.
          seq (set_res (\<lambda>r. r\<lparr>switched := True\<rparr>))
            (case failed of Some e \<Rightarrow> abort Aborted (CANNOT_BIND e) | None \<Rightarrow> verify_cut))))" for v
    by (intro quiet_seq quiet_bind quiet_catching quiet_marks quiet_ret)
      (auto intro: quiet_marks verify_cut_quiet split: option.split)
  show ?thesis
    unfolding cut_over_def
    by (rule hoare_seq [OF uncut.engine.keeps_marks(1) [unfolded keeps_def]], rule hoare_bind [OF swap])
      (rule hoare_weaken [OF rest [unfolded never_throws_def]]; simp)
qed

text \<open>
  C36. A run that throws has switched nothing: once the credentials name the target, every failure that follows is caught and
  reported in the result.
\<close>
theorem a_run_that_throws_switched_nothing:
  assumes "cut_at w = None" and "runStorageMigration p c w = (Inl e, w')"
  shows "cut_at w' = None \<and> creds w' = creds w"
proof -
  have "hoare (\<lambda>w'. cut_at w' = None \<and> creds w' = creds w) (runStorageMigration p c) (\<lambda>_ _. True)
      (\<lambda>w'. cut_at w' = None \<and> creds w' = creds w)"
    by (rule uncut.run_upto_cut [OF cut_over_quiet]) (auto intro: uncut.run_release uncut.own_update keepsI simp: own_step_def)
  from hoareD_err [OF this _ assms(2)] assms(1) show ?thesis by simp
qed

section \<open>What every exit releases\<close>

definition released :: "mig \<Rightarrow> bool" where
  "released w \<longleftrightarrow> (case row w of None \<Rightarrow> True | Some r \<Rightarrow> ic_resumedAt r \<noteq> None) \<or> resumeFailed (res w) \<noteq> None"

lemma idle_released: "idle w \<Longrightarrow> released w"
  by (auto simp: idle_def released_def split: option.split)

lemma happen_drain: "drain (happen e w) = drain w"
  by (cases e) (simp_all add: Let_def refresh_view_def split: bucket_write.split)

lemma idle_low_moves: "idle w \<and> drain w = d \<Longrightarrow> idle (snd (world_moves w)) \<and> drain (snd (world_moves w)) = d"
  using stable_moves [OF stable_idle, of w] moves_keeps [of "\<lambda>x. drain x = d" w] by (auto simp: happen_drain)

interpretation low: engine_invariant "\<lambda>w. idle w \<and> drain w = d" c 0 for c d
proof
  show "keeps (\<lambda>w. idle w \<and> drain w = d) (beat c 0)"
    by (rule keepsI) (simp add: beat_def bind_get idle_def ret_def)
qed (use idle_low_moves in \<open>auto simp: idle_def view_of_def\<close>)

lemma arm_fails_idle: "hoare idle (armPause c be) (\<lambda>_ _. True) idle"
proof -
  have "hoare idle (arm_row u) (\<lambda>_ _. True) idle" for u
  proof (rule hoareI)
    fix w e w' assume "idle w" and r: "arm_row u w = (Inl e, w')"
    from stable_moves [OF stable_idle this(1)] r show "idle w'"
      by (auto simp: arm_row_def acts_def elim!: call_cases)
  qed simp
  then have row: "hoare (\<lambda>w. idle w \<and> armedUntil w = u) (arm_row u) (\<lambda>_ _. True) idle" for u
    by (rule hoare_pre) simp
  have "hoare idle (bind (get armedUntil) arm_row) (\<lambda>_ _. True) idle"
    by (rule hoare_bind_get) (rule row)
  then show ?thesis
    unfolding armPause_def
    by (rule hoare_seq [rotated]) (rule hoare_updateI, simp add: idle_def view_of_def)
qed

lemma release_releases: "hoare (\<lambda>_. True) release_pause (\<lambda>_. released) (\<lambda>_. False)"
proof -
  have "hoare (\<lambda>_. True) resume_row (\<lambda>_. released) (\<lambda>_. True)"
    unfolding resume_row_def acts_def
    by (rule hoareI; (erule call_cases)?) (auto simp: released_def split: option.split)
  then show ?thesis
    unfolding release_pause_def set_res_def
    by (rule hoare_catching) (rule hoare_updateI, simp add: released_def)
qed

lemma switch_phase_releases: "hoare idle (switch_phase p c) (\<lambda>_. released) released"
proof -
  have given: "hoare (\<lambda>w. idle w \<and> G w) m R released" if "hoare idle m R released" for m :: "(mig, unit) eff" and R G
    by (rule hoare_pre [OF that]) simp
  have stays: "hoare idle m (\<lambda>_. idle) released" if "keeps idle m" for m :: "(mig, unit) eff"
    using that unfolding keeps_def by (rule hoare_weaken) (auto intro: idle_released)
  have hold: "hoare (\<lambda>_. True) (ensuring (hold_and_cut p c be) release_pause) (\<lambda>_. released) released" for be
    by (rule hoare_ensuring [where R = "\<lambda>_ _. True" and R' = "\<lambda>_. True"])
      (auto simp: hoare_def [of _ "hold_and_cut p c be"] split: sum.split intro: hoare_weaken [OF release_releases])
  have arm: "hoare idle (armPause c be) (\<lambda>_ _. True) released" for be
    by (rule hoare_weaken [OF arm_fails_idle]) (auto intro: idle_released)
  have drained: "hoare idle (drain_off p c t) (\<lambda>_. idle) released" for t
    by (rule stays, rule keepsI, rule idle_drain)
  have reset: "hoare idle (update (\<lambda>w. w\<lparr>armedUntil := 0, lapsed := False, episode := 0\<rparr>)) (\<lambda>_. idle) released"
    by (rule hoare_updateI) (simp add: idle_def view_of_def)
  show ?thesis
    unfolding switch_phase_def
    by (rule hoare_bind_get, rule given, rule hoare_seq [OF drained], rule hoare_seq [OF stays [OF idling.keeps_marks(1)]],
        rule hoare_bind_get, rule given, rule hoare_seq [OF reset], rule hoare_seq [OF arm hold])
qed


text \<open>Without the switch, neither the credentials nor the pause row nor the signature floor is touched.\<close>

lemma quiet_happen: "creds (happen e w) = creds w" "row (happen e w) = row w" "inPause (happen e w) = inPause w"
  by (simp_all add: uncut_happen happen_other)

interpretation unswitched: engine_invariant "\<lambda>w. creds w = n \<and> row w = x \<and> drain w = d \<and> \<not> inPause w" c 0 for c n x d
proof
  let ?P = "\<lambda>w. creds w = n \<and> row w = x \<and> drain w = d \<and> \<not> inPause w"
  show "keeps ?P (beat c 0)"
    by (rule keepsI) (simp add: beat_def bind_get ret_def)
  show "?P w \<Longrightarrow> ?P (snd (world_moves w))" for w
    by (rule moves_keeps [where P = ?P]) (simp_all add: quiet_happen happen_drain)
qed simp_all

text \<open>
  Only a switch touches the fortress: planning and copying leave the credentials, the pause row and the
  signature floor as they were, whatever happens meanwhile.
\<close>
theorem only_a_switch_touches_the_fortress:
  assumes "mc_mode c \<noteq> Switch" and "\<not> inPause w" and "runStorageMigration p c w = (r, w')"
  shows "creds w' = creds w \<and> row w' = row w \<and> drain w' = drain w"
proof -
  let ?P = "\<lambda>x. creds x = creds w \<and> row x = row w \<and> drain x = drain w \<and> \<not> inPause x"
  have "hoare ?P (runStorageMigration p c) (\<lambda>_. ?P) ?P"
  proof (rule unswitched.run_shape [OF refl])
    show "hoare ?P (drained p c) (\<lambda>_. ?P) ?P" if "mc_mode c = Switch" using that assms(1) by simp
  qed
  from hoareD [OF this, of w _ w'] hoareD_err [OF this, of w _ w'] assms(2,3) show ?thesis by (cases r) simp_all
qed

section \<open>Two runs\<close>

definition log_a :: session_key where
  "log_a = \<lparr>sk_userId = ''u1'', sk_family = ''claude'', sk_sessionId = ''s1''\<rparr>"
definition log_b :: session_key where
  "log_b = \<lparr>sk_userId = ''u1'', sk_family = ''claude'', sk_sessionId = ''s2''\<rparr>"

definition no_objects :: bucket where "no_objects = \<lparr>b_canon = [], b_side = []\<rparr>"

text \<open>
  A client appends to the first session after its copy, and a purge of the second reaches the source after its own copy.
\<close>

definition busy_start :: mig where
  "busy_start = at_start \<lparr>b_canon = [(log_a, ''ab''), (log_b, ''c'')], b_side = [((log_a, ''session.json''), ''{}'')]\<rparr>
     no_objects ([[Begin, Begin], [Stamp log_b], [], [Land (PutCanon log_a ''abc'')]] @ replicate 15 [] @ [[Land (Drop log_b)]])"

definition shipped_switch :: mig_config where
  "shipped_switch = (mig_defaults Switch)\<lparr>mc_already := []\<rparr>"

definition busy_run :: "(string + unit) \<times> mig" where
  "busy_run = runStorageMigration demo_platform shipped_switch busy_start"

lemma idle_start: "wf_source s \<Longrightarrow> idle (at_start s t sched)"
  by (simp add: idle_def at_start_def view_of_def new_pause_state_def OPEN_def)

lemma busy_idle: "idle busy_start"
  unfolding busy_start_def by (rule idle_start) (simp add: wf_source_def, code_simp)

lemma busy_run_cuts:
  "case cut_at (snd busy_run) of None \<Rightarrow> False
     | Some k \<Rightarrow> c_now k < c_armed k \<and> \<not> gap (snd busy_run) \<and> source_keys k = [log_a] \<and> c_dropped k = [log_b] \<and>
         canon (c_target k) log_a = Some ''abc''"
  by code_simp


theorem source_is_only_read_witness:
  "src (snd (runStorageMigration demo_platform shipped_switch (at_start (src busy_start) no_objects [[Pass 10], [Break ''late'']]))) =
     src busy_start"
  using source_is_only_read [of "at_start (src busy_start) no_objects [[Pass 10], [Break ''late'']]" demo_platform shipped_switch]
  by (simp add: at_start_def sessions_intact_def)

text \<open>The swap of the credentials itself fails.\<close>

definition failing_run :: "(string + unit) \<times> mig" where
  "failing_run = runStorageMigration demo_platform shipped_switch
     (at_start \<lparr>b_canon = [(log_a, ''ab'')], b_side = []\<rparr> no_objects (replicate 20 [] @ [[Break ''the file is locked'']]))"

lemma failing_run_throws: "fst failing_run = Inl ''the file is locked''"
  by code_simp

theorem a_run_that_throws_switched_nothing_witness:
  "fst failing_run = Inl ''the file is locked'' \<and> cut_at (snd failing_run) = None \<and> creds (snd failing_run) = 0"
proof -
  obtain w where run: "failing_run = (Inl ''the file is locked'', w)"
    using failing_run_throws by (metis prod.collapse)
  from a_run_that_throws_switched_nothing [OF _ run [unfolded failing_run_def]] show ?thesis
    by (simp add: run at_start_def)
qed


theorem only_a_switch_touches_the_fortress_witness:
  "creds (snd (runStorageMigration demo_platform (mig_defaults Copy) busy_start)) = 0 \<and>
   row (snd (runStorageMigration demo_platform (mig_defaults Copy) busy_start)) = None"
proof -
  obtain r w where run: "runStorageMigration demo_platform (mig_defaults Copy) busy_start = (r, w)" by force
  from only_a_switch_touches_the_fortress [OF _ _ run] run show ?thesis
    by (simp add: mig_defaults_def busy_start_def at_start_def)
qed

text \<open>
  A read inside the final pass takes 57 seconds; the heartbeat after it arms the next minute in a new row, which the
  daemon reads at its next five-second tick. Before that tick the minute in force runs out, and a purge whose tombstone
  was not in the list just read goes through.
\<close>

definition slipping_run :: "(string + unit) \<times> mig" where
  "slipping_run = runStorageMigration demo_platform shipped_switch
     (at_start \<lparr>b_canon = [(log_a, ''ab'')], b_side = []\<rparr> no_objects
       (replicate 16 [] @ [[Pass 57000], [], [], [Pass 3200, Begin, Stamp log_a, Land (Drop log_a)]]))"

text \<open>
  A purge undone by a clean cut. A heartbeat writes a row and takes it for the gate's; when the minute in force ends
  before the daemon next reads the row, writes reopen behind the final pass without the run noticing. Here a session is
  permanently deleted from the source in that gap, and the run ends done, switched and without a word, with the deleted
  session in the new bucket.
\<close>
theorem a_purge_can_be_undone_by_the_cut:
  "case slipping_run of (r, w) \<Rightarrow>
     r = Inr () \<and> r_phase (res w) = Done \<and> switched (res w) \<and> aborted (res w) = None \<and> dropped w = [log_a] \<and>
     canon (src w) log_a = None \<and> canon (tgt w) log_a = Some ''ab'' \<and> gap w"
  unfolding slipping_run_def shipped_switch_def by code_simp

end
