(* ===== verification/Js_Values.thy ===== *)
theory Js_Values
  imports Prelude
begin

text \<open>
  What the ingest code does to the untyped values it gets from \<open>JSON.parse\<close>: reading a property, \<open>??\<close>, truth, \<open>String(v)\<close> and
  \<open>JSON.stringify(v, null, 2)\<close>. The parser and the printing of a number are the two functions of \<open>js_lib\<close>. A
  value that comes from the parser is never NaN, so \<open>Number None\<close> is an infinity there. Reading a property of null throws; of
  any other value that is not an object it gives undefined (no property the code reads is one of a string or an array).
\<close>

record js_lib =
  jl_parse :: "string \<Rightarrow> js_value option"
  jl_num :: "rat option \<Rightarrow> string"

fun get_prop :: "js_value \<Rightarrow> string \<Rightarrow> js_value" where
  "get_prop (Obj ps) k = js_field ps k"
| "get_prop _ k = Undefined"

definition nullish :: "js_value \<Rightarrow> bool" where
  "nullish v \<longleftrightarrow> v = Undefined \<or> v = Null"

definition nullish_or :: "js_value \<Rightarrow> js_value \<Rightarrow> js_value" where
  "nullish_or a b = (if nullish a then b else a)"

definition present :: "js_value \<Rightarrow> js_value option" where
  "present v = (if nullish v then None else Some v)"

fun truthy :: "js_value \<Rightarrow> bool" where
  "truthy Undefined = False"
| "truthy Null = False"
| "truthy (Bool b) = b"
| "truthy (Number q) = (q \<noteq> Some 0)"
| "truthy (Str s) = (s \<noteq> [])"
| "truthy (Arr xs) = True"
| "truthy (Obj ps) = True"

fun is_object :: "js_value \<Rightarrow> bool" where
  "is_object (Arr xs) = True"
| "is_object (Obj ps) = True"
| "is_object _ = False"

fun elements :: "js_value \<Rightarrow> js_value list option" where
  "elements (Arr xs) = Some xs"
| "elements _ = None"

text \<open>\<open>String(v)\<close>.\<close>

fun to_str :: "js_lib \<Rightarrow> js_value \<Rightarrow> string" where
  "to_str l Undefined = ''undefined''"
| "to_str l Null = ''null''"
| "to_str l (Bool b) = (if b then ''true'' else ''false'')"
| "to_str l (Number q) = jl_num l q"
| "to_str l (Str s) = s"
| "to_str l (Arr xs) = join_with '','' (map (\<lambda>x. if nullish x then [] else to_str l x) xs)"
| "to_str l (Obj ps) = ''[object Object]''"

definition str_or_empty :: "js_lib \<Rightarrow> js_value \<Rightarrow> string" where
  "str_or_empty l v = to_str l (nullish_or v (Str []))"

text \<open>\<open>JSON.stringify(v, null, 2)\<close>.\<close>

definition json_escape :: "char \<Rightarrow> string" where
  "json_escape c =
     (let n = of_char c :: nat in
      if n = 34 then [CHR 0x5C, CHR 0x22]
      else if n = 92 then [CHR 0x5C, CHR 0x5C]
      else if n = 8 then CHR 0x5C # ''b''
      else if n = 9 then CHR 0x5C # ''t''
      else if n = 10 then CHR 0x5C # ''n''
      else if n = 12 then CHR 0x5C # ''f''
      else if n = 13 then CHR 0x5C # ''r''
      else if n < 32 then CHR 0x5C # ''u00'' @ [hex_char (n div 16), hex_char (n mod 16)]
      else [c])"

definition json_quote :: "string \<Rightarrow> string" where
  "json_quote s = [CHR 0x22] @ concat (map json_escape s) @ [CHR 0x22]"

definition newline :: string where "newline = [CHR 0x0A]"

fun stringify :: "js_lib \<Rightarrow> nat \<Rightarrow> js_value \<Rightarrow> string" where
  "stringify l i Undefined = ''null''"
| "stringify l i Null = ''null''"
| "stringify l i (Bool b) = (if b then ''true'' else ''false'')"
| "stringify l i (Number q) = (if q = None then ''null'' else jl_num l q)"
| "stringify l i (Str s) = json_quote s"
| "stringify l i (Arr xs) =
     (if xs = [] then ''[]''
      else ''['' @ newline @ join_with ('','' @ newline) (map (\<lambda>x. replicate (i + 2) (CHR '' '') @ stringify l (i + 2) x) xs)
        @ newline @ replicate i (CHR '' '') @ '']'')"
| "stringify l i (Obj ps) =
     (if ps = [] then ''{}''
      else ''{'' @ newline @ join_with ('','' @ newline)
          (map (\<lambda>p. replicate (i + 2) (CHR '' '') @ json_quote (fst p) @ '': '' @ stringify l (i + 2) (snd p)) ps)
        @ newline @ replicate i (CHR '' '') @ ''}'')"

text \<open>\<open>Number(v) > 0\<close>.\<close>

fun to_num :: "js_lib \<Rightarrow> js_value \<Rightarrow> rat option" where
  "to_num l Undefined = None"
| "to_num l Null = Some 0"
| "to_num l (Bool b) = Some (if b then 1 else 0)"
| "to_num l (Number q) = q"
| "to_num l (Str s) = js_number s"
| "to_num l (Arr xs) = js_number (to_str l (Arr xs))"
| "to_num l (Obj ps) = None"

definition trim_start :: "string \<Rightarrow> string" where
  "trim_start s = dropWhile js_space s"

definition trim_end :: "string \<Rightarrow> string" where
  "trim_end s = rev (dropWhile js_space (rev s))"

definition blank :: "string \<Rightarrow> bool" where
  "blank s \<longleftrightarrow> js_trim s = []"

lemma blank_iff: "blank s \<longleftrightarrow> (\<forall>c \<in> set s. js_space c)"
  by (auto simp: blank_def js_trim_def dropWhile_eq_Nil_conv dest: set_dropWhileD)
    (metis dropWhile_eq_Nil_conv hd_dropWhile hd_in_set)

lemma blank_trim: "blank (js_trim s) = blank s"
proof -
  have "js_trim s = []" if "\<forall>c \<in> set (js_trim s). js_space c"
  proof (rule ccontr)
    let ?r = "dropWhile js_space (rev (dropWhile js_space s))"
    assume "js_trim s \<noteq> []"
    then have "?r \<noteq> []" by (simp add: js_trim_def)
    then have "\<not> js_space (hd ?r)" "hd ?r \<in> set (js_trim s)" by (rule hd_dropWhile, simp add: js_trim_def)
    with that show False by blast
  qed
  then show ?thesis unfolding blank_iff [of "js_trim s"] by (auto simp: blank_def)
qed

section \<open>The lines of a chunk\<close>

text \<open>A line is skipped when it is blank or does not parse; null parses, and reading its first property throws.\<close>

definition parsed_line :: "js_lib \<Rightarrow> string \<Rightarrow> js_value option" where
  "parsed_line l s = (if blank s then None else jl_parse l s)"

definition records :: "js_lib \<Rightarrow> string \<Rightarrow> js_value list" where
  "records l text = concat (map (\<lambda>s. case parsed_line l s of None \<Rightarrow> [] | Some v \<Rightarrow> [v]) (split_on (CHR 0x0A) text))"

definition NULL_RECORD :: string where
  "NULL_RECORD = ''TypeError: Cannot read properties of null''"

lemma split_on_join: "split_on c (a @ c # b) = split_on c a @ split_on c b"
proof (induction a)
  case (Cons x a)
  obtain w ws where "split_on c a = w # ws" by (cases "split_on c a") auto
  with Cons show ?case by auto
qed simp

lemma records_append: "records l (a @ newline @ b) = records l a @ records l b"
  by (simp add: records_def newline_def split_on_join)

lemma records_junk:
  "CHR 0x0A \<notin> set s \<Longrightarrow> parsed_line l s = None \<Longrightarrow> records l s = []"
  by (simp add: records_def split_on_no_sep)

text \<open>A library to run the model on: a parser of the one-line objects the examples use is a table.\<close>

definition table_lib :: "(string \<times> js_value) list \<Rightarrow> js_lib" where
  "table_lib t = \<lparr>jl_parse = map_of t, jl_num = (\<lambda>q. case q of None \<Rightarrow> ''Infinity'' | Some r \<Rightarrow> show_int \<lfloor>r\<rfloor>)\<rparr>"

end
