(* ===== verification/Classify.thy ===== *)
theory Classify
  imports Js_Values
begin

text \<open>
  The transcript classifier (\<open>ingest/classify.ts\<close>): a chunk of JSON lines becomes one item per content block, of ten kinds, in
  the order they were written. The loop over the lines is a fold over \<open>records\<close>; what it carries besides the items is
  the texts it has seen, whether Codex wrote a visible message, and the queue of prompts that wait. An item of the queue
  is consumed by its position in the list, where the code marks the object.
\<close>

section \<open>Items\<close>

datatype turn_kind =
  User_Text | Assistant_Text | Tool_Use | Tool_Result | Thinking | System_Notice | Attachment_Notice | Todo_Reminder
  | Image_Block | Queue_Enqueue

datatype turn_role = User_Role | Assistant_Role | System_Role

fun kind_name :: "turn_kind \<Rightarrow> string" where
  "kind_name User_Text = ''user_text''"
| "kind_name Assistant_Text = ''assistant_text''"
| "kind_name Tool_Use = ''tool_use''"
| "kind_name Tool_Result = ''tool_result''"
| "kind_name Thinking = ''thinking''"
| "kind_name System_Notice = ''system_notice''"
| "kind_name Attachment_Notice = ''attachment_notice''"
| "kind_name Todo_Reminder = ''todo_reminder''"
| "kind_name Image_Block = ''image''"
| "kind_name Queue_Enqueue = ''queue_enqueue''"

record todo_entry =
  td_content :: string
  td_status :: string
  td_activeForm :: "string option"

record pending =
  pe_kind :: turn_kind
  pe_ts :: "js_value option"
  pe_text :: string
  pe_name :: "js_value option"
  pe_input :: string
  pe_content :: string
  pe_isError :: bool
  pe_toolUseId :: "js_value option"
  pe_attachmentKind :: js_value
  pe_items :: "todo_entry list"
  pe_raw :: js_value
  pe_codexFallback :: bool
  pe_codexCompletion :: bool
  pe_consumed :: bool

definition item :: "turn_kind \<Rightarrow> js_value \<Rightarrow> pending" where
  "item k d = \<lparr>pe_kind = k, pe_ts = present (get_prop d ''timestamp''), pe_text = [], pe_name = None, pe_input = [],
     pe_content = [], pe_isError = False, pe_toolUseId = None, pe_attachmentKind = Undefined, pe_items = [], pe_raw = d,
     pe_codexFallback = False, pe_codexCompletion = False, pe_consumed = False\<rparr>"

record classified_event =
  ce_kind :: turn_kind
  ce_role :: turn_role
  ce_ts :: "js_value option"
  ce_text :: string
  ce_toolUseId :: "js_value option"
  ce_toolName :: "js_value option"
  ce_isError :: bool
  ce_raw :: js_value

fun roleForKind :: "turn_kind \<Rightarrow> turn_role" where
  "roleForKind User_Text = User_Role"
| "roleForKind Assistant_Text = Assistant_Role"
| "roleForKind _ = System_Role"

section \<open>Flattening\<close>

definition compactInput :: "js_lib \<Rightarrow> js_value \<Rightarrow> string" where
  "compactInput l v = (if nullish v then [] else case v of Str s \<Rightarrow> s | _ \<Rightarrow> stringify l 0 v)"

definition result_part :: "js_value \<Rightarrow> string option" where
  "result_part b =
     (if \<not> truthy b then None
      else case b of Str s \<Rightarrow> Some s
      | _ \<Rightarrow> if get_prop b ''type'' = Str ''text'' \<and> js_string (get_prop b ''text'') \<noteq> None then js_string (get_prop b ''text'')
             else if get_prop b ''type'' = Str ''image'' then Some ''[image]''
             else js_string (get_prop b ''text''))"

definition flattenToolResultContent :: "js_lib \<Rightarrow> js_value \<Rightarrow> string" where
  "flattenToolResultContent l v =
     (if nullish v then []
      else case v of Str s \<Rightarrow> s
      | Arr bs \<Rightarrow> join_with newline (List.map_filter result_part bs)
      | _ \<Rightarrow> to_str l v)"

definition codex_types :: "bool \<Rightarrow> string list" where
  "codex_types assistant = (if assistant then [''output_text'', ''text''] else [''input_text'', ''text''])"

definition typed_text :: "js_lib \<Rightarrow> string list \<Rightarrow> js_value \<Rightarrow> string option" where
  "typed_text l types b =
     (if truthy b \<and> str_or_empty l (get_prop b ''type'') \<in> set types then js_string (get_prop b ''text'') else None)"

definition flattenCodexTextBlocks :: "js_lib \<Rightarrow> js_value \<Rightarrow> bool \<Rightarrow> string" where
  "flattenCodexTextBlocks l v assistant =
     (case v of Str s \<Rightarrow> s
      | Arr bs \<Rightarrow> join_with (newline @ newline) (List.map_filter (typed_text l (codex_types assistant)) bs)
      | _ \<Rightarrow> [])"

definition compactCodexToolOutput :: "js_lib \<Rightarrow> js_value \<Rightarrow> string" where
  "compactCodexToolOutput l p =
     (let raw = nullish_or (get_prop p ''output'') (nullish_or (get_prop p ''result'') (nullish_or (get_prop p ''tools'') (Str [])))
      in case js_string raw of None \<Rightarrow> compactInput l raw
         | Some s \<Rightarrow> (case jl_parse l s of None \<Rightarrow> s
             | Some v \<Rightarrow> (case js_string (get_prop v ''output'') of Some x \<Rightarrow> x | None \<Rightarrow> stringify l 0 v)))"

definition EXITED :: string where "EXITED = ''Process exited with code ''"

fun exited_nonzero :: "string \<Rightarrow> bool" where
  "exited_nonzero [] = False"
| "exited_nonzero (c # s) =
     ((prefix EXITED (c # s) \<and> (case drop (length EXITED) (c # s) of [] \<Rightarrow> False | d # _ \<Rightarrow> is_digit d \<and> d \<noteq> CHR ''0''))
      \<or> exited_nonzero s)"

definition codexToolErrored :: "js_lib \<Rightarrow> js_value \<Rightarrow> string \<Rightarrow> bool" where
  "codexToolErrored l p out \<longleftrightarrow>
     get_prop p ''status'' = Str ''failed'' \<or> get_prop p ''status'' = Str ''error'' \<or>
     (case js_string (get_prop p ''output'') of None \<Rightarrow> False
      | Some s \<Rightarrow> (case jl_parse l s of None \<Rightarrow> False
          | Some v \<Rightarrow> (case to_num l (nullish_or (get_prop (get_prop v ''metadata'') ''exit_code'') (Number (Some 0))) of
                None \<Rightarrow> False | Some q \<Rightarrow> 0 < q))) \<or>
     exited_nonzero out"

definition isInjectedCodexUserMessage :: "string \<Rightarrow> bool" where
  "isInjectedCodexUserMessage s \<longleftrightarrow> prefix ''# AGENTS.md instructions for '' (trim_start s)"

section \<open>Projection\<close>

definition projectText :: "js_lib \<Rightarrow> pending \<Rightarrow> string" where
  "projectText l p =
     (case pe_kind p of
        Tool_Use \<Rightarrow>
          (let h = trim_end (''tool_use '' @ (case pe_name p of None \<Rightarrow> [] | Some v \<Rightarrow> to_str l v))
           in if pe_input p = [] then h else h @ newline @ pe_input p)
      | Tool_Result \<Rightarrow>
          (let h = ''tool_result'' @ (if pe_isError p then '' (error)'' else [])
           in if pe_content p = [] then h else h @ newline @ pe_content p)
      | Attachment_Notice \<Rightarrow>
          (if truthy (pe_attachmentKind p) then ''attachment '' @ to_str l (pe_attachmentKind p) else ''attachment'')
      | Todo_Reminder \<Rightarrow> join_with newline (filter (\<lambda>c. \<not> blank c) (map td_content (pe_items p)))
      | Image_Block \<Rightarrow> []
      | _ \<Rightarrow> pe_text p)"

section \<open>The state of the loop\<close>

record cstate =
  cs_pending :: "pending list"
  cs_seenText :: "string list"
  cs_seenAssistant :: "string list"
  cs_visible :: bool
  cs_enqueues :: "nat list"

definition cstart :: cstate where
  "cstart = \<lparr>cs_pending = [], cs_seenText = [], cs_seenAssistant = [], cs_visible = False, cs_enqueues = []\<rparr>"

definition push :: "pending \<Rightarrow> cstate \<Rightarrow> cstate" where
  "push p s = s\<lparr>cs_pending := cs_pending s @ [p]\<rparr>"

definition text_key :: "js_lib \<Rightarrow> pending \<Rightarrow> string" where
  "text_key l p = (if pe_codexFallback p then ''fallback'' else ''visible'') @ '':'' @ kind_name (pe_kind p) @ '':'' @
     (case pe_ts p of Some t \<Rightarrow> if truthy t then to_str l t else [] | None \<Rightarrow> []) @ '':'' @ js_trim (pe_text p)"

definition pushText :: "js_lib \<Rightarrow> pending \<Rightarrow> cstate \<Rightarrow> cstate" where
  "pushText l p s =
     (let key = text_key l p; t = js_trim (pe_text p); spoken = (pe_kind p = Assistant_Text) in
      if blank (pe_text p) then s
      else if key \<in> set (cs_seenText s) then s
      else if spoken \<and> pe_codexCompletion p \<and> t \<in> set (cs_seenAssistant s) then s
      else push p (s\<lparr>cs_seenText := cs_seenText s @ [key],
        cs_seenAssistant := (if spoken \<and> \<not> pe_codexCompletion p then cs_seenAssistant s @ [t] else cs_seenAssistant s)\<rparr>))"

section \<open>The lines\<close>

definition event_msg :: "js_lib \<Rightarrow> js_value \<Rightarrow> cstate \<Rightarrow> cstate" where
  "event_msg l d s =
     (let p = nullish_or (get_prop d ''payload'') (Obj []); t = get_prop p ''type'' in
      if t = Str ''user_message'' then
        pushText l ((item User_Text d)\<lparr>pe_text := str_or_empty l (get_prop p ''message'')\<rparr>) (s\<lparr>cs_visible := True\<rparr>)
      else if t = Str ''agent_message'' then
        pushText l ((item Assistant_Text d)\<lparr>pe_text := str_or_empty l (get_prop p ''message'')\<rparr>) (s\<lparr>cs_visible := True\<rparr>)
      else if t = Str ''task_complete'' then
        (case js_string (get_prop p ''last_agent_message'') of None \<Rightarrow> s
         | Some x \<Rightarrow> pushText l ((item Assistant_Text d)\<lparr>pe_text := x, pe_codexCompletion := True\<rparr>) s)
      else s)"

definition reasoning_summary :: "js_lib \<Rightarrow> js_value \<Rightarrow> string" where
  "reasoning_summary l v =
     (case v of Arr xs \<Rightarrow>
        join_with newline (map (to_str l) (filter truthy
          (map (\<lambda>x. case js_string (get_prop x ''text'') of Some s \<Rightarrow> Str s | None \<Rightarrow> x) xs)))
      | _ \<Rightarrow> [])"

definition CALL_TYPES :: "js_value list" where
  "CALL_TYPES = [Str ''function_call'', Str ''custom_tool_call'', Str ''tool_search_call'']"
definition OUTPUT_TYPES :: "js_value list" where
  "OUTPUT_TYPES = [Str ''function_call_output'', Str ''custom_tool_call_output'', Str ''tool_search_output'']"

definition response_item :: "js_lib \<Rightarrow> js_value \<Rightarrow> cstate \<Rightarrow> cstate" where
  "response_item l d s =
     (let p = nullish_or (get_prop d ''payload'') (Obj []); t = get_prop p ''type'';
          callId = present (nullish_or (get_prop p ''call_id'') (get_prop p ''id'')) in
      if t = Str ''message'' then
        (if get_prop p ''role'' = Str ''user'' then
           (let text = flattenCodexTextBlocks l (get_prop p ''content'') False in
            if isInjectedCodexUserMessage text then s
            else pushText l ((item User_Text d)\<lparr>pe_text := text, pe_codexFallback := True\<rparr>) s)
         else if get_prop p ''role'' = Str ''assistant'' then
           pushText l ((item Assistant_Text d)\<lparr>pe_text := flattenCodexTextBlocks l (get_prop p ''content'') True,
             pe_codexFallback := True\<rparr>) s
         else s)
      else if t \<in> set CALL_TYPES then
        push ((item Tool_Use d)\<lparr>pe_toolUseId := callId,
          pe_name := Some (nullish_or (get_prop p ''name'') (Str (if t = Str ''tool_search_call'' then ''tool_search'' else ''(tool)''))),
          pe_input := compactInput l (nullish_or (get_prop p ''arguments'') (nullish_or (get_prop p ''input'') (Obj [])))\<rparr>) s
      else if t \<in> set OUTPUT_TYPES then
        (let out = compactCodexToolOutput l p in
         push ((item Tool_Result d)\<lparr>pe_toolUseId := callId, pe_isError := codexToolErrored l p out, pe_content := out\<rparr>) s)
      else if t = Str ''reasoning'' then
        (let x = reasoning_summary l (get_prop p ''summary'') in
         if blank x then s else push ((item Thinking d)\<lparr>pe_text := x\<rparr>) s)
      else s)"

definition user_block :: "js_lib \<Rightarrow> js_value \<Rightarrow> js_value \<Rightarrow> pending option" where
  "user_block l d b =
     (if \<not> truthy b then None
      else if get_prop b ''type'' = Str ''tool_result'' then
        Some ((item Tool_Result d)\<lparr>pe_toolUseId := present (get_prop b ''tool_use_id''),
          pe_isError := truthy (get_prop b ''is_error''), pe_content := flattenToolResultContent l (get_prop b ''content'')\<rparr>)
      else if get_prop b ''type'' = Str ''text'' \<and> js_string (get_prop b ''text'') \<noteq> None then
        Some ((item User_Text d)\<lparr>pe_text := the (js_string (get_prop b ''text''))\<rparr>)
      else if get_prop b ''type'' = Str ''image'' then Some (item Image_Block d)
      else None)"

definition assistant_block :: "js_lib \<Rightarrow> js_value \<Rightarrow> js_value \<Rightarrow> pending option" where
  "assistant_block l d b =
     (if \<not> truthy b then None
      else if get_prop b ''type'' = Str ''text'' \<and> js_string (get_prop b ''text'') \<noteq> None then
        Some ((item Assistant_Text d)\<lparr>pe_text := the (js_string (get_prop b ''text''))\<rparr>)
      else if get_prop b ''type'' = Str ''thinking'' \<or> get_prop b ''type'' = Str ''redacted_thinking'' then
        (case js_string (get_prop b ''thinking'') of None \<Rightarrow> None
         | Some x \<Rightarrow> if blank x then None else Some ((item Thinking d)\<lparr>pe_text := x\<rparr>))
      else if get_prop b ''type'' = Str ''tool_use'' then
        Some ((item Tool_Use d)\<lparr>pe_toolUseId := present (get_prop b ''id''),
          pe_name := Some (nullish_or (get_prop b ''name'') (Str ''(tool)'')), pe_input := compactInput l (get_prop b ''input'')\<rparr>)
      else None)"

definition message_line :: "(js_value \<Rightarrow> pending option) \<Rightarrow> turn_kind \<Rightarrow> js_value \<Rightarrow> cstate \<Rightarrow> cstate" where
  "message_line block k d s =
     (let c = get_prop (nullish_or (get_prop d ''message'') (Obj [])) ''content'' in
      case c of
        Str x \<Rightarrow> if blank x then s else push ((item k d)\<lparr>pe_text := x\<rparr>) s
      | Arr bs \<Rightarrow> fold push (List.map_filter block bs) s
      | _ \<Rightarrow> s)"

definition system_line :: "js_value \<Rightarrow> cstate \<Rightarrow> cstate" where
  "system_line d s =
     (let m = nullish_or (get_prop d ''message'') d;
          text = (case js_string (get_prop m ''content'') of Some x \<Rightarrow> x
            | None \<Rightarrow> (case js_string (get_prop m ''subtype'') of Some x \<Rightarrow> ''system: '' @ x
                | None \<Rightarrow> (case js_string (get_prop d ''subtype'') of Some x \<Rightarrow> ''system: '' @ x | None \<Rightarrow> ''system event'')))
      in push ((item System_Notice d)\<lparr>pe_text := text\<rparr>) s)"

definition todo_of :: "js_value \<Rightarrow> todo_entry" where
  "todo_of v = \<lparr>td_content = (case js_string (get_prop v ''content'') of Some x \<Rightarrow> x | None \<Rightarrow> []),
     td_status = (case js_string (get_prop v ''status'') of Some x \<Rightarrow> x | None \<Rightarrow> ''pending''),
     td_activeForm = js_string (get_prop v ''activeForm'')\<rparr>"

definition attachment_line :: "js_value \<Rightarrow> cstate \<Rightarrow> cstate" where
  "attachment_line d s =
     (let a = nullish_or (get_prop d ''attachment'') (Obj []);
          kind = nullish_or (get_prop a ''type'') (Str ''attachment'') in
      if kind = Str ''deferred_tools_delta'' \<or> kind = Str ''mcp_instructions_delta'' then s
      else if kind = Str ''todo_reminder'' then
        (let items = (case get_prop a ''content'' of Arr xs \<Rightarrow> map todo_of xs | _ \<Rightarrow> []) in
         if items = [] then s else push ((item Todo_Reminder d)\<lparr>pe_items := items\<rparr>) s)
      else push ((item Attachment_Notice d)\<lparr>pe_attachmentKind := kind\<rparr>) s)"

definition queue_line :: "js_value \<Rightarrow> cstate \<Rightarrow> cstate" where
  "queue_line d s =
     (let opn = get_prop d ''operation'' in
      if opn = Str ''enqueue'' \<and> js_string (get_prop d ''content'') \<noteq> None then
        (push ((item Queue_Enqueue d)\<lparr>pe_text := the (js_string (get_prop d ''content''))\<rparr>) s)
          \<lparr>cs_enqueues := cs_enqueues s @ [length (cs_pending s)]\<rparr>
      else if opn = Str ''dequeue'' \<or> opn = Str ''remove'' then
        (case cs_enqueues s of [] \<Rightarrow> s
         | i # rest \<Rightarrow> s\<lparr>cs_enqueues := rest, cs_pending := (cs_pending s)[i := (cs_pending s ! i)\<lparr>pe_consumed := True\<rparr>]\<rparr>)
      else s)"

definition classify_record :: "js_lib \<Rightarrow> js_value \<Rightarrow> cstate \<Rightarrow> cstate" where
  "classify_record l d s =
     (let t = get_prop d ''type'' in
      if t = Str ''event_msg'' then event_msg l d s
      else if t = Str ''response_item'' then response_item l d s
      else if t = Str ''user'' then message_line (user_block l d) User_Text d s
      else if t = Str ''assistant'' then message_line (assistant_block l d) Assistant_Text d s
      else if t = Str ''system'' then system_line d s
      else if t = Str ''attachment'' then attachment_line d s
      else if t = Str ''summary'' then
        push ((item System_Notice d)\<lparr>pe_text := ''Compacted: '' @ to_str l (nullish_or (get_prop d ''summary'') (Str ''(no summary)''))\<rparr>) s
      else if t = Str ''queue-operation'' then queue_line d s
      else s)"

definition shown :: "bool \<Rightarrow> pending \<Rightarrow> bool" where
  "shown visible p \<longleftrightarrow> \<not> (pe_kind p = Queue_Enqueue \<and> pe_consumed p) \<and> \<not> (visible \<and> pe_codexFallback p)"

definition emitted :: "js_lib \<Rightarrow> pending \<Rightarrow> classified_event" where
  "emitted l p = \<lparr>ce_kind = pe_kind p, ce_role = roleForKind (pe_kind p), ce_ts = pe_ts p, ce_text = projectText l p,
     ce_toolUseId = pe_toolUseId p, ce_toolName = pe_name p, ce_isError = pe_isError p, ce_raw = pe_raw p\<rparr>"

definition emit_all :: "js_lib \<Rightarrow> cstate \<Rightarrow> classified_event list" where
  "emit_all l s = map (emitted l) (filter (shown (cs_visible s)) (cs_pending s))"

text \<open>A null record throws, on the read of its timestamp.\<close>

definition classifyChunk :: "js_lib \<Rightarrow> string \<Rightarrow> string + classified_event list" where
  "classifyChunk l jsonl =
     (let rs = records l jsonl in
      if Null \<in> set rs then Inl NULL_RECORD else Inr (emit_all l (fold (classify_record l) rs cstart)))"

section \<open>Every item comes from its line, in order\<close>

lemma item_fields [simp]:
  "pe_raw (item k d) = d" "pe_kind (item k d) = k" "pe_consumed (item k d) = False" "pe_codexFallback (item k d) = False"
  "pe_text (item k d) = []"
  by (simp_all add: item_def)

definition adds :: "js_value \<Rightarrow> cstate \<Rightarrow> cstate \<Rightarrow> bool" where
  "adds d s s' \<longleftrightarrow> (\<exists>n. map pe_raw (cs_pending s') = map pe_raw (cs_pending s) @ replicate n d)"

lemma adds_none: "cs_pending s' = cs_pending s \<Longrightarrow> adds d s s'"
  unfolding adds_def by (rule exI [of _ 0]) simp

lemma adds_refl [simp]: "adds d s s"
  by (rule adds_none) simp

lemma adds_push: "pe_raw p = d \<Longrightarrow> cs_pending s1 = cs_pending s \<Longrightarrow> adds d s (push p s1)"
  unfolding adds_def by (rule exI [of _ 1]) (simp add: push_def)

lemma adds_pushText: "pe_raw p = d \<Longrightarrow> cs_pending s1 = cs_pending s \<Longrightarrow> adds d s (pushText l p s1)"
  unfolding pushText_def Let_def by (auto intro!: adds_push intro: adds_none)

lemma fold_push: "fold push ps s = s\<lparr>cs_pending := cs_pending s @ ps\<rparr>"
  by (induction ps arbitrary: s) (simp_all add: push_def)

lemma adds_pushes: "(\<And>p. p \<in> set ps \<Longrightarrow> pe_raw p = d) \<Longrightarrow> adds d s (fold push ps s)"
  unfolding adds_def fold_push by (rule exI [of _ "length ps"]) (auto simp: map_replicate_const [symmetric])

lemma user_block_raw: "user_block l d b = Some p \<Longrightarrow> pe_raw p = d"
  by (auto simp: user_block_def split: if_splits)

lemma assistant_block_raw: "assistant_block l d b = Some p \<Longrightarrow> pe_raw p = d"
  by (auto simp: assistant_block_def split: if_splits option.splits)

lemma adds_message: "(\<And>b p. block b = Some p \<Longrightarrow> pe_raw p = d) \<Longrightarrow> adds d s (message_line block k d s)"
  unfolding message_line_def Let_def
  by (auto intro!: adds_push adds_pushes simp: List.map_filter_def split: js_value.split)

lemma raw_consumed: "map pe_raw (xs[i := (xs ! i)\<lparr>pe_consumed := c\<rparr>]) = map pe_raw xs"
  by (cases "i < length xs") (simp_all add: map_update list_update_same_conv list_update_beyond)

lemma adds_queue: "adds d s (queue_line d s)"
  unfolding queue_line_def Let_def push_def adds_def
  by (auto simp: raw_consumed split: list.split intro: exI [of _ 0] exI [of _ 1])

lemma adds_if: "adds d s x \<Longrightarrow> adds d s y \<Longrightarrow> adds d s (if b then x else y)"
  by simp

lemma adds_option: "adds d s x \<Longrightarrow> (\<And>a. adds d s (f a)) \<Longrightarrow> adds d s (case v of None \<Rightarrow> x | Some a \<Rightarrow> f a)"
  by (cases v) simp_all

lemma adds_record: "adds d s (classify_record l d s)"
  unfolding classify_record_def event_msg_def response_item_def system_line_def attachment_line_def Let_def
  by (intro adds_if adds_option adds_pushText adds_push adds_message adds_queue adds_refl)
    (simp_all add: user_block_raw assistant_block_raw)

lemma raws_of_fold:
  "\<exists>ns. length ns = length rs \<and> map pe_raw (cs_pending (fold (classify_record l) rs s)) =
     map pe_raw (cs_pending s) @ concat (map2 replicate ns rs)"
proof (induction rs arbitrary: s)
  case (Cons d rs)
  obtain n where n: "map pe_raw (cs_pending (classify_record l d s)) = map pe_raw (cs_pending s) @ replicate n d"
    using adds_record [of d s l] by (auto simp: adds_def)
  obtain ns where "length ns = length rs" "map pe_raw (cs_pending (fold (classify_record l) rs (classify_record l d s))) =
      map pe_raw (cs_pending (classify_record l d s)) @ concat (map2 replicate ns rs)"
    using Cons.IH by blast
  with n show ?case by (intro exI [of _ "n # ns"]) simp
qed simp

lemma filter_blocks:
  "map f xs = concat (map2 replicate ns rs) \<Longrightarrow> length ns = length rs \<Longrightarrow>
     \<exists>ms. length ms = length rs \<and> map f (filter P xs) = concat (map2 replicate ms rs)"
proof (induction rs arbitrary: ns xs)
  case (Cons d rs)
  then obtain n ns' where ns: "ns = n # ns'" "length ns' = length rs" by (cases ns) auto
  let ?a = "take n xs" and ?b = "drop n xs"
  from Cons.prems ns have "map f ?a = replicate n d" "map f ?b = concat (map2 replicate ns' rs)"
    by (simp_all add: take_map [symmetric] drop_map [symmetric])
  with Cons.IH [OF _ ns(2)] obtain ms where ms: "length ms = length rs" "map f (filter P ?b) = concat (map2 replicate ms rs)"
    by blast
  have "map f (filter P ?a) = replicate (length (filter P ?a)) d"
  proof (rule replicate_eqI [symmetric, THEN sym])
    fix y assume "y \<in> set (map f (filter P ?a))"
    then have "y \<in> set (map f ?a)" by auto
    with \<open>map f ?a = replicate n d\<close> show "y = d" by simp
  qed simp
  moreover have "filter P xs = filter P ?a @ filter P ?b" by (simp flip: filter_append)
  ultimately show ?case using ms by (intro exI [of _ "length (filter P ?a) # ms"]) simp
qed simp

text \<open>
  Items stay with their lines, in order: each record of a chunk contributes a run of consecutive items that carry it as their
  source, and the runs follow one another as the lines do; what the suppression of repeated texts, consumed prompts and
  fallbacks removes never reorders the rest.
\<close>
theorem items_follow_their_lines:
  assumes "classifyChunk l jsonl = Inr out"
  shows "\<exists>ns. length ns = length (records l jsonl) \<and> map ce_raw out = concat (map2 replicate ns (records l jsonl))"
proof -
  let ?s = "fold (classify_record l) (records l jsonl) cstart"
  from assms have out: "out = emit_all l ?s" by (auto simp: classifyChunk_def Let_def split: if_splits)
  obtain ns where "length ns = length (records l jsonl)" "map pe_raw (cs_pending ?s) = concat (map2 replicate ns (records l jsonl))"
    using raws_of_fold [of "records l jsonl" l cstart] by (auto simp: cstart_def)
  from filter_blocks [OF this(2,1), of "shown (cs_visible ?s)"] show ?thesis
    by (simp add: out emit_all_def emitted_def comp_def)
qed

section \<open>Lines that do not parse\<close>

text \<open>
  A line that is blank or does not parse changes nothing, wherever it stands: the classification is that of the chunk without it.
\<close>
theorem junk_lines_are_invisible:
  assumes "CHR 0x0A \<notin> set junk" and "parsed_line l junk = None"
  shows "classifyChunk l (a @ newline @ junk @ newline @ b) = classifyChunk l (a @ newline @ b)"
  by (simp add: classifyChunk_def records_append records_junk [OF assms])

section \<open>What is stateful, and what is not\<close>

text \<open>The records whose items depend on nothing before them, and on which nothing after depends.\<close>

definition plain :: "js_value \<Rightarrow> bool" where
  "plain d \<longleftrightarrow> get_prop d ''type'' \<noteq> Str ''event_msg'' \<and> get_prop d ''type'' \<noteq> Str ''queue-operation'' \<and>
     (get_prop d ''type'' = Str ''response_item'' \<longrightarrow>
        get_prop (nullish_or (get_prop d ''payload'') (Obj [])) ''type'' \<noteq> Str ''message'')"

definition items_of :: "js_lib \<Rightarrow> js_value \<Rightarrow> pending list" where
  "items_of l d = cs_pending (classify_record l d cstart)"

definition grows :: "(cstate \<Rightarrow> cstate) \<Rightarrow> bool" where
  "grows f \<longleftrightarrow> (\<exists>ps. list_all (\<lambda>p. \<not> pe_consumed p \<and> \<not> pe_codexFallback p) ps \<and> (\<forall>s. f s = fold push ps s))"

lemma grows_id: "grows (\<lambda>s. s)"
  unfolding grows_def by (rule exI [of _ "[]"]) simp

lemma grows_push: "\<not> pe_consumed p \<Longrightarrow> \<not> pe_codexFallback p \<Longrightarrow> grows (push p)"
  unfolding grows_def by (rule exI [of _ "[p]"]) simp

lemma grows_push': "\<not> pe_consumed p \<Longrightarrow> \<not> pe_codexFallback p \<Longrightarrow> grows (\<lambda>s. push p s)"
  by (rule grows_push)

lemma grows_pushes: "list_all (\<lambda>p. \<not> pe_consumed p \<and> \<not> pe_codexFallback p) ps \<Longrightarrow> grows (\<lambda>s. fold push ps s)"
  unfolding grows_def by blast

lemma grows_if: "(b \<Longrightarrow> grows f) \<Longrightarrow> (\<not> b \<Longrightarrow> grows g) \<Longrightarrow> grows (\<lambda>s. if b then f s else g s)"
  by (cases b) simp_all

lemma grows_eta: "grows f \<Longrightarrow> grows (\<lambda>s. f s)"
  by simp

lemma user_block_fresh: "user_block l d b = Some p \<Longrightarrow> \<not> pe_consumed p \<and> \<not> pe_codexFallback p"
  by (auto simp: user_block_def split: if_splits)

lemma assistant_block_fresh: "assistant_block l d b = Some p \<Longrightarrow> \<not> pe_consumed p \<and> \<not> pe_codexFallback p"
  by (auto simp: assistant_block_def split: if_splits option.splits)

lemma grows_message:
  assumes "\<And>b p. block b = Some p \<Longrightarrow> \<not> pe_consumed p \<and> \<not> pe_codexFallback p"
  shows "grows (message_line block k d)"
proof -
  have "list_all (\<lambda>p. \<not> pe_consumed p \<and> \<not> pe_codexFallback p) (List.map_filter block bs)" for bs
    using assms by (auto simp: list_all_iff List.map_filter_def)
  then have pushed: "grows (\<lambda>s. fold push (List.map_filter block bs) s)" for bs by (rule grows_pushes)
  show ?thesis
    unfolding message_line_def Let_def
    by (cases "get_prop (nullish_or (get_prop d ''message'') (Obj [])) ''content''")
      (simp_all add: pushed grows_id grows_if grows_push')
qed

lemma grows_system: "grows (system_line d)" and grows_attachment: "grows (attachment_line d)"
  unfolding system_line_def attachment_line_def Let_def by (intro grows_if grows_id grows_push'; simp)+

lemma plain_grows: "plain d \<Longrightarrow> grows (classify_record l d)"
  unfolding classify_record_def Let_def plain_def response_item_def
  by (intro grows_if grows_id grows_push' grows_message grows_eta [OF grows_system] grows_eta [OF grows_attachment])
    (auto dest: user_block_fresh assistant_block_fresh)

lemma plain_record:
  assumes "plain d"
  shows "classify_record l d s = fold push (items_of l d) s" and "p \<in> set (items_of l d) \<Longrightarrow> shown v p"
proof -
  from plain_grows [OF assms] obtain ps where
    ps: "list_all (\<lambda>p. \<not> pe_consumed p \<and> \<not> pe_codexFallback p) ps" "\<And>s. classify_record l d s = fold push ps s"
    by (auto simp: grows_def)
  then have "items_of l d = ps" by (simp add: items_of_def fold_push cstart_def)
  with ps show "classify_record l d s = fold push (items_of l d) s" "p \<in> set (items_of l d) \<Longrightarrow> shown v p"
    by (auto simp: list_all_iff shown_def)
qed

lemma plain_fold:
  "list_all plain rs \<Longrightarrow> fold (classify_record l) rs s = fold push (concat (map (items_of l) rs)) s"
  by (induction rs arbitrary: s) (simp_all add: plain_record)

lemma plain_chunk:
  assumes "list_all plain (records l text)" and "Null \<notin> set (records l text)"
  shows "classifyChunk l text = Inr (map (emitted l) (concat (map (items_of l) (records l text))))"
proof -
  have "filter (shown v) (concat (map (items_of l) (records l text))) = concat (map (items_of l) (records l text))" for v
    using assms(1) by (auto simp: filter_id_conv list_all_iff intro: plain_record)
  then show ?thesis
    using assms by (simp add: classifyChunk_def plain_fold fold_push emit_all_def cstart_def)
qed

text \<open>
  Cutting a transcript into chunks is invisible where no record is stateful: for records other than Codex messages and queue
  operations, classifying two chunks one after the other gives the items of the two chunks joined.
\<close>
theorem plain_transcripts_can_be_cut_anywhere:
  assumes "list_all plain (records l a)" and "list_all plain (records l b)"
    and "classifyChunk l a = Inr xs" and "classifyChunk l b = Inr ys"
  shows "classifyChunk l (a @ newline @ b) = Inr (xs @ ys)"
proof -
  from assms(3,4) have "Null \<notin> set (records l a)" "Null \<notin> set (records l b)"
    by (auto simp: classifyChunk_def Let_def split: if_splits)
  with assms show ?thesis
    using plain_chunk [of l a] plain_chunk [of l b] plain_chunk [of l "a @ newline @ b"]
    by (simp add: records_append)
qed

section \<open>Prompts that wait\<close>

text \<open>The queue as its operations describe it: the texts that were put in and not yet taken out.\<close>

definition queue_step :: "js_value \<Rightarrow> string list \<Rightarrow> string list" where
  "queue_step d q =
     (if get_prop d ''type'' \<noteq> Str ''queue-operation'' then q
      else if get_prop d ''operation'' = Str ''enqueue'' \<and> js_string (get_prop d ''content'') \<noteq> None
        then q @ [the (js_string (get_prop d ''content''))]
      else if get_prop d ''operation'' = Str ''dequeue'' \<or> get_prop d ''operation'' = Str ''remove'' then tl q
      else q)"

definition waits :: "pending \<Rightarrow> bool" where
  "waits p \<longleftrightarrow> pe_kind p = Queue_Enqueue \<and> \<not> pe_consumed p"

definition waiting :: "pending list \<Rightarrow> nat list" where
  "waiting ps = filter (\<lambda>i. waits (ps ! i)) [0..<length ps]"

definition queued :: "cstate \<Rightarrow> string list \<Rightarrow> bool" where
  "queued s q \<longleftrightarrow> cs_enqueues s = waiting (cs_pending s) \<and> q = map (\<lambda>i. pe_text (cs_pending s ! i)) (cs_enqueues s) \<and>
     list_all (\<lambda>p. pe_kind p = Queue_Enqueue \<longrightarrow> \<not> pe_codexFallback p) (cs_pending s)"

lemma waiting_snoc: "waiting (ps @ [p]) = waiting ps @ (if waits p then [length ps] else [])"
  by (auto simp: waiting_def nth_append intro: filter_cong)

lemma waiting_bound: "i \<in> set (waiting ps) \<Longrightarrow> i < length ps"
  by (auto simp: waiting_def)

lemma waiting_append: "list_all (\<lambda>p. pe_kind p \<noteq> Queue_Enqueue) qs \<Longrightarrow> waiting (ps @ qs) = waiting ps"
proof (induction qs rule: rev_induct)
  case (snoc q qs)
  then show ?case using waiting_snoc [of "ps @ qs" q] by (simp add: waits_def)
qed simp

lemma filter_waits: "filter waits ps = map ((!) ps) (waiting ps)"
proof (induction ps rule: rev_induct)
  case (snoc p ps)
  have "map ((!) (ps @ [p])) (waiting ps) = map ((!) ps) (waiting ps)"
    by (rule map_cong) (auto simp: nth_append dest: waiting_bound)
  with snoc show ?case by (simp add: waiting_snoc)
qed (simp add: waiting_def)

definition others :: "cstate \<Rightarrow> cstate \<Rightarrow> bool" where
  "others s s' \<longleftrightarrow> cs_enqueues s' = cs_enqueues s \<and>
     (\<exists>ps. cs_pending s' = cs_pending s @ ps \<and> list_all (\<lambda>p. pe_kind p \<noteq> Queue_Enqueue) ps)"

lemma others_same: "cs_pending s' = cs_pending s \<Longrightarrow> cs_enqueues s' = cs_enqueues s \<Longrightarrow> others s s'"
  unfolding others_def by (auto intro: exI [of _ "[]"])

lemma others_push:
  "pe_kind p \<noteq> Queue_Enqueue \<Longrightarrow> cs_pending s1 = cs_pending s \<Longrightarrow> cs_enqueues s1 = cs_enqueues s \<Longrightarrow> others s (push p s1)"
  unfolding others_def by (simp add: push_def)

lemma others_pushText:
  "pe_kind p \<noteq> Queue_Enqueue \<Longrightarrow> cs_pending s1 = cs_pending s \<Longrightarrow> cs_enqueues s1 = cs_enqueues s \<Longrightarrow> others s (pushText l p s1)"
  unfolding pushText_def Let_def by (auto intro!: others_push intro: others_same)

lemma others_message:
  assumes "\<And>b p. block b = Some p \<Longrightarrow> pe_kind p \<noteq> Queue_Enqueue" and "k \<noteq> Queue_Enqueue"
  shows "others s (message_line block k d s)"
proof -
  have "others s (fold push (List.map_filter block bs) s)" for bs
    using assms(1) unfolding others_def fold_push by (auto simp: list_all_iff List.map_filter_def)
  with assms(2) show ?thesis
    unfolding message_line_def Let_def
    by (auto intro!: others_push intro: others_same split: js_value.split)
qed

lemma others_if: "others s x \<Longrightarrow> others s y \<Longrightarrow> others s (if b then x else y)"
  by simp

lemma others_option: "others s x \<Longrightarrow> (\<And>a. others s (f a)) \<Longrightarrow> others s (case v of None \<Rightarrow> x | Some a \<Rightarrow> f a)"
  by (cases v) simp_all

lemma user_block_kind: "user_block l d b = Some p \<Longrightarrow> pe_kind p \<noteq> Queue_Enqueue"
  by (auto simp: user_block_def split: if_splits)

lemma assistant_block_kind: "assistant_block l d b = Some p \<Longrightarrow> pe_kind p \<noteq> Queue_Enqueue"
  by (auto simp: assistant_block_def split: if_splits option.splits)

lemma others_record:
  assumes "get_prop d ''type'' \<noteq> Str ''queue-operation''"
  shows "others s (classify_record l d s)"
proof -
  have "others s (event_msg l d s)" "others s (response_item l d s)" "others s (system_line d s)" "others s (attachment_line d s)"
    unfolding event_msg_def response_item_def system_line_def attachment_line_def Let_def
    by (intro others_if others_option others_pushText others_push others_same; simp)+
  moreover have "others s (message_line (user_block l d) User_Text d s)" "others s (message_line (assistant_block l d) Assistant_Text d s)"
    by (intro others_message; auto dest: user_block_kind assistant_block_kind)+
  ultimately show ?thesis
    using assms unfolding classify_record_def Let_def by (simp add: others_push others_same)
qed

lemma queued_others: "queued s q \<Longrightarrow> others s s' \<Longrightarrow> queued s' q"
  unfolding queued_def others_def
  by (auto simp: waiting_append nth_append list_all_iff dest: waiting_bound)

lemma waiting_taken:
  assumes "waiting ps = i # rest"
  shows "waiting (ps[i := (ps ! i)\<lparr>pe_consumed := True\<rparr>]) = rest"
proof -
  let ?ps = "ps[i := (ps ! i)\<lparr>pe_consumed := True\<rparr>]"
  have i: "i < length ps" using assms waiting_bound [of i ps] by simp
  then have "waits (?ps ! j) \<longleftrightarrow> waits (ps ! j) \<and> j \<noteq> i" for j
    by (cases "j = i") (auto simp: waits_def)
  then have "waiting ?ps = filter (\<lambda>j. j \<noteq> i) (waiting ps)"
    by (auto simp: waiting_def intro: filter_cong)
  moreover have "distinct (waiting ps)" by (simp add: waiting_def)
  ultimately show ?thesis using assms by (auto simp: filter_id_conv)
qed

lemma queued_step: "queued s q \<Longrightarrow> queued (classify_record l d s) (queue_step d q)"
proof (cases "get_prop d ''type'' = Str ''queue-operation''")
  case False
  assume "queued s q"
  with others_record [OF False] queued_others False show ?thesis by (simp add: queue_step_def)
next
  case True
  assume q: "queued s q"
  have rec: "classify_record l d s = queue_line d s"
    using True by (simp add: classify_record_def)
  let ?o = "get_prop d ''operation''"
  consider x where "?o = Str ''enqueue''" "js_string (get_prop d ''content'') = Some x"
    | "\<not> (?o = Str ''enqueue'' \<and> js_string (get_prop d ''content'') \<noteq> None)" "?o = Str ''dequeue'' \<or> ?o = Str ''remove''"
    | "\<not> (?o = Str ''enqueue'' \<and> js_string (get_prop d ''content'') \<noteq> None)" "\<not> (?o = Str ''dequeue'' \<or> ?o = Str ''remove'')"
    by blast
  then show ?thesis
  proof cases
    case (1 x)
    have "map (\<lambda>i. pe_text ((cs_pending s @ [p]) ! i)) (waiting (cs_pending s)) =
        map (\<lambda>i. pe_text (cs_pending s ! i)) (waiting (cs_pending s))" for p
      by (rule map_cong) (auto simp: nth_append dest: waiting_bound)
    with 1 True q show ?thesis
      by (simp add: rec queue_line_def queue_step_def queued_def push_def waiting_snoc waits_def)
  next
    case 2
    show ?thesis
    proof (cases "cs_enqueues s")
      case Nil
      with 2 True q show ?thesis by (auto simp: rec queue_line_def queue_step_def queued_def)
    next
      case (Cons i rest)
      with q have w: "waiting (cs_pending s) = i # rest" by (simp add: queued_def)
      have "distinct (waiting (cs_pending s))" by (simp add: waiting_def)
      with w waiting_bound [of i "cs_pending s"] have "i < length (cs_pending s)" "distinct (i # rest)" by simp_all
      moreover have "i \<notin> set rest" using calculation(2) by simp
      then have "map (\<lambda>j. pe_text ((cs_pending s)[i := p] ! j)) rest = map (\<lambda>j. pe_text (cs_pending s ! j)) rest" for p
        by (intro map_cong refl) (metis nth_list_update_neq)
      moreover have "list_all (\<lambda>p. pe_kind p = Queue_Enqueue \<longrightarrow> \<not> pe_codexFallback p)
          ((cs_pending s)[i := (cs_pending s ! i)\<lparr>pe_consumed := True\<rparr>])"
        using q \<open>i < length (cs_pending s)\<close> set_update_subset_insert [of "cs_pending s" i]
        by (fastforce simp: queued_def list_all_iff)
      moreover have "classify_record l d s = s\<lparr>cs_enqueues := rest,
          cs_pending := (cs_pending s)[i := (cs_pending s ! i)\<lparr>pe_consumed := True\<rparr>]\<rparr>"
        unfolding rec queue_line_def Let_def using 2 Cons by (simp only: if_False if_True list.case)
      moreover have "queue_step d q = tl q" unfolding queue_step_def using 2 True by (simp only: if_False if_True simp_thms)
      ultimately show ?thesis
        using q Cons waiting_taken [OF w] by (simp add: queued_def)
    qed
  next
    case 3
    with True q show ?thesis by (auto simp: rec queue_line_def queue_step_def)
  qed
qed

text \<open>
  C38. The prompts still shown as waiting are the queue's contents: however its operations are interleaved with the rest of a
  chunk, the queued texts among the items are those enqueued and not yet taken, first in first out.
\<close>
theorem waiting_prompts_are_the_queue:
  assumes "classifyChunk l jsonl = Inr out"
  shows "map ce_text (filter (\<lambda>e. ce_kind e = Queue_Enqueue) out) = fold queue_step (records l jsonl) []"
proof -
  let ?s = "fold (classify_record l) (records l jsonl) cstart"
  have run: "queued s q \<Longrightarrow> queued (fold (classify_record l) rs s) (fold queue_step rs q)" for rs s q
    by (induction rs arbitrary: s q) (auto intro: queued_step)
  have "queued cstart []" by (simp add: queued_def cstart_def waiting_def)
  then have q: "queued ?s (fold queue_step (records l jsonl) [])" by (rule run)
  from assms have "out = emit_all l ?s" by (auto simp: classifyChunk_def Let_def split: if_splits)
  moreover have "filter (\<lambda>e. ce_kind e = Queue_Enqueue) (emit_all l ?s) = map (emitted l) (filter waits (cs_pending ?s))"
    using q unfolding emit_all_def filter_map filter_filter
    by (intro arg_cong [where f = "map (emitted l)"] filter_cong)
      (auto simp: emitted_def shown_def waits_def queued_def list_all_iff)
  moreover have "map (ce_text \<circ> emitted l) (filter waits (cs_pending ?s)) = map pe_text (filter waits (cs_pending ?s))"
    by (rule map_cong) (auto simp: emitted_def projectText_def waits_def)
  ultimately show ?thesis
    using q by (simp add: filter_waits queued_def comp_def)
qed

end
