(* ===== verification/Parse_Chunk.thy ===== *)
theory Parse_Chunk
  imports Classify
begin

text \<open>
  What one chunk of a transcript contributes to its session (\<open>ingest/parse.ts\<close>, \<open>ingest/pricing.ts\<close>): the counts, tokens, cost
  and last texts of its records, its tool calls, and a turn for each classified item. Tokens and costs are
  exact rationals, where the code adds doubles. The names a JavaScript object inherits (\<open>constructor\<close> and the like) are
  not found in the price table.
\<close>

section \<open>Prices\<close>

record token_usage =
  tu_input :: rat
  tu_output :: rat
  tu_cacheRead :: rat
  tu_cacheCreation :: rat

record model_price =
  mp_input :: rat
  mp_output :: rat
  mp_cacheRead :: rat
  mp_cacheWrite :: rat

definition anthropic :: "rat \<Rightarrow> rat \<Rightarrow> model_price" where
  "anthropic i out = \<lparr>mp_input = i, mp_output = out, mp_cacheRead = i / 10, mp_cacheWrite = i * 5 / 4\<rparr>"

definition gpt_price :: model_price where
  "gpt_price = \<lparr>mp_input = 5 / 4, mp_output = 10, mp_cacheRead = 1 / 8, mp_cacheWrite = 5 / 4\<rparr>"

definition glm_price :: model_price where
  "glm_price = \<lparr>mp_input = 3 / 5, mp_output = 11 / 5, mp_cacheRead = 11 / 100, mp_cacheWrite = 3 / 5\<rparr>"

definition PRICES :: "(string \<times> model_price) list" where
  "PRICES =
     [(''claude-fable-5'', anthropic 10 50), (''claude-opus-4-8'', anthropic 5 25), (''claude-opus-4-7'', anthropic 5 25),
      (''claude-opus-4-6'', anthropic 5 25), (''claude-opus-4-5'', anthropic 5 25), (''claude-sonnet-4-6'', anthropic 3 15),
      (''claude-sonnet-4-5'', anthropic 3 15), (''claude-haiku-4-5'', anthropic 1 5), (''gpt-5'', gpt_price),
      (''gpt-5-codex'', gpt_price), (''glm-4.5'', glm_price), (''glm-4.6'', glm_price), (''glm-5.2'', glm_price)]"

definition priceForModel :: "string option \<Rightarrow> model_price option" where
  "priceForModel model = (case model of None \<Rightarrow> None
     | Some m \<Rightarrow> if m = [] then None
         else (case map_of PRICES m of Some p \<Rightarrow> Some p
           | None \<Rightarrow> map_option snd (find (\<lambda>(key, _). prefix key (js_lower m)) PRICES)))"

definition costUsd :: "string option \<Rightarrow> token_usage \<Rightarrow> rat" where
  "costUsd model u = (case priceForModel model of None \<Rightarrow> 0
     | Some p \<Rightarrow> (tu_input u * mp_input p + tu_output u * mp_output p + tu_cacheRead u * mp_cacheRead p +
         tu_cacheCreation u * mp_cacheWrite p) / 1000000)"

section \<open>What a chunk yields\<close>

definition MAX_BODY :: nat where "MAX_BODY = 4000"
definition MAX_TEXT :: nat where "MAX_TEXT = 40000"

record parsed_turn =
  pt_role :: turn_role
  pt_kind :: turn_kind
  pt_eventTs :: "js_value option"
  pt_text :: "string option"
  pt_rawEvent :: js_value

record parsed_tool_call =
  tc_toolUseId :: string
  tc_toolName :: "string option"
  tc_input :: "js_value option"
  tc_result :: "js_value option"
  tc_isError :: bool
  tc_eventTs :: "string option"

record rollup =
  eventCount :: nat
  userTextCount :: nat
  assistantCount :: nat
  toolCallCount :: nat
  inputTokens :: rat
  outputTokens :: rat
  cacheReadTokens :: rat
  cacheCreationTokens :: rat
  cost :: rat
  lastUserText :: "string option"
  lastAssistantText :: "string option"
  firstActivityAt :: "string option"
  lastActivityAt :: "string option"
  lastModel :: "string option"
  toolCalls :: "parsed_tool_call list"

record parsed_chunk = rollup +
  turns :: "parsed_turn list"

definition no_rollup :: rollup where
  "no_rollup = \<lparr>eventCount = 0, userTextCount = 0, assistantCount = 0, toolCallCount = 0, inputTokens = 0, outputTokens = 0,
     cacheReadTokens = 0, cacheCreationTokens = 0, cost = 0, lastUserText = None, lastAssistantText = None,
     firstActivityAt = None, lastActivityAt = None, lastModel = None, toolCalls = []\<rparr>"

fun num :: "js_value \<Rightarrow> rat" where
  "num (Number (Some q)) = q"
| "num _ = 0"

definition ellipsis :: string where "ellipsis = [CHR 0xE2, CHR 0x80, CHR 0xA6]"

definition bodyText :: "string \<Rightarrow> string" where
  "bodyText text = (let t = js_trim text in
     if MAX_BODY < length t then take MAX_BODY t @ newline @ newline @ ellipsis else t)"

definition clip :: "string \<Rightarrow> string" where
  "clip text = (let t = js_trim text in
     if MAX_TEXT < length t then take MAX_TEXT t @ newline @ newline @ ''[truncated '' @ show_nat (length t - MAX_TEXT) @ '' chars]''
     else t)"

definition block_text :: "js_lib \<Rightarrow> string list \<Rightarrow> js_value \<Rightarrow> string option" where
  "block_text l types b =
     (if is_object b \<and> str_or_empty l (get_prop b ''type'') \<in> set types then js_string (get_prop b ''text'') else None)"

definition blocksText :: "js_lib \<Rightarrow> js_value \<Rightarrow> string list \<Rightarrow> string" where
  "blocksText l content types =
     (case content of Str s \<Rightarrow> s
      | Arr bs \<Rightarrow> join_with (newline @ newline) (List.map_filter (block_text l types) bs)
      | _ \<Rightarrow> [])"

definition eventTimestamp :: "js_value \<Rightarrow> string option" where
  "eventTimestamp d = or_else (js_string (get_prop d ''timestamp'')) (js_string (get_prop (get_prop d ''message'') ''timestamp''))"

definition tool_result_call :: "js_lib \<Rightarrow> string option \<Rightarrow> js_value \<Rightarrow> parsed_tool_call option" where
  "tool_result_call l ts b =
     (if is_object b \<and> str_or_empty l (get_prop b ''type'') = ''tool_result''
      then Some \<lparr>tc_toolUseId = (case js_string (get_prop b ''tool_use_id'') of None \<Rightarrow> [] | Some s \<Rightarrow> s), tc_toolName = None,
        tc_input = None, tc_result = Some (Obj [(''content'', nullish_or (get_prop b ''content'') Null)]),
        tc_isError = (get_prop b ''is_error'' = Bool True), tc_eventTs = ts\<rparr>
      else None)"

definition tool_use_call :: "js_lib \<Rightarrow> string option \<Rightarrow> js_value \<Rightarrow> parsed_tool_call option" where
  "tool_use_call l ts b =
     (if is_object b \<and> str_or_empty l (get_prop b ''type'') = ''tool_use''
      then Some \<lparr>tc_toolUseId = (case js_string (get_prop b ''id'') of None \<Rightarrow> [] | Some s \<Rightarrow> s),
        tc_toolName = js_string (get_prop b ''name''),
        tc_input = (case get_prop b ''input'' of Obj ps \<Rightarrow> Some (Obj ps) | _ \<Rightarrow> None), tc_result = None,
        tc_isError = False, tc_eventTs = ts\<rparr>
      else None)"

definition handleUser :: "js_lib \<Rightarrow> js_value \<Rightarrow> string option \<Rightarrow> string list \<Rightarrow> rollup \<Rightarrow> rollup" where
  "handleUser l content ts types r =
     (let joined = js_trim (blocksText l content types);
          r1 = (if joined = [] then r else r\<lparr>userTextCount := userTextCount r + 1, lastUserText := Some (bodyText joined)\<rparr>)
      in case content of Arr bs \<Rightarrow> r1\<lparr>toolCalls := toolCalls r1 @ List.map_filter (tool_result_call l ts) bs\<rparr> | _ \<Rightarrow> r1)"

definition handleAssistant :: "js_lib \<Rightarrow> js_value \<Rightarrow> string option \<Rightarrow> string list \<Rightarrow> rollup \<Rightarrow> rollup" where
  "handleAssistant l content ts types r =
     (let joined = js_trim (blocksText l content types);
          r1 = (if joined = [] then r else r\<lparr>assistantCount := assistantCount r + 1, lastAssistantText := Some (bodyText joined)\<rparr>)
      in case content of
           Arr bs \<Rightarrow> (let calls = List.map_filter (tool_use_call l ts) bs
             in r1\<lparr>toolCalls := toolCalls r1 @ calls, toolCallCount := toolCallCount r1 + length calls\<rparr>)
         | _ \<Rightarrow> r1)"

definition usage_of :: "js_value \<Rightarrow> token_usage" where
  "usage_of u = \<lparr>tu_input = num (get_prop u ''input_tokens''), tu_output = num (get_prop u ''output_tokens''),
     tu_cacheRead = num (get_prop u ''cache_read_input_tokens''), tu_cacheCreation = num (get_prop u ''cache_creation_input_tokens'')\<rparr>"

definition add_usage :: "js_value \<Rightarrow> rollup \<Rightarrow> rollup" where
  "add_usage d r =
     (let m = nullish_or (get_prop d ''message'') (Obj []); raw = get_prop m ''usage'' in
      if \<not> is_object raw then r
      else let u = usage_of raw; model = js_string (get_prop m ''model'') in
        r\<lparr>inputTokens := inputTokens r + tu_input u, outputTokens := outputTokens r + tu_output u,
          cacheReadTokens := cacheReadTokens r + tu_cacheRead u, cacheCreationTokens := cacheCreationTokens r + tu_cacheCreation u,
          lastModel := (if absent model then lastModel r else model), cost := cost r + costUsd model u\<rparr>)"

definition add_activity :: "string option \<Rightarrow> rollup \<Rightarrow> rollup" where
  "add_activity ts r =
     (if absent ts then r else r\<lparr>firstActivityAt := or_else (firstActivityAt r) ts, lastActivityAt := ts\<rparr>)"

definition add_content :: "js_lib \<Rightarrow> string option \<Rightarrow> js_value \<Rightarrow> rollup \<Rightarrow> rollup" where
  "add_content l ts d r =
     (let t = str_or_empty l (get_prop d ''type''); content = get_prop (nullish_or (get_prop d ''message'') (Obj [])) ''content'';
          p = get_prop d ''payload'' in
      if t = ''user'' then handleUser l content ts [''text''] r
      else if t = ''assistant'' then handleAssistant l content ts [''text''] r
      else if t = ''event_msg'' \<and> truthy p then
        (case js_string (get_prop p ''message'') of None \<Rightarrow> r
         | Some m \<Rightarrow> if get_prop p ''type'' = Str ''user_message''
             then r\<lparr>userTextCount := userTextCount r + 1, lastUserText := Some (bodyText m)\<rparr>
             else if get_prop p ''type'' = Str ''agent_message''
             then r\<lparr>assistantCount := assistantCount r + 1, lastAssistantText := Some (bodyText m)\<rparr>
             else r)
      else if t = ''response_item'' \<and> truthy p then
        (if get_prop p ''type'' = Str ''message'' \<and> get_prop p ''role'' = Str ''user''
         then handleUser l (get_prop p ''content'') ts [''input_text'', ''text''] r
         else if get_prop p ''type'' = Str ''message'' \<and> get_prop p ''role'' = Str ''assistant''
         then handleAssistant l (get_prop p ''content'') ts [''output_text'', ''text''] r
         else r)
      else r)"

definition parse_record :: "js_lib \<Rightarrow> js_value \<Rightarrow> rollup \<Rightarrow> rollup" where
  "parse_record l d r =
     (let ts = eventTimestamp d in
      add_content l ts d (add_usage d (add_activity ts (r\<lparr>eventCount := eventCount r + 1\<rparr>))))"

definition turn_of :: "classified_event \<Rightarrow> parsed_turn" where
  "turn_of e = (let t = clip (ce_text e) in
     \<lparr>pt_role = ce_role e, pt_kind = ce_kind e, pt_eventTs = ce_ts e, pt_text = (if t = [] then None else Some t),
      pt_rawEvent = ce_raw e\<rparr>)"

definition rollup_of :: "js_lib \<Rightarrow> js_value list \<Rightarrow> rollup" where
  "rollup_of l rs = fold (parse_record l) rs no_rollup"

definition parseChunk :: "js_lib \<Rightarrow> string \<Rightarrow> string + parsed_chunk" where
  "parseChunk l jsonl = (case classifyChunk l jsonl of Inl e \<Rightarrow> Inl e
     | Inr items \<Rightarrow> Inr (rollup.extend (rollup_of l (records l jsonl)) (parsed_chunk.fields (map turn_of items))))"

section \<open>Chunks add up\<close>

definition plus_rollup :: "rollup \<Rightarrow> rollup \<Rightarrow> rollup" where
  "plus_rollup a b = \<lparr>eventCount = eventCount a + eventCount b, userTextCount = userTextCount a + userTextCount b,
     assistantCount = assistantCount a + assistantCount b, toolCallCount = toolCallCount a + toolCallCount b,
     inputTokens = inputTokens a + inputTokens b, outputTokens = outputTokens a + outputTokens b,
     cacheReadTokens = cacheReadTokens a + cacheReadTokens b,
     cacheCreationTokens = cacheCreationTokens a + cacheCreationTokens b, cost = cost a + cost b,
     lastUserText = or_else (lastUserText b) (lastUserText a), lastAssistantText = or_else (lastAssistantText b) (lastAssistantText a),
     firstActivityAt = or_else (firstActivityAt a) (firstActivityAt b), lastActivityAt = or_else (lastActivityAt b) (lastActivityAt a),
     lastModel = or_else (lastModel b) (lastModel a), toolCalls = toolCalls a @ toolCalls b\<rparr>"

lemma or_else_assoc: "or_else a (or_else b c) = or_else (or_else a b) c"
  by (cases a) simp_all

lemma plus_assoc: "plus_rollup a (plus_rollup b c) = plus_rollup (plus_rollup a b) c"
  by (simp add: plus_rollup_def or_else_assoc)

lemma plus_zero [simp]: "plus_rollup no_rollup a = a" "plus_rollup a no_rollup = a"
  by (simp_all add: plus_rollup_def no_rollup_def)

text \<open>Each part of a step adds what it would add to an empty record.\<close>

definition adding :: "(rollup \<Rightarrow> rollup) \<Rightarrow> bool" where
  "adding f \<longleftrightarrow> (\<forall>a b. f (plus_rollup a b) = plus_rollup a (f b))"

lemma adding_id: "adding (\<lambda>r. r)"
  by (simp add: adding_def)

lemma adding_comp: "adding f \<Longrightarrow> adding g \<Longrightarrow> adding (\<lambda>r. f (g r))"
  by (simp add: adding_def)

lemma adding_if: "adding f \<Longrightarrow> adding g \<Longrightarrow> adding (\<lambda>r. if b then f r else g r)"
  by (cases b) simp_all

lemma adding_option: "adding f \<Longrightarrow> (\<And>x. adding (g x)) \<Longrightarrow> adding (\<lambda>r. case v of None \<Rightarrow> f r | Some x \<Rightarrow> g x r)"
  by (cases v) simp_all

lemma adding_count:
  "adding (\<lambda>r. r\<lparr>eventCount := eventCount r + n\<rparr>)"
  "adding (\<lambda>r. r\<lparr>userTextCount := userTextCount r + n, lastUserText := Some x\<rparr>)"
  "adding (\<lambda>r. r\<lparr>assistantCount := assistantCount r + n, lastAssistantText := Some x\<rparr>)"
  by (simp_all add: adding_def plus_rollup_def)

lemma adding_activity: "adding (add_activity ts)"
  by (cases ts) (auto simp: adding_def add_activity_def plus_rollup_def or_else_assoc)

lemma adding_usage: "adding (add_usage d)"
  by (cases "js_string (get_prop (nullish_or (get_prop d ''message'') (Obj [])) ''model'')")
    (auto simp: adding_def add_usage_def Let_def plus_rollup_def)

lemma adding_user: "adding (handleUser l content ts types)"
  by (auto simp: adding_def handleUser_def Let_def plus_rollup_def split: js_value.split)

lemma adding_assistant: "adding (handleAssistant l content ts types)"
  by (auto simp: adding_def handleAssistant_def Let_def plus_rollup_def split: js_value.split)

lemma adding_content: "adding (add_content l ts d)"
  unfolding add_content_def Let_def
  by (intro adding_if adding_option adding_id adding_count adding_user adding_assistant)

lemma adding_record: "adding (parse_record l d)"
  unfolding parse_record_def Let_def
  by (rule adding_comp [OF adding_content adding_comp [OF adding_usage adding_comp [OF adding_activity adding_count(1)]]])

lemma adding_fold: "fold (parse_record l) rs (plus_rollup a b) = plus_rollup a (fold (parse_record l) rs b)"
  using adding_record by (induction rs arbitrary: b) (simp_all add: adding_def)

lemma rollup_of_append: "rollup_of l (rs @ ss) = plus_rollup (rollup_of l rs) (rollup_of l ss)"
  using adding_fold [of l ss "rollup_of l rs" no_rollup] by (simp add: rollup_of_def)

section \<open>Properties\<close>

lemma classify_fails: "classifyChunk l text = Inl e \<longleftrightarrow> Null \<in> set (records l text) \<and> e = NULL_RECORD"
  by (auto simp: classifyChunk_def Let_def)

lemma parse_rollup: "parseChunk l text = Inr x \<Longrightarrow> rollup.truncate x = rollup_of l (records l text) \<and> Null \<notin> set (records l text)"
  by (auto simp: parseChunk_def rollup.defs parsed_chunk.defs classifyChunk_def Let_def split: sum.splits if_splits)

lemma parse_fails: "parseChunk l text = Inl e \<longleftrightarrow> Null \<in> set (records l text) \<and> e = NULL_RECORD"
  by (auto simp: parseChunk_def classify_fails split: sum.split) (auto simp: classifyChunk_def Let_def split: if_splits)

lemma records_join: "cs \<noteq> [] \<Longrightarrow> records l (join_with newline cs) = concat (map (records l) cs)"
proof (induction cs rule: list_nonempty_induct)
  case (cons c cs)
  then show ?case by (cases cs) (simp_all add: records_append)
qed simp

lemma rollup_of_concat: "rollup_of l (concat rss) = foldr plus_rollup (map (rollup_of l) rss) no_rollup"
  by (induction rss) (simp_all add: rollup_of_append, simp add: rollup_of_def)

text \<open>
  What a transcript adds to its session does not depend on where it is cut into chunks: parsing the chunks one by one and
  adding what they yield gives the counts, tokens, cost, first and last activity, last texts and tool calls of the transcript
  parsed whole.
\<close>
theorem rollups_do_not_depend_on_the_cut:
  assumes "chunks \<noteq> []" and "list_all2 (\<lambda>c x. parseChunk l c = Inr x) chunks parts"
  shows "\<exists>whole. parseChunk l (join_with newline chunks) = Inr whole \<and>
    rollup.truncate whole = foldr plus_rollup (map rollup.truncate parts) no_rollup"
proof -
  from assms(2) have parts: "map rollup.truncate parts = map (rollup_of l) (map (records l) chunks)"
    and ok: "\<forall>c \<in> set chunks. Null \<notin> set (records l c)"
    by (induction rule: list_all2_induct) (auto dest: parse_rollup)
  from ok have "Null \<notin> set (records l (join_with newline chunks))"
    by (auto simp: records_join [OF assms(1)])
  then obtain whole where "parseChunk l (join_with newline chunks) = Inr whole"
    using parse_fails by (cases "parseChunk l (join_with newline chunks)") auto
  with parse_rollup [OF this] parts show ?thesis
    by (auto simp: records_join [OF assms(1)] rollup_of_concat)
qed

text \<open>
  One null line fails the whole chunk. JSON's null is a record like any other to the parser, and the first property read of it
  throws: nothing of the chunk around it is parsed, however often it is tried.
\<close>
theorem a_null_line_fails_its_chunk:
  assumes "jl_parse l ''null'' = Some Null"
  shows "parseChunk l (a @ newline @ ''null'' @ newline @ b) = Inl NULL_RECORD"
proof -
  have "records l ''null'' = [Null]"
    by (simp add: records_def parsed_line_def blank_iff js_space_def assms)
  then show ?thesis by (simp add: parse_fails records_append del: append.simps)
qed

section \<open>Examples\<close>

definition line_a :: string where "line_a = ''a''"
definition line_b :: string where "line_b = ''b''"

definition demo_lib :: js_lib where
  "demo_lib = table_lib [(line_a, Obj [(''type'', Str ''user''), (''timestamp'', Str ''t1''), (''message'', Obj [(''content'', Str ''hello'')])]),
     (line_b, Obj [(''type'', Str ''assistant''), (''timestamp'', Str ''t2''), (''message'', Obj [(''model'', Str ''claude-opus-4-8-x''),
        (''usage'', Obj [(''input_tokens'', Number (Some 10))]),
        (''content'', Arr [Obj [(''type'', Str ''tool_use''), (''id'', Str ''c1''), (''name'', Str ''Edit''), (''input'', Obj [])]])])]),
     (''q'', Obj [(''type'', Str ''queue-operation''), (''operation'', Str ''enqueue''), (''content'', Str ''next'')]),
     (''null'', Null)]"

lemma demo_a: "rollup_of demo_lib (records demo_lib line_a) =
    no_rollup\<lparr>eventCount := 1, userTextCount := 1, lastUserText := Some ''hello'', firstActivityAt := Some ''t1'',
      lastActivityAt := Some ''t1''\<rparr>"
  by code_simp

lemma demo_b: "rollup_of demo_lib (records demo_lib line_b) =
    no_rollup\<lparr>eventCount := 1, toolCallCount := 1, inputTokens := 10, cost := 1 / 20000, firstActivityAt := Some ''t2'',
      lastActivityAt := Some ''t2'', lastModel := Some ''claude-opus-4-8-x'',
      toolCalls := [\<lparr>tc_toolUseId = ''c1'', tc_toolName = Some ''Edit'', tc_input = Some (Obj []), tc_result = None,
        tc_isError = False, tc_eventTs = Some ''t2''\<rparr>]\<rparr>"
  by code_simp

lemma demo_parses: "Null \<notin> set (records demo_lib line_a)" "Null \<notin> set (records demo_lib line_b)"
  by code_simp+

theorem rollups_do_not_depend_on_the_cut_witness:
  "\<exists>whole. parseChunk demo_lib (join_with newline [line_a, line_b, line_a]) = Inr whole \<and> eventCount whole = 3 \<and>
     userTextCount whole = 2 \<and> toolCallCount whole = 1 \<and> inputTokens whole = 10 \<and> cost whole = 1 / 20000"
proof -
  obtain x y where xy: "parseChunk demo_lib line_a = Inr x" "parseChunk demo_lib line_b = Inr y"
    using demo_parses parse_fails by (metis sum.exhaust)
  obtain whole where whole: "parseChunk demo_lib (join_with newline [line_a, line_b, line_a]) = Inr whole"
    "rollup.truncate whole = foldr plus_rollup (map rollup.truncate [x, y, x]) no_rollup"
    using rollups_do_not_depend_on_the_cut [of "[line_a, line_b, line_a]" demo_lib "[x, y, x]"] xy by auto
  have "eventCount whole = eventCount (rollup.truncate whole)" "userTextCount whole = userTextCount (rollup.truncate whole)"
    "toolCallCount whole = toolCallCount (rollup.truncate whole)" "inputTokens whole = inputTokens (rollup.truncate whole)"
    "cost whole = cost (rollup.truncate whole)"
    by (simp_all add: rollup.defs)
  with whole parse_rollup [OF xy(1)] parse_rollup [OF xy(2)] show ?thesis
    by (simp add: demo_a demo_b plus_rollup_def no_rollup_def)
qed

theorem a_null_line_fails_its_chunk_witness:
  "parseChunk demo_lib (line_a @ newline @ ''null'' @ newline @ line_b) = Inl NULL_RECORD"
  by (rule a_null_line_fails_its_chunk) code_simp

text \<open>Witnesses of the classifier's properties.\<close>

theorem items_follow_their_lines_witness:
  "\<exists>ns out. classifyChunk demo_lib (line_a @ newline @ line_b) = Inr out \<and> length ns = 2 \<and>
     map ce_raw out = concat (map2 replicate ns (records demo_lib (line_a @ newline @ line_b)))"
proof -
  have "Null \<notin> set (records demo_lib (line_a @ newline @ line_b))" "length (records demo_lib (line_a @ newline @ line_b)) = 2"
    by code_simp+
  then obtain out where "classifyChunk demo_lib (line_a @ newline @ line_b) = Inr out"
    "length (records demo_lib (line_a @ newline @ line_b)) = 2"
    using classify_fails by (metis sum.exhaust)
  with items_follow_their_lines [OF this(1)] show ?thesis by metis
qed

theorem junk_lines_are_invisible_witness:
  "classifyChunk demo_lib (line_a @ newline @ ''{broken'' @ newline @ line_b) = classifyChunk demo_lib (line_a @ newline @ line_b)"
  by (rule junk_lines_are_invisible) code_simp+

theorem plain_transcripts_can_be_cut_anywhere_witness:
  "\<exists>xs ys. classifyChunk demo_lib line_a = Inr xs \<and> classifyChunk demo_lib line_b = Inr ys \<and>
     classifyChunk demo_lib (line_a @ newline @ line_b) = Inr (xs @ ys)"
proof -
  have "list_all plain (records demo_lib line_a)" "list_all plain (records demo_lib line_b)"
    by code_simp+
  moreover obtain xs ys where "classifyChunk demo_lib line_a = Inr xs" "classifyChunk demo_lib line_b = Inr ys"
    using demo_parses classify_fails by (metis sum.exhaust)
  ultimately show ?thesis using plain_transcripts_can_be_cut_anywhere [of demo_lib line_a line_b] by blast
qed

theorem waiting_prompts_are_the_queue_witness:
  "\<exists>out. classifyChunk demo_lib (''q'' @ newline @ line_a) = Inr out \<and>
     map ce_text (filter (\<lambda>e. ce_kind e = Queue_Enqueue) out) = [''next'']"
proof -
  have "Null \<notin> set (records demo_lib (''q'' @ newline @ line_a))" "fold queue_step (records demo_lib (''q'' @ newline @ line_a)) [] = [''next'']"
    by code_simp+
  with waiting_prompts_are_the_queue [of demo_lib "''q'' @ newline @ line_a"] show ?thesis
    using classify_fails by (metis sum.exhaust)
qed

end
