(* ===== verification/Titles.thy ===== *)
theory Titles
  imports Parse_Chunk
begin

text \<open>
  Where a session's title comes from: the real one in the transcript (\<open>ingest/real-title.ts\<close>), the label made of the first
  message (\<open>ingest/derive-title.ts\<close>), and the one the client sends later (\<open>ingest/update-title.ts\<close>). \<open>may_upgrade\<close> is the
  condition every such write re-checks on the row.
\<close>

datatype title_source = User_Title | Ai_Title | Fallback_Title

section \<open>The first line\<close>

definition FALLBACK_TITLE_MAX :: nat where "FALLBACK_TITLE_MAX = 80"

text \<open>Runs of white space become one blank.\<close>

fun squeeze :: "string \<Rightarrow> string" where
  "squeeze [] = []"
| "squeeze (c # s) =
     (if js_space c then (if s \<noteq> [] \<and> js_space (hd s) then squeeze s else CHR '' '' # squeeze s) else c # squeeze s)"

definition last_index :: "char \<Rightarrow> string \<Rightarrow> nat option" where
  "last_index c s = (case filter (\<lambda>i. s ! i = c) [0..<length s] of [] \<Rightarrow> None | ns \<Rightarrow> Some (last ns))"

definition title_tail :: "char \<Rightarrow> bool" where
  "title_tail c \<longleftrightarrow> js_space c \<or> c \<in> set ''.,;:!?-''"

text \<open>On the reversed text, where the dash is three code units the other way round.\<close>

fun drop_tail :: "string \<Rightarrow> string" where
  "drop_tail [] = []"
| "drop_tail (c # s) = (if title_tail c then drop_tail s else if prefix (rev em_dash) (c # s) then drop_tail (drop 2 s) else c # s)"

definition firstLineLabel :: "string option \<Rightarrow> string option" where
  "firstLineLabel text = (case text of None \<Rightarrow> None
     | Some t \<Rightarrow>
         (let oneLine = squeeze (js_trim (hd (split_on (CHR 0x0A) t))) in
          if oneLine = [] then None
          else if length oneLine \<le> FALLBACK_TITLE_MAX then Some oneLine
          else let clipped = take FALLBACK_TITLE_MAX oneLine;
                   base = (case last_index (CHR '' '') clipped of None \<Rightarrow> clipped
                     | Some i \<Rightarrow> if 48 \<le> i then take i clipped else clipped)
               in Some (rev (drop_tail (rev base)) @ ellipsis)))"

definition word_char :: "char \<Rightarrow> bool" where
  "word_char c \<longleftrightarrow> (let n = of_char c :: nat in 48 \<le> n \<and> n \<le> 57 \<or> 65 \<le> n \<and> n \<le> 90 \<or> 97 \<le> n \<and> n \<le> 122 \<or> n = 95)"

text \<open>\<open>/^# \w[\w ]*? mentioned by the user:/\<close>.\<close>

fun mentions :: "string \<Rightarrow> bool" where
  "mentions [] = False"
| "mentions (c # s) = (prefix '' mentioned by the user:'' (c # s) \<or> (word_char c \<or> c = CHR '' '') \<and> mentions s)"

definition mention_header :: "string \<Rightarrow> bool" where
  "mention_header s \<longleftrightarrow> prefix ''# '' s \<and> (case drop 2 s of [] \<Rightarrow> False | c # r \<Rightarrow> word_char c \<and> mentions r)"

definition isInjectedUserTitleText :: "string option \<Rightarrow> bool" where
  "isInjectedUserTitleText text = (case text of None \<Rightarrow> False
     | Some s \<Rightarrow> s \<noteq> [] \<and> (let t = trim_start s in
         prefix ''<'' t \<or> prefix ''Caveat:'' t \<or> prefix ''# AGENTS.md instructions'' t \<or>
         prefix ''# Context from my IDE setup:'' t \<or> mention_header t))"

fun path_segments :: "string \<Rightarrow> string list" where
  "path_segments s = filter (\<lambda>w. w \<noteq> [] \<and> w \<noteq> ''.'' \<and> w \<noteq> ''..'')
     (concat (map (split_on (CHR 0x5C)) (split_on (CHR ''/'') s)))"

definition nonempty :: "string option \<Rightarrow> string option" where
  "nonempty s = (if absent s then None else s)"

definition deriveFallbackTitle :: "string option \<Rightarrow> string option \<Rightarrow> string option \<Rightarrow> string option" where
  "deriveFallbackTitle firstUserText cwd repoSlug =
     or_else (nonempty (firstLineLabel firstUserText))
       (or_else (nonempty (map_option (\<lambda>r. js_trim (last (split_on (CHR ''/'') r))) repoSlug))
         (case cwd of None \<Rightarrow> None
          | Some d \<Rightarrow> if path_segments d = [] then None else nonempty (Some (js_trim (last (path_segments d))))))"

section \<open>The title in the transcript\<close>

definition title_lines :: "js_lib \<Rightarrow> string \<Rightarrow> js_value option list" where
  "title_lines l text = map (jl_parse l) (filter (\<lambda>s. s \<noteq> []) (split_on (CHR 0x0A) text))"

definition trimmed_field :: "js_value \<Rightarrow> string \<Rightarrow> string option" where
  "trimmed_field d k = (case js_string (get_prop d k) of None \<Rightarrow> None | Some s \<Rightarrow> if blank s then None else Some (js_trim s))"

definition title_step :: "js_value option \<Rightarrow> string option \<times> string option \<Rightarrow> string option \<times> string option" where
  "title_step v ca = (case v of None \<Rightarrow> ca
     | Some d \<Rightarrow>
         if get_prop d ''type'' = Str ''custom-title'' \<and> trimmed_field d ''customTitle'' \<noteq> None
           then (trimmed_field d ''customTitle'', snd ca)
         else if get_prop d ''type'' = Str ''ai-title'' \<and> trimmed_field d ''aiTitle'' \<noteq> None
           then (fst ca, trimmed_field d ''aiTitle'')
         else ca)"

definition claudeTitle :: "js_value option list \<Rightarrow> (string \<times> title_source) option" where
  "claudeTitle vs = (case fold title_step vs (None, None) of
       (Some c, _) \<Rightarrow> Some (c, User_Title) | (None, Some a) \<Rightarrow> Some (a, Ai_Title) | (None, None) \<Rightarrow> None)"

definition thread_title :: "js_value option \<Rightarrow> string option" where
  "thread_title v = (case v of None \<Rightarrow> None
     | Some d \<Rightarrow> if get_prop d ''type'' = Str ''thread_meta'' \<and> is_object (get_prop d ''payload'')
         then js_string (get_prop (get_prop d ''payload'') ''title'') else None)"

definition codexTitle :: "js_value option list \<Rightarrow> (string \<times> title_source) option" where
  "codexTitle vs = (case List.map_filter thread_title (take 64 vs) of [] \<Rightarrow> None | t # _ \<Rightarrow> Some (t, Ai_Title))"

text \<open>A null line throws in the first loop, and what is thrown is caught: no title.\<close>

definition extractRealTitle :: "js_lib \<Rightarrow> string \<Rightarrow> (string \<times> title_source) option" where
  "extractRealTitle l text =
     (let vs = title_lines l text in
      if text = [] \<or> Some Null \<in> set vs then None
      else case or_else (claudeTitle vs) (codexTitle vs) of None \<Rightarrow> None
        | Some (t, src) \<Rightarrow> if blank t then None else Some (t, src))"

section \<open>Who may replace a title\<close>

definition may_upgrade :: "string option \<times> title_source option \<Rightarrow> bool" where
  "may_upgrade ts \<longleftrightarrow> absent (fst ts) \<or> snd ts = Some Fallback_Title"

datatype update_outcome = Applied_Title | Noop_Title | Absent_Row

text \<open>\<open>updateSessionTitle\<close> on the live row of the session, if it has one.\<close>

definition updateSessionTitle ::
  "string \<times> title_source \<Rightarrow> (string option \<times> title_source option) option \<Rightarrow>
     update_outcome \<times> (string option \<times> title_source option) option" where
  "updateSessionTitle t r = (case r of None \<Rightarrow> (Absent_Row, None)
     | Some old \<Rightarrow> if may_upgrade old then (Applied_Title, Some (Some (fst t), Some (snd t))) else (Noop_Title, Some old))"

section \<open>Properties\<close>

lemma squeeze_length: "length (squeeze s) \<le> length s"
  by (induction s) auto

lemma squeeze_chars: "c \<in> set (squeeze s) \<Longrightarrow> c = CHR '' '' \<or> c \<in> set s \<and> \<not> js_space c"
  by (induction s) (auto split: if_splits)

lemma drop_tail_length: "length (drop_tail s) \<le> length s"
proof (induction s rule: drop_tail.induct)
  case (2 c s)
  then show ?case by (auto simp: le_SucI intro: order_trans)
qed simp

lemma drop_tail_subset: "set (drop_tail s) \<subseteq> set s"
proof (induction s rule: drop_tail.induct)
  case (2 c s)
  then show ?case using set_drop_subset [of 2 s] by auto
qed simp

text \<open>
  A label fits on one line: what is made of a message's first line is not empty, has no line break, and is at most eighty
  characters and an ellipsis long.
\<close>
theorem label_fits_on_a_line:
  assumes "firstLineLabel text = Some t"
  shows "t \<noteq> [] \<and> length t \<le> FALLBACK_TITLE_MAX + length ellipsis \<and> CHR 0x0A \<notin> set t"
proof -
  obtain s where s: "text = Some s" using assms by (cases "text") (simp_all add: firstLineLabel_def)
  let ?one = "squeeze (js_trim (hd (split_on (CHR 0x0A) s)))"
  have nl: "CHR 0x0A \<notin> set (take n (take m ?one))" for n m
    using squeeze_chars [of "CHR 0x0A"] by (auto dest!: in_set_takeD) (auto simp: js_space_def)
  have one: "CHR 0x0A \<notin> set ?one" using nl [of "length ?one" "length ?one"] by simp
  have tail: "CHR 0x0A \<notin> set (rev (drop_tail (rev b)))" if "CHR 0x0A \<notin> set b" for b
    using that drop_tail_subset [of "rev b"] by auto
  have len: "length (rev (drop_tail (rev b))) \<le> length b" for b
    using drop_tail_length [of "rev b"] by simp
  have ell: "CHR 0x0A \<notin> set ellipsis" "ellipsis \<noteq> []" by (simp_all add: ellipsis_def)
  show ?thesis
  proof (cases "length ?one \<le> FALLBACK_TITLE_MAX")
    case True
    from True assms s have "t = ?one" "?one \<noteq> []" by (simp_all add: firstLineLabel_def Let_def split: if_splits)
    with True one show ?thesis by simp
  next
    case False
    define base where "base = (case last_index (CHR '' '') (take FALLBACK_TITLE_MAX ?one) of None \<Rightarrow> take FALLBACK_TITLE_MAX ?one
        | Some i \<Rightarrow> if 48 \<le> i then take i (take FALLBACK_TITLE_MAX ?one) else take FALLBACK_TITLE_MAX ?one)"
    have "length base \<le> FALLBACK_TITLE_MAX" "CHR 0x0A \<notin> set base"
      using nl [of _ FALLBACK_TITLE_MAX] nl [of FALLBACK_TITLE_MAX FALLBACK_TITLE_MAX]
      by (auto simp: base_def split: option.split)
    moreover have "t = rev (drop_tail (rev base)) @ ellipsis"
      using assms s False by (simp add: firstLineLabel_def Let_def base_def split: if_splits)
    ultimately show ?thesis using tail [of base] len [of base] ell by auto
  qed
qed

text \<open>A line that says nothing about titles, and one that throws nothing.\<close>

definition says_title :: "string \<Rightarrow> string \<Rightarrow> js_value option \<Rightarrow> bool" where
  "says_title ty field v \<longleftrightarrow> (case v of None \<Rightarrow> False | Some d \<Rightarrow> get_prop d ''type'' = Str ty \<and> trimmed_field d field \<noteq> None)"

lemma title_fold_fst:
  "fst (fold title_step vs (c, a)) =
     (case filter (says_title ''custom-title'' ''customTitle'') vs of [] \<Rightarrow> c
      | ws \<Rightarrow> trimmed_field (the (last ws)) ''customTitle'')"
proof (induction vs rule: rev_induct)
  case (snoc v vs)
  then show ?case
    by (cases v; cases "fold title_step vs (c, a)") (auto simp: title_step_def says_title_def split: list.split)
qed simp

text \<open>
  A title the user set wins, and the latest of them: if any line of a transcript sets one, the title extracted from it is the
  one the last such line sets, whatever generated titles stand before or after it.
\<close>
theorem the_latest_user_title_wins:
  assumes "Some Null \<notin> set (title_lines l text)"
    and "filter (says_title ''custom-title'' ''customTitle'') (title_lines l text) = ws @ [Some d]"
  shows "extractRealTitle l text = map_option (\<lambda>t. (t, User_Title)) (trimmed_field d ''customTitle'')"
proof -
  have "Some d \<in> set (filter (says_title ''custom-title'' ''customTitle'') (title_lines l text))" by (simp add: assms(2))
  then obtain t where t: "trimmed_field d ''customTitle'' = Some t" by (auto simp: says_title_def)
  then have "\<not> blank t"
    by (auto simp: trimmed_field_def blank_trim split: option.splits if_splits)
  moreover have "text \<noteq> []"
    using assms(2) by (auto simp: title_lines_def)
  moreover have "fst (fold title_step (title_lines l text) (None, None)) = Some t"
    using assms(2) t by (cases ws) (simp_all add: title_fold_fst)
  ultimately show ?thesis
    using assms(1) t by (auto simp: extractRealTitle_def claudeTitle_def Let_def split: prod.splits option.splits)
qed

text \<open>
  A message that opens with a blank line gives no label, though the text below it would: only the first line is read.
\<close>
theorem a_leading_blank_line_gives_no_label:
  "firstLineLabel (Some (newline @ s)) = None \<and> firstLineLabel (Some ''fix the build'') = Some ''fix the build''"
proof
  show "firstLineLabel (Some (newline @ s)) = None"
    by (simp add: firstLineLabel_def newline_def js_trim_def)
  show "firstLineLabel (Some ''fix the build'') = Some ''fix the build''"
    by code_simp
qed

text \<open>
  A real title stands: once a session has a title of its own, an update sent later changes nothing and says so; whatever the
  row, an update that is applied leaves exactly the title it was given.
\<close>
theorem updates_never_clobber_a_real_title:
  shows "(case updateSessionTitle t (Some old) of
      (Applied_Title, r) \<Rightarrow> may_upgrade old \<and> r = Some (Some (fst t), Some (snd t))
    | (Noop_Title, r) \<Rightarrow> \<not> may_upgrade old \<and> r = Some old
    | (Absent_Row, r) \<Rightarrow> False) \<and> updateSessionTitle t None = (Absent_Row, None)"
  by (simp add: updateSessionTitle_def)

theorem label_fits_on_a_line_witness:
  "\<exists>t. firstLineLabel (Some ''fix   the build'') = Some t \<and> t \<noteq> [] \<and> length t \<le> FALLBACK_TITLE_MAX + length ellipsis \<and>
     CHR 0x0A \<notin> set t"
proof -
  have f: "firstLineLabel (Some ''fix   the build'') = Some ''fix the build''" by code_simp
  from label_fits_on_a_line [OF f] f show ?thesis by blast
qed

definition title_lib :: js_lib where
  "title_lib = table_lib [(''c'', Obj [(''type'', Str ''custom-title''), (''customTitle'', Str '' Mine '')]),
     (''a'', Obj [(''type'', Str ''ai-title''), (''aiTitle'', Str ''Generated'')])]"

theorem the_latest_user_title_wins_witness:
  "extractRealTitle title_lib (''c'' @ newline @ ''a'') = Some (''Mine'', User_Title)"
proof -
  let ?d = "Obj [(''type'', Str ''custom-title''), (''customTitle'', Str '' Mine '')]"
  have "Some Null \<notin> set (title_lines title_lib (''c'' @ newline @ ''a''))"
    "filter (says_title ''custom-title'' ''customTitle'') (title_lines title_lib (''c'' @ newline @ ''a'')) = [] @ [Some ?d]"
    "trimmed_field ?d ''customTitle'' = Some ''Mine''"
    by code_simp+
  then show ?thesis using the_latest_user_title_wins [of title_lib "''c'' @ newline @ ''a''" "[]" ?d] by simp
qed

end
