(* ===== verification/Dedupe_Guard.thy ===== *)
theory Dedupe_Guard
  imports Parse_Chunk
begin

text \<open>
  The guard before an append (\<open>ingest/dedupe-guard.ts\<close>): a chunk all of whose records are already indexed in its lane is
  answered without being written again. The lane is the list of the raw events of its turns. \<open>fails\<close> stands for a query that
  throws; the guard then lets the chunk pass, like on everything else it cannot judge.
\<close>

definition MAX_GUARD_CHUNK_BYTES :: nat where "MAX_GUARD_CHUNK_BYTES = 32 * 1024 * 1024"
definition MAX_GUARD_LANE_TURNS :: nat where "MAX_GUARD_LANE_TURNS = 100000"

fun record_uuids :: "js_lib \<Rightarrow> string list \<Rightarrow> string list option" where
  "record_uuids l [] = Some []"
| "record_uuids l (raw # rest) =
     (if blank raw then record_uuids l rest
      else case jl_parse l (js_trim raw) of None \<Rightarrow> None
      | Some v \<Rightarrow> (case js_string (get_prop v ''uuid'') of None \<Rightarrow> None
          | Some u \<Rightarrow> if u = [] then None else map_option ((#) u) (record_uuids l rest)))"

definition chunkRecordUuids :: "js_lib \<Rightarrow> string \<Rightarrow> string list option" where
  "chunkRecordUuids l text =
     (if text = [] \<or> MAX_GUARD_CHUNK_BYTES < length text then None
      else case record_uuids l (split_on (CHR 0x0A) text) of None \<Rightarrow> None
        | Some us \<Rightarrow> if us = [] then None else Some us)"

datatype append_verdict = Pass nat | Skip_Duplicate nat

text \<open>\<open>->> 'uuid'\<close> of a stored event: null when the key is missing.\<close>

definition stored_uuid :: "js_lib \<Rightarrow> js_value \<Rightarrow> string option" where
  "stored_uuid l d = map_option (to_str l) (present (get_prop d ''uuid''))"

text \<open>The probe sends the list as one string and lets the database split it at the commas.\<close>

definition probed :: "string list \<Rightarrow> string list" where
  "probed us = split_on (CHR '','') (join_with '','' us)"

definition present_count :: "js_lib \<Rightarrow> js_value list \<Rightarrow> string list \<Rightarrow> nat" where
  "present_count l lane us = length (remdups (filter (\<lambda>u. u \<in> set (probed us)) (List.map_filter (stored_uuid l) lane)))"

definition judgeAppend :: "js_lib \<Rightarrow> bool \<Rightarrow> bool \<Rightarrow> nat \<Rightarrow> js_value list \<Rightarrow> string \<Rightarrow> append_verdict" where
  "judgeAppend l enabled fails laneCap lane text =
     (if \<not> enabled then Pass 0
      else case chunkRecordUuids l text of None \<Rightarrow> Pass 0
      | Some us \<Rightarrow>
          (let dist = remdups us; n = present_count l lane dist in
           if 10000 < length dist then Pass 0
           else if fails then Pass 0
           else if laneCap < length lane then Pass 0
           else if n = 0 then Pass 0
           else if length dist \<le> n then Skip_Duplicate (length dist)
           else Pass n))"

section \<open>Records the object itself holds twice\<close>

definition turn_uuid :: "js_value \<Rightarrow> string option" where
  "turn_uuid d = (case js_string (get_prop d ''uuid'') of None \<Rightarrow> None | Some u \<Rightarrow> if u = [] then None else Some u)"

fun count_runs :: "string option \<Rightarrow> string option list \<Rightarrow> (string \<times> nat) list \<Rightarrow> (string \<times> nat) list" where
  "count_runs prev [] m = m"
| "count_runs prev (u # us) m =
     (if u = prev then count_runs prev us m
      else case u of None \<Rightarrow> count_runs None us m
        | Some x \<Rightarrow> count_runs u us (AList.update x ((case map_of m x of None \<Rightarrow> 0 | Some n \<Rightarrow> n) + 1) m))"

definition countCanonicalHeldDuplicateRecords :: "js_value list \<Rightarrow> nat" where
  "countCanonicalHeldDuplicateRecords events =
     length (filter (\<lambda>(_, n). 1 < n) (count_runs None (map turn_uuid events) []))"

section \<open>Properties\<close>

lemma no_comma_join: "us \<noteq> [] \<Longrightarrow> list_all (\<lambda>u. CHR '','' \<notin> set u) us \<Longrightarrow> probed us = us"
  unfolding probed_def
proof (induction us rule: list_nonempty_induct)
  case (cons u us)
  then show ?case by (cases us) (simp_all add: split_on_append [simplified])
qed (simp add: split_on_no_sep)

lemma map_filter_set: "set (List.map_filter f xs) = {y. \<exists>x \<in> set xs. f x = Some y}"
  by (force simp: List.map_filter_def)

lemma judge_skips:
  assumes "judgeAppend l e f cap lane text = Skip_Duplicate n"
  obtains us where "chunkRecordUuids l text = Some us" "length (remdups us) \<le> present_count l lane (remdups us)"
  using assms by (auto simp: judgeAppend_def Let_def split: option.splits if_splits)

text \<open>
  C39. What is skipped is not lost: where no record's identifier holds a comma, a chunk the guard answers as a duplicate has every
  one of its records in the lane already.
\<close>
theorem skipping_loses_nothing:
  assumes "judgeAppend l e f cap lane text = Skip_Duplicate n" and "chunkRecordUuids l text = Some us"
    and "list_all (\<lambda>u. CHR '','' \<notin> set u) us"
  shows "set us \<subseteq> set (List.map_filter (stored_uuid l) lane) \<and> n = length (remdups us)"
proof -
  from judge_skips [OF assms(1)] assms(2) have le: "length (remdups us) \<le> present_count l lane (remdups us)" by auto
  have "us \<noteq> []" using assms(2) by (auto simp: chunkRecordUuids_def split: option.splits if_splits)
  then have p: "set (probed (remdups us)) = set us"
    using no_comma_join [of "remdups us"] assms(3) by (simp add: list_all_iff)
  let ?held = "set (List.map_filter (stored_uuid l) lane)"
  have "present_count l lane (remdups us) = card (set us \<inter> ?held)"
    by (simp add: present_count_def p length_remdups_card_conv Int_def conj_commute)
  with le have "card (set us) \<le> card (set us \<inter> ?held)" by (simp add: length_remdups_card_conv)
  then have "set us \<inter> ?held = set us" by (intro card_seteq) auto
  moreover have "n = length (remdups us)"
    using assms(1,2) by (auto simp: judgeAppend_def Let_def split: if_splits)
  ultimately show ?thesis by blast
qed

lemma probed_Nil: "\<not> (judgeAppend l e f cap [] text = Skip_Duplicate n)"
  by (auto simp: judgeAppend_def present_count_def Let_def List.map_filter_def split: option.splits)

text \<open>The runs of equal identifiers, and how often each starts one.\<close>

lemma count_runs_spec:
  "map_of (count_runs prev us m) x =
     (let k = count_list (tl (remdups_adj (prev # us))) (Some x) in
      case map_of m x of Some n \<Rightarrow> Some (n + k) | None \<Rightarrow> if k = 0 then None else Some k)"
proof (induction prev us m arbitrary: x rule: count_runs.induct)
  case (2 prev u us m)
  obtain r where r: "remdups_adj (u # us) = u # r" by (metis remdups_adj_Cons list.simps(5) list.exhaust remdups_adj_Cons')
  show ?case
  proof (cases "u = prev")
    case True
    with 2 show ?thesis by simp
  next
    case False
    with 2 r show ?thesis
      by (cases u) (auto simp: Let_def split: option.splits)
  qed
qed (simp split: option.split)

lemma count_runs_distinct: "distinct (map fst m) \<Longrightarrow> distinct (map fst (count_runs prev us m))"
  by (induction prev us m rule: count_runs.induct) (auto split: option.splits simp: distinct_update)

text \<open>
  The count of records an object holds twice is that of the identifiers that start more than one run: writing every run of
  consecutive blocks once, the identifiers that then still occur more than once.
\<close>
theorem held_twice_counts_runs:
  "countCanonicalHeldDuplicateRecords events =
     card {x. 1 < count_list (tl (remdups_adj (None # map turn_uuid events))) (Some x)}"
proof -
  let ?m = "count_runs None (map turn_uuid events) []"
  have d: "distinct (map fst ?m)" by (rule count_runs_distinct) simp
  have "length (filter (\<lambda>(_, n). 1 < n) ?m) = card (fst ` set (filter (\<lambda>(_, n). 1 < n) ?m))"
    using distinct_fst_filter [OF d] by (metis distinct_card length_map set_map)
  also have "fst ` set (filter (\<lambda>(_, n). 1 < n) ?m) = {x. \<exists>n. map_of ?m x = Some n \<and> 1 < n}"
    using d by (force simp: map_of_eq_Some_iff)
  also have "\<dots> = {x. 1 < count_list (tl (remdups_adj (None # map turn_uuid events))) (Some x)}"
    by (auto simp: count_runs_spec Let_def split: if_splits)
  finally show ?thesis by (simp add: countCanonicalHeldDuplicateRecords_def)
qed

section \<open>Examples\<close>

definition uuid_record :: "string \<Rightarrow> js_value" where
  "uuid_record u = Obj [(''type'', Str ''user''), (''uuid'', Str u)]"

definition guard_lib :: js_lib where
  "guard_lib = table_lib [(''x'', uuid_record ''a''), (''y'', uuid_record ''b''), (''z'', uuid_record ''a,b'')]"

theorem skipping_loses_nothing_witness:
  "judgeAppend guard_lib True False MAX_GUARD_LANE_TURNS [uuid_record ''a'', uuid_record ''b''] ''x'' = Skip_Duplicate 1 \<and>
   set [''a''] \<subseteq> set (List.map_filter (stored_uuid guard_lib) [uuid_record ''a'', uuid_record ''b''])"
proof -
  have j: "judgeAppend guard_lib True False MAX_GUARD_LANE_TURNS [uuid_record ''a'', uuid_record ''b''] ''x'' = Skip_Duplicate 1"
    and u: "chunkRecordUuids guard_lib ''x'' = Some [''a'']"
    by (simp_all add: judgeAppend_def chunkRecordUuids_def guard_lib_def table_lib_def uuid_record_def js_field_def blank_iff
        js_space_def js_trim_def present_count_def probed_def List.map_filter_def stored_uuid_def present_def nullish_def
        MAX_GUARD_CHUNK_BYTES_def MAX_GUARD_LANE_TURNS_def)
  from skipping_loses_nothing [OF j u] j show ?thesis by simp
qed

text \<open>
  A comma makes a new record look indexed: the identifiers are sent joined by commas and split again, so a record whose
  identifier is \<open>a,b\<close> is answered as a duplicate by a lane that holds the records \<open>a\<close> only, and is never written.
\<close>
theorem a_comma_loses_a_record:
  "judgeAppend guard_lib True False MAX_GUARD_LANE_TURNS [uuid_record ''a''] ''z'' = Skip_Duplicate 1 \<and>
   chunkRecordUuids guard_lib ''z'' = Some [''a,b''] \<and>
   ''a,b'' \<notin> set (List.map_filter (stored_uuid guard_lib) [uuid_record ''a''])"
  by (simp add: judgeAppend_def chunkRecordUuids_def guard_lib_def table_lib_def uuid_record_def js_field_def blank_iff
        js_space_def js_trim_def present_count_def probed_def List.map_filter_def stored_uuid_def present_def nullish_def
        MAX_GUARD_CHUNK_BYTES_def MAX_GUARD_LANE_TURNS_def)

end
