(* ===== verification/Intents.thy ===== *)
theory Intents
  imports Prelude
begin

text \<open>
  The durable record of a chunk whose bytes are in the bucket and whose turns may not be indexed (\<open>ingest/intents.ts\<close>). The
  table is a list of rows with one row per lane and chunk. \<open>intent_op\<close> names the operations, so that a history
  of the table is a list of them; a batch that the database may choose freely is an argument.
\<close>

record lane =
  ln_user :: string
  ln_family :: string
  ln_session :: string
  ln_agent :: "string option"

record intent =
  it_lane :: lane
  it_chunk :: string
  it_bytes :: nat
  it_created :: ms
  it_cleared :: "ms option"

type_synonym intents = "intent list"

definition it_open :: "intent \<Rightarrow> bool" where
  "it_open i \<longleftrightarrow> it_cleared i = None"

definition recordChunkIntent :: "lane \<Rightarrow> string \<Rightarrow> nat \<Rightarrow> ms \<Rightarrow> intents \<Rightarrow> intents" where
  "recordChunkIntent la chunk bytes now t =
     (if list_ex (\<lambda>i. it_lane i = la \<and> it_chunk i = chunk) t then t
      else t @ [\<lparr>it_lane = la, it_chunk = chunk, it_bytes = bytes, it_created = now, it_cleared = None\<rparr>])"

definition clear_where :: "(intent \<Rightarrow> bool) \<Rightarrow> ms \<Rightarrow> intents \<Rightarrow> intents" where
  "clear_where P now = map (\<lambda>i. if P i \<and> it_open i then i\<lparr>it_cleared := Some now\<rparr> else i)"

definition clearChunkIntent :: "lane \<Rightarrow> string \<Rightarrow> ms \<Rightarrow> intents \<Rightarrow> intents" where
  "clearChunkIntent la chunk = clear_where (\<lambda>i. it_lane i = la \<and> it_chunk i = chunk)"

definition clearSubsumedChunkIntents :: "lane \<Rightarrow> nat \<Rightarrow> ms \<Rightarrow> intents \<Rightarrow> intents" where
  "clearSubsumedChunkIntents la indexedTotalBytes = clear_where (\<lambda>i. it_lane i = la \<and> it_bytes i \<le> indexedTotalBytes)"

definition closeTerminalChunkIntents :: "lane \<Rightarrow> ms \<Rightarrow> intents \<Rightarrow> intents" where
  "closeTerminalChunkIntents la = clear_where (\<lambda>i. it_lane i = la)"

text \<open>A delete of at most a batch of the rows cleared long enough ago; the database picks which.\<close>

definition prunable :: "ms \<Rightarrow> ms \<Rightarrow> intent \<Rightarrow> bool" where
  "prunable olderThan now i \<longleftrightarrow> (case it_cleared i of None \<Rightarrow> False | Some c \<Rightarrow> c < now - olderThan)"

definition pruneClearedChunkIntents :: "ms \<Rightarrow> ms \<Rightarrow> nat \<Rightarrow> (intents \<Rightarrow> intents) \<Rightarrow> intents \<Rightarrow> intents" where
  "pruneClearedChunkIntents olderThan now batch pick t =
     (let gone = take batch (pick (filter (prunable olderThan now) t))
      in filter (\<lambda>i. \<not> (prunable olderThan now i \<and> i \<in> set gone)) t)"

definition purge_intents :: "string \<Rightarrow> string \<Rightarrow> string \<Rightarrow> intents \<Rightarrow> intents" where
  "purge_intents user family sid =
     filter (\<lambda>i. \<not> (ln_user (it_lane i) = user \<and> ln_family (it_lane i) = family \<and> ln_session (it_lane i) = sid))"

definition aged :: "ms \<Rightarrow> ms \<Rightarrow> intent \<Rightarrow> bool" where
  "aged olderThan now i \<longleftrightarrow> it_open i \<and> it_created i < now - olderThan"

definition oldest_of :: "intents \<Rightarrow> lane \<Rightarrow> ms" where
  "oldest_of t la = Min (it_created ` set (filter (\<lambda>i. it_lane i = la) t))"

text \<open>One row per lane, the lane with the oldest open intent first, at most \<open>limit\<close>.\<close>

definition staleIntentSessions :: "ms \<Rightarrow> ms \<Rightarrow> nat \<Rightarrow> intents \<Rightarrow> lane list" where
  "staleIntentSessions olderThan now limit t =
     (let due = filter (aged olderThan now) t
      in take limit (sort_key (oldest_of due) (remdups (map it_lane due))))"

definition countStaleIntents :: "ms \<Rightarrow> ms \<Rightarrow> intents \<Rightarrow> nat" where
  "countStaleIntents olderThan now t = length (filter (aged olderThan now) t)"

section \<open>Histories\<close>

datatype intent_op =
    Record lane string nat ms
  | Clear lane string ms
  | Subsume lane nat ms
  | Close lane ms
  | Prune ms ms nat "intents \<Rightarrow> intents"
  | Purge string string string

fun intent_step :: "intents \<Rightarrow> intent_op \<Rightarrow> intents" where
  "intent_step t (Record la c b now) = recordChunkIntent la c b now t"
| "intent_step t (Clear la c now) = clearChunkIntent la c now t"
| "intent_step t (Subsume la b now) = clearSubsumedChunkIntents la b now t"
| "intent_step t (Close la now) = closeTerminalChunkIntents la now t"
| "intent_step t (Prune a n b p) = pruneClearedChunkIntents a n b p t"
| "intent_step t (Purge u f s) = purge_intents u f s t"

text \<open>The operations that settle an intent: its own chunk was indexed, a whole write covered its bytes, its lane can never
  be indexed, its session was purged.\<close>

fun settles :: "intent_op \<Rightarrow> intent \<Rightarrow> bool" where
  "settles (Clear la c now) i = (it_lane i = la \<and> it_chunk i = c)"
| "settles (Subsume la b now) i = (it_lane i = la \<and> it_bytes i \<le> b)"
| "settles (Close la now) i = (it_lane i = la)"
| "settles (Purge u f s) i = (ln_user (it_lane i) = u \<and> ln_family (it_lane i) = f \<and> ln_session (it_lane i) = s)"
| "settles _ i = False"

definition intents_ok :: "intents \<Rightarrow> bool" where
  "intents_ok t \<longleftrightarrow> distinct (map (\<lambda>i. (it_lane i, it_chunk i)) t)"

lemma clear_where_ids: "map (\<lambda>i. (it_lane i, it_chunk i)) (clear_where P now t) = map (\<lambda>i. (it_lane i, it_chunk i)) t"
  by (induction t) (auto simp: clear_where_def)

lemma distinct_map_filter': "distinct (map f t) \<Longrightarrow> distinct (map f (filter P t))"
  by (rule distinct_map_filter)

lemma intents_ok_step: "intents_ok t \<Longrightarrow> intents_ok (intent_step t x)"
  by (cases x)
    (auto simp: intents_ok_def recordChunkIntent_def clearChunkIntent_def clearSubsumedChunkIntents_def
      closeTerminalChunkIntents_def clear_where_ids pruneClearedChunkIntents_def purge_intents_def Let_def list_ex_iff
      intro: distinct_map_filter)

interpretation intent_table: kept_invariant intent_step intents_ok
  by unfold_locales (rule intents_ok_step)

lemma clear_where_keeps: "i \<in> set t \<Longrightarrow> \<not> P i \<Longrightarrow> i \<in> set (clear_where P now t)"
  by (force simp: clear_where_def)

lemma open_step: "i \<in> set t \<Longrightarrow> it_open i \<Longrightarrow> \<not> settles x i \<Longrightarrow> i \<in> set (intent_step t x)"
  by (cases x)
    (auto simp: recordChunkIntent_def clearChunkIntent_def clearSubsumedChunkIntents_def closeTerminalChunkIntents_def
      pruneClearedChunkIntents_def purge_intents_def prunable_def it_open_def Let_def intro: clear_where_keeps)

lemma in_due: "la \<in> set (map it_lane (filter (aged o' now) t)) \<longleftrightarrow> (\<exists>i \<in> set t. aged o' now i \<and> it_lane i = la)"
  by auto

text \<open>
  C40. A dropped write is never forgotten. An intent recorded and not settled stays open through any history of the table, whatever
  is recorded, cleared, pruned or purged for others; and once it has aged, its lane is among those the guarantor is given,
  as far as the limit reaches.
\<close>
theorem a_dropped_write_is_never_forgotten:
  assumes "i \<in> set t" and "it_open i" and "list_all (\<lambda>x. \<not> settles x i) ops"
    and "it_created i < now - olderThan" and "length t + length ops \<le> limit"
  shows "it_lane i \<in> set (staleIntentSessions olderThan now limit (foldl intent_step t ops))"
proof -
  let ?t = "foldl intent_step t ops"
  have "length (intent_step t x) \<le> length t + 1" for t x
    by (cases x) (auto simp: recordChunkIntent_def clearChunkIntent_def clearSubsumedChunkIntents_def closeTerminalChunkIntents_def
      clear_where_def pruneClearedChunkIntents_def purge_intents_def Let_def intro: le_SucI length_filter_le)
  then have "length (foldl intent_step t ops) \<le> length t + length ops" for t
  proof (induction ops arbitrary: t)
    case (Cons x ops)
    from Cons.IH [OF Cons.prems, of "intent_step t x"] Cons.prems [of t x] show ?case by simp
  qed simp
  note len = this [of t]
  have i: "i \<in> set ?t" using assms(1,3)
    by (induction ops arbitrary: t) (auto intro: open_step [OF _ assms(2)])
  let ?lanes = "remdups (map it_lane (filter (aged olderThan now) ?t))"
  have "length ?lanes \<le> length ?t"
    by (metis length_filter_le length_map length_remdups_leq order_trans)
  with len assms(5) have "length ?lanes \<le> limit" by simp
  moreover have "it_lane i \<in> set ?lanes" using i assms(2,4) by (auto simp: aged_def)
  ultimately show ?thesis by (simp add: staleIntentSessions_def Let_def)
qed

text \<open>
  The oldest go first: when the limit cuts the list of lanes short, no lane left out has an open intent older than the
  oldest of a lane that is given.
\<close>
theorem the_oldest_lanes_go_first:
  assumes "la \<in> set (staleIntentSessions olderThan now limit t)" and "i \<in> set t" and "aged olderThan now i"
    and "it_lane i \<notin> set (staleIntentSessions olderThan now limit t)"
  shows "oldest_of (filter (aged olderThan now) t) la \<le> it_created i"
proof -
  let ?due = "filter (aged olderThan now) t" and ?f = "oldest_of (filter (aged olderThan now) t)"
  let ?s = "sort_key ?f (remdups (map it_lane ?due))"
  have "it_lane i \<in> set ?s" using assms(2,3) by auto
  moreover have "it_lane i \<notin> set (take limit ?s)" using assms(4) by (simp add: staleIntentSessions_def Let_def)
  ultimately have "it_lane i \<in> set (drop limit ?s)"
    by (metis Un_iff append_take_drop_id set_append)
  moreover have "sorted (map ?f (take limit ?s) @ map ?f (drop limit ?s))"
    by (metis append_take_drop_id map_append sorted_sort_key)
  ultimately have "?f la \<le> ?f (it_lane i)"
    using assms(1) by (auto simp: staleIntentSessions_def Let_def sorted_append)
  moreover have "?f (it_lane i) \<le> it_created i"
    unfolding oldest_of_def using assms(2,3) by (intro Min_le) auto
  ultimately show ?thesis by simp
qed

section \<open>Examples\<close>

definition demo_lane :: "string \<Rightarrow> lane" where
  "demo_lane s = \<lparr>ln_user = ''u'', ln_family = ''claude'', ln_session = s, ln_agent = None\<rparr>"

definition demo_intent :: "string \<Rightarrow> ms \<Rightarrow> intent" where
  "demo_intent s t = \<lparr>it_lane = demo_lane s, it_chunk = ''c'', it_bytes = 10, it_created = t, it_cleared = None\<rparr>"

theorem a_dropped_write_is_never_forgotten_witness:
  "demo_lane ''s1'' \<in> set (staleIntentSessions 100 1000 10 (foldl intent_step [demo_intent ''s1'' 0]
     [Record (demo_lane ''s2'') ''c'' 5 1, Clear (demo_lane ''s2'') ''c'' 2, Subsume (demo_lane ''s1'') 9 3, Prune 0 900 10 (\<lambda>x. x)]))"
  using a_dropped_write_is_never_forgotten [of "demo_intent ''s1'' 0" "[demo_intent ''s1'' 0]"
      "[Record (demo_lane ''s2'') ''c'' 5 1, Clear (demo_lane ''s2'') ''c'' 2, Subsume (demo_lane ''s1'') 9 3, Prune 0 900 10 (\<lambda>x. x)]" 1000 100 10]
  by (simp add: it_open_def demo_intent_def demo_lane_def)

theorem the_oldest_lanes_go_first_witness:
  "oldest_of (filter (aged 0 1000) [demo_intent ''s1'' 5, demo_intent ''s2'' 3]) (demo_lane ''s2'') \<le> 5 \<and>
   staleIntentSessions 0 1000 1 [demo_intent ''s1'' 5, demo_intent ''s2'' 3] = [demo_lane ''s2'']"
proof -
  have s: "staleIntentSessions 0 1000 1 [demo_intent ''s1'' 5, demo_intent ''s2'' 3] = [demo_lane ''s2'']"
    by (simp add: staleIntentSessions_def aged_def it_open_def demo_intent_def demo_lane_def oldest_of_def)
  have "oldest_of (filter (aged 0 1000) [demo_intent ''s1'' 5, demo_intent ''s2'' 3]) (demo_lane ''s2'')
      \<le> it_created (demo_intent ''s1'' 5)"
    by (rule the_oldest_lanes_go_first [where limit = 1])
      (simp_all only: s, simp_all add: aged_def it_open_def demo_intent_def demo_lane_def)
  with s show ?thesis by (simp add: demo_intent_def)
qed

end
