(* ===== verification/Ingest.thy ===== *)
theory Ingest
  imports Titles Dedupe_Guard Intents Session_Store
begin

text \<open>
  Indexing a committed chunk (\<open>ingest/ingest.ts\<close>, with the tombstones of \<open>ingest/delete.ts\<close> and the dimension rows of
  \<open>ingest/dimensions.ts\<close>). The database is a record of tables. A row of the session table is found by its natural key, which also
  stands for its generated id, and so for lanes, repos and models; a transaction is a function that gives the whole new
  database or an error and no change. Reading a timestamp back from a column gives the string that was
  written. The deadline of the caller is two flags, one for each point at which the code looks at it.
\<close>

section \<open>Tables\<close>

datatype attribution_source = Auto | Recovered

record usage_counts =
  uc_events :: nat
  uc_input :: rat
  uc_output :: rat
  uc_cacheRead :: rat
  uc_cacheCreation :: rat
  uc_cost :: rat

record session_counts = usage_counts +
  sc_users :: nat
  sc_assistants :: nat
  sc_tools :: nat

record session_row =
  sr_device :: "string option"
  sr_org :: "string option"
  sr_project :: "(string \<times> string) option"
  sr_repo :: "string option"
  sr_model :: "string option"
  sr_attribution :: attribution_source
  sr_channel :: string
  sr_title :: "string option"
  sr_titleSource :: "title_source option"
  sr_ccdSessionId :: "string option"
  sr_sourcePath :: "string option"
  sr_cwd :: "string option"
  sr_gitBranch :: "string option"
  sr_entrypoint :: "string option"
  sr_originator :: "string option"
  sr_lastUserText :: "string option"
  sr_lastAssistantText :: "string option"
  sr_counts :: session_counts
  sr_chunkCount :: nat
  sr_bytesUploaded :: nat
  sr_firstEventAt :: string
  sr_lastActivityAt :: string

record agent_row =
  ar_workflow :: bool
  ar_runId :: "string option"
  ar_toolUseId :: "string option"
  ar_agentType :: "string option"
  ar_label :: "string option"
  ar_worktreePath :: "string option"
  ar_cwd :: "string option"
  ar_gitBranch :: "string option"
  ar_model :: "string option"
  ar_counts :: usage_counts
  ar_chunkCount :: nat
  ar_bytesUploaded :: nat
  ar_lastActivityAt :: string

record turn_row =
  tr_id :: nat
  tr_session :: session_key
  tr_agent :: "string option"
  tr_seq :: nat
  tr_turn :: parsed_turn
  tr_created :: string

record call_row =
  cl_agent :: "string option"
  cl_toolName :: string
  cl_input :: "js_value option"
  cl_result :: "js_value option"
  cl_isError :: bool
  cl_eventTs :: "string option"

record event_row =
  ev_key :: string
  ev_session :: session_key
  ev_agent :: "string option"
  ev_chunk :: string
  ev_bytes :: nat
  ev_total :: nat
  ev_components :: nat
  ev_at :: ms

datatype finding_detail = Append_Overlap string nat | Held_Duplicates nat nat | Overcount nat nat

record finding =
  fi_lane :: lane
  fi_detail :: finding_detail

record session_facts =
  fa_primaryDay :: "string option"
  fa_activeMs :: ms
  fa_userMsgs :: nat
  fa_assistantMsgs :: nat
  fa_toolCallsByType :: "(string \<times> nat) list"
  fa_filesTouched :: nat
  fa_linesAdded :: nat
  fa_linesRemoved :: nat

record hxdb =
  db_sessions :: "(session_key \<times> session_row) list"
  db_agents :: "((session_key \<times> string) \<times> agent_row) list"
  db_turns :: "turn_row list"
  db_nextTurn :: nat
  db_calls :: "((session_key \<times> string) \<times> call_row) list"
  db_events :: "event_row list"
  db_intents :: intents
  db_deleted :: "(string \<times> string \<times> string) list"
  db_findings :: "finding list"
  db_embedded :: "nat list"
  db_facts :: "(session_key \<times> session_facts) list"
  db_repos :: "(string \<times> (string \<times> string) option) list"
  db_models :: "(string \<times> model_price option) list"

record ingest_input =
  ii_key :: session_key
  ii_org :: "string option"
  ii_repoSlug :: "string option"
  ii_project :: "string option"
  ii_device :: "string option"
  ii_channel :: string
  ii_chunkId :: string
  ii_chunkText :: string
  ii_totalBytes :: nat
  ii_componentCount :: nat
  ii_replace :: bool
  ii_meta :: js_value
  ii_recovered :: bool
  ii_expectIndexedBytes :: "nat option"
  ii_objectBytes :: "nat option"
  ii_expectPriorTurns :: "nat option"
  ii_rebuild :: bool
  ii_lateBeforeWrites :: bool
  ii_lateBeforeTurns :: bool

record ingest_env =
  ie_lib :: js_lib
  ie_platform :: platform
  ie_guardEnabled :: bool
  ie_guardFails :: bool
  ie_factsFail :: bool
  ie_now :: string
  ie_nowMs :: ms

datatype ingest_error =
    Session_Deleted
  | Bad_Record string
  | Parent_Not_Indexed
  | Index_Advanced nat nat
  | Lane_Prefix_Mismatch nat nat
  | Deadline_Passed

datatype skip_reason = No_User | Deduped | Recovered_Skip | Duplicate_Records

datatype ingest_outcome = Applied session_key nat | Not_Applied skip_reason

section \<open>Tombstones\<close>

definition baseSessionId :: "string \<Rightarrow> string" where
  "baseSessionId s = takeWhile (\<lambda>c. c \<noteq> CHR '':'') s"

definition markSessionDeleted :: "session_key \<Rightarrow> hxdb \<Rightarrow> hxdb" where
  "markSessionDeleted k db =
     db\<lparr>db_deleted := List.insert (sk_userId k, sk_family k, baseSessionId (sk_sessionId k)) (db_deleted db)\<rparr>"

definition isSessionDeleted :: "hxdb \<Rightarrow> string \<Rightarrow> string \<Rightarrow> bool" where
  "isSessionDeleted db user sid \<longleftrightarrow> list_ex (\<lambda>(u, _, s). u = user \<and> s = baseSessionId sid) (db_deleted db)"

section \<open>Dimensions\<close>

definition upsertRepo :: "string \<Rightarrow> (string \<times> string) option \<Rightarrow> hxdb \<Rightarrow> string \<times> hxdb" where
  "upsertRepo slug project db =
     (let key = js_lower slug in
      (key, case map_of (db_repos db) key of
         None \<Rightarrow> db\<lparr>db_repos := db_repos db @ [(key, project)]\<rparr>
       | Some old \<Rightarrow> if project \<noteq> None \<and> old \<noteq> project then db\<lparr>db_repos := AList.update key project (db_repos db)\<rparr> else db))"

definition upsertModel :: "string \<Rightarrow> hxdb \<Rightarrow> string \<times> hxdb" where
  "upsertModel m db =
     (let price = priceForModel (Some m) in
      (m, case map_of (db_models db) m of
         None \<Rightarrow> db\<lparr>db_models := db_models db @ [(m, price)]\<rparr>
       | Some old \<Rightarrow> if price \<noteq> None \<and> map_option mp_input old \<noteq> map_option mp_input price
           then db\<lparr>db_models := AList.update m price (db_models db)\<rparr> else db))"

definition repoSlugFromCwd :: "string option \<Rightarrow> string option" where
  "repoSlugFromCwd cwd = (case nonempty cwd of None \<Rightarrow> None
     | Some d \<Rightarrow> if path_segments d = [] then None else Some (last (path_segments d)))"

record dimensions =
  dm_org :: "string option"
  dm_project :: "(string \<times> string) option"
  dm_repo :: "string option"
  dm_device :: "string option"
  dm_model :: "string option"

definition opt_upsert :: "('a \<Rightarrow> hxdb \<Rightarrow> string \<times> hxdb) \<Rightarrow> 'a option \<Rightarrow> hxdb \<Rightarrow> string option \<times> hxdb" where
  "opt_upsert f v db = (case v of None \<Rightarrow> (None, db) | Some x \<Rightarrow> (case f x db of (k, db') \<Rightarrow> (Some k, db')))"

definition resolveDimensions :: "ingest_input \<Rightarrow> string option \<Rightarrow> string option \<Rightarrow> hxdb \<Rightarrow> dimensions \<times> hxdb" where
  "resolveDimensions i lm cwd db =
     (let org = nonempty (ii_org i);
          project = (case (org, nonempty (ii_project i)) of (Some o1, Some p) \<Rightarrow> Some (o1, p) | _ \<Rightarrow> None);
          slug = (case ii_repoSlug i of Some s \<Rightarrow> Some s | None \<Rightarrow> repoSlugFromCwd cwd);
          (repo, db1) = opt_upsert (\<lambda>s. upsertRepo s project) (nonempty slug) db;
          (model, db2) = opt_upsert upsertModel (nonempty lm) db1
      in (\<lparr>dm_org = org, dm_project = project, dm_repo = repo, dm_device = nonempty (ii_device i), dm_model = model\<rparr>, db2))"

section \<open>Scrubbing\<close>

definition stripNul :: "string \<Rightarrow> string" where
  "stripNul = filter (\<lambda>c. c \<noteq> CHR 0x00)"

fun deepStripNul :: "js_value \<Rightarrow> js_value" where
  "deepStripNul (Str s) = Str (stripNul s)"
| "deepStripNul (Arr xs) = Arr (map deepStripNul xs)"
| "deepStripNul (Obj ps) = Obj (map (\<lambda>p. (fst p, deepStripNul (snd p))) ps)"
| "deepStripNul v = v"

definition scrub_turn :: "parsed_turn \<Rightarrow> parsed_turn" where
  "scrub_turn t = t\<lparr>pt_text := map_option stripNul (pt_text t), pt_rawEvent := deepStripNul (pt_rawEvent t)\<rparr>"

definition scrub_call :: "parsed_tool_call \<Rightarrow> parsed_tool_call" where
  "scrub_call c = c\<lparr>tc_input := map_option deepStripNul (tc_input c), tc_result := map_option deepStripNul (tc_result c)\<rparr>"

definition scrubParsed :: "parsed_chunk \<Rightarrow> parsed_chunk" where
  "scrubParsed p = p\<lparr>lastUserText := map_option stripNul (lastUserText p), lastAssistantText := map_option stripNul (lastAssistantText p),
     turns := map scrub_turn (turns p), toolCalls := map scrub_call (toolCalls p)\<rparr>"

section \<open>Lanes\<close>

definition in_lane :: "session_key \<Rightarrow> string option \<Rightarrow> turn_row \<Rightarrow> bool" where
  "in_lane k ag t \<longleftrightarrow> tr_session t = k \<and> tr_agent t = ag"

definition lane_rows :: "hxdb \<Rightarrow> session_key \<Rightarrow> string option \<Rightarrow> turn_row list" where
  "lane_rows db k ag = filter (in_lane k ag) (db_turns db)"

definition lane_turns :: "hxdb \<Rightarrow> session_key \<Rightarrow> string option \<Rightarrow> parsed_turn list" where
  "lane_turns db k ag = map tr_turn (lane_rows db k ag)"

text \<open>\<open>coalesce(max(seq), -1) + 1\<close>.\<close>

definition next_seq :: "hxdb \<Rightarrow> session_key \<Rightarrow> string option \<Rightarrow> nat" where
  "next_seq db k ag = fold max (map (\<lambda>t. tr_seq t + 1) (lane_rows db k ag)) 0"

definition insertTurns :: "string \<Rightarrow> session_key \<Rightarrow> string option \<Rightarrow> parsed_turn list \<Rightarrow> hxdb \<Rightarrow> hxdb" where
  "insertTurns now k ag ts db =
     (let s = next_seq db k ag; n = db_nextTurn db in
      db\<lparr>db_turns := db_turns db @
           map2 (\<lambda>i t. \<lparr>tr_id = n + i, tr_session = k, tr_agent = ag, tr_seq = s + i, tr_turn = t, tr_created = now\<rparr>) [0..<length ts] ts,
         db_nextTurn := n + length ts\<rparr>)"

text \<open>What a \<open>replace\<close> removes first: the lane's turns with their embeddings, and its tool calls.\<close>

definition delete_lane :: "session_key \<Rightarrow> string option \<Rightarrow> hxdb \<Rightarrow> hxdb" where
  "delete_lane k ag db =
     (let ids = map tr_id (lane_rows db k ag) in
      db\<lparr>db_turns := filter (\<lambda>t. \<not> in_lane k ag t) (db_turns db),
         db_embedded := filter (\<lambda>i. i \<notin> set ids) (db_embedded db),
         db_calls := filter (\<lambda>c. \<not> (fst (fst c) = k \<and> cl_agent (snd c) = ag)) (db_calls db)\<rparr>)"

definition merge_call :: "parsed_tool_call \<Rightarrow> (string \<times> parsed_tool_call) list \<Rightarrow> (string \<times> parsed_tool_call) list" where
  "merge_call c m =
     (if tc_toolUseId c = [] then m
      else case map_of m (tc_toolUseId c) of None \<Rightarrow> m @ [(tc_toolUseId c, c)]
      | Some p \<Rightarrow> AList.update (tc_toolUseId c)
          (p\<lparr>tc_toolName := or_else (tc_toolName c) (tc_toolName p), tc_input := or_else (tc_input c) (tc_input p),
             tc_result := or_else (tc_result c) (tc_result p), tc_isError := (if tc_result c = None then tc_isError p else tc_isError c),
             tc_eventTs := or_else (tc_eventTs p) (tc_eventTs c)\<rparr>) m)"

definition put_call :: "session_key \<Rightarrow> string option \<Rightarrow> string \<times> parsed_tool_call \<Rightarrow> hxdb \<Rightarrow> hxdb" where
  "put_call k ag ic db =
     (case ic of (tid, c) \<Rightarrow>
        db\<lparr>db_calls := (case map_of (db_calls db) (k, tid) of
             None \<Rightarrow> db_calls db @ [((k, tid), \<lparr>cl_agent = ag, cl_toolName = (case tc_toolName c of None \<Rightarrow> [] | Some n \<Rightarrow> n),
               cl_input = tc_input c, cl_result = tc_result c, cl_isError = tc_isError c, cl_eventTs = tc_eventTs c\<rparr>)]
           | Some r \<Rightarrow> AList.update (k, tid)
               (r\<lparr>cl_toolName := (case nonempty (tc_toolName c) of None \<Rightarrow> cl_toolName r | Some n \<Rightarrow> n),
                  cl_input := or_else (tc_input c) (cl_input r), cl_result := or_else (tc_result c) (cl_result r),
                  cl_isError := (if tc_result c = None then cl_isError r else tc_isError c)\<rparr>) (db_calls db))\<rparr>)"

definition upsertToolCalls :: "session_key \<Rightarrow> string option \<Rightarrow> parsed_tool_call list \<Rightarrow> hxdb \<Rightarrow> hxdb" where
  "upsertToolCalls k ag cs db = fold (put_call k ag) (fold merge_call cs []) db"

section \<open>Rollups\<close>

definition add_usage_counts :: "'b usage_counts_scheme option \<Rightarrow> parsed_chunk \<Rightarrow> usage_counts" where
  "add_usage_counts c p =
     (let z = (\<lambda>f. case c of None \<Rightarrow> 0 | Some r \<Rightarrow> f r) in
      \<lparr>uc_events = (case c of None \<Rightarrow> 0 | Some r \<Rightarrow> uc_events r) + eventCount p, uc_input = z uc_input + inputTokens p,
        uc_output = z uc_output + outputTokens p, uc_cacheRead = z uc_cacheRead + cacheReadTokens p,
        uc_cacheCreation = z uc_cacheCreation + cacheCreationTokens p, uc_cost = z uc_cost + cost p\<rparr>)"

definition add_session_counts :: "session_counts option \<Rightarrow> parsed_chunk \<Rightarrow> session_counts" where
  "add_session_counts c p =
     (let z = (\<lambda>f. case c of None \<Rightarrow> 0 | Some r \<Rightarrow> f r) in
      usage_counts.extend (add_usage_counts c p)
        (session_counts.fields (z sc_users + userTextCount p) (z sc_assistants + assistantCount p) (z sc_tools + toolCallCount p)))"

text \<open>\<open>maxIso\<close>: the later by instant; a date that does not parse never wins.\<close>

definition maxIso :: "platform \<Rightarrow> string option \<Rightarrow> string option \<Rightarrow> string option" where
  "maxIso p a b =
     (case (nonempty a, nonempty b) of
        (None, _) \<Rightarrow> b
      | (Some _, None) \<Rightarrow> a
      | (Some x, Some y) \<Rightarrow> (case (p_parse p y, p_parse p x) of (Some ty, Some tx) \<Rightarrow> if tx < ty then b else a | _ \<Rightarrow> a))"

definition activity :: "ingest_env \<Rightarrow> bool \<Rightarrow> string option \<Rightarrow> string option \<Rightarrow> string" where
  "activity e replace old seen =
     (case (if replace then or_else seen old else maxIso (ie_platform e) old seen) of None \<Rightarrow> ie_now e | Some t \<Rightarrow> t)"

section \<open>Titles\<close>

definition metaStr :: "js_value \<Rightarrow> string \<Rightarrow> string option" where
  "metaStr meta k = js_string (get_prop meta k)"

definition titleSourceOf :: "js_value \<Rightarrow> title_source option" where
  "titleSourceOf meta =
     (let v = get_prop meta ''titleSource'' in
      if v = Str ''user'' then Some User_Title else if v = Str ''ai'' then Some Ai_Title
      else if v = Str ''fallback'' then Some Fallback_Title else None)"

definition meta_title :: "js_value \<Rightarrow> string option" where
  "meta_title meta = (case metaStr meta ''title'' of None \<Rightarrow> None | Some t \<Rightarrow> if blank t then None else Some t)"

definition has_real_title :: "session_row \<Rightarrow> bool" where
  "has_real_title r \<longleftrightarrow> (case sr_title r of None \<Rightarrow> False | Some t \<Rightarrow> \<not> blank t) \<and> sr_titleSource r \<noteq> Some Fallback_Title"

definition takes_meta_title :: "js_value \<Rightarrow> session_row \<Rightarrow> bool" where
  "takes_meta_title meta r \<longleftrightarrow> meta_title meta \<noteq> None \<and> \<not> (titleSourceOf meta = Some Fallback_Title \<and> has_real_title r)"

definition set_title :: "session_key \<Rightarrow> (session_row \<Rightarrow> bool) \<Rightarrow> string \<Rightarrow> title_source \<Rightarrow> hxdb \<Rightarrow> hxdb" where
  "set_title k cond t src db =
     (case map_of (db_sessions db) k of None \<Rightarrow> db
      | Some r \<Rightarrow> if cond r
          then db\<lparr>db_sessions := AList.update k (r\<lparr>sr_title := Some t, sr_titleSource := Some src\<rparr>) (db_sessions db)\<rparr> else db)"

text \<open>Among the first eight user turns, the first that a person typed.\<close>

definition first_real_user :: "hxdb \<Rightarrow> session_key \<Rightarrow> string option" where
  "first_real_user db k =
     (case find (\<lambda>t. \<not> isInjectedUserTitleText (pt_text t))
         (take 8 (filter (\<lambda>t. pt_kind t = User_Text) (map tr_turn (sort_key tr_seq (lane_rows db k None))))) of
        None \<Rightarrow> None | Some t \<Rightarrow> pt_text t)"

definition title_cascade ::
  "ingest_env \<Rightarrow> ingest_input \<Rightarrow> session_row option \<Rightarrow> hxdb \<Rightarrow> hxdb" where
  "title_cascade e i existing db =
     (let k = ii_key i; meta = ii_meta i in
      case extractRealTitle (ie_lib e) (ii_chunkText i) of
        Some (t, src) \<Rightarrow> set_title k (\<lambda>r. may_upgrade (sr_title r, sr_titleSource r)) t src db
      | None \<Rightarrow>
          if meta_title meta \<noteq> None \<or>
             (case existing of None \<Rightarrow> False | Some r \<Rightarrow> (case sr_title r of None \<Rightarrow> False | Some t \<Rightarrow> \<not> blank t)) then db
          else (case nonempty (deriveFallbackTitle (first_real_user db k)
              (or_else (metaStr meta ''cwd'') (case existing of None \<Rightarrow> None | Some r \<Rightarrow> sr_cwd r)) (metaStr meta ''repoSlug'')) of
            None \<Rightarrow> db
          | Some t \<Rightarrow> set_title k (\<lambda>r. absent (sr_title r)) t Fallback_Title db))"

section \<open>The session row\<close>

definition dedupe_key :: "session_key \<Rightarrow> string \<Rightarrow> string" where
  "dedupe_key k chunk = join_with '':'' [sk_userId k, sk_family k, sk_sessionId k, chunk]"

definition agent_dedupe_key :: "session_key \<Rightarrow> string \<Rightarrow> string \<Rightarrow> string" where
  "agent_dedupe_key k ag chunk = join_with '':'' [sk_userId k, sk_family k, sk_sessionId k, ''a'', ag, chunk]"

definition lane_of :: "session_key \<Rightarrow> string option \<Rightarrow> lane" where
  "lane_of k ag = \<lparr>ln_user = sk_userId k, ln_family = sk_family k, ln_session = sk_sessionId k, ln_agent = ag\<rparr>"

definition updated_row :: "ingest_env \<Rightarrow> ingest_input \<Rightarrow> parsed_chunk \<Rightarrow> dimensions \<Rightarrow> session_row \<Rightarrow> session_row" where
  "updated_row e i p d r =
     (let meta = ii_meta i; kept = (\<lambda>new old. if ii_recovered i then or_else new old else new);
          take_meta = takes_meta_title meta r in
      r\<lparr>sr_device := or_else (dm_device d) (sr_device r), sr_org := kept (dm_org d) (sr_org r),
        sr_project := (if ii_recovered i then or_else (dm_project d) (sr_project r) else dm_project d),
        sr_repo := kept (dm_repo d) (sr_repo r), sr_model := or_else (dm_model d) (sr_model r),
        sr_title := (if take_meta then meta_title meta else sr_title r),
        sr_titleSource := (if take_meta then titleSourceOf meta else sr_titleSource r),
        sr_ccdSessionId := or_else (metaStr meta ''ccdSessionId'') (sr_ccdSessionId r),
        sr_sourcePath := or_else (metaStr meta ''sourcePath'') (sr_sourcePath r),
        sr_cwd := or_else (metaStr meta ''cwd'') (sr_cwd r), sr_gitBranch := or_else (metaStr meta ''gitBranch'') (sr_gitBranch r),
        sr_entrypoint := or_else (metaStr meta ''entrypoint'') (sr_entrypoint r),
        sr_originator := or_else (metaStr meta ''originator'') (sr_originator r),
        sr_lastUserText := or_else (lastUserText p) (sr_lastUserText r),
        sr_lastAssistantText := or_else (lastAssistantText p) (sr_lastAssistantText r),
        sr_counts := add_session_counts (if ii_replace i then None else Some (sr_counts r)) p,
        sr_chunkCount := (if ii_replace i then 1 else sr_chunkCount r + 1),
        sr_bytesUploaded := (if ii_replace i then ii_totalBytes i else max (sr_bytesUploaded r) (ii_totalBytes i)),
        sr_lastActivityAt := activity e (ii_replace i) (Some (sr_lastActivityAt r)) (lastActivityAt p)\<rparr>)"

definition new_row :: "ingest_env \<Rightarrow> ingest_input \<Rightarrow> parsed_chunk \<Rightarrow> dimensions \<Rightarrow> session_row" where
  "new_row e i p d =
     (let meta = ii_meta i in
      \<lparr>sr_device = dm_device d, sr_org = dm_org d, sr_project = dm_project d, sr_repo = dm_repo d, sr_model = dm_model d,
        sr_attribution = (if ii_recovered i then Recovered else Auto), sr_channel = ii_channel i,
        sr_title = meta_title meta, sr_titleSource = titleSourceOf meta, sr_ccdSessionId = metaStr meta ''ccdSessionId'',
        sr_sourcePath = metaStr meta ''sourcePath'', sr_cwd = metaStr meta ''cwd'', sr_gitBranch = metaStr meta ''gitBranch'',
        sr_entrypoint = metaStr meta ''entrypoint'', sr_originator = metaStr meta ''originator'',
        sr_lastUserText = lastUserText p, sr_lastAssistantText = lastAssistantText p,
        sr_counts = add_session_counts None p, sr_chunkCount = 1, sr_bytesUploaded = ii_totalBytes i,
        sr_firstEventAt = (case firstActivityAt p of None \<Rightarrow> ie_now e | Some t \<Rightarrow> t),
        sr_lastActivityAt = activity e (ii_replace i) None (lastActivityAt p)\<rparr>)"

section \<open>The commit of a parent chunk\<close>

text \<open>The compare-and-swap of a repair, on bytes and on turns.\<close>

definition cas_check :: "ingest_input \<Rightarrow> nat option \<Rightarrow> nat \<Rightarrow> ingest_error option" where
  "cas_check i bytes held =
     (let actual = (case bytes of None \<Rightarrow> 0 | Some b \<Rightarrow> b) in
      if ii_expectIndexedBytes i \<noteq> None \<and> ii_expectIndexedBytes i \<noteq> Some actual
        then Some (Index_Advanced (the (ii_expectIndexedBytes i)) actual)
      else if ii_expectPriorTurns i \<noteq> None \<and> bytes \<noteq> None \<and> ii_expectPriorTurns i \<noteq> Some held
        then Some (Lane_Prefix_Mismatch (the (ii_expectPriorTurns i)) held)
      else None)"

definition guard_verdict :: "ingest_env \<Rightarrow> ingest_input \<Rightarrow> string option \<Rightarrow> hxdb \<Rightarrow> append_verdict" where
  "guard_verdict e i ag db =
     (if ii_replace i then Pass 0
      else judgeAppend (ie_lib e) (ie_guardEnabled e) (ie_guardFails e) MAX_GUARD_LANE_TURNS
        (map pt_rawEvent (lane_turns db (ii_key i) ag)) (ii_chunkText i))"

definition alreadyIngested :: "hxdb \<Rightarrow> string \<Rightarrow> bool" where
  "alreadyIngested db key \<longleftrightarrow> list_ex (\<lambda>e. ev_key e = key) (db_events db)"

definition record_event :: "ingest_env \<Rightarrow> ingest_input \<Rightarrow> string option \<Rightarrow> string \<Rightarrow> hxdb \<Rightarrow> hxdb" where
  "record_event e i ag key db = db\<lparr>db_events := db_events db @
     [\<lparr>ev_key = key, ev_session = ii_key i, ev_agent = ag, ev_chunk = ii_chunkId i, ev_bytes = length (ii_chunkText i),
       ev_total = ii_totalBytes i, ev_components = ii_componentCount i, ev_at = ie_nowMs e\<rparr>]\<rparr>"

definition settle_intents :: "ingest_env \<Rightarrow> ingest_input \<Rightarrow> string option \<Rightarrow> hxdb \<Rightarrow> hxdb" where
  "settle_intents e i ag db =
     (let ln = lane_of (ii_key i) ag; t = clearChunkIntent ln (ii_chunkId i) (ie_nowMs e) (db_intents db) in
      db\<lparr>db_intents := (if ii_replace i
        then clearSubsumedChunkIntents ln (case ii_objectBytes i of None \<Rightarrow> ii_totalBytes i | Some b \<Rightarrow> b) (ie_nowMs e) t else t)\<rparr>)"

definition write_lane :: "ingest_env \<Rightarrow> ingest_input \<Rightarrow> string option \<Rightarrow> parsed_chunk \<Rightarrow> hxdb \<Rightarrow> hxdb" where
  "write_lane e i ag p db =
     upsertToolCalls (ii_key i) ag (toolCalls p) (insertTurns (ie_now e) (ii_key i) ag (turns p)
       (if ii_replace i then delete_lane (ii_key i) ag db else db))"

text \<open>The writes, once the dimensions are known.\<close>

definition parent_writes ::
  "ingest_env \<Rightarrow> ingest_input \<Rightarrow> parsed_chunk \<Rightarrow> nat \<Rightarrow> dimensions \<Rightarrow> hxdb \<Rightarrow> ingest_error + (skip_reason option \<times> nat \<times> hxdb)" where
  "parent_writes e i p overlap d db =
     (let k = ii_key i; existing = map_of (db_sessions db) k in
      if ii_recovered i \<and> \<not> ii_rebuild i \<and> (case existing of None \<Rightarrow> False | Some r \<Rightarrow> 0 < uc_events (sr_counts r))
        then Inr (Some Recovered_Skip, overlap, db)
      else case cas_check i (map_option sr_bytesUploaded existing) (length (lane_turns db k None)) of
        Some err \<Rightarrow> Inl err
      | None \<Rightarrow>
          let row = (case existing of Some r \<Rightarrow> updated_row e i p d r | None \<Rightarrow> new_row e i p d);
              db2 = db\<lparr>db_sessions := AList.update k row (db_sessions db)\<rparr> in
          if ii_lateBeforeTurns i then Inl Deadline_Passed
          else Inr (None, overlap, record_event e i None (dedupe_key k (ii_chunkId i))
            (settle_intents e i None (title_cascade e i existing (write_lane e i None p db2)))))"

definition commit_tx ::
  "ingest_env \<Rightarrow> ingest_input \<Rightarrow> parsed_chunk \<Rightarrow> hxdb \<Rightarrow> ingest_error + (skip_reason option \<times> nat \<times> hxdb)" where
  "commit_tx e i p db =
     (if isSessionDeleted db (sk_userId (ii_key i)) (sk_sessionId (ii_key i)) then Inl Session_Deleted
      else if alreadyIngested db (dedupe_key (ii_key i) (ii_chunkId i)) then Inr (Some Deduped, 0, db)
      else case guard_verdict e i None db of
        Skip_Duplicate n \<Rightarrow> Inr (Some Duplicate_Records, 0,
          db\<lparr>db_intents := clearChunkIntent (lane_of (ii_key i) None) (ii_chunkId i) (ie_nowMs e) (db_intents db)\<rparr>)
      | Pass overlap \<Rightarrow>
          if ii_lateBeforeWrites i then Inl Deadline_Passed
          else case resolveDimensions i (lastModel p) (metaStr (ii_meta i) ''cwd'') db of
            (d, db1) \<Rightarrow> parent_writes e i p overlap d db1)"

section \<open>Facts\<close>

definition IDLE_CAP_MS :: ms where "IDLE_CAP_MS = 300000"

definition turn_ms :: "platform \<Rightarrow> parsed_turn \<Rightarrow> ms option" where
  "turn_ms p t = (case pt_eventTs t of Some (Str s) \<Rightarrow> p_parse p s | _ \<Rightarrow> None)"

text \<open>The walk over the turns: \<open>prev\<close> is what a turn without a time inherits, \<open>last_ms\<close> the turn before.\<close>

fun active_walk :: "ms option \<Rightarrow> ms option \<Rightarrow> ms option list \<Rightarrow> ms" where
  "active_walk prev last_ms [] = 0"
| "active_walk prev last_ms (t # ts) =
     (case or_else t prev of
        None \<Rightarrow> active_walk prev last_ms ts
      | Some c \<Rightarrow> (case last_ms of None \<Rightarrow> 0 | Some l \<Rightarrow> if l < c then min (c - l) IDLE_CAP_MS else 0)
          + active_walk (or_else t prev) (Some c) ts)"

definition known_times :: "ms option list \<Rightarrow> ms list" where
  "known_times ts = List.map_filter (\<lambda>t. t) ts"

definition activeMsFromEventTs :: "ms option list \<Rightarrow> ms option \<Rightarrow> ms \<times> ms option" where
  "activeMsFromEventTs ts seed =
     (let ks = known_times ts in
      (active_walk (or_else (case ks of [] \<Rightarrow> None | t # _ \<Rightarrow> Some t) seed) None ts,
       if ks = [] then seed else Some (foldr min (tl ks) (hd ks))))"

definition lineCount :: "js_value \<Rightarrow> nat" where
  "lineCount v = (case js_string v of None \<Rightarrow> 0 | Some s \<Rightarrow> if s = [] then 0 else length (split_on (CHR 0x0A) s))"

definition DIFF_TOOLS :: "string list" where "DIFF_TOOLS = [''Edit'', ''Write'', ''MultiEdit'']"

definition edits_of :: "js_value \<Rightarrow> js_value list" where
  "edits_of v = (case get_prop v ''edits'' of Arr es \<Rightarrow> filter is_object es | _ \<Rightarrow> [])"

definition diff_lines :: "call_row \<Rightarrow> nat \<times> nat" where
  "diff_lines c = (case cl_input c of None \<Rightarrow> (0, 0)
     | Some v \<Rightarrow>
         if cl_toolName c = ''Write'' then (lineCount (get_prop v ''content''), 0)
         else if cl_toolName c = ''Edit'' then (lineCount (get_prop v ''new_string''), lineCount (get_prop v ''old_string''))
         else (sum_list (map (\<lambda>x. lineCount (get_prop x ''new_string'')) (edits_of v)),
               sum_list (map (\<lambda>x. lineCount (get_prop x ''old_string'')) (edits_of v))))"

definition diff_calls :: "call_row list \<Rightarrow> call_row list" where
  "diff_calls cs = filter (\<lambda>c. cl_toolName c \<in> set DIFF_TOOLS \<and> cl_input c \<noteq> None) cs"

definition diffMetrics :: "call_row list \<Rightarrow> nat \<times> nat \<times> nat" where
  "diffMetrics cs =
     (let ds = diff_calls cs in
      (length (remdups (filter (\<lambda>s. s \<noteq> []) (List.map_filter (\<lambda>c. js_string (get_prop (the (cl_input c)) ''file_path'')) ds))),
       sum_list (map (fst \<circ> diff_lines) ds), sum_list (map (snd \<circ> diff_lines) ds)))"

definition count_names :: "string list \<Rightarrow> (string \<times> nat) list" where
  "count_names ns = fold (\<lambda>n m. AList.update n ((case map_of m n of None \<Rightarrow> 0 | Some x \<Rightarrow> x) + 1) m) ns []"

definition recomputeSessionFacts :: "ingest_env \<Rightarrow> session_key \<Rightarrow> hxdb \<Rightarrow> hxdb" where
  "recomputeSessionFacts e k db =
     (let ts = map tr_turn (sort_key tr_seq (lane_rows db k None));
          cs = map snd (filter (\<lambda>c. fst (fst c) = k \<and> cl_agent (snd c) = None) (db_calls db));
          seed = (case map_of (db_sessions db) k of None \<Rightarrow> None | Some r \<Rightarrow> p_parse (ie_platform e) (sr_firstEventAt r));
          (ams, basis) = activeMsFromEventTs (map (turn_ms (ie_platform e)) ts) seed;
          (files, added, removed) = diffMetrics cs
      in db\<lparr>db_facts := AList.update k
           \<lparr>fa_primaryDay = map_option (\<lambda>b. take 10 (p_iso (ie_platform e) b)) basis, fa_activeMs = ams,
             fa_userMsgs = length (filter (\<lambda>t. pt_kind t = User_Text) ts),
             fa_assistantMsgs = length (filter (\<lambda>t. pt_kind t = Assistant_Text) ts),
             fa_toolCallsByType = count_names (filter (\<lambda>n. n \<noteq> []) (map cl_toolName cs)),
             fa_filesTouched = files, fa_linesAdded = added, fa_linesRemoved = removed\<rparr> (db_facts db)\<rparr>)"

section \<open>Entry points\<close>

definition note_overlap :: "ingest_input \<Rightarrow> string option \<Rightarrow> nat \<Rightarrow> hxdb \<Rightarrow> hxdb" where
  "note_overlap i ag overlap db =
     (if overlap = 0 then db
      else db\<lparr>db_findings := db_findings db @ [\<lparr>fi_lane = lane_of (ii_key i) ag, fi_detail = Append_Overlap (ii_chunkId i) overlap\<rparr>]\<rparr>)"

definition refresh_facts :: "ingest_env \<Rightarrow> session_key \<Rightarrow> skip_reason option \<Rightarrow> hxdb \<Rightarrow> hxdb" where
  "refresh_facts e k skip db = (if skip = None \<and> \<not> ie_factsFail e then recomputeSessionFacts e k db else db)"

definition outcome_of :: "session_key \<Rightarrow> parsed_chunk \<Rightarrow> skip_reason option \<Rightarrow> ingest_outcome" where
  "outcome_of k p skip = (case skip of Some s \<Rightarrow> Not_Applied s | None \<Rightarrow> Applied k (length (turns p)))"

definition ingestCommit :: "ingest_env \<Rightarrow> ingest_input \<Rightarrow> hxdb \<Rightarrow> ingest_error + (ingest_outcome \<times> hxdb)" where
  "ingestCommit e i db =
     (let k = ii_key i in
      if sk_userId k = [] then Inr (Not_Applied No_User, db)
      else if isSessionDeleted db (sk_userId k) (sk_sessionId k) then Inl Session_Deleted
      else case parseChunk (ie_lib e) (ii_chunkText i) of
        Inl msg \<Rightarrow> Inl (Bad_Record msg)
      | Inr parsed \<Rightarrow>
          let p = scrubParsed parsed in
          (case commit_tx e i p db of
             Inl err \<Rightarrow> Inl err
           | Inr (skip, overlap, db1) \<Rightarrow>
               Inr (outcome_of k p skip, note_overlap i None overlap (refresh_facts e k skip db1))))"

section \<open>The commit of an agent's chunk\<close>

definition agent_kind :: "js_value \<Rightarrow> bool" where
  "agent_kind meta \<longleftrightarrow> get_prop meta ''kind'' = Str ''workflow_agent''"

definition updated_agent :: "ingest_env \<Rightarrow> ingest_input \<Rightarrow> parsed_chunk \<Rightarrow> dimensions \<Rightarrow> agent_row \<Rightarrow> agent_row" where
  "updated_agent e i p d r =
     (let meta = ii_meta i in
      r\<lparr>ar_workflow := agent_kind meta, ar_runId := or_else (metaStr meta ''runId'') (ar_runId r),
        ar_toolUseId := or_else (metaStr meta ''toolUseId'') (ar_toolUseId r),
        ar_agentType := or_else (metaStr meta ''agentType'') (ar_agentType r), ar_label := or_else (metaStr meta ''label'') (ar_label r),
        ar_worktreePath := or_else (metaStr meta ''worktreePath'') (ar_worktreePath r),
        ar_cwd := or_else (metaStr meta ''cwd'') (ar_cwd r), ar_gitBranch := or_else (metaStr meta ''gitBranch'') (ar_gitBranch r),
        ar_model := or_else (dm_model d) (ar_model r),
        ar_counts := add_usage_counts (if ii_replace i then None else Some (ar_counts r)) p,
        ar_chunkCount := (if ii_replace i then 1 else ar_chunkCount r + 1),
        ar_bytesUploaded := (if ii_replace i then ii_totalBytes i else max (ar_bytesUploaded r) (ii_totalBytes i)),
        ar_lastActivityAt := activity e (ii_replace i) (Some (ar_lastActivityAt r)) (lastActivityAt p)\<rparr>)"

definition new_agent :: "ingest_env \<Rightarrow> ingest_input \<Rightarrow> parsed_chunk \<Rightarrow> dimensions \<Rightarrow> agent_row" where
  "new_agent e i p d =
     (let meta = ii_meta i in
      \<lparr>ar_workflow = agent_kind meta, ar_runId = metaStr meta ''runId'', ar_toolUseId = metaStr meta ''toolUseId'',
        ar_agentType = metaStr meta ''agentType'', ar_label = metaStr meta ''label'', ar_worktreePath = metaStr meta ''worktreePath'',
        ar_cwd = metaStr meta ''cwd'', ar_gitBranch = metaStr meta ''gitBranch'', ar_model = dm_model d,
        ar_counts = add_usage_counts (None :: usage_counts option) p, ar_chunkCount = 1, ar_bytesUploaded = ii_totalBytes i,
        ar_lastActivityAt = activity e (ii_replace i) None (lastActivityAt p)\<rparr>)"

definition agent_writes ::
  "ingest_env \<Rightarrow> ingest_input \<Rightarrow> string \<Rightarrow> parsed_chunk \<Rightarrow> nat \<Rightarrow> dimensions \<Rightarrow> hxdb \<Rightarrow>
     ingest_error + (skip_reason option \<times> nat \<times> hxdb)" where
  "agent_writes e i ag p overlap d db =
     (let k = ii_key i; existing = map_of (db_agents db) (k, ag) in
      if map_of (db_sessions db) k = None then Inl Parent_Not_Indexed
      else if ii_recovered i \<and> \<not> ii_rebuild i \<and> (case existing of None \<Rightarrow> False | Some r \<Rightarrow> 0 < uc_events (ar_counts r))
        then Inr (Some Recovered_Skip, overlap, db)
      else case cas_check i (map_option ar_bytesUploaded existing) (length (lane_turns db k (Some ag))) of
        Some err \<Rightarrow> Inl err
      | None \<Rightarrow>
          let row = (case existing of Some r \<Rightarrow> updated_agent e i p d r | None \<Rightarrow> new_agent e i p d);
              db2 = db\<lparr>db_agents := AList.update (k, ag) row (db_agents db)\<rparr> in
          if ii_lateBeforeTurns i then Inl Deadline_Passed
          else Inr (None, overlap, record_event e i (Some ag) (agent_dedupe_key k ag (ii_chunkId i))
            (settle_intents e i (Some ag) (write_lane e i (Some ag) p db2))))"

definition agent_tx ::
  "ingest_env \<Rightarrow> ingest_input \<Rightarrow> string \<Rightarrow> parsed_chunk \<Rightarrow> hxdb \<Rightarrow> ingest_error + (skip_reason option \<times> nat \<times> hxdb)" where
  "agent_tx e i ag p db =
     (if isSessionDeleted db (sk_userId (ii_key i)) (sk_sessionId (ii_key i)) then Inl Session_Deleted
      else if alreadyIngested db (agent_dedupe_key (ii_key i) ag (ii_chunkId i)) then Inr (Some Deduped, 0, db)
      else case guard_verdict e i (Some ag) db of
        Skip_Duplicate n \<Rightarrow> Inr (Some Duplicate_Records, 0,
          db\<lparr>db_intents := clearChunkIntent (lane_of (ii_key i) (Some ag)) (ii_chunkId i) (ie_nowMs e) (db_intents db)\<rparr>)
      | Pass overlap \<Rightarrow>
          if ii_lateBeforeWrites i then Inl Deadline_Passed
          else case resolveDimensions i (lastModel p) (metaStr (ii_meta i) ''cwd'') db of
            (d, db1) \<Rightarrow> agent_writes e i ag p overlap d db1)"

definition ingestAgentCommit :: "ingest_env \<Rightarrow> ingest_input \<Rightarrow> string \<Rightarrow> hxdb \<Rightarrow> ingest_error + (ingest_outcome \<times> hxdb)" where
  "ingestAgentCommit e i ag db =
     (let k = ii_key i in
      if sk_userId k = [] \<or> ag = [] then Inr (Not_Applied No_User, db)
      else if isSessionDeleted db (sk_userId k) (sk_sessionId k) then Inl Session_Deleted
      else case parseChunk (ie_lib e) (ii_chunkText i) of
        Inl msg \<Rightarrow> Inl (Bad_Record msg)
      | Inr parsed \<Rightarrow>
          let p = scrubParsed parsed in
          (case agent_tx e i ag p db of
             Inl err \<Rightarrow> Inl err
           | Inr (skip, overlap, db1) \<Rightarrow>
               Inr (outcome_of k p skip, note_overlap i (Some ag) overlap db1)))"

end
