(* ===== verification/Purge.thy ===== *)
theory Purge
  imports Ingest
begin

text \<open>
  The permanent deletion of a session (\<open>ingest/delete.ts\<close>): its turns go in batches, each with its embeddings and in a
  transaction of its own, and the last transaction removes what is left. The clock is read after every full batch.
  Which turns a batch takes is not said by the query; the model takes the first of the table.
\<close>

definition TURN_BATCH :: nat where "TURN_BATCH = 500"

definition base_key :: "session_key \<Rightarrow> session_key" where
  "base_key k = k\<lparr>sk_sessionId := baseSessionId (sk_sessionId k)\<rparr>"

definition turns_of :: "session_key \<Rightarrow> hxdb \<Rightarrow> turn_row list" where
  "turns_of k db = filter (\<lambda>t. tr_session t = k) (db_turns db)"

definition delete_turn_batch :: "session_key \<Rightarrow> hxdb \<Rightarrow> nat \<times> hxdb" where
  "delete_turn_batch k db =
     (let gone = take TURN_BATCH (turns_of k db); ids = map tr_id gone in
      (length gone,
       db\<lparr>db_turns := filter (\<lambda>t. \<not> (tr_session t = k \<and> tr_id t \<in> set ids)) (db_turns db),
         db_embedded := filter (\<lambda>x. x \<notin> set ids) (db_embedded db)\<rparr>))"

definition purge_rows :: "session_key \<Rightarrow> hxdb \<Rightarrow> hxdb" where
  "purge_rows k db =
     db\<lparr>db_events := filter (\<lambda>e. ev_session e \<noteq> k) (db_events db),
       db_intents := purge_intents (sk_userId k) (sk_family k) (sk_sessionId k) (db_intents db),
       db_sessions := AList.delete k (db_sessions db),
       db_agents := filter (\<lambda>a. fst (fst a) \<noteq> k) (db_agents db),
       db_turns := filter (\<lambda>t. tr_session t \<noteq> k) (db_turns db),
       db_calls := filter (\<lambda>c. fst (fst c) \<noteq> k) (db_calls db),
       db_facts := AList.delete k (db_facts db)\<rparr>"

lemma turns_after_batch:
  "turns_of k (snd (delete_turn_batch k db)) =
     filter (\<lambda>t. tr_id t \<notin> set (map tr_id (take TURN_BATCH (turns_of k db)))) (turns_of k db)"
  unfolding delete_turn_batch_def Let_def turns_of_def by (simp add: conj_commute cong: conj_cong)

lemma delete_turn_batch_shorter:
  assumes "delete_turn_batch k db = (n, db')" "n \<noteq> 0"
  shows "length (turns_of k db') < length (turns_of k db)"
proof -
  from assms have n: "turns_of k db \<noteq> []" and db': "db' = snd (delete_turn_batch k db)"
    by (auto simp: delete_turn_batch_def Let_def)
  from n have "hd (turns_of k db) \<in> set (turns_of k db) \<and> tr_id (hd (turns_of k db)) \<in> set (map tr_id (take TURN_BATCH (turns_of k db)))"
    by (cases "turns_of k db") (auto simp: TURN_BATCH_def take_Cons')
  then show ?thesis unfolding db' turns_after_batch by (intro length_filter_less) auto
qed

text \<open>\<open>clock n\<close> is the n-th reading.\<close>

function purge_turns :: "session_key \<Rightarrow> (nat \<Rightarrow> ms) \<Rightarrow> ms \<Rightarrow> nat \<Rightarrow> nat \<Rightarrow> hxdb \<Rightarrow> bool \<times> nat \<times> hxdb" where
  "purge_turns k clock deadline reads deleted db =
     (case delete_turn_batch k db of (n, db') \<Rightarrow>
        if n < TURN_BATCH then (True, deleted + n, db')
        else if deadline \<le> clock reads then (False, deleted + n, db')
        else purge_turns k clock deadline (reads + 1) (deleted + n) db')"
  by pat_completeness auto

termination
  by (relation "measure (\<lambda>(k, clock, deadline, reads, deleted, db). length (turns_of k db))")
    (auto simp: TURN_BATCH_def dest!: sym [of _ "delete_turn_batch _ _"] dest: delete_turn_batch_shorter)

declare purge_turns.simps [simp del]

definition purgeSessionPg :: "session_key \<Rightarrow> (nat \<Rightarrow> ms) \<Rightarrow> ms \<Rightarrow> hxdb \<Rightarrow> bool \<times> nat \<times> hxdb" where
  "purgeSessionPg key clock deadline db =
     (let k = base_key key in
      if map_of (db_sessions db) k = None then (True, 0, db)
      else case purge_turns k clock deadline 0 0 db of
        (False, n, db') \<Rightarrow> (False, n, db')
      | (True, n, db') \<Rightarrow> (True, n, purge_rows k db'))"

end
