(* ===== verification/Index_Frames.thy ===== *)
theory Index_Frames
  imports Purge
begin

text \<open>
  What each write of the index leaves alone, and what a commit that goes through has done. A statement says which table a
  function touches; \<open>commit_cases\<close> and \<open>agent_cases\<close> take a commit apart into its outcomes.
\<close>

section \<open>Dimensions\<close>

definition dims_only :: "hxdb \<Rightarrow> hxdb \<Rightarrow> bool" where
  "dims_only db db' \<longleftrightarrow> (\<exists>x y. db' = db\<lparr>db_repos := x, db_models := y\<rparr>)"

lemma dims_only_refl: "dims_only db db"
  unfolding dims_only_def by (intro exI [of _ "db_repos db"] exI [of _ "db_models db"]) simp

lemma dims_only_trans: "dims_only a b \<Longrightarrow> dims_only b c \<Longrightarrow> dims_only a c"
  unfolding dims_only_def by (elim exE) (simp, intro exI, rule refl)

lemma dims_only_write: "dims_only db (db\<lparr>db_repos := x\<rparr>)" "dims_only db (db\<lparr>db_models := y\<rparr>)"
  unfolding dims_only_def
  by (intro exI [of _ x] exI [of _ "db_models db"], simp, intro exI [of _ "db_repos db"] exI [of _ y], simp)

lemma upsertRepo_only: "dims_only db (snd (upsertRepo s p db))"
  unfolding upsertRepo_def Let_def by (auto split: option.split intro: dims_only_refl dims_only_write)

lemma upsertModel_only: "dims_only db (snd (upsertModel m db))"
  unfolding upsertModel_def Let_def by (auto split: option.split intro: dims_only_refl dims_only_write)

lemma opt_upsert_only: "(\<And>x. dims_only db (snd (f x db))) \<Longrightarrow> dims_only db (snd (opt_upsert f v db))"
  by (cases v) (simp_all add: opt_upsert_def dims_only_refl split_def)

lemma resolveDimensions_only: "dims_only db (snd (resolveDimensions i m cwd db))"
  unfolding resolveDimensions_def Let_def split_def snd_conv
  by (rule dims_only_trans [OF opt_upsert_only opt_upsert_only]) (rule upsertRepo_only upsertModel_only)+

lemma resolved:
  assumes "resolveDimensions i m cwd db = (d, db1)"
  obtains x y where "db1 = db\<lparr>db_repos := x, db_models := y\<rparr>"
  using resolveDimensions_only [of db i m cwd] assms unfolding dims_only_def by auto

section \<open>Frames\<close>

lemma set_title_frames [simp]:
  "db_agents (set_title k c t src db) = db_agents db" "db_turns (set_title k c t src db) = db_turns db"
  "db_nextTurn (set_title k c t src db) = db_nextTurn db" "db_calls (set_title k c t src db) = db_calls db"
  "db_events (set_title k c t src db) = db_events db" "db_intents (set_title k c t src db) = db_intents db"
  "db_deleted (set_title k c t src db) = db_deleted db" "db_findings (set_title k c t src db) = db_findings db"
  "db_embedded (set_title k c t src db) = db_embedded db" "db_facts (set_title k c t src db) = db_facts db"
  "db_repos (set_title k c t src db) = db_repos db" "db_models (set_title k c t src db) = db_models db"
  by (simp_all add: set_title_def split: option.split)

lemma cascade_frames [simp]:
  "db_agents (title_cascade e i ex db) = db_agents db" "db_turns (title_cascade e i ex db) = db_turns db"
  "db_nextTurn (title_cascade e i ex db) = db_nextTurn db" "db_calls (title_cascade e i ex db) = db_calls db"
  "db_events (title_cascade e i ex db) = db_events db" "db_intents (title_cascade e i ex db) = db_intents db"
  "db_deleted (title_cascade e i ex db) = db_deleted db" "db_findings (title_cascade e i ex db) = db_findings db"
  "db_embedded (title_cascade e i ex db) = db_embedded db" "db_facts (title_cascade e i ex db) = db_facts db"
  "db_repos (title_cascade e i ex db) = db_repos db" "db_models (title_cascade e i ex db) = db_models db"
  unfolding title_cascade_def Let_def by (auto split: option.split)

lemma settle_frames [simp]:
  "db_sessions (settle_intents e i ag db) = db_sessions db" "db_agents (settle_intents e i ag db) = db_agents db"
  "db_turns (settle_intents e i ag db) = db_turns db" "db_nextTurn (settle_intents e i ag db) = db_nextTurn db"
  "db_calls (settle_intents e i ag db) = db_calls db" "db_events (settle_intents e i ag db) = db_events db"
  "db_deleted (settle_intents e i ag db) = db_deleted db" "db_findings (settle_intents e i ag db) = db_findings db"
  "db_embedded (settle_intents e i ag db) = db_embedded db" "db_facts (settle_intents e i ag db) = db_facts db"
  "db_repos (settle_intents e i ag db) = db_repos db" "db_models (settle_intents e i ag db) = db_models db"
  by (simp_all add: settle_intents_def Let_def)

lemma event_frames [simp]:
  "db_sessions (record_event e i ag key db) = db_sessions db" "db_agents (record_event e i ag key db) = db_agents db"
  "db_turns (record_event e i ag key db) = db_turns db" "db_nextTurn (record_event e i ag key db) = db_nextTurn db"
  "db_calls (record_event e i ag key db) = db_calls db" "db_intents (record_event e i ag key db) = db_intents db"
  "db_deleted (record_event e i ag key db) = db_deleted db" "db_findings (record_event e i ag key db) = db_findings db"
  "db_embedded (record_event e i ag key db) = db_embedded db" "db_facts (record_event e i ag key db) = db_facts db"
  "db_repos (record_event e i ag key db) = db_repos db" "db_models (record_event e i ag key db) = db_models db"
  by (simp_all add: record_event_def)

lemma put_frames [simp]:
  "db_sessions (put_call k ag ic db) = db_sessions db" "db_agents (put_call k ag ic db) = db_agents db"
  "db_turns (put_call k ag ic db) = db_turns db" "db_nextTurn (put_call k ag ic db) = db_nextTurn db"
  "db_events (put_call k ag ic db) = db_events db" "db_intents (put_call k ag ic db) = db_intents db"
  "db_deleted (put_call k ag ic db) = db_deleted db" "db_findings (put_call k ag ic db) = db_findings db"
  "db_embedded (put_call k ag ic db) = db_embedded db" "db_facts (put_call k ag ic db) = db_facts db"
  "db_repos (put_call k ag ic db) = db_repos db" "db_models (put_call k ag ic db) = db_models db"
  by (cases ic; simp add: put_call_def)+

lemma puts_frames [simp]:
  "db_sessions (fold (put_call k ag) ics db) = db_sessions db" "db_agents (fold (put_call k ag) ics db) = db_agents db"
  "db_turns (fold (put_call k ag) ics db) = db_turns db" "db_nextTurn (fold (put_call k ag) ics db) = db_nextTurn db"
  "db_events (fold (put_call k ag) ics db) = db_events db" "db_intents (fold (put_call k ag) ics db) = db_intents db"
  "db_deleted (fold (put_call k ag) ics db) = db_deleted db" "db_findings (fold (put_call k ag) ics db) = db_findings db"
  "db_embedded (fold (put_call k ag) ics db) = db_embedded db" "db_facts (fold (put_call k ag) ics db) = db_facts db"
  "db_repos (fold (put_call k ag) ics db) = db_repos db" "db_models (fold (put_call k ag) ics db) = db_models db"
  by (induction ics arbitrary: db) simp_all

lemma calls_frames [simp]:
  "db_sessions (upsertToolCalls k ag cs db) = db_sessions db" "db_agents (upsertToolCalls k ag cs db) = db_agents db"
  "db_turns (upsertToolCalls k ag cs db) = db_turns db" "db_nextTurn (upsertToolCalls k ag cs db) = db_nextTurn db"
  "db_events (upsertToolCalls k ag cs db) = db_events db" "db_intents (upsertToolCalls k ag cs db) = db_intents db"
  "db_deleted (upsertToolCalls k ag cs db) = db_deleted db" "db_findings (upsertToolCalls k ag cs db) = db_findings db"
  "db_embedded (upsertToolCalls k ag cs db) = db_embedded db" "db_facts (upsertToolCalls k ag cs db) = db_facts db"
  "db_repos (upsertToolCalls k ag cs db) = db_repos db" "db_models (upsertToolCalls k ag cs db) = db_models db"
  by (simp_all add: upsertToolCalls_def)

lemma insert_frames [simp]:
  "db_sessions (insertTurns now k ag ts db) = db_sessions db" "db_agents (insertTurns now k ag ts db) = db_agents db"
  "db_calls (insertTurns now k ag ts db) = db_calls db" "db_events (insertTurns now k ag ts db) = db_events db"
  "db_intents (insertTurns now k ag ts db) = db_intents db" "db_deleted (insertTurns now k ag ts db) = db_deleted db"
  "db_findings (insertTurns now k ag ts db) = db_findings db" "db_embedded (insertTurns now k ag ts db) = db_embedded db"
  "db_facts (insertTurns now k ag ts db) = db_facts db" "db_repos (insertTurns now k ag ts db) = db_repos db"
  "db_models (insertTurns now k ag ts db) = db_models db"
  by (simp_all add: insertTurns_def Let_def)

lemma delete_lane_frames [simp]:
  "db_sessions (delete_lane k ag db) = db_sessions db" "db_agents (delete_lane k ag db) = db_agents db"
  "db_nextTurn (delete_lane k ag db) = db_nextTurn db" "db_events (delete_lane k ag db) = db_events db"
  "db_intents (delete_lane k ag db) = db_intents db" "db_deleted (delete_lane k ag db) = db_deleted db"
  "db_findings (delete_lane k ag db) = db_findings db" "db_facts (delete_lane k ag db) = db_facts db"
  "db_repos (delete_lane k ag db) = db_repos db" "db_models (delete_lane k ag db) = db_models db"
  by (simp_all add: delete_lane_def Let_def)

lemma write_frames [simp]:
  "db_sessions (write_lane e i ag p db) = db_sessions db" "db_agents (write_lane e i ag p db) = db_agents db"
  "db_events (write_lane e i ag p db) = db_events db" "db_intents (write_lane e i ag p db) = db_intents db"
  "db_deleted (write_lane e i ag p db) = db_deleted db" "db_findings (write_lane e i ag p db) = db_findings db"
  "db_facts (write_lane e i ag p db) = db_facts db" "db_repos (write_lane e i ag p db) = db_repos db"
  "db_models (write_lane e i ag p db) = db_models db"
  by (simp_all add: write_lane_def)

lemma facts_frames [simp]:
  "db_sessions (refresh_facts e k skip db) = db_sessions db" "db_agents (refresh_facts e k skip db) = db_agents db"
  "db_turns (refresh_facts e k skip db) = db_turns db" "db_nextTurn (refresh_facts e k skip db) = db_nextTurn db"
  "db_calls (refresh_facts e k skip db) = db_calls db" "db_events (refresh_facts e k skip db) = db_events db"
  "db_intents (refresh_facts e k skip db) = db_intents db" "db_deleted (refresh_facts e k skip db) = db_deleted db"
  "db_findings (refresh_facts e k skip db) = db_findings db" "db_embedded (refresh_facts e k skip db) = db_embedded db"
  "db_repos (refresh_facts e k skip db) = db_repos db" "db_models (refresh_facts e k skip db) = db_models db"
  by (simp_all add: refresh_facts_def recomputeSessionFacts_def Let_def split_def)

lemma overlap_frames [simp]:
  "db_sessions (note_overlap i ag n db) = db_sessions db" "db_agents (note_overlap i ag n db) = db_agents db"
  "db_turns (note_overlap i ag n db) = db_turns db" "db_nextTurn (note_overlap i ag n db) = db_nextTurn db"
  "db_calls (note_overlap i ag n db) = db_calls db" "db_events (note_overlap i ag n db) = db_events db"
  "db_intents (note_overlap i ag n db) = db_intents db" "db_deleted (note_overlap i ag n db) = db_deleted db"
  "db_embedded (note_overlap i ag n db) = db_embedded db" "db_facts (note_overlap i ag n db) = db_facts db"
  "db_repos (note_overlap i ag n db) = db_repos db" "db_models (note_overlap i ag n db) = db_models db"
  by (simp_all add: note_overlap_def)

lemma lane_rows_dims [simp]:
  "lane_rows (db\<lparr>db_repos := x, db_models := y\<rparr>) k ag = lane_rows db k ag"
  "lane_turns (db\<lparr>db_repos := x, db_models := y\<rparr>) k ag = lane_turns db k ag"
  by (simp_all add: lane_turns_def lane_rows_def)

section \<open>Outcomes\<close>

abbreviation with_dims where
  "with_dims db x y \<equiv> db\<lparr>db_repos := x, db_models := y\<rparr>"

abbreviation parent_row where
  "parent_row e i p d db \<equiv>
     (case map_of (db_sessions db) (ii_key i) of Some r \<Rightarrow> updated_row e i p d r | None \<Rightarrow> new_row e i p d)"

abbreviation agent_lane_row where
  "agent_lane_row e i ag p d db \<equiv>
     (case map_of (db_agents db) (ii_key i, ag) of Some r \<Rightarrow> updated_agent e i p d r | None \<Rightarrow> new_agent e i p d)"

text \<open>What an applied commit leaves behind, from the dimensions it resolved and the row it wrote.\<close>

abbreviation parent_written where
  "parent_written e i p row x y db \<equiv>
     record_event e i None (dedupe_key (ii_key i) (ii_chunkId i))
       (settle_intents e i None (title_cascade e i (map_of (db_sessions db) (ii_key i)) (write_lane e i None p
         ((with_dims db x y)\<lparr>db_sessions := AList.update (ii_key i) row (db_sessions db)\<rparr>))))"

abbreviation agent_written where
  "agent_written e i ag p row x y db \<equiv>
     record_event e i (Some ag) (agent_dedupe_key (ii_key i) ag (ii_chunkId i))
       (settle_intents e i (Some ag) (write_lane e i (Some ag) p
         ((with_dims db x y)\<lparr>db_agents := AList.update (ii_key i, ag) row (db_agents db)\<rparr>)))"

lemma commit_cases [consumes 1, case_names deduped duplicate recovered applied]:
  assumes run: "commit_tx e i p db = Inr (skip, ov, db')"
    and deduped: "alreadyIngested db (dedupe_key (ii_key i) (ii_chunkId i)) \<Longrightarrow> skip = Some Deduped \<Longrightarrow> ov = 0 \<Longrightarrow> db' = db \<Longrightarrow> thesis"
    and duplicate: "\<And>n. guard_verdict e i None db = Skip_Duplicate n \<Longrightarrow> skip = Some Duplicate_Records \<Longrightarrow> ov = 0 \<Longrightarrow>
      db' = db\<lparr>db_intents := clearChunkIntent (lane_of (ii_key i) None) (ii_chunkId i) (ie_nowMs e) (db_intents db)\<rparr> \<Longrightarrow> thesis"
    and recovered: "\<And>x y. skip = Some Recovered_Skip \<Longrightarrow> db' = with_dims db x y \<Longrightarrow> thesis"
    and applied: "\<And>d x y. skip = None \<Longrightarrow> guard_verdict e i None db = Pass ov \<Longrightarrow>
      \<not> alreadyIngested db (dedupe_key (ii_key i) (ii_chunkId i)) \<Longrightarrow>
      resolveDimensions i (lastModel p) (metaStr (ii_meta i) ''cwd'') db = (d, with_dims db x y) \<Longrightarrow>
      cas_check i (map_option sr_bytesUploaded (map_of (db_sessions db) (ii_key i))) (length (lane_turns db (ii_key i) None)) = None \<Longrightarrow>
      db' = parent_written e i p (parent_row e i p d db) x y db \<Longrightarrow> thesis"
  shows thesis
proof -
  obtain d db1 where r: "resolveDimensions i (lastModel p) (metaStr (ii_meta i) ''cwd'') db = (d, db1)" by force
  then obtain x y where db1: "db1 = with_dims db x y" by (rule resolved)
  note r' = r [unfolded db1]
  show ?thesis
  proof (cases "isSessionDeleted db (sk_userId (ii_key i)) (sk_sessionId (ii_key i))")
    case True
    with run show ?thesis by (simp add: commit_tx_def)
  next
    case nd: False
    show ?thesis
    proof (cases "alreadyIngested db (dedupe_key (ii_key i) (ii_chunkId i))")
      case True
      from run nd True have "skip = Some Deduped" "ov = 0" "db' = db" by (auto simp: commit_tx_def)
      then show ?thesis by (rule deduped [OF True])
    next
      case na: False
      show ?thesis
      proof (cases "guard_verdict e i None db")
        case (Skip_Duplicate n)
        from run nd na Skip_Duplicate have "skip = Some Duplicate_Records" "ov = 0"
          "db' = db\<lparr>db_intents := clearChunkIntent (lane_of (ii_key i) None) (ii_chunkId i) (ie_nowMs e) (db_intents db)\<rparr>"
          by (auto simp: commit_tx_def)
        then show ?thesis by (rule duplicate [OF Skip_Duplicate])
      next
        case (Pass v)
        with run nd na have w: "parent_writes e i p v d (with_dims db x y) = Inr (skip, ov, db')"
          by (simp add: commit_tx_def r' split: if_split_asm)
        then have v: "v = ov" unfolding parent_writes_def Let_def by (simp split: if_split_asm option.split_asm)
        show ?thesis
        proof (cases skip)
          case None
          with w Pass v have "parent_written e i p (parent_row e i p d db) x y db = db'" by (simp add: parent_writes_def Let_def split: if_split_asm option.split_asm)
          with w None Pass v show ?thesis
            by (intro applied [OF None _ na r']) (simp_all add: parent_writes_def Let_def split: if_split_asm option.split_asm)
        next
          case (Some a)
          with w have "skip = Some Recovered_Skip" "db' = with_dims db x y"
            by (simp_all add: parent_writes_def Let_def split: if_split_asm option.split_asm)
          then show ?thesis by (rule recovered)
        qed
      qed
    qed
  qed
qed

lemma agent_cases [consumes 1, case_names deduped duplicate recovered applied]:
  assumes run: "agent_tx e i ag p db = Inr (skip, ov, db')"
    and deduped: "alreadyIngested db (agent_dedupe_key (ii_key i) ag (ii_chunkId i)) \<Longrightarrow> skip = Some Deduped \<Longrightarrow> ov = 0 \<Longrightarrow> db' = db \<Longrightarrow> thesis"
    and duplicate: "\<And>n. guard_verdict e i (Some ag) db = Skip_Duplicate n \<Longrightarrow> skip = Some Duplicate_Records \<Longrightarrow> ov = 0 \<Longrightarrow>
      db' = db\<lparr>db_intents := clearChunkIntent (lane_of (ii_key i) (Some ag)) (ii_chunkId i) (ie_nowMs e) (db_intents db)\<rparr> \<Longrightarrow> thesis"
    and recovered: "\<And>x y. skip = Some Recovered_Skip \<Longrightarrow> db' = with_dims db x y \<Longrightarrow> thesis"
    and applied: "\<And>d x y. skip = None \<Longrightarrow> guard_verdict e i (Some ag) db = Pass ov \<Longrightarrow>
      \<not> alreadyIngested db (agent_dedupe_key (ii_key i) ag (ii_chunkId i)) \<Longrightarrow>
      resolveDimensions i (lastModel p) (metaStr (ii_meta i) ''cwd'') db = (d, with_dims db x y) \<Longrightarrow>
      map_of (db_sessions db) (ii_key i) \<noteq> None \<Longrightarrow>
      cas_check i (map_option ar_bytesUploaded (map_of (db_agents db) (ii_key i, ag))) (length (lane_turns db (ii_key i) (Some ag))) = None \<Longrightarrow>
      db' = agent_written e i ag p (agent_lane_row e i ag p d db) x y db \<Longrightarrow> thesis"
  shows thesis
proof -
  obtain d db1 where r: "resolveDimensions i (lastModel p) (metaStr (ii_meta i) ''cwd'') db = (d, db1)" by force
  then obtain x y where db1: "db1 = with_dims db x y" by (rule resolved)
  note r' = r [unfolded db1]
  show ?thesis
  proof (cases "isSessionDeleted db (sk_userId (ii_key i)) (sk_sessionId (ii_key i))")
    case True
    with run show ?thesis by (simp add: agent_tx_def)
  next
    case nd: False
    show ?thesis
    proof (cases "alreadyIngested db (agent_dedupe_key (ii_key i) ag (ii_chunkId i))")
      case True
      from run nd True have "skip = Some Deduped" "ov = 0" "db' = db" by (auto simp: agent_tx_def)
      then show ?thesis by (rule deduped [OF True])
    next
      case na: False
      show ?thesis
      proof (cases "guard_verdict e i (Some ag) db")
        case (Skip_Duplicate n)
        from run nd na Skip_Duplicate have "skip = Some Duplicate_Records" "ov = 0"
          "db' = db\<lparr>db_intents := clearChunkIntent (lane_of (ii_key i) (Some ag)) (ii_chunkId i) (ie_nowMs e) (db_intents db)\<rparr>"
          by (auto simp: agent_tx_def)
        then show ?thesis by (rule duplicate [OF Skip_Duplicate])
      next
        case (Pass v)
        with run nd na have w: "agent_writes e i ag p v d (with_dims db x y) = Inr (skip, ov, db')"
          by (simp add: agent_tx_def r' split: if_split_asm)
        then have v: "v = ov" unfolding agent_writes_def Let_def by (simp split: if_split_asm option.split_asm)
        show ?thesis
        proof (cases skip)
          case None
          with w Pass v have "agent_written e i ag p (agent_lane_row e i ag p d db) x y db = db'" by (simp add: agent_writes_def Let_def split: if_split_asm option.split_asm)
          with w None Pass v show ?thesis
            by (intro applied [OF None _ na r']) (simp_all add: agent_writes_def Let_def split: if_split_asm option.split_asm)
        next
          case (Some a)
          with w have "skip = Some Recovered_Skip" "db' = with_dims db x y"
            by (simp_all add: agent_writes_def Let_def split: if_split_asm option.split_asm)
          then show ?thesis by (rule recovered)
        qed
      qed
    qed
  qed
qed

lemma ingest_cases [consumes 1, case_names no_user run]:
  assumes "ingestCommit e i db = Inr (out, db')"
    and "sk_userId (ii_key i) = [] \<Longrightarrow> out = Not_Applied No_User \<Longrightarrow> db' = db \<Longrightarrow> thesis"
    and "\<And>x skip ov db1. sk_userId (ii_key i) \<noteq> [] \<Longrightarrow> \<not> isSessionDeleted db (sk_userId (ii_key i)) (sk_sessionId (ii_key i)) \<Longrightarrow>
      parseChunk (ie_lib e) (ii_chunkText i) = Inr x \<Longrightarrow> commit_tx e i (scrubParsed x) db = Inr (skip, ov, db1) \<Longrightarrow>
      out = outcome_of (ii_key i) (scrubParsed x) skip \<Longrightarrow>
      db' = note_overlap i None ov (refresh_facts e (ii_key i) skip db1) \<Longrightarrow> thesis"
  shows thesis
  using assms by (auto simp: ingestCommit_def Let_def split: if_splits sum.splits)

lemma ingest_agent_cases [consumes 1, case_names no_user run]:
  assumes "ingestAgentCommit e i ag db = Inr (out, db')"
    and "sk_userId (ii_key i) = [] \<or> ag = [] \<Longrightarrow> out = Not_Applied No_User \<Longrightarrow> db' = db \<Longrightarrow> thesis"
    and "\<And>x skip ov db1. sk_userId (ii_key i) \<noteq> [] \<Longrightarrow> ag \<noteq> [] \<Longrightarrow> \<not> isSessionDeleted db (sk_userId (ii_key i)) (sk_sessionId (ii_key i)) \<Longrightarrow>
      parseChunk (ie_lib e) (ii_chunkText i) = Inr x \<Longrightarrow> agent_tx e i ag (scrubParsed x) db = Inr (skip, ov, db1) \<Longrightarrow>
      out = outcome_of (ii_key i) (scrubParsed x) skip \<Longrightarrow> db' = note_overlap i (Some ag) ov db1 \<Longrightarrow> thesis"
  shows thesis
  using assms by (auto simp: ingestAgentCommit_def Let_def split: if_splits sum.splits)

end
