(* ===== verification/Index_Invariant.thy ===== *)
theory Index_Invariant
  imports Index_Frames
begin

text \<open>
  The index as a state machine: \<open>index_op\<close> lists what reaches it (the commits of both lanes, a permanent deletion, a title sent
  later, the record of an intent, the embedding of a turn), and \<open>index_step\<close> is the database afterwards, unchanged when the
  operation fails. \<open>index_ok\<close> says that the tables agree with each other; every operation keeps it.
\<close>

section \<open>Operations\<close>

definition deleteSession :: "session_key \<Rightarrow> (nat \<Rightarrow> ms) \<Rightarrow> ms \<Rightarrow> hxdb \<Rightarrow> bool \<times> nat \<times> hxdb" where
  "deleteSession key clock deadline db = purgeSessionPg key clock deadline (markSessionDeleted (base_key key) db)"

definition retitle :: "session_key \<Rightarrow> string \<times> title_source \<Rightarrow> hxdb \<Rightarrow> update_outcome \<times> hxdb" where
  "retitle k t db = (case map_of (db_sessions db) k of None \<Rightarrow> (Absent_Row, db)
     | Some r \<Rightarrow> (case updateSessionTitle t (Some (sr_title r, sr_titleSource r)) of
         (out, Some (title, src)) \<Rightarrow>
           (out, db\<lparr>db_sessions := AList.update k (r\<lparr>sr_title := title, sr_titleSource := src\<rparr>) (db_sessions db)\<rparr>)
       | (out, None) \<Rightarrow> (out, db)))"

definition embed_turn :: "nat \<Rightarrow> hxdb \<Rightarrow> hxdb" where
  "embed_turn n db = (if n \<in> set (map tr_id (db_turns db)) then db\<lparr>db_embedded := List.insert n (db_embedded db)\<rparr> else db)"

definition committed :: "hxdb \<Rightarrow> ingest_error + (ingest_outcome \<times> hxdb) \<Rightarrow> hxdb" where
  "committed db r = (case r of Inl _ \<Rightarrow> db | Inr x \<Rightarrow> snd x)"

datatype index_op =
    Parent_Chunk ingest_env ingest_input
  | Agent_Chunk ingest_env ingest_input string
  | Delete_Session session_key "nat \<Rightarrow> ms" ms
  | Retitle session_key string title_source
  | Stored_Chunk lane string nat ms
  | Embedded_Turn nat

fun index_step :: "hxdb \<Rightarrow> index_op \<Rightarrow> hxdb" where
  "index_step db (Parent_Chunk e i) = committed db (ingestCommit e i db)"
| "index_step db (Agent_Chunk e i ag) = committed db (ingestAgentCommit e i ag db)"
| "index_step db (Delete_Session k clock deadline) = snd (snd (deleteSession k clock deadline db))"
| "index_step db (Retitle k t src) = snd (retitle k (t, src) db)"
| "index_step db (Stored_Chunk la c n now) = db\<lparr>db_intents := recordChunkIntent la c n now (db_intents db)\<rparr>"
| "index_step db (Embedded_Turn n) = embed_turn n db"

definition index_run :: "index_op list \<Rightarrow> hxdb \<Rightarrow> hxdb" where
  "index_run xs db = foldl index_step db xs"

definition empty_db :: hxdb where
  "empty_db = \<lparr>db_sessions = [], db_agents = [], db_turns = [], db_nextTurn = 0, db_calls = [], db_events = [], db_intents = [],
     db_deleted = [], db_findings = [], db_embedded = [], db_facts = [], db_repos = [], db_models = []\<rparr>"

text \<open>What has to be shown of a commit for its effect to have a property.\<close>

lemma parent_effect [case_names same duplicate recovered applied]:
  assumes "Q db"
    and "\<And>n. guard_verdict e i None db = Skip_Duplicate n \<Longrightarrow>
      Q (db\<lparr>db_intents := clearChunkIntent (lane_of (ii_key i) None) (ii_chunkId i) (ie_nowMs e) (db_intents db)\<rparr>)"
    and "\<And>x y ov. Q (note_overlap i None ov (with_dims db x y))"
    and "\<And>c d x y ov. \<not> isSessionDeleted db (sk_userId (ii_key i)) (sk_sessionId (ii_key i)) \<Longrightarrow>
      guard_verdict e i None db = Pass ov \<Longrightarrow> \<not> alreadyIngested db (dedupe_key (ii_key i) (ii_chunkId i)) \<Longrightarrow>
      parseChunk (ie_lib e) (ii_chunkText i) = Inr c \<Longrightarrow>
      Q (note_overlap i None ov (refresh_facts e (ii_key i) None
        (parent_written e i (scrubParsed c) (parent_row e i (scrubParsed c) d db) x y db)))"
  shows "Q (committed db (ingestCommit e i db))"
proof (cases "ingestCommit e i db")
  case (Inr r)
  then obtain out db' where run: "ingestCommit e i db = Inr (out, db')" by (cases r) simp
  then have "Q db'"
  proof (cases rule: ingest_cases)
    case (run c skip ov db1)
    note c = run
    from run(4) show ?thesis
    proof (cases rule: commit_cases)
      case (applied d x y)
      with c assms(4) [where ov = ov and c = c and d = d and x = x and y = y] show ?thesis by simp
    qed (use c assms(1-3) in \<open>simp_all add: note_overlap_def refresh_facts_def\<close>)
  qed (use assms(1) in simp)
  with run show ?thesis by (simp add: committed_def)
qed (use assms(1) in \<open>simp add: committed_def\<close>)

lemma agent_effect [case_names same duplicate recovered applied]:
  assumes "Q db"
    and "\<And>n. guard_verdict e i (Some ag) db = Skip_Duplicate n \<Longrightarrow>
      Q (db\<lparr>db_intents := clearChunkIntent (lane_of (ii_key i) (Some ag)) (ii_chunkId i) (ie_nowMs e) (db_intents db)\<rparr>)"
    and "\<And>x y ov. Q (note_overlap i (Some ag) ov (with_dims db x y))"
    and "\<And>c d x y ov. \<not> isSessionDeleted db (sk_userId (ii_key i)) (sk_sessionId (ii_key i)) \<Longrightarrow>
      guard_verdict e i (Some ag) db = Pass ov \<Longrightarrow> \<not> alreadyIngested db (agent_dedupe_key (ii_key i) ag (ii_chunkId i)) \<Longrightarrow>
      map_of (db_sessions db) (ii_key i) \<noteq> None \<Longrightarrow> parseChunk (ie_lib e) (ii_chunkText i) = Inr c \<Longrightarrow>
      Q (note_overlap i (Some ag) ov
        (agent_written e i ag (scrubParsed c) (agent_lane_row e i ag (scrubParsed c) d db) x y db))"
  shows "Q (committed db (ingestAgentCommit e i ag db))"
proof (cases "ingestAgentCommit e i ag db")
  case (Inr r)
  then obtain out db' where run: "ingestAgentCommit e i ag db = Inr (out, db')" by (cases r) simp
  then have "Q db'"
  proof (cases rule: ingest_agent_cases)
    case (run c skip ov db1)
    note c = run
    from run(5) show ?thesis
    proof (cases rule: agent_cases)
      case (applied d x y)
      with c assms(4) [where ov = ov and c = c and d = d and x = x and y = y] show ?thesis by simp
    qed (use c assms(1-3) in \<open>simp_all add: note_overlap_def\<close>)
  qed (use assms(1) in simp)
  with run show ?thesis by (simp add: committed_def)
qed (use assms(1) in \<open>simp add: committed_def\<close>)

text \<open>What holds before and after every operation holds after every history.\<close>

locale index_invariant =
  fixes P :: "hxdb \<Rightarrow> bool"
  assumes step: "P db \<Longrightarrow> P (index_step db x)"
begin

lemma run: "P db \<Longrightarrow> P (index_run xs db)"
  unfolding index_run_def by (induction xs arbitrary: db) (simp_all add: step)

end

section \<open>Lanes\<close>

definition new_rows :: "string \<Rightarrow> session_key \<Rightarrow> string option \<Rightarrow> parsed_turn list \<Rightarrow> hxdb \<Rightarrow> turn_row list" where
  "new_rows now k ag ts db =
     map2 (\<lambda>i t. \<lparr>tr_id = db_nextTurn db + i, tr_session = k, tr_agent = ag, tr_seq = next_seq db k ag + i, tr_turn = t, tr_created = now\<rparr>)
       [0..<length ts] ts"

lemma turns_inserted: "db_turns (insertTurns now k ag ts db) = db_turns db @ new_rows now k ag ts db"
  by (simp add: insertTurns_def new_rows_def Let_def)

lemma new_row_in: "t \<in> set (new_rows now k ag ts db) \<Longrightarrow> tr_session t = k \<and> tr_agent t = ag"
  by (auto simp: new_rows_def)

lemma new_rows_maps:
  "map tr_turn (new_rows now k ag ts db) = ts" "length (new_rows now k ag ts db) = length ts"
  "map tr_id (new_rows now k ag ts db) = [db_nextTurn db..<db_nextTurn db + length ts]"
  "map tr_seq (new_rows now k ag ts db) = [next_seq db k ag..<next_seq db k ag + length ts]"
  by (auto simp: new_rows_def intro!: nth_equalityI)

lemma lane_rows_insert:
  "lane_rows (insertTurns now k ag ts db) k' ag' =
     lane_rows db k' ag' @ (if k' = k \<and> ag' = ag then new_rows now k ag ts db else [])"
  using new_row_in [of _ now k ag ts db]
  by (auto simp: lane_rows_def turns_inserted in_lane_def filter_empty_conv intro!: filter_True)

lemma lane_rows_delete:
  "lane_rows (delete_lane k ag db) k' ag' = (if k' = k \<and> ag' = ag then [] else lane_rows db k' ag')"
  by (auto simp: lane_rows_def delete_lane_def Let_def in_lane_def filter_empty_conv intro!: filter_cong)

lemma lane_rows_write:
  "lane_rows (write_lane e i ag p db) k ag' =
     (if k = ii_key i \<and> ag' = ag
      then (if ii_replace i then [] else lane_rows db k ag') @
        new_rows (ie_now e) k ag (turns p) (if ii_replace i then delete_lane (ii_key i) ag db else db)
      else lane_rows db k ag')"
proof -
  have "lane_rows (upsertToolCalls k' a cs d) = lane_rows d" for k' a cs d
    by (intro ext) (simp add: lane_rows_def)
  then show ?thesis by (simp add: write_lane_def lane_rows_insert lane_rows_delete)
qed

lemma lane_turns_write:
  "lane_turns (write_lane e i ag p db) k ag' =
     (if k = ii_key i \<and> ag' = ag then (if ii_replace i then [] else lane_turns db k ag') @ turns p else lane_turns db k ag')"
  by (simp add: lane_turns_def lane_rows_write new_rows_maps)

definition lane_dense :: "hxdb \<Rightarrow> session_key \<Rightarrow> string option \<Rightarrow> bool" where
  "lane_dense db k ag \<longleftrightarrow> map tr_seq (lane_rows db k ag) = [0..<length (lane_rows db k ag)]"

lemma fold_max_Suc: "fold max (map (\<lambda>j. j + 1) [0..<n]) m = max m (n :: nat)"
  by (induction n) auto

lemma next_seq_dense: "lane_dense db k ag \<Longrightarrow> next_seq db k ag = length (lane_rows db k ag)"
proof -
  assume "lane_dense db k ag"
  then have "map (\<lambda>t. tr_seq t + 1) (lane_rows db k ag) = map (\<lambda>j. j + 1) [0..<length (lane_rows db k ag)]"
    unfolding lane_dense_def by (simp flip: map_map [unfolded comp_def])
  then show ?thesis by (simp only: next_seq_def fold_max_Suc max_0R)
qed

lemma lane_dense_append:
  assumes "lane_dense db k ag"
  shows "map tr_seq (lane_rows db k ag @ new_rows now k ag ts db) = [0..<length (lane_rows db k ag) + length ts]"
proof -
  let ?n = "length (lane_rows db k ag)"
  have "[0..<?n + length ts] = [0..<?n] @ [?n..<?n + length ts]" by (rule upt_add_eq_append) simp
  then show ?thesis using assms next_seq_dense [OF assms] by (simp add: new_rows_maps lane_dense_def)
qed

section \<open>The tables agree\<close>

definition has_session :: "hxdb \<Rightarrow> session_key \<Rightarrow> bool" where
  "has_session db k \<longleftrightarrow> k \<in> fst ` set (db_sessions db)"

definition has_lane :: "hxdb \<Rightarrow> session_key \<Rightarrow> string option \<Rightarrow> bool" where
  "has_lane db k ag \<longleftrightarrow> has_session db k \<and> (case ag of None \<Rightarrow> True | Some a \<Rightarrow> (k, a) \<in> fst ` set (db_agents db))"

definition deleted_key :: "hxdb \<Rightarrow> session_key \<Rightarrow> bool" where
  "deleted_key db k \<longleftrightarrow> isSessionDeleted db (sk_userId k) (sk_sessionId k)"

definition turns_ok :: "hxdb \<Rightarrow> bool" where
  "turns_ok db \<longleftrightarrow> distinct (map tr_id (db_turns db)) \<and>
     (\<forall>t \<in> set (db_turns db). tr_id t < db_nextTurn db \<and> has_lane db (tr_session t) (tr_agent t)) \<and>
     set (db_embedded db) \<subseteq> set (map tr_id (db_turns db))"

definition rows_ok :: "hxdb \<Rightarrow> bool" where
  "rows_ok db \<longleftrightarrow> distinct (map fst (db_sessions db)) \<and> distinct (map fst (db_agents db)) \<and>
     distinct (map fst (db_calls db)) \<and> distinct (map fst (db_facts db)) \<and>
     (\<forall>a \<in> set (db_agents db). has_session db (fst (fst a))) \<and> (\<forall>f \<in> set (db_facts db). has_session db (fst f)) \<and>
     (\<forall>v \<in> set (db_events db). has_session db (ev_session v)) \<and>
     (\<forall>c \<in> set (db_calls db). has_lane db (fst (fst c)) (cl_agent (snd c)))"

text \<open>Between two batches of a deletion a lane has holes; a lane that is not being deleted never has.\<close>

definition lanes_ok :: "hxdb \<Rightarrow> bool" where
  "lanes_ok db \<longleftrightarrow> (\<forall>k ag. \<not> deleted_key db k \<longrightarrow> lane_dense db k ag)"

definition index_ok :: "hxdb \<Rightarrow> bool" where
  "index_ok db \<longleftrightarrow> turns_ok db \<and> rows_ok db \<and> lanes_ok db \<and> distinct (map ev_key (db_events db))"

lemmas index_ok_defs = index_ok_def turns_ok_def rows_ok_def lanes_ok_def
lemmas owner_defs = has_lane_def has_session_def

lemma index_ok_empty: "index_ok empty_db"
  by (simp add: index_ok_defs empty_db_def lane_dense_def lane_rows_def)

lemma lane_rows_eq: "db_turns db' = db_turns db \<Longrightarrow> lane_rows db' k ag = lane_rows db k ag"
  by (simp add: lane_rows_def)

text \<open>Writes to tables that \<open>index_ok\<close> does not speak of.\<close>

lemma index_ok_other:
  assumes "index_ok db" "db_sessions db' = db_sessions db" "db_agents db' = db_agents db" "db_turns db' = db_turns db"
    "db_nextTurn db' = db_nextTurn db" "db_calls db' = db_calls db" "db_events db' = db_events db"
    "db_deleted db' = db_deleted db" "db_embedded db' = db_embedded db" "db_facts db' = db_facts db"
  shows "index_ok db'"
proof -
  have h: "has_session db' x \<longleftrightarrow> has_session db x" "has_lane db' x a \<longleftrightarrow> has_lane db x a"
    "deleted_key db' x \<longleftrightarrow> deleted_key db x" for x a
    using assms by (cases a; simp add: owner_defs deleted_key_def isSessionDeleted_def)+
  from assms(1) show ?thesis
    unfolding index_ok_defs lane_dense_def lane_rows_eq [OF assms(4)] h assms(2-) .
qed

lemma update_keys: "fst ` set (AList.update k v m) = insert k (fst ` set m)"
  by (simp add: dom_update)

lemma in_update: "x \<in> set (AList.update k v m) \<Longrightarrow> x = (k, v) \<or> x \<in> set m"
  by (induction m) (auto split: if_splits)

lemma index_ok_session:
  assumes "index_ok db"
  shows "index_ok (db\<lparr>db_sessions := AList.update k row (db_sessions db)\<rparr>)"
proof -
  let ?db = "db\<lparr>db_sessions := AList.update k row (db_sessions db)\<rparr>"
  have h: "has_session ?db x \<longleftrightarrow> x = k \<or> has_session db x" for x
    by (simp add: has_session_def update_keys)
  have l: "has_lane db x ag \<Longrightarrow> has_lane ?db x ag" for x ag
    unfolding has_lane_def h by (cases ag) (simp_all)
  have t: "turns_ok ?db" using assms l by (auto simp: index_ok_def turns_ok_def)
  have r: "rows_ok ?db" using assms l h by (auto simp: index_ok_def rows_ok_def distinct_update)
  have "lanes_ok ?db" "distinct (map ev_key (db_events ?db))"
    using assms by (simp_all add: index_ok_def lanes_ok_def lane_dense_def lane_rows_def deleted_key_def isSessionDeleted_def)
  with t r show ?thesis by (simp add: index_ok_def)
qed

lemma index_ok_agent:
  assumes "index_ok db" "has_session db k"
  shows "index_ok (db\<lparr>db_agents := AList.update (k, ag) row (db_agents db)\<rparr>)"
proof -
  let ?db = "db\<lparr>db_agents := AList.update (k, ag) row (db_agents db)\<rparr>"
  have h: "has_session ?db x \<longleftrightarrow> has_session db x" for x
    by (simp add: has_session_def)
  have l: "has_lane db x a \<Longrightarrow> has_lane ?db x a" for x a
    unfolding has_lane_def h by (cases a) (auto simp: update_keys)
  have t: "turns_ok ?db" using assms l by (auto simp: index_ok_def turns_ok_def)
  have r: "rows_ok ?db" using assms l h by (auto simp: index_ok_def rows_ok_def distinct_update dest!: in_update)
  have "lanes_ok ?db" "distinct (map ev_key (db_events ?db))"
    using assms by (simp_all add: index_ok_def lanes_ok_def lane_dense_def lane_rows_def deleted_key_def isSessionDeleted_def)
  with t r show ?thesis by (simp add: index_ok_def)
qed

lemma index_ok_delete_lane:
  assumes "index_ok db"
  shows "index_ok (delete_lane k ag db)"
proof -
  let ?db = "delete_lane k ag db"
  have h: "has_lane ?db x a \<longleftrightarrow> has_lane db x a" "has_session ?db x \<longleftrightarrow> has_session db x" for x a
    by (cases a; simp add: owner_defs)+
  have turns: "db_turns ?db = filter (\<lambda>t. \<not> in_lane k ag t) (db_turns db)"
    and em: "set (db_embedded ?db) = set (db_embedded db) - tr_id ` set (lane_rows db k ag)"
    by (auto simp: delete_lane_def Let_def)
  have "set (db_embedded db) - tr_id ` set (lane_rows db k ag) \<subseteq> tr_id ` {t \<in> set (db_turns db). \<not> in_lane k ag t}"
    using assms unfolding index_ok_def turns_ok_def lane_rows_def by fastforce
  then have t: "turns_ok ?db"
    using assms unfolding index_ok_def turns_ok_def h turns em by (simp add: distinct_map_filter)
  have r: "rows_ok ?db"
    using assms unfolding index_ok_def rows_ok_def h by (auto simp: delete_lane_def Let_def distinct_map_filter)
  have "lanes_ok ?db" "distinct (map ev_key (db_events ?db))"
    using assms by (simp_all add: index_ok_def lanes_ok_def lane_dense_def lane_rows_delete deleted_key_def isSessionDeleted_def)
  with t r show ?thesis by (simp add: index_ok_def)
qed

lemma index_ok_insert:
  assumes ok: "index_ok db" and lane: "has_lane db k ag" and live: "\<not> deleted_key db k"
  shows "index_ok (insertTurns now k ag ts db)"
proof -
  let ?db = "insertTurns now k ag ts db"
  have h: "has_lane ?db x a \<longleftrightarrow> has_lane db x a" "has_session ?db x \<longleftrightarrow> has_session db x" for x a
    by (cases a; simp add: owner_defs)+
  have ids: "set (map tr_id (new_rows now k ag ts db)) = {db_nextTurn db..<db_nextTurn db + length ts}"
    unfolding new_rows_maps by simp
  have nt: "db_nextTurn ?db = db_nextTurn db + length ts" by (simp add: insertTurns_def Let_def)
  have fresh: "db_nextTurn db \<le> tr_id t \<and> tr_id t < db_nextTurn db + length ts \<and> tr_session t = k \<and> tr_agent t = ag"
    if "t \<in> set (new_rows now k ag ts db)" for t
    using ids new_row_in [OF that] imageI [OF that, of tr_id] by simp
  have bound: "tr_id t < db_nextTurn db" if "t \<in> set (db_turns db)" for t
    using ok that by (simp add: index_ok_def turns_ok_def)
  have "distinct (map tr_id (db_turns db @ new_rows now k ag ts db))"
    using ok bound unfolding map_append new_rows_maps distinct_append index_ok_def turns_ok_def by fastforce
  then have t: "turns_ok ?db"
    using ok lane fresh unfolding index_ok_def turns_ok_def turns_inserted nt h by (auto dest: bound)
  have r: "rows_ok ?db"
    using ok unfolding index_ok_def rows_ok_def h by simp
  have d: "deleted_key ?db x \<longleftrightarrow> deleted_key db x" for x by (simp add: deleted_key_def isSessionDeleted_def)
  have old: "lane_dense db x a" if "\<not> deleted_key db x" for x a
    using ok that by (simp add: index_ok_def lanes_ok_def)
  have "lane_dense ?db x a" if "\<not> deleted_key db x" for x a
  proof (cases "x = k \<and> a = ag")
    case True
    with lane_dense_append [OF old [OF live], of ag now ts] show ?thesis
      by (simp add: lane_dense_def lane_rows_insert new_rows_maps(2))
  next
    case False
    with old [OF that, of a] show ?thesis unfolding lane_dense_def lane_rows_insert if_not_P [OF False] by simp
  qed
  then have "lanes_ok ?db" unfolding lanes_ok_def d by blast
  with t r ok show ?thesis by (simp add: index_ok_def)
qed

lemma index_ok_calls:
  assumes "index_ok db" "has_lane db k ag"
  shows "index_ok (put_call k ag ic db)"
proof (cases ic)
  case (Pair tid c)
  let ?db = "put_call k ag ic db"
  have h: "has_lane ?db x a \<longleftrightarrow> has_lane db x a" "has_session ?db x \<longleftrightarrow> has_session db x" "deleted_key ?db x \<longleftrightarrow> deleted_key db x" for x a
    by (cases a; simp add: owner_defs deleted_key_def isSessionDeleted_def)+
  have calls: "has_lane db (fst (fst c)) (cl_agent (snd c))" if "c \<in> set (db_calls ?db)" for c
    using that assms unfolding index_ok_def rows_ok_def
    by (auto simp: put_call_def Pair split: option.splits dest!: in_update map_of_SomeD)
  have keys: "distinct (map fst (db_calls ?db))"
    using assms unfolding index_ok_def rows_ok_def
    by (auto simp: put_call_def Pair distinct_update map_of_eq_None_iff split: option.split)
  show ?thesis
    using assms calls keys unfolding index_ok_defs h lane_dense_def lane_rows_eq [OF put_frames(3)] by simp
qed

lemma has_lane_puts [simp]: "has_lane (put_call k ag ic db) x a \<longleftrightarrow> has_lane db x a"
  by (cases a) (simp_all add: owner_defs)

lemma index_ok_puts: "index_ok db \<Longrightarrow> has_lane db k ag \<Longrightarrow> index_ok (fold (put_call k ag) ics db)"
  by (induction ics arbitrary: db) (simp_all add: index_ok_calls)

lemma index_ok_title:
  assumes "index_ok db"
  shows "index_ok (set_title k c t src db)" "index_ok (title_cascade e i ex db)"
proof -
  show a: "index_ok (set_title k c t src db)" for k c t src
    using assms by (simp add: set_title_def index_ok_session split: option.split)
  show "index_ok (title_cascade e i ex db)"
    unfolding title_cascade_def Let_def using a assms by (auto split: option.split)
qed

lemma index_ok_event:
  assumes "index_ok db" "\<not> alreadyIngested db key" "has_session db (ii_key i)"
  shows "index_ok (record_event e i ag key db)"
proof -
  have h: "has_lane (record_event e i ag key db) x a \<longleftrightarrow> has_lane db x a" "has_session (record_event e i ag key db) x \<longleftrightarrow> has_session db x"
    "deleted_key (record_event e i ag key db) x \<longleftrightarrow> deleted_key db x" for x a
    by (cases a; simp add: owner_defs deleted_key_def isSessionDeleted_def)+
  show ?thesis
    using assms unfolding index_ok_defs h lane_dense_def lane_rows_eq [OF event_frames(3)]
    by (auto simp: record_event_def alreadyIngested_def list_ex_iff)
qed

lemma index_ok_facts:
  assumes "index_ok db" "skip = None \<Longrightarrow> has_session db k"
  shows "index_ok (refresh_facts e k skip db)"
proof -
  let ?db = "refresh_facts e k skip db"
  have h: "has_lane ?db x a \<longleftrightarrow> has_lane db x a" "has_session ?db x \<longleftrightarrow> has_session db x" "deleted_key ?db x \<longleftrightarrow> deleted_key db x" for x a
    by (cases a; simp add: owner_defs deleted_key_def isSessionDeleted_def)+
  have "\<exists>v. db_facts ?db = db_facts db \<or> skip = None \<and> db_facts ?db = AList.update k v (db_facts db)"
    by (auto simp: refresh_facts_def recomputeSessionFacts_def Let_def split_def)
  then have "distinct (map fst (db_facts ?db)) \<and> (\<forall>f \<in> set (db_facts ?db). has_session db (fst f))"
    using assms by (auto simp: index_ok_def rows_ok_def distinct_update dest!: in_update)
  then show ?thesis
    using assms unfolding index_ok_defs h lane_dense_def lane_rows_eq [OF facts_frames(3)] by simp
qed

lemma index_ok_quiet:
  assumes "index_ok db"
  shows "index_ok (db\<lparr>db_repos := x, db_models := y\<rparr>)" "index_ok (db\<lparr>db_intents := z\<rparr>)" "index_ok (settle_intents e i ag db)"
    "index_ok (note_overlap i ag n db)"
  by (rule index_ok_other [OF assms]; simp)+

lemma has_session_title [simp]:
  "has_session (set_title k c t src db) x \<longleftrightarrow> has_session db x" "has_session (title_cascade e i ex db) x \<longleftrightarrow> has_session db x"
proof -
  show a: "has_session (set_title k c t src db) x \<longleftrightarrow> has_session db x" for k c t src
    by (auto simp: set_title_def has_session_def update_keys split: option.split dest: map_of_SomeD) (force dest: map_of_SomeD)
  show "has_session (title_cascade e i ex db) x \<longleftrightarrow> has_session db x"
    unfolding title_cascade_def Let_def by (simp add: a split: option.split)
qed

lemma has_session_frames [simp]:
  "has_session (settle_intents e i ag db) x \<longleftrightarrow> has_session db x" "has_session (record_event e i ag key db) x \<longleftrightarrow> has_session db x"
  "has_session (write_lane e i ag p db) x \<longleftrightarrow> has_session db x" "has_session (note_overlap i ag n db) x \<longleftrightarrow> has_session db x"
  by (simp_all add: has_session_def)

lemma has_lane_write:
  assumes "has_lane db k ag"
  shows "has_lane (delete_lane k' a db) k ag" "has_lane (insertTurns now k' a ts db) k ag"
  using assms by (cases ag; simp add: owner_defs)+

lemma index_ok_write:
  assumes "index_ok db" "has_lane db (ii_key i) ag" "\<not> deleted_key db (ii_key i)"
  shows "index_ok (write_lane e i ag p db)"
proof -
  let ?db = "if ii_replace i then delete_lane (ii_key i) ag db else db"
  have "index_ok ?db" "has_lane ?db (ii_key i) ag" "\<not> deleted_key ?db (ii_key i)"
    using assms by (simp_all add: index_ok_delete_lane has_lane_write deleted_key_def isSessionDeleted_def)
  then show ?thesis
    unfolding write_lane_def upsertToolCalls_def
    by (intro index_ok_puts index_ok_insert has_lane_write)
qed

lemma index_ok_parent:
  assumes ok: "index_ok db" and live: "\<not> deleted_key db (ii_key i)"
    and new: "\<not> alreadyIngested db (dedupe_key (ii_key i) (ii_chunkId i))"
  shows "index_ok (parent_written e i p row x y db) \<and> has_session (parent_written e i p row x y db) (ii_key i)"
proof -
  let ?db = "(with_dims db x y)\<lparr>db_sessions := AList.update (ii_key i) row (db_sessions db)\<rparr>"
  have 1: "index_ok ?db" using index_ok_session [OF index_ok_quiet(1) [OF ok]] by simp
  have 2: "has_lane ?db (ii_key i) None" "\<not> deleted_key ?db (ii_key i)"
    using live by (simp_all add: owner_defs update_keys deleted_key_def isSessionDeleted_def)
  let ?w = "settle_intents e i None (title_cascade e i (map_of (db_sessions db) (ii_key i)) (write_lane e i None p ?db))"
  have 3: "index_ok ?w" by (intro index_ok_quiet(3) index_ok_title(2) index_ok_write 1 2)
  have 4: "\<not> alreadyIngested ?w (dedupe_key (ii_key i) (ii_chunkId i))" using new by (simp add: alreadyIngested_def)
  have 5: "has_session ?w (ii_key i)" by (simp, simp add: has_session_def update_keys)
  show ?thesis using index_ok_event [OF 3 4 5] 5 by simp
qed

lemma index_ok_agent_lane:
  assumes ok: "index_ok db" and live: "\<not> deleted_key db (ii_key i)"
    and new: "\<not> alreadyIngested db (agent_dedupe_key (ii_key i) ag (ii_chunkId i))"
    and parent: "map_of (db_sessions db) (ii_key i) \<noteq> None"
  shows "index_ok (agent_written e i ag p row x y db)"
proof -
  let ?db = "(with_dims db x y)\<lparr>db_agents := AList.update (ii_key i, ag) row (db_agents db)\<rparr>"
  have s: "has_session (with_dims db x y) (ii_key i)" using parent by (auto simp: has_session_def map_of_eq_None_iff)
  have 1: "index_ok ?db" using index_ok_agent [OF index_ok_quiet(1) [OF ok] s] by simp
  have 2: "has_lane ?db (ii_key i) (Some ag)" "\<not> deleted_key ?db (ii_key i)"
    using live s by (simp_all add: owner_defs update_keys deleted_key_def isSessionDeleted_def)
  let ?w = "settle_intents e i (Some ag) (write_lane e i (Some ag) p ?db)"
  have 3: "index_ok ?w" by (intro index_ok_quiet(3) index_ok_write 1 2)
  have 4: "\<not> alreadyIngested ?w (agent_dedupe_key (ii_key i) ag (ii_chunkId i))" using new by (simp add: alreadyIngested_def)
  have 5: "has_session ?w (ii_key i)" using s by (simp, simp add: has_session_def)
  show ?thesis by (rule index_ok_event [OF 3 4 5])
qed

lemma index_ok_commits:
  assumes "index_ok db"
  shows "index_ok (committed db (ingestCommit e i db))" "index_ok (committed db (ingestAgentCommit e i ag db))"
proof -
  show "index_ok (committed db (ingestCommit e i db))"
  proof (rule parent_effect)
    fix c d x y ov
    assume "\<not> isSessionDeleted db (sk_userId (ii_key i)) (sk_sessionId (ii_key i))"
      "\<not> alreadyIngested db (dedupe_key (ii_key i) (ii_chunkId i))"
    with index_ok_parent [OF assms] show "index_ok (note_overlap i None ov (refresh_facts e (ii_key i) None
        (parent_written e i (scrubParsed c) (parent_row e i (scrubParsed c) d db) x y db)))"
      by (simp add: deleted_key_def index_ok_quiet(4) index_ok_facts)
  qed (simp_all add: assms index_ok_quiet)
  show "index_ok (committed db (ingestAgentCommit e i ag db))"
    by (rule agent_effect) (simp_all add: assms index_ok_quiet index_ok_agent_lane deleted_key_def)
qed

section \<open>Deletion\<close>

lemma baseSessionId_idem [simp]: "baseSessionId (baseSessionId s) = baseSessionId s"
  by (simp add: baseSessionId_def takeWhile_idem)

lemma base_key_fields [simp]: "sk_userId (base_key k) = sk_userId k" "sk_family (base_key k) = sk_family k"
  "sk_sessionId (base_key k) = baseSessionId (sk_sessionId k)" "base_key (base_key k) = base_key k"
  by (simp_all add: base_key_def)

lemma deleted_after_mark:
  "deleted_key (markSessionDeleted k db) x \<longleftrightarrow>
     deleted_key db x \<or> sk_userId x = sk_userId k \<and> baseSessionId (sk_sessionId x) = baseSessionId (sk_sessionId k)"
  by (auto simp: deleted_key_def isSessionDeleted_def markSessionDeleted_def list_ex_iff)

lemma mark_frames [simp]:
  "db_sessions (markSessionDeleted k db) = db_sessions db" "db_agents (markSessionDeleted k db) = db_agents db"
  "db_turns (markSessionDeleted k db) = db_turns db" "db_nextTurn (markSessionDeleted k db) = db_nextTurn db"
  "db_calls (markSessionDeleted k db) = db_calls db" "db_events (markSessionDeleted k db) = db_events db"
  "db_intents (markSessionDeleted k db) = db_intents db" "db_embedded (markSessionDeleted k db) = db_embedded db"
  "db_findings (markSessionDeleted k db) = db_findings db" "db_facts (markSessionDeleted k db) = db_facts db"
  by (simp_all add: markSessionDeleted_def)

lemma index_ok_mark: "index_ok db \<Longrightarrow> index_ok (markSessionDeleted k db)"
proof -
  assume ok: "index_ok db"
  have h: "has_lane (markSessionDeleted k db) x a \<longleftrightarrow> has_lane db x a" "has_session (markSessionDeleted k db) x \<longleftrightarrow> has_session db x" for x a
    by (cases a; simp add: owner_defs)+
  show ?thesis
    using ok unfolding index_ok_defs h lane_dense_def lane_rows_eq [OF mark_frames(3)] deleted_after_mark by simp
qed

lemma batch_frames [simp]:
  "db_sessions (snd (delete_turn_batch k db)) = db_sessions db" "db_agents (snd (delete_turn_batch k db)) = db_agents db"
  "db_nextTurn (snd (delete_turn_batch k db)) = db_nextTurn db" "db_calls (snd (delete_turn_batch k db)) = db_calls db"
  "db_events (snd (delete_turn_batch k db)) = db_events db" "db_intents (snd (delete_turn_batch k db)) = db_intents db"
  "db_deleted (snd (delete_turn_batch k db)) = db_deleted db" "db_findings (snd (delete_turn_batch k db)) = db_findings db"
  "db_facts (snd (delete_turn_batch k db)) = db_facts db"
  by (simp_all add: delete_turn_batch_def Let_def)

lemma lane_rows_batch: "x \<noteq> k \<Longrightarrow> lane_rows (snd (delete_turn_batch k db)) x a = lane_rows db x a"
  by (auto simp: lane_rows_def delete_turn_batch_def Let_def in_lane_def intro!: filter_cong)

lemma index_ok_batch:
  assumes ok: "index_ok db" and dead: "deleted_key db k"
  shows "index_ok (snd (delete_turn_batch k db))"
proof -
  let ?db = "snd (delete_turn_batch k db)" and ?ids = "set (map tr_id (take TURN_BATCH (turns_of k db)))"
  have h: "has_lane ?db x a \<longleftrightarrow> has_lane db x a" "has_session ?db x \<longleftrightarrow> has_session db x" "deleted_key ?db x \<longleftrightarrow> deleted_key db x" for x a
    by (cases a; simp add: owner_defs deleted_key_def isSessionDeleted_def)+
  have turns: "db_turns ?db = filter (\<lambda>t. \<not> (tr_session t = k \<and> tr_id t \<in> ?ids)) (db_turns db)"
    and em: "set (db_embedded ?db) = set (db_embedded db) - ?ids"
    by (auto simp: delete_turn_batch_def Let_def)
  have "set (db_embedded db) - ?ids \<subseteq> tr_id ` {t \<in> set (db_turns db). \<not> (tr_session t = k \<and> tr_id t \<in> ?ids)}"
    using ok unfolding index_ok_def turns_ok_def by fastforce
  then have t: "turns_ok ?db"
    using ok unfolding index_ok_def turns_ok_def h turns em by (simp add: distinct_map_filter)
  have r: "rows_ok ?db" using ok unfolding index_ok_def rows_ok_def h by simp
  have "lane_dense ?db x a" if "\<not> deleted_key db x" for x a
  proof -
    from that dead have "x \<noteq> k" by auto
    with ok that show ?thesis by (simp add: index_ok_def lanes_ok_def lane_dense_def lane_rows_batch)
  qed
  then have "lanes_ok ?db" unfolding lanes_ok_def h by blast
  with t r ok show ?thesis by (simp add: index_ok_def)
qed

text \<open>What the loop over the batches keeps, and what it has done when it says that it is done.\<close>

lemma purge_turns_keeps:
  assumes "P db" "\<And>d. P d \<Longrightarrow> P (snd (delete_turn_batch k d))"
  shows "P (snd (snd (purge_turns k clock deadline n m db)))"
  using assms
proof (induction k clock deadline n m db rule: purge_turns.induct)
  case (1 k clock deadline n m db)
  obtain c d where b: "delete_turn_batch k db = (c, d)" by force
  have "P (snd (delete_turn_batch k db))" by (rule "1.prems"(2) [OF "1.prems"(1)])
  with b have "P d" by simp
  with "1.IH" [OF b [symmetric]] "1.prems"(2) b show ?case
    by (simp add: purge_turns.simps [of k clock deadline n m db])
qed

lemma purge_turns_done:
  "purge_turns k clock deadline n m db = (True, j, db') \<Longrightarrow> turns_of k db' = []"
proof (induction k clock deadline n m db rule: purge_turns.induct)
  case (1 k clock deadline n m db)
  obtain c d where b: "delete_turn_batch k db = (c, d)" by force
  show ?case
  proof (cases "c < TURN_BATCH")
    case True
    then have "length (turns_of k db) < TURN_BATCH" using b by (auto simp: delete_turn_batch_def Let_def)
    then have "turns_of k d = []" using turns_after_batch [of k db] b by (auto simp: filter_empty_conv)
    with 1(2) b True show ?thesis by (simp add: purge_turns.simps [of k clock deadline n m db])
  next
    case False
    with 1 b show ?thesis by (simp add: purge_turns.simps [of k clock deadline n m db] split: if_splits)
  qed
qed

lemma deleted_rows: "AList.delete k m = filter (\<lambda>p. fst p \<noteq> k) m"
  by (auto simp: AList.delete_eq intro!: filter_cong)

lemma purge_owners:
  "has_session (purge_rows k db) x \<longleftrightarrow> x \<noteq> k \<and> has_session db x"
  "has_lane (purge_rows k db) x a \<longleftrightarrow> x \<noteq> k \<and> has_lane db x a"
proof -
  show s: "has_session (purge_rows k db) x \<longleftrightarrow> x \<noteq> k \<and> has_session db x"
    by (auto simp: has_session_def purge_rows_def deleted_rows)
  show "has_lane (purge_rows k db) x a \<longleftrightarrow> x \<noteq> k \<and> has_lane db x a"
    unfolding has_lane_def s by (cases a) (auto simp: purge_rows_def)
qed

lemma index_ok_purge_rows:
  assumes ok: "index_ok db" and gone: "turns_of k db = []"
  shows "index_ok (purge_rows k db)"
proof -
  let ?db = "purge_rows k db"
  have h: "deleted_key ?db x \<longleftrightarrow> deleted_key db x" for x
    by (simp add: deleted_key_def isSessionDeleted_def purge_rows_def)
  note h = h purge_owners
  have turns: "db_turns ?db = db_turns db"
    using gone by (auto simp: purge_rows_def turns_of_def filter_empty_conv intro!: filter_True)
  have other: "tr_session t \<noteq> k" if "t \<in> set (db_turns db)" for t
    using gone that by (auto simp: turns_of_def filter_empty_conv)
  have t: "turns_ok ?db"
    using ok other unfolding index_ok_def turns_ok_def h turns by (simp add: purge_rows_def)
  have r: "rows_ok ?db"
    using ok unfolding index_ok_def rows_ok_def h by (auto simp: purge_rows_def distinct_map_filter deleted_rows)
  have "lanes_ok ?db"
    using ok unfolding index_ok_def lanes_ok_def h lane_dense_def lane_rows_eq [OF turns] by blast
  with t r ok show ?thesis by (auto simp: index_ok_def purge_rows_def distinct_map_filter)
qed

lemma index_ok_purge:
  assumes ok: "index_ok db" and dead: "deleted_key db (base_key key)"
  shows "index_ok (snd (snd (purgeSessionPg key clock deadline db)))"
proof -
  let ?k = "base_key key"
  obtain fin n db' where p: "purge_turns ?k clock deadline 0 0 db = (fin, n, db')" by (cases "purge_turns ?k clock deadline 0 0 db")
  have "deleted_key (snd (delete_turn_batch ?k d)) x \<longleftrightarrow> deleted_key d x" for d x
    by (simp add: deleted_key_def isSessionDeleted_def)
  then have "index_ok (snd (snd (purge_turns ?k clock deadline 0 0 db))) \<and> deleted_key (snd (snd (purge_turns ?k clock deadline 0 0 db))) ?k"
    using ok dead by (intro purge_turns_keeps [of "\<lambda>d. index_ok d \<and> deleted_key d ?k"]) (simp_all add: index_ok_batch)
  with p have "index_ok db'" by simp
  with p ok purge_turns_done [of ?k clock deadline 0 0 db n db'] show ?thesis
    by (cases fin) (simp_all add: purgeSessionPg_def Let_def index_ok_purge_rows)
qed

lemma deleted_after_base_mark: "deleted_key (markSessionDeleted (base_key k) db) (base_key k)"
  by (simp add: deleted_after_mark)

lemma index_ok_step: "index_ok db \<Longrightarrow> index_ok (index_step db x)"
proof (cases x)
  case (Delete_Session k clock deadline)
  assume "index_ok db"
  with Delete_Session show ?thesis
    by (simp add: deleteSession_def index_ok_purge index_ok_mark deleted_after_base_mark)
next
  case (Retitle k t src)
  assume "index_ok db"
  with Retitle show ?thesis
    by (simp add: retitle_def updateSessionTitle_def index_ok_session split: option.split)
next
  case (Stored_Chunk la c n now)
  assume "index_ok db"
  with Stored_Chunk show ?thesis by (simp add: index_ok_quiet)
next
  case (Embedded_Turn n)
  assume ok: "index_ok db"
  let ?db = "db\<lparr>db_embedded := List.insert n (db_embedded db)\<rparr>"
  have h: "has_lane ?db x a \<longleftrightarrow> has_lane db x a" "has_session ?db x \<longleftrightarrow> has_session db x" "deleted_key ?db x \<longleftrightarrow> deleted_key db x" for x a
    by (cases a; simp add: owner_defs deleted_key_def isSessionDeleted_def)+
  from ok have "index_ok ?db" if "n \<in> set (map tr_id (db_turns db))"
    using that unfolding index_ok_defs h lane_dense_def by (simp add: lane_rows_def)
  with ok Embedded_Turn show ?thesis by (simp add: embed_turn_def)
qed (simp_all add: index_ok_commits)

interpretation tables: index_invariant index_ok
  by unfold_locales (rule index_ok_step)

end
