(* ===== verification/Health.thy ===== *)
theory Health
  imports Index_Invariant
begin

text \<open>
  The detectors of \<open>ingest/health.ts\<close>, queries over what the ingest path recorded: bytes of a canonical that no commit handed to the
  parser, records that two commits indexed, canonicals whose object was never compacted. An object is a session with its lane. Where a
  query leaves the order of equal rows open, the model takes the order of the table.
\<close>

type_synonym lane_key = "session_key \<times> string option"

definition AGENT_LANE :: string where "AGENT_LANE = '':a:''"

definition lane_key :: "session_key \<Rightarrow> string option \<Rightarrow> session_key" where
  "lane_key k ag = (case ag of None \<Rightarrow> k | Some a \<Rightarrow> k\<lparr>sk_sessionId := sk_sessionId k @ AGENT_LANE @ a\<rparr>)"

section \<open>Byte gaps\<close>

definition event_lane :: "event_row \<Rightarrow> lane_key" where
  "event_lane v = (ev_session v, ev_agent v)"

text \<open>A commit that wrote as many bytes as the object then had wrote the whole object.\<close>

definition epoch_at :: "event_row list \<Rightarrow> ms option" where
  "epoch_at vs = (case map ev_at (filter (\<lambda>v. ev_bytes v = ev_total v) vs) of [] \<Rightarrow> None | t # ts \<Rightarrow> Some (foldl max t ts))"

definition scoped :: "event_row list \<Rightarrow> event_row list" where
  "scoped vs = (case epoch_at vs of None \<Rightarrow> vs | Some t \<Rightarrow> filter (\<lambda>v. t \<le> ev_at v) vs)"

definition claimed :: "event_row list \<Rightarrow> nat" where
  "claimed vs = foldl max 0 (map ev_total (scoped vs))"

definition indexed_bytes :: "event_row list \<Rightarrow> nat" where
  "indexed_bytes vs = sum_list (map ev_bytes (scoped vs))"

definition lane_events :: "hxdb \<Rightarrow> lane_key \<Rightarrow> event_row list" where
  "lane_events db la = filter (\<lambda>v. event_lane v = la) (db_events db)"

record byte_gap_report =
  bg_rows :: "(lane_key \<times> nat) list"
  bg_totalUnindexedBytes :: nat
  bg_blindSessions :: nat

definition gap_of :: "hxdb \<Rightarrow> lane_key \<Rightarrow> nat" where
  "gap_of db la = claimed (lane_events db la) - indexed_bytes (lane_events db la)"

definition detectByteGaps :: "nat \<Rightarrow> hxdb \<Rightarrow> byte_gap_report" where
  "detectByteGaps limit db =
     (let lanes = remdups (map event_lane (db_events db));
          gaps = filter (\<lambda>la. 0 < gap_of db la) lanes;
          rows = take limit (map (\<lambda>la. (la, gap_of db la)) (sort_key (\<lambda>la. - int (gap_of db la)) gaps))
      in \<lparr>bg_rows = rows, bg_totalUnindexedBytes = sum_list (map snd rows),
           bg_blindSessions = length (filter (\<lambda>la. claimed (lane_events db la) < indexed_bytes (lane_events db la)) lanes)\<rparr>)"

section \<open>Records indexed by two commits\<close>

text \<open>A block of a source record in the index: its lane, its uuid, its ordinal among the blocks the same commit wrote for that uuid, and
  the commit's time.\<close>

record record_block =
  rb_lane :: lane_key
  rb_uid :: string
  rb_blk :: nat
  rb_created :: string

definition row_uid :: "js_lib \<Rightarrow> turn_row \<Rightarrow> string option" where
  "row_uid l t = stored_uuid l (pt_rawEvent (tr_turn t))"

definition turn_lane :: "turn_row \<Rightarrow> lane_key" where
  "turn_lane t = (tr_session t, tr_agent t)"

definition block_ordinal :: "js_lib \<Rightarrow> hxdb \<Rightarrow> turn_row \<Rightarrow> nat" where
  "block_ordinal l db t = length (filter
     (\<lambda>s. turn_lane s = turn_lane t \<and> row_uid l s = row_uid l t \<and> tr_created s = tr_created t \<and> tr_seq s \<le> tr_seq t) (db_turns db))"

definition record_blocks :: "js_lib \<Rightarrow> hxdb \<Rightarrow> record_block list" where
  "record_blocks l db = List.map_filter (\<lambda>t. map_option
     (\<lambda>u. \<lparr>rb_lane = turn_lane t, rb_uid = u, rb_blk = block_ordinal l db t, rb_created = tr_created t\<rparr>) (row_uid l t)) (db_turns db)"

definition same_record :: "record_block \<Rightarrow> record_block \<Rightarrow> bool" where
  "same_record a b \<longleftrightarrow> rb_lane a = rb_lane b \<and> rb_uid a = rb_uid b \<and> rb_blk a = rb_blk b"

definition copies :: "record_block list \<Rightarrow> record_block \<Rightarrow> nat" where
  "copies bs b = length (filter (same_record b) bs)"

definition commits :: "record_block list \<Rightarrow> record_block \<Rightarrow> nat" where
  "commits bs b = length (remdups (map rb_created (filter (same_record b) bs)))"

definition duplicated :: "record_block list \<Rightarrow> record_block \<Rightarrow> bool" where
  "duplicated bs b \<longleftrightarrow> 1 < copies bs b \<and> 1 < commits bs b"

definition duplicate_groups :: "record_block list \<Rightarrow> (lane_key \<times> string \<times> nat) list" where
  "duplicate_groups bs = remdups (map (\<lambda>b. (rb_lane b, rb_uid b, rb_blk b)) (filter (duplicated bs) bs))"

definition extra_turns :: "record_block list \<Rightarrow> session_key \<Rightarrow> nat" where
  "extra_turns bs k = sum_list (map (\<lambda>(la, u, n). copies bs \<lparr>rb_lane = la, rb_uid = u, rb_blk = n, rb_created = []\<rparr> - 1)
     (filter (\<lambda>g. fst (fst g) = k) (duplicate_groups bs)))"

definition detectCrossCommitDuplicates :: "js_lib \<Rightarrow> nat \<Rightarrow> hxdb \<Rightarrow> (session_key \<times> nat) list" where
  "detectCrossCommitDuplicates l limit db =
     (let bs = record_blocks l db; ks = remdups (map (\<lambda>g. fst (fst g)) (duplicate_groups bs))
      in take limit (map (\<lambda>k. (k, extra_turns bs k)) (sort_key (\<lambda>k. - int (extra_turns bs k)) ks)))"

definition duplicatedSessionKeys :: "js_lib \<Rightarrow> nat \<Rightarrow> hxdb \<Rightarrow> session_key list" where
  "duplicatedSessionKeys l limit db =
     take limit (map (\<lambda>(k, ag). lane_key k ag) (filter (\<lambda>(k, ag). case ag of None \<Rightarrow> has_session db k | Some _ \<Rightarrow> has_lane db k ag)
       (remdups (map fst (duplicate_groups (record_blocks l db))))))"

section \<open>Sizes\<close>

definition countUnjudgeableBySize :: "nat \<Rightarrow> hxdb \<Rightarrow> nat" where
  "countUnjudgeableBySize cap db = length (filter (\<lambda>(_, r). cap < sr_bytesUploaded r) (db_sessions db))"

definition components_of :: "event_row list \<Rightarrow> nat" where
  "components_of vs = foldl max 0 (map ev_components vs)"

definition detectUncompactedCanonicals :: "nat \<Rightarrow> nat \<Rightarrow> hxdb \<Rightarrow> (lane_key \<times> nat) list" where
  "detectUncompactedCanonicals threshold limit db =
     (let vs = filter (\<lambda>v. \<not> prefix ''reconcile'' (ev_chunk v)) (db_events db);
          rows = map (\<lambda>la. (la, components_of (filter (\<lambda>v. event_lane v = la) vs))) (remdups (map event_lane vs))
      in take limit (sort_key (\<lambda>r. - int (snd r)) (filter (\<lambda>r. threshold \<le> snd r) rows)))"

section \<open>What the detectors find\<close>

text \<open>The chunks of one object in the order they were composed: each adds its bytes to what was there.\<close>

fun composed :: "nat \<Rightarrow> event_row list \<Rightarrow> bool" where
  "composed n [] = True"
| "composed n (v # vs) = (0 < ev_bytes v \<and> ev_total v = n + ev_bytes v \<and> composed (n + ev_bytes v) vs)"

lemma composed_total: "composed n vs \<Longrightarrow> v \<in> set vs \<Longrightarrow> n + ev_bytes v \<le> ev_total v \<and> ev_total v \<le> n + sum_list (map ev_bytes vs)"
  by (induction n vs rule: composed.induct) fastforce+

lemma composed_last: "composed n vs \<Longrightarrow> vs \<noteq> [] \<Longrightarrow> ev_total (last vs) = n + sum_list (map ev_bytes vs)"
  by (induction n vs rule: composed.induct) (auto simp: last_ConsR)

lemma foldl_max_le: "foldl max (m :: 'a :: linorder) xs \<le> k \<longleftrightarrow> m \<le> k \<and> (\<forall>x \<in> set xs. x \<le> k)"
  by (induction xs arbitrary: m) auto

lemma foldl_max_ge: "x = (m :: 'a :: linorder) \<or> x \<in> set xs \<Longrightarrow> x \<le> foldl max m xs"
  using foldl_max_le [of m xs "foldl max m xs"] by auto

lemma foldl_max_in: "foldl max (m :: 'a :: linorder) xs \<in> insert m (set xs)"
  by (induction xs arbitrary: m) (force simp: max_def)+

text \<open>Only the first chunk can be as long as the object, so nothing is out of scope.\<close>

lemma scoped_composed:
  assumes c: "composed 0 vs" and s: "sorted (map ev_at vs)"
  shows "scoped (filter P vs) = filter P vs"
proof (cases vs)
  case (Cons v rest)
  have later: "ev_bytes u \<noteq> ev_total u" if "u \<in> set rest" for u
    using c Cons composed_total [of "ev_bytes v" rest u] that by auto
  have none: "filter (\<lambda>u. ev_bytes u = ev_total u) (filter P rest) = []"
    using later by (simp add: filter_empty_conv)
  have first: "ev_at v \<le> ev_at u" if "u \<in> set vs" for u
    using s that Cons by auto
  show ?thesis
  proof (cases "P v")
    case True
    with Cons c none have "epoch_at (filter P vs) = Some (ev_at v)" by (simp add: epoch_at_def)
    moreover have "filter (\<lambda>u. ev_at v \<le> ev_at u) (filter P vs) = filter P vs"
      using first by (intro filter_True) simp
    ultimately show ?thesis by (simp add: scoped_def)
  next
    case False
    with Cons none have "epoch_at (filter P vs) = None" by (simp add: epoch_at_def)
    then show ?thesis by (simp add: scoped_def)
  qed
qed (simp add: scoped_def epoch_at_def)

lemma sum_split: "sum_list (map f (filter P xs)) + sum_list (map f (filter (\<lambda>x. \<not> P x) xs)) = (sum_list (map f xs) :: nat)"
  by (induction xs) auto

text \<open>
  C26. A dropped write shows as a gap of exactly its size: when the chunks of an object were composed one after the other and only some of
  them were indexed, the last one among them, the detector reports the bytes of the others - even though the last commit
  carried the full length and the turns are numbered without a hole.
\<close>
theorem dropped_writes_show_as_a_gap:
  assumes "composed 0 vs" "sorted (map ev_at vs)" "vs \<noteq> []" "landed (last vs)" "lane_events db la = filter landed vs"
  shows "gap_of db la = sum_list (map ev_bytes (filter (\<lambda>v. \<not> landed v) vs))"
proof -
  have s: "scoped (lane_events db la) = filter landed vs" unfolding assms(5) by (rule scoped_composed) fact+
  let ?n = "sum_list (map ev_bytes vs)"
  have "ev_total (last vs) = ?n" using composed_last [OF assms(1,3)] by simp
  moreover have "last vs \<in> set (filter landed vs)" using assms(3,4) by simp
  ultimately have "?n \<in> ev_total ` set (filter landed vs)" by (metis imageI)
  then have "claimed (lane_events db la) = ?n"
    unfolding claimed_def s using composed_total [OF assms(1)]
    by (intro antisym foldl_max_ge) (auto simp: foldl_max_le)
  then show ?thesis
    using sum_split [of ev_bytes landed vs] by (simp add: gap_of_def indexed_bytes_def s)
qed

lemma group_of: "g \<in> set (duplicate_groups bs) \<Longrightarrow> \<exists>b \<in> set bs. duplicated bs b \<and> rb_lane b = fst g"
  by (auto simp: duplicate_groups_def)

lemma block_created:
  "b \<in> set (record_blocks l db) \<Longrightarrow> \<exists>t \<in> set (db_turns db). turn_lane t = rb_lane b \<and> tr_created t = rb_created b"
  by (auto simp: record_blocks_def List.map_filter_def)

lemma one_time_no_group:
  assumes "\<And>t. t \<in> set (lane_rows db k ag) \<Longrightarrow> tr_created t = now"
  shows "(k, ag) \<notin> fst ` set (duplicate_groups (record_blocks l db))"
proof
  let ?bs = "record_blocks l db"
  assume "(k, ag) \<in> fst ` set (duplicate_groups ?bs)"
  then obtain b where b: "b \<in> set ?bs" "duplicated ?bs b" "rb_lane b = (k, ag)" using group_of by force
  have "rb_created a = now" if a: "a \<in> set ?bs" "same_record b a" for a
  proof -
    obtain t where t: "t \<in> set (db_turns db)" "turn_lane t = rb_lane a" "tr_created t = rb_created a"
      using block_created [OF a(1)] by blast
    then have "t \<in> set (lane_rows db k ag)"
      using a(2) b(3) by (auto simp: same_record_def turn_lane_def lane_rows_def in_lane_def dest: sym)
    with assms t(3) show ?thesis by metis
  qed
  then have "set (map rb_created (filter (same_record b) ?bs)) \<subseteq> {now}" by auto
  then have "commits ?bs b \<le> 1"
    unfolding commits_def length_remdups_card_conv by (metis card_mono card_insert_disjoint card.empty finite.intros empty_iff One_nat_def)
  with b(2) show False by (simp add: duplicated_def)
qed

section \<open>Witnesses\<close>

definition gap_lane :: lane_key where
  "gap_lane = (\<lparr>sk_userId = ''u'', sk_family = ''c'', sk_sessionId = ''s''\<rparr>, None)"

definition demo_event :: "nat \<Rightarrow> nat \<Rightarrow> event_row" where
  "demo_event n t = \<lparr>ev_key = [], ev_session = fst gap_lane, ev_agent = snd gap_lane, ev_chunk = [], ev_bytes = n, ev_total = t, ev_components = 1, ev_at = t\<rparr>"

theorem dropped_writes_show_as_a_gap_witness:
  "gap_of (empty_db\<lparr>db_events := [demo_event 5 5, demo_event 2 14]\<rparr>) gap_lane = 7"
proof -
  have "gap_of (empty_db\<lparr>db_events := [demo_event 5 5, demo_event 2 14]\<rparr>) gap_lane =
      sum_list (map ev_bytes (filter (\<lambda>v. \<not> ev_bytes v \<noteq> 7) [demo_event 5 5, demo_event 7 12, demo_event 2 14]))"
    by (rule dropped_writes_show_as_a_gap) (simp_all add: demo_event_def lane_events_def event_lane_def empty_db_def)
  then show ?thesis by (simp add: demo_event_def)
qed

end
