(* ===== verification/Reconcile_World.thy ===== *)
theory Reconcile_World
  imports Effects Health
begin

text \<open>
  What one pass of the guarantor works on (\<open>ingest/reconciler.ts\<close>): the database, the object store, the live traffic, its
  counters. Everything the pass waits for is a call. Before each call the world moves: the live operations of that moment (any
  list of \<open>index_op\<close>) have reached the database, the store holds what that moment says, and the call may fail, before or after it
  took effect. So every interleaving of a pass with the live traffic is one \<open>pa_world\<close>. A text is the list of its UTF-8 bytes. The
  columns \<open>deep_verified_at\<close> and \<open>deep_attempted_at\<close> are \<open>pa_stamps\<close>. Log lines and pauses between two keys are not modelled.
\<close>

section \<open>State\<close>

datatype call_fate = Answers | Fails | Loses_Answer

record moment =
  mo_live :: "index_op list"
  mo_fate :: call_fate
  mo_saturated :: bool
  mo_env :: ingest_env
  mo_listing :: "(session_key \<times> nat option) list"
  mo_size :: "session_key \<Rightarrow> nat option"
  mo_text :: "session_key \<Rightarrow> string"
  mo_uuid :: string

datatype counter =
    Scanned | Orphans | Restored | Skipped_Tombstoned | Deferred | Errors | Titles_Corrected | Injected_Titles_Corrected
  | Repaired_Tail | Repaired_Full | Verify_Fallbacks | Integrity_Failures | Short_Reads | Yielded_To_Live | Deep_Verified
  | Deep_Mismatched | Deep_Repaired | Deep_Refused | Deep_Errors | Stale_Intents | Intents_Closed_Terminal | Facts_Recomputed
  | Skipped_Behind | Lane_Drift | Deep_Overcount | Canonical_Held_Duplicates | Protected_Skips | Empty_Canonicals
  | No_Op_Repairs | Prefix_Mismatches | Unjudgeable | Too_Large_To_Judge | Oversized_Unindexed | Live_Races | Gapped_Lanes
  | Stale_Indexes

record report =
  rp_count :: "counter \<Rightarrow> nat"
  rp_deepVerifyBacklog :: "nat option"
  rp_deepVerifyFloor :: "nat option"
  rp_byteGapRows :: "nat option"
  rp_byteGapBytes :: "nat option"
  rp_byteGapBlind :: "nat option"
  rp_uncompactedCanonicals :: "nat option"
  rp_intentsPruned :: "nat option"
  rp_duplicatedSessions :: "nat option"
  rp_embeddingsPruned :: "nat option"

definition no_report :: report where
  "no_report = \<lparr>rp_count = (\<lambda>_. 0), rp_deepVerifyBacklog = None, rp_deepVerifyFloor = None, rp_byteGapRows = None,
     rp_byteGapBytes = None, rp_byteGapBlind = None, rp_uncompactedCanonicals = None, rp_intentsPruned = None,
     rp_duplicatedSessions = None, rp_embeddingsPruned = None\<rparr>"

record stamp =
  sp_verified :: "ms option"
  sp_attempted :: "ms option"

text \<open>The ceiling of one count sweep: rows in the pass, mismatches and repairs so far.\<close>

record sweep_state =
  sw_size :: nat
  sw_mismatched :: nat
  sw_repaired :: nat

record pass =
  pa_db :: hxdb
  pa_stamps :: "(lane_key \<times> stamp) list"
  pa_lib :: js_lib
  pa_world :: "nat \<Rightarrow> moment"
  pa_moment :: nat
  pa_report :: report
  pa_failed :: "string list"
  pa_sweep :: sweep_state

record reconcile_options =
  op_maxOrphans :: "nat option"
  op_intentGraceMs :: "ms option"
  op_deepVerifyPerPass :: nat
  op_healthSignals :: bool
  op_repairDuplicates :: bool
  op_recomputeFactlessFacts :: bool
  op_correctExistingTitles :: bool
  op_correctInjectedTitles :: bool
  op_repairStaleIndexes :: bool
  op_repairTails :: bool
  op_staleRepairCeiling :: rat
  op_maxCanonicalBytes :: nat
  op_maxRepairBytes :: nat

section \<open>Calls\<close>

definition this_moment :: "pass \<Rightarrow> moment" where
  "this_moment w = pa_world w (pa_moment w)"

definition transact :: "(moment \<Rightarrow> pass \<Rightarrow> 'a \<times> pass) \<Rightarrow> (pass, 'a) eff" where
  "transact f w =
     (let m = this_moment w; w1 = w\<lparr>pa_db := index_run (mo_live m) (pa_db w), pa_moment := Suc (pa_moment w)\<rparr>; (x, w2) = f m w1 in
      case mo_fate m of Answers \<Rightarrow> (Inr x, w2) | Fails \<Rightarrow> (Inl ''failed'', w1) | Loses_Answer \<Rightarrow> (Inl ''failed'', w2))"

definition request :: "(moment \<Rightarrow> hxdb \<Rightarrow> 'a \<times> hxdb) \<Rightarrow> (pass, 'a) eff" where
  "request f = transact (\<lambda>m w. let (x, db) = f m (pa_db w) in (x, w\<lparr>pa_db := db\<rparr>))"

definition query :: "(moment \<Rightarrow> hxdb \<Rightarrow> 'a) \<Rightarrow> (pass, 'a) eff" where
  "query f = request (\<lambda>m db. (f m db, db))"

definition attempt :: "(pass, 'a) eff \<Rightarrow> (pass, 'a option) eff" where
  "attempt m = catching (bind m (\<lambda>x. ret (Some x))) (\<lambda>_. ret None)"

definition isSaturated :: "(pass, bool) eff" where
  "isSaturated = get (\<lambda>w. mo_saturated (this_moment w))"

definition bump_by :: "nat \<Rightarrow> counter \<Rightarrow> (pass, unit) eff" where
  "bump_by n c = update (\<lambda>w. w\<lparr>pa_report := (pa_report w)\<lparr>rp_count := (rp_count (pa_report w))(c := rp_count (pa_report w) c + n)\<rparr>\<rparr>)"

definition bump :: "counter \<Rightarrow> (pass, unit) eff" where
  "bump = bump_by 1"

definition tally :: "counter \<Rightarrow> pass \<Rightarrow> nat" where
  "tally c w = rp_count (pa_report w) c"

definition statCanonical :: "session_key \<Rightarrow> (pass, nat option) eff" where
  "statCanonical key = query (\<lambda>m db. mo_size m key)"

definition readCanonicalText :: "session_key \<Rightarrow> (pass, string) eff" where
  "readCanonicalText key = query (\<lambda>m db. mo_text m key)"

text \<open>The two commits; the deadline of a live caller does not exist here.\<close>

definition commit :: "ingest_input \<Rightarrow> string option \<Rightarrow> (pass, ingest_error + ingest_outcome) eff" where
  "commit i agent = bind (get pa_lib) (\<lambda>lib. request (\<lambda>m db.
     let e = (mo_env m)\<lparr>ie_lib := lib\<rparr> in
     case (case agent of None \<Rightarrow> ingestCommit e i db | Some ag \<Rightarrow> ingestAgentCommit e i ag db) of
       Inl err \<Rightarrow> (Inl err, db)
     | Inr (out, db') \<Rightarrow> (Inr out, db')))"

text \<open>The insert is best effort: a failure is swallowed.\<close>

definition recordIntegrityFinding :: "lane \<Rightarrow> finding_detail \<Rightarrow> (pass, unit) eff" where
  "recordIntegrityFinding la d =
     bind (attempt (request (\<lambda>m db. ((), db\<lparr>db_findings := db_findings db @ [\<lparr>fi_lane = la, fi_detail = d\<rparr>]\<rparr>)))) (\<lambda>_. ret ())"

section \<open>Keys\<close>

text \<open>\<open>indexOf(AGENT_LANE)\<close> and the two slices around it.\<close>

fun split_lane :: "string \<Rightarrow> (string \<times> string) option" where
  "split_lane [] = None"
| "split_lane (c # cs) =
     (if prefix AGENT_LANE (c # cs) then Some ([], drop (length AGENT_LANE) (c # cs))
      else map_option (\<lambda>(b, a). (c # b, a)) (split_lane cs))"

definition base_sid :: "string \<Rightarrow> string" where
  "base_sid sid = (case split_lane sid of None \<Rightarrow> sid | Some (b, _) \<Rightarrow> b)"

definition lane_agent :: "string \<Rightarrow> string option" where
  "lane_agent sid = map_option snd (split_lane sid)"

definition parent_key :: "session_key \<Rightarrow> session_key" where
  "parent_key k = k\<lparr>sk_sessionId := base_sid (sk_sessionId k)\<rparr>"

definition natural_key :: "session_key \<Rightarrow> string" where
  "natural_key k = join_with ''/'' [sk_userId k, sk_family k, sk_sessionId k]"

definition reconcile_chunk_id :: "string \<Rightarrow> string \<Rightarrow> string" where
  "reconcile_chunk_id kind uuid = ''reconcile-'' @ kind @ '':'' @ uuid"

definition repairChunkId :: "string \<Rightarrow> (pass, string) eff" where
  "repairChunkId kind = get (\<lambda>w. reconcile_chunk_id kind (mo_uuid (this_moment w)))"

definition currentBytes :: "session_key \<Rightarrow> (pass, nat option) eff" where
  "currentBytes key = query (\<lambda>m db. map_option sr_bytesUploaded (map_of (db_sessions db) key))"

definition keyExists :: "session_key \<Rightarrow> (pass, bool) eff" where
  "keyExists key = query (\<lambda>m db.
     case split_lane (sk_sessionId key) of
       None \<Rightarrow> (case map_of (db_sessions db) key of None \<Rightarrow> False | Some r \<Rightarrow> 0 < uc_events (sr_counts r))
     | Some (b, ag) \<Rightarrow> has_session db (key\<lparr>sk_sessionId := b\<rparr>) \<and>
         (case map_of (db_agents db) (key\<lparr>sk_sessionId := b\<rparr>, ag) of None \<Rightarrow> False | Some r \<Rightarrow> 0 < uc_events (ar_counts r)))"

section \<open>Verification of a lane\<close>

record lane_verdict =
  lv_ok :: bool
  lv_bytes :: nat
  lv_turns :: nat
  lv_dense :: bool
  lv_canonical :: "nat option"
  lv_expected :: "nat option"

definition judge_lane :: "nat option \<Rightarrow> bool \<Rightarrow> nat option \<Rightarrow> nat \<Rightarrow> nat \<Rightarrow> nat \<Rightarrow> lane_verdict" where
  "judge_lane canonical exact expected bytes n next =
     (let dense = (n = next);
          bytesOk = (case canonical of None \<Rightarrow> True | Some c \<Rightarrow> c \<le> bytes);
          countOk = (case expected of None \<Rightarrow> True | Some x \<Rightarrow> if exact then n = x else x \<le> n)
      in \<lparr>lv_ok = (bytesOk \<and> dense \<and> countOk), lv_bytes = bytes, lv_turns = n, lv_dense = dense, lv_canonical = canonical,
           lv_expected = expected\<rparr>)"

definition no_lane :: "nat option \<Rightarrow> nat option \<Rightarrow> lane_verdict" where
  "no_lane canonical expected =
     \<lparr>lv_ok = False, lv_bytes = 0, lv_turns = 0, lv_dense = False, lv_canonical = canonical, lv_expected = expected\<rparr>"

definition verifyLane ::
  "session_key \<Rightarrow> nat option \<Rightarrow> string option \<Rightarrow> bool \<Rightarrow> nat option \<Rightarrow> session_key \<Rightarrow> (pass, lane_verdict) eff" where
  "verifyLane key scanned agent exact expected statKey =
     bind (attempt (statCanonical statKey)) (\<lambda>fresh.
     let canonical = (case fresh of Some (Some n) \<Rightarrow> Some n | _ \<Rightarrow> scanned); ag = nonempty agent in
     bind (currentBytes key) (\<lambda>row. case row of None \<Rightarrow> ret (no_lane canonical expected) | Some parentBytes \<Rightarrow>
     bind (case ag of None \<Rightarrow> ret (Some parentBytes)
       | Some a \<Rightarrow> query (\<lambda>m db. map_option ar_bytesUploaded (map_of (db_agents db) (key, a)))) (\<lambda>laneBytes.
     case laneBytes of None \<Rightarrow> ret (no_lane canonical expected) | Some bytes \<Rightarrow>
     query (\<lambda>m db. judge_lane canonical exact expected bytes (length (lane_rows db key ag)) (next_seq db key ag)))))"

datatype shortfall = Damage | Grew | Short_Read

definition classifyShortfall :: "lane_verdict \<Rightarrow> nat \<Rightarrow> nat option \<Rightarrow> shortfall" where
  "classifyShortfall v readBytes scanBytes =
     (let grew = (case (scanBytes, lv_canonical v) of (Some s, Some c) \<Rightarrow> s < c | _ \<Rightarrow> False) in
      if \<not> lv_dense v \<or> lv_bytes v < readBytes then Damage
      else if (case lv_expected v of None \<Rightarrow> False | Some x \<Rightarrow> lv_turns v < x) \<and> \<not> grew then Damage
      else if lv_canonical v = None then Damage
      else if grew then Grew else Short_Read)"

end
