(* ===== verification/Reconcile_Gate.thy ===== *)
theory Reconcile_Gate
  imports Reconcile_World "HOL-Library.Char_ord" "HOL-Library.List_Lexorder"
begin

text \<open>
  What a pass finds out before it touches anything (\<open>reconcileOrphans\<close> of \<open>ingest/reconciler.ts\<close> up to its loop): the listing of the
  store, the open chunk intents, and the bulk snapshot of the index. Sets and maps are keyed by the natural key
  \<open>user/family/session\<close>, as in the code. \<open>gate\<close> is what the loop over the canonicals reads.
\<close>

definition CLEARED_INTENT_RETENTION_MS :: ms where "CLEARED_INTENT_RETENTION_MS = 7 * 24 * 60 * 60 * 1000"
definition DEFAULT_INTENT_GRACE_MS :: ms where "DEFAULT_INTENT_GRACE_MS = 10 * 60 * 1000"
definition STALE_CEILING_MIN_COUNT :: nat where "STALE_CEILING_MIN_COUNT = 50"

section \<open>Open intents\<close>

definition intent_key :: "lane \<Rightarrow> session_key" where
  "intent_key la = \<lparr>sk_userId = ln_user la, sk_family = ln_family la, sk_sessionId = ln_session la\<rparr>"

text \<open>An intent that can never resolve: the session is tombstoned, its own canonical is confirmed absent, or it is a lane whose parent's
  canonical is. A call that fails confirms nothing.\<close>

definition terminal_intent :: "lane \<Rightarrow> (pass, bool) eff" where
  "terminal_intent la =
     (let own = lane_key (intent_key la) (nonempty (ln_agent la)) in
      catching
        (bind (query (\<lambda>m db. isSessionDeleted db (ln_user la) (ln_session la))) (\<lambda>deleted. if deleted then ret True else
         bind (statCanonical own) (\<lambda>size. if size = None then ret True
           else if nonempty (ln_agent la) = None then ret False
           else bind (statCanonical (intent_key la)) (\<lambda>parent. ret (parent = None)))))
        (\<lambda>_. ret False))"

definition close_intents :: "lane \<Rightarrow> (pass, nat) eff" where
  "close_intents la = request (\<lambda>m db.
     (length (filter (\<lambda>i. it_lane i = la \<and> it_open i) (db_intents db)),
      db\<lparr>db_intents := closeTerminalChunkIntents la (ie_nowMs (mo_env m)) (db_intents db)\<rparr>))"

text \<open>The keys to repair whatever the other checks say.\<close>

fun triage_intents :: "lane list \<Rightarrow> string list \<Rightarrow> (pass, string list) eff" where
  "triage_intents [] forced = ret forced"
| "triage_intents (la # las) forced =
     bind (terminal_intent la) (\<lambda>terminal.
     if terminal then
       bind (attempt (close_intents la)) (\<lambda>closed.
       seq (bump_by (case closed of None \<Rightarrow> 0 | Some n \<Rightarrow> n) Intents_Closed_Terminal) (triage_intents las forced))
     else triage_intents las (List.insert (natural_key (lane_key (intent_key la) (nonempty (ln_agent la)))) forced))"

definition forced_intents :: "reconcile_options \<Rightarrow> (pass, string list) eff" where
  "forced_intents o1 =
     (let grace = (case op_intentGraceMs o1 of None \<Rightarrow> DEFAULT_INTENT_GRACE_MS | Some g \<Rightarrow> g) in
      if op_intentGraceMs o1 = Some 0 then ret []
      else bind (attempt (query (\<lambda>m db. staleIntentSessions grace (ie_nowMs (mo_env m)) 200 (db_intents db)))) (\<lambda>stale.
        case stale of None \<Rightarrow> ret []
        | Some las \<Rightarrow> bind (triage_intents las []) (\<lambda>forced. seq (bump_by (length forced) Stale_Intents) (ret forced))))"

section \<open>The snapshot of the index\<close>

type_synonym byte_map = "(string \<times> nat) list"

text \<open>\<open>new Map(rows)\<close>: the last of two equal keys wins.\<close>

definition js_map_get :: "byte_map \<Rightarrow> string \<Rightarrow> nat option" where
  "js_map_get m k = map_of (rev m) k"

definition parent_bytes :: "(session_row \<Rightarrow> bool) \<Rightarrow> hxdb \<Rightarrow> byte_map" where
  "parent_bytes P db = map (\<lambda>(k, r). (natural_key k, sr_bytesUploaded r)) (filter (\<lambda>(k, r). P r) (db_sessions db))"

definition lane_bytes :: "(agent_row \<Rightarrow> bool) \<Rightarrow> hxdb \<Rightarrow> byte_map" where
  "lane_bytes P db =
     map (\<lambda>((k, ag), r). (natural_key (lane_key k (Some ag)), ar_bytesUploaded r))
       (filter (\<lambda>((k, ag), r). P r \<and> has_session db k) (db_agents db))"

definition INDEXED :: "session_row \<Rightarrow> bool" where "INDEXED r \<longleftrightarrow> 0 < uc_events (sr_counts r)"
definition LANE_INDEXED :: "agent_row \<Rightarrow> bool" where "LANE_INDEXED r \<longleftrightarrow> 0 < uc_events (ar_counts r)"

text \<open>Lanes with turns whose numbers have a hole: the count is not the highest number plus one.\<close>

definition has_hole :: "hxdb \<Rightarrow> session_key \<Rightarrow> string option \<Rightarrow> bool" where
  "has_hole db k ag \<longleftrightarrow> lane_rows db k ag \<noteq> [] \<and> length (lane_rows db k ag) \<noteq> next_seq db k ag"

definition parent_holes :: "nat \<Rightarrow> hxdb \<Rightarrow> string list" where
  "parent_holes cap db = map (\<lambda>(k, r). natural_key k) (filter (\<lambda>(k, r). sr_bytesUploaded r \<le> cap \<and> has_hole db k None) (db_sessions db))"

definition lane_holes :: "hxdb \<Rightarrow> string list" where
  "lane_holes db = map (\<lambda>((k, ag), r). natural_key (lane_key k (Some ag)))
     (filter (\<lambda>((k, ag), r). has_session db k \<and> has_hole db k (Some ag)) (db_agents db))"

text \<open>A scan that fails leaves what the scans before it found.\<close>

definition find_holes :: "nat \<Rightarrow> (pass, string list) eff" where
  "find_holes cap =
     bind (attempt (query (\<lambda>m db. parent_holes cap db))) (\<lambda>ps. case ps of None \<Rightarrow> ret []
     | Some ps \<Rightarrow> bind (attempt (query (\<lambda>m db. lane_holes db))) (\<lambda>las. ret (ps @ (case las of None \<Rightarrow> [] | Some las \<Rightarrow> las))))"

definition set_report :: "(report \<Rightarrow> report) \<Rightarrow> (pass, unit) eff" where
  "set_report f = update (\<lambda>w. w\<lparr>pa_report := f (pa_report w)\<rparr>)"

definition find_duplicates :: "reconcile_options \<Rightarrow> (pass, string list) eff" where
  "find_duplicates o1 =
     (if \<not> op_repairDuplicates o1 then ret []
      else bind (get pa_lib) (\<lambda>lib. bind (attempt (query (\<lambda>m db. duplicatedSessionKeys lib 500 db))) (\<lambda>dups. case dups of None \<Rightarrow> ret []
        | Some ds \<Rightarrow> seq (set_report (\<lambda>r. r\<lparr>rp_duplicatedSessions := Some (length ds)\<rparr>)) (ret (map natural_key ds)))))"

section \<open>Sessions without facts\<close>

definition factlessSessions :: "nat \<Rightarrow> hxdb \<Rightarrow> session_key list" where
  "factlessSessions limit db = take limit (filter (\<lambda>k. map_of (db_facts db) k = None) (map fst (db_sessions db)))"

fun recompute_facts :: "session_key list \<Rightarrow> (pass, unit) eff" where
  "recompute_facts [] = ret ()"
| "recompute_facts (k # ks) =
     bind isSaturated (\<lambda>sat. if sat then bump Yielded_To_Live
     else bind (attempt (request (\<lambda>m db. ((), if has_session db k then recomputeSessionFacts (mo_env m) k db else db)))) (\<lambda>r.
       seq (if r = None then ret () else bump Facts_Recomputed) (recompute_facts ks)))"

definition heal_factless :: "reconcile_options \<Rightarrow> (pass, unit) eff" where
  "heal_factless o1 =
     (if \<not> op_recomputeFactlessFacts o1 then ret ()
      else bind (attempt (query (\<lambda>m db. factlessSessions 200 db))) (\<lambda>ks. case ks of None \<Rightarrow> ret () | Some ks \<Rightarrow> recompute_facts ks))"

section \<open>The gate\<close>

record gate =
  ga_have :: "string list"
  ga_parentBytes :: byte_map
  ga_laneBytes :: byte_map
  ga_anyRow :: byte_map
  ga_anyLane :: byte_map
  ga_gapped :: "string list"
  ga_forced :: "string list"
  ga_repairStale :: bool

definition is_lane :: "session_key \<Rightarrow> bool" where
  "is_lane k \<longleftrightarrow> split_lane (sk_sessionId k) \<noteq> None"

definition got :: "nat option \<Rightarrow> nat" where
  "got n = (case n of None \<Rightarrow> 0 | Some x \<Rightarrow> x)"

definition indexed_now :: "gate \<Rightarrow> session_key \<Rightarrow> nat" where
  "indexed_now g k = got (js_map_get (if is_lane k then ga_laneBytes g else ga_parentBytes g) (natural_key k))"

definition stale_total :: "gate \<Rightarrow> (session_key \<times> nat option) list \<Rightarrow> nat" where
  "stale_total g keys = length (filter (\<lambda>(k, bytes).
     case bytes of None \<Rightarrow> False | Some b \<Rightarrow> natural_key k \<in> set (ga_have g) \<and> indexed_now g k < b) keys)"

definition repair_stale :: "reconcile_options \<Rightarrow> nat \<Rightarrow> nat \<Rightarrow> bool" where
  "repair_stale o1 stale n \<longleftrightarrow> op_repairStaleIndexes o1 \<and>
     (stale < STALE_CEILING_MIN_COUNT \<or> n = 0 \<or> of_nat stale / of_nat n \<le> op_staleRepairCeiling o1)"

text \<open>The order of the queries is that of the code; a parent sorts before its lanes.\<close>

definition read_gate ::
  "reconcile_options \<Rightarrow> string list \<Rightarrow> (session_key \<times> nat option) list \<Rightarrow> (pass, gate \<times> (session_key \<times> nat option) list) eff" where
  "read_gate o1 forced keys =
     bind (query (\<lambda>m db. parent_bytes INDEXED db)) (\<lambda>parents.
     bind (find_holes (op_maxCanonicalBytes o1)) (\<lambda>holes.
     bind (find_duplicates o1) (\<lambda>dups.
     seq (heal_factless o1) (
     bind (query (\<lambda>m db. lane_bytes LANE_INDEXED db)) (\<lambda>agents.
     bind (query (\<lambda>m db. parent_bytes (\<lambda>_. True) db)) (\<lambda>anyRow.
     bind (query (\<lambda>m db. lane_bytes (\<lambda>_. True) db)) (\<lambda>anyLane.
     let g = \<lparr>ga_have = map fst parents @ map fst agents, ga_parentBytes = parents, ga_laneBytes = agents, ga_anyRow = anyRow,
               ga_anyLane = anyLane, ga_gapped = holes @ dups, ga_forced = forced, ga_repairStale = False\<rparr>
     in ret (g\<lparr>ga_repairStale := repair_stale o1 (stale_total g keys) (length keys)\<rparr>, sort_key (\<lambda>e. natural_key (fst e)) keys))))))))"

end
