(* ===== verification/Reconcile_Orphans.thy ===== *)
theory Reconcile_Orphans
  imports Reconcile_Gate
begin

text \<open>
  The loop of \<open>reconcileOrphans\<close> over the canonicals of the store. One key is selected (no row, an index behind its
  canonical, a hole, an open intent), read, parsed, and repaired: a lane is rebuilt whole, a parent gets the missing tail when the
  index is cleanly behind and a whole rebuild otherwise. Every repair is verified against the count of the parsed canonical. What
  one key throws is counted, and a parent that threw defers its lanes.
\<close>

definition only_if :: "bool \<Rightarrow> (pass, unit) eff \<Rightarrow> (pass, unit) eff" where
  "only_if b m = (if b then m else ret ())"

section \<open>Selection\<close>

datatype key_plan = Leave | Repair (kp_stale: bool) (kp_already: nat) (kp_scan: "nat option")

definition select_key :: "gate \<Rightarrow> session_key \<Rightarrow> nat option \<Rightarrow> (pass, key_plan) eff" where
  "select_key g k bytes =
     (let nat_key = natural_key k; n = indexed_now g k; holed = (nat_key \<in> set (ga_gapped g));
          behind = (case bytes of None \<Rightarrow> False | Some b \<Rightarrow> n < b); forced = (nat_key \<in> set (ga_forced g)) in
      if nat_key \<notin> set (ga_have g) then ret (Repair False 0 None)
      else seq (only_if (bytes = None) (bump Unjudgeable)) (seq (only_if holed (bump Gapped_Lanes))
        (if \<not> holed \<and> \<not> behind \<and> \<not> forced then ret Leave
         else seq (only_if behind (bump Stale_Indexes))
           (if \<not> ga_repairStale g \<and> \<not> forced then ret Leave else ret (Repair True (if holed then 0 else n) (Some n))))))"

text \<open>A row without events whose bytes cover the canonical: possibly an empty canonical that was restored already.\<close>

definition covered_by_row :: "gate \<Rightarrow> session_key \<Rightarrow> nat option \<Rightarrow> bool \<Rightarrow> bool" where
  "covered_by_row g k bytes stale \<longleftrightarrow> \<not> stale \<and> natural_key k \<notin> set (ga_gapped g) \<and>
     (case (js_map_get (if is_lane k then ga_anyLane g else ga_anyRow g) (natural_key k), bytes) of
        (Some n, Some b) \<Rightarrow> b \<le> n | _ \<Rightarrow> False)"

section \<open>Repairs\<close>

definition RECONCILED_CHANNEL :: string where "RECONCILED_CHANNEL = ''reconciled''"

definition repair_input :: "session_key \<Rightarrow> string \<Rightarrow> string \<Rightarrow> nat option \<Rightarrow> bool \<Rightarrow> ingest_input" where
  "repair_input k chunk text objectBytes rebuild =
     \<lparr>ii_key = k, ii_org = None, ii_repoSlug = None, ii_project = None, ii_device = None, ii_channel = RECONCILED_CHANNEL,
       ii_chunkId = chunk, ii_chunkText = text, ii_totalBytes = length text, ii_componentCount = 1, ii_replace = True, ii_meta = Null,
       ii_recovered = True, ii_expectIndexedBytes = None, ii_objectBytes = objectBytes, ii_expectPriorTurns = None,
       ii_rebuild = rebuild, ii_lateBeforeWrites = False, ii_lateBeforeTurns = False\<rparr>"

definition judge_rebuild :: "lane_verdict \<Rightarrow> nat \<Rightarrow> nat option \<Rightarrow> (pass, unit) eff" where
  "judge_rebuild v readBytes scanBytes =
     bump (if lv_ok v then Repaired_Full
       else case classifyShortfall v readBytes scanBytes of Grew \<Rightarrow> Live_Races | Short_Read \<Rightarrow> Short_Reads | Damage \<Rightarrow> Integrity_Failures)"

definition count_no_op :: "skip_reason \<Rightarrow> (pass, unit) eff" where
  "count_no_op reason = bump (if reason = Recovered_Skip then Protected_Skips else No_Op_Repairs)"

definition repair_lane ::
  "session_key \<Rightarrow> string \<Rightarrow> string \<Rightarrow> string \<Rightarrow> nat \<Rightarrow> nat option \<Rightarrow> bool \<Rightarrow> nat option \<Rightarrow> (pass, unit) eff" where
  "repair_lane k ag chunk text expected bytes stale scan =
     bind (commit ((repair_input (parent_key k) chunk text bytes stale)\<lparr>ii_expectIndexedBytes := scan\<rparr>) (Some ag)) (\<lambda>r. case r of
       Inl (Index_Advanced _ _) \<Rightarrow> bump Live_Races
     | Inl _ \<Rightarrow> raise ''the commit threw''
     | Inr (Not_Applied reason) \<Rightarrow> count_no_op reason
     | Inr (Applied _ _) \<Rightarrow> bind (verifyLane (parent_key k) bytes (Some ag) True (Some expected) k) (\<lambda>v.
         seq (judge_rebuild v (length text) bytes) (bump Restored)))"

definition can_append_tail :: "reconcile_options \<Rightarrow> bool \<Rightarrow> nat \<Rightarrow> string \<Rightarrow> bool" where
  "can_append_tail o1 stale already text \<longleftrightarrow>
     op_repairTails o1 \<and> stale \<and> 0 < already \<and> already < length text \<and> text ! (already - 1) = CHR 0x0A"

text \<open>What the attempt on the tail leaves to do: nothing, a whole rebuild (after a tail that was written, or not), or the next key.\<close>

datatype tail_result = Landed | Rebuild bool | Abandoned

definition accept_drift :: "lane_verdict \<Rightarrow> nat \<Rightarrow> nat \<Rightarrow> nat \<Rightarrow> bool" where
  "accept_drift v len expectAfterAppend expected \<longleftrightarrow>
     lv_dense v \<and> len \<le> lv_bytes v \<and> (case lv_canonical v of None \<Rightarrow> False | Some c \<Rightarrow> c \<le> lv_bytes v) \<and>
     lv_turns v = expectAfterAppend \<and> expected < expectAfterAppend"

definition repair_tail ::
  "session_key \<Rightarrow> string \<Rightarrow> nat \<Rightarrow> nat option \<Rightarrow> nat \<Rightarrow> (pass, tail_result) eff" where
  "repair_tail k text expected bytes already = bind (get pa_lib) (\<lambda>lib.
     case (parseChunk lib (take already text), parseChunk lib (drop already text)) of
       (Inr p1, Inr p2) \<Rightarrow>
         let prior = length (turns p1); after_append = prior + length (turns p2) in
         bind (repairChunkId ''tail'') (\<lambda>chunk.
         bind (commit ((repair_input k chunk (drop already text) bytes True)
             \<lparr>ii_replace := False, ii_totalBytes := length text, ii_expectIndexedBytes := Some already, ii_expectPriorTurns := Some prior\<rparr>) None)
         (\<lambda>r. case r of
           Inl (Index_Advanced _ _) \<Rightarrow> seq (bump Live_Races) (ret Abandoned)
         | Inl (Lane_Prefix_Mismatch _ _) \<Rightarrow> seq (bump Prefix_Mismatches) (ret (Rebuild False))
         | Inl _ \<Rightarrow> raise ''the commit threw''
         | Inr (Not_Applied _) \<Rightarrow> seq (bump No_Op_Repairs) (ret (Rebuild False))
         | Inr (Applied _ _) \<Rightarrow>
             bind (verifyLane k (Some (case bytes of None \<Rightarrow> length text | Some b \<Rightarrow> b)) None True (Some expected) k) (\<lambda>v.
             if lv_ok v then seq (bump Repaired_Tail) (ret Landed)
             else if accept_drift v (length text) after_append expected
               then seq (bump Repaired_Tail) (seq (bump Lane_Drift) (ret Landed))
             else seq (bump Verify_Fallbacks) (ret (Rebuild True)))))
     | _ \<Rightarrow> raise ''a record does not parse'')"

definition rebuild_parent ::
  "session_key \<Rightarrow> string \<Rightarrow> string \<Rightarrow> nat \<Rightarrow> nat option \<Rightarrow> bool \<Rightarrow> nat option \<Rightarrow> bool \<Rightarrow> (pass, unit) eff" where
  "rebuild_parent k chunk text expected bytes stale scan tailApplied =
     (let canonicalBytes = (case bytes of None \<Rightarrow> length text | Some b \<Rightarrow> b) in
      bind (if tailApplied then attempt (statCanonical k) else ret None) (\<lambda>fresh.
      if (case fresh of Some (Some n) \<Rightarrow> canonicalBytes < n | _ \<Rightarrow> False) then bump Live_Races
      else bind (if tailApplied then currentBytes k else ret scan) (\<lambda>anchor.
      bind (commit ((repair_input k chunk text bytes stale)\<lparr>ii_expectIndexedBytes := anchor\<rparr>) None) (\<lambda>r. case r of
        Inl (Index_Advanced _ _) \<Rightarrow> bump Live_Races
      | Inl _ \<Rightarrow> raise ''the commit threw''
      | Inr (Not_Applied reason) \<Rightarrow> count_no_op reason
      | Inr (Applied _ _) \<Rightarrow> seq (bump Restored)
          (bind (verifyLane k (Some canonicalBytes) None True (Some expected) k) (\<lambda>v.
            judge_rebuild v (length text) (Some canonicalBytes)))))))"

definition repair_parent ::
  "reconcile_options \<Rightarrow> session_key \<Rightarrow> string \<Rightarrow> string \<Rightarrow> nat \<Rightarrow> nat option \<Rightarrow> bool \<Rightarrow> nat \<Rightarrow> nat option \<Rightarrow> (pass, unit) eff" where
  "repair_parent o1 k chunk text expected bytes stale already scan =
     bind (if can_append_tail o1 stale already text then repair_tail k text expected bytes already else ret (Rebuild False)) (\<lambda>t. case t of
       Landed \<Rightarrow> bump Restored
     | Rebuild tailApplied \<Rightarrow> rebuild_parent k chunk text expected bytes stale scan tailApplied
     | Abandoned \<Rightarrow> ret ())"

section \<open>One key\<close>

definition restore_key ::
  "reconcile_options \<Rightarrow> gate \<Rightarrow> session_key \<Rightarrow> nat option \<Rightarrow> bool \<Rightarrow> nat \<Rightarrow> nat option \<Rightarrow> (pass, unit) eff" where
  "restore_key o1 g k bytes stale already scan =
     bind (if stale then ret False else keyExists k) (\<lambda>exists. if exists then ret () else
     bind (query (\<lambda>m db. isSessionDeleted db (sk_userId k) (sk_sessionId k))) (\<lambda>deleted. if deleted then bump Skipped_Tombstoned else
     bind (readCanonicalText k) (\<lambda>text.
     bind (get pa_lib) (\<lambda>lib. case parseChunk lib text of Inl msg \<Rightarrow> raise msg | Inr parsed \<Rightarrow>
     let expected = length (turns parsed); held = countCanonicalHeldDuplicateRecords (map pt_rawEvent (turns parsed)) in
     seq (only_if (0 < held) (seq (bump Canonical_Held_Duplicates)
       (recordIntegrityFinding (lane_of (parent_key k) (lane_agent (sk_sessionId k))) (Held_Duplicates held expected))))
     (if covered_by_row g k bytes stale \<and> eventCount parsed = 0 then bump Empty_Canonicals
      else bind (repairChunkId ''full'') (\<lambda>chunk. case lane_agent (sk_sessionId k) of
          Some ag \<Rightarrow> repair_lane k ag chunk text expected bytes stale scan
        | None \<Rightarrow> repair_parent o1 k chunk text expected bytes stale already scan))))))"

definition key_failed :: "session_key \<Rightarrow> (pass, unit) eff" where
  "key_failed k = seq (bump Errors)
     (only_if (\<not> is_lane k) (update (\<lambda>w. w\<lparr>pa_failed := List.insert (natural_key k) (pa_failed w)\<rparr>)))"

text \<open>True when the loop goes on to the next key.\<close>

definition visit_key :: "reconcile_options \<Rightarrow> gate \<Rightarrow> session_key \<times> nat option \<Rightarrow> (pass, bool) eff" where
  "visit_key o1 g e =
     (let k = fst e; bytes = snd e in
      seq (bump Scanned) (bind (get (tally Restored)) (\<lambda>restored.
      if (case op_maxOrphans o1 of None \<Rightarrow> False | Some n \<Rightarrow> 0 < n \<and> n \<le> restored) then ret False
      else bind (select_key g k bytes) (\<lambda>plan. case plan of Leave \<Rightarrow> ret True | Repair stale already scan \<Rightarrow>
      bind (get pa_failed) (\<lambda>failed.
      if is_lane k \<and> natural_key (parent_key k) \<in> set failed then seq (bump Deferred) (ret True)
      else if covered_by_row g k bytes stale \<and> bytes = Some 0 then seq (bump Empty_Canonicals) (ret True)
      else if (case bytes of None \<Rightarrow> False | Some b \<Rightarrow> op_maxRepairBytes o1 < b)
        then seq (bump (if natural_key k \<in> set (ga_have g) then Too_Large_To_Judge else Oversized_Unindexed)) (ret True)
      else bind isSaturated (\<lambda>saturated. if saturated then seq (bump Yielded_To_Live) (ret False)
      else seq (bump Orphans) (seq (catching (restore_key o1 g k bytes stale already scan) (\<lambda>_. key_failed k)) (ret True))))))))"

fun visit_keys :: "reconcile_options \<Rightarrow> gate \<Rightarrow> (session_key \<times> nat option) list \<Rightarrow> (pass, unit) eff" where
  "visit_keys o1 g [] = ret ()"
| "visit_keys o1 g (e # es) = bind (visit_key o1 g e) (\<lambda>more. if more then visit_keys o1 g es else ret ())"

end
