(* ===== verification/Count_Sweep.thy ===== *)
theory Count_Sweep
  imports Reconcile_Orphans
begin

text \<open>
  The count sweep (\<open>deepVerifySweep\<close> and \<open>deepVerifyLanes\<close> of \<open>ingest/reconciler.ts\<close>): the rows that were looked at least recently
  are compared with the number of records their canonical parses to, and rebuilt when records are missing. Both functions run the
  same steps on a session row or an agent row; \<open>sweep_row\<close> is that step, its target a lane. The ceiling counters are those of one pass.
\<close>

definition DEEP_MISMATCH_CEILING_RATIO :: rat where "DEEP_MISMATCH_CEILING_RATIO = 1 / 2"
definition DEEP_MISMATCH_CEILING_MIN_COUNT :: nat where "DEEP_MISMATCH_CEILING_MIN_COUNT = 10"
definition DEEP_REPAIR_MAX_PER_PASS :: nat where "DEEP_REPAIR_MAX_PER_PASS = 40"

section \<open>Stamps\<close>

definition stamp_of :: "pass \<Rightarrow> lane_key \<Rightarrow> stamp" where
  "stamp_of w la = (case map_of (pa_stamps w) la of None \<Rightarrow> \<lparr>sp_verified = None, sp_attempted = None\<rparr> | Some s \<Rightarrow> s)"

definition put_stamp :: "lane_key \<Rightarrow> (ms \<Rightarrow> stamp \<Rightarrow> stamp) \<Rightarrow> (pass, unit) eff" where
  "put_stamp la f = transact (\<lambda>m w. ((),
     if has_lane (pa_db w) (fst la) (snd la)
     then w\<lparr>pa_stamps := AList.update la (f (ie_nowMs (mo_env m)) (stamp_of w la)) (pa_stamps w)\<rparr> else w))"

definition stampDeepVerified :: "lane_key \<Rightarrow> (pass, unit) eff" where
  "stampDeepVerified la = put_stamp la (\<lambda>t s. \<lparr>sp_verified = Some t, sp_attempted = Some t\<rparr>)"

definition stampAttempted :: "lane_key \<Rightarrow> (pass, unit) eff" where
  "stampAttempted la = put_stamp la (\<lambda>t s. s\<lparr>sp_attempted := Some t\<rparr>)"

section \<open>One row\<close>

definition laneBytesNow :: "lane_key \<Rightarrow> (pass, nat option) eff" where
  "laneBytesNow la = (case la of (k, None) \<Rightarrow> currentBytes k
     | (k, Some ag) \<Rightarrow> query (\<lambda>m db. map_option ar_bytesUploaded (map_of (db_agents db) (k, ag))))"

definition countLaneTurns :: "lane_key \<Rightarrow> (pass, nat) eff" where
  "countLaneTurns la = query (\<lambda>m db. length (lane_rows db (fst la) (snd la)))"

text \<open>The text to judge a lane by, with the watermark taken before the read and the size, or nothing when it cannot be judged now.\<close>

record judgeable =
  jd_anchor :: "nat option"
  jd_size :: nat
  jd_text :: string

definition pass_over :: "counter \<Rightarrow> lane_key \<Rightarrow> (pass, judgeable option) eff" where
  "pass_over c la = seq (bump c) (seq (stampAttempted la) (ret None))"

definition sweep_read :: "nat \<Rightarrow> lane_key \<Rightarrow> (pass, judgeable option) eff" where
  "sweep_read cap la =
     (let key = lane_key (fst la) (snd la) in
      bind (laneBytesNow la) (\<lambda>anchor.
      bind (attempt (statCanonical key)) (\<lambda>stat. case stat of None \<Rightarrow> pass_over Deep_Errors la | Some None \<Rightarrow> pass_over Deep_Errors la
      | Some (Some n) \<Rightarrow>
        if (case anchor of None \<Rightarrow> False | Some a \<Rightarrow> a < n) then pass_over Skipped_Behind la
        else if cap < n then seq (bump Too_Large_To_Judge) (ret None)
        else bind (readCanonicalText key) (\<lambda>text.
        bind (if length text = n then ret (Some (Some n)) else attempt (statCanonical key)) (\<lambda>again.
        case again of None \<Rightarrow> pass_over Live_Races la | Some None \<Rightarrow> pass_over Live_Races la
        | Some (Some n') \<Rightarrow>
          if length text \<noteq> n \<and> n < n' then pass_over Live_Races la
          else if length text < n then pass_over Short_Reads la
          else ret (Some \<lparr>jd_anchor = anchor, jd_size = n, jd_text = text\<rparr>))))))"

definition systematic :: "sweep_state \<Rightarrow> bool" where
  "systematic s \<longleftrightarrow> DEEP_MISMATCH_CEILING_MIN_COUNT \<le> sw_mismatched s \<and>
     of_nat (sw_size s) * DEEP_MISMATCH_CEILING_RATIO < of_nat (sw_mismatched s)"

definition budgetSpent :: "sweep_state \<Rightarrow> bool" where
  "budgetSpent s \<longleftrightarrow> DEEP_REPAIR_MAX_PER_PASS \<le> sw_repaired s"

definition sweep_note :: "(sweep_state \<Rightarrow> sweep_state) \<Rightarrow> (pass, unit) eff" where
  "sweep_note f = update (\<lambda>w. w\<lparr>pa_sweep := f (pa_sweep w)\<rparr>)"

text \<open>The rebuild of a lane with missing records; the row is stamped verified only when the count is exact afterwards.\<close>

definition sweep_repair :: "lane_key \<Rightarrow> judgeable \<Rightarrow> nat \<Rightarrow> (pass, unit) eff" where
  "sweep_repair la j expected =
     bind (repairChunkId ''count'') (\<lambda>chunk.
     bind (commit ((repair_input (fst la) chunk (jd_text j) (Some (jd_size j)) True)\<lparr>ii_expectIndexedBytes := jd_anchor j\<rparr>) (snd la)) (\<lambda>r. case r of
       Inl (Index_Advanced _ _) \<Rightarrow> seq (bump Live_Races) (stampAttempted la)
     | Inl _ \<Rightarrow> raise ''the commit threw''
     | Inr (Not_Applied _) \<Rightarrow> seq (bump No_Op_Repairs) (stampAttempted la)
     | Inr (Applied _ _) \<Rightarrow> bind (countLaneTurns la) (\<lambda>after_repair.
         if after_repair = expected
         then seq (bump Deep_Repaired) (seq (sweep_note (\<lambda>s. s\<lparr>sw_repaired := sw_repaired s + 1\<rparr>)) (stampDeepVerified la))
         else seq (bump (if expected < after_repair then Live_Races else Integrity_Failures)) (stampAttempted la))))"

definition sweep_compare :: "reconcile_options \<Rightarrow> lane_key \<Rightarrow> judgeable \<Rightarrow> nat \<Rightarrow> nat \<Rightarrow> (pass, unit) eff" where
  "sweep_compare o1 la j expected actual = seq (bump Deep_Verified)
     (if expected \<le> actual then
        seq (only_if (expected < actual) (seq (bump Deep_Overcount)
          (recordIntegrityFinding (lane_of (fst la) (snd la)) (Overcount actual expected))))
        (stampDeepVerified la)
      else seq (bump Deep_Mismatched) (seq (sweep_note (\<lambda>s. s\<lparr>sw_mismatched := sw_mismatched s + 1\<rparr>))
        (if \<not> op_repairStaleIndexes o1 then stampAttempted la
         else bind (get pa_sweep) (\<lambda>s. if systematic s \<or> budgetSpent s then seq (bump Deep_Refused) (stampAttempted la)
         else sweep_repair la j expected))))"

definition sweep_judge :: "reconcile_options \<Rightarrow> lane_key \<Rightarrow> judgeable \<Rightarrow> (pass, unit) eff" where
  "sweep_judge o1 la j = bind (get pa_lib) (\<lambda>lib. case parseChunk lib (jd_text j) of Inl msg \<Rightarrow> raise msg | Inr parsed \<Rightarrow>
     bind (countLaneTurns la) (sweep_compare o1 la j (length (turns parsed))))"

text \<open>A row, with whatever it throws: the cursor still advances, and the failure of that is swallowed.\<close>

definition sweep_row :: "reconcile_options \<Rightarrow> lane_key \<Rightarrow> (pass, unit) eff" where
  "sweep_row o1 la =
     catching
       (bind (query (\<lambda>m db. isSessionDeleted db (sk_userId (fst la)) (sk_sessionId (fst la)))) (\<lambda>deleted.
        if deleted then stampAttempted la
        else bind (sweep_read (op_maxCanonicalBytes o1) la) (\<lambda>j. case j of None \<Rightarrow> ret () | Some j \<Rightarrow> sweep_judge o1 la j)))
       (\<lambda>_. seq (bump Deep_Errors) (bind (attempt (stampAttempted la)) (\<lambda>_. ret ())))"

fun sweep_rows :: "reconcile_options \<Rightarrow> lane_key list \<Rightarrow> (pass, unit) eff" where
  "sweep_rows o1 [] = ret ()"
| "sweep_rows o1 (la # las) = bind isSaturated (\<lambda>saturated.
     if saturated then bind (get (tally Yielded_To_Live)) (\<lambda>n. only_if (n = 0) (bump Yielded_To_Live))
     else seq (sweep_row o1 la) (sweep_rows o1 las))"

definition start_sweep :: "nat \<Rightarrow> (pass, unit) eff" where
  "start_sweep n = sweep_note (\<lambda>_. \<lparr>sw_size = n, sw_mismatched = 0, sw_repaired = 0\<rparr>)"

section \<open>The two sweeps\<close>

text \<open>The rotation: never attempted first, then the oldest attempt; \<open>rank\<close> stands for the generated row id that breaks ties.\<close>

definition rotation :: "(lane_key \<Rightarrow> nat) \<Rightarrow> (lane_key \<Rightarrow> bool) \<Rightarrow> pass \<Rightarrow> lane_key list \<Rightarrow> lane_key list" where
  "rotation rank is_first w las =
     (let attempted = (\<lambda>la. sp_attempted (stamp_of w la)) in
      sort_key (\<lambda>la. if is_first la then 0 else (1 :: nat))
        (sort_key (\<lambda>la. if attempted la = None then 0 else (1 :: nat))
          (sort_key (\<lambda>la. case attempted la of None \<Rightarrow> 0 | Some t \<Rightarrow> t) (sort_key rank las))))"

definition deepVerifySweep :: "(lane_key \<Rightarrow> nat) \<Rightarrow> reconcile_options \<Rightarrow> (pass, unit) eff" where
  "deepVerifySweep rank o1 =
     (if op_deepVerifyPerPass o1 = 0 then ret ()
      else bind (if op_healthSignals o1 then attempt (query (\<lambda>m db. detectByteGaps 200 db)) else ret None) (\<lambda>gaps.
      let gapped = (case gaps of None \<Rightarrow> [] | Some r \<Rightarrow> filter (\<lambda>la. snd la = None) (map fst (bg_rows r))) in
      bind (transact (\<lambda>m w. (take (op_deepVerifyPerPass o1)
        (rotation rank (\<lambda>la. la \<in> set gapped) w (map (\<lambda>(k, r). (k, None)) (db_sessions (pa_db w)))), w))) (\<lambda>candidates.
      seq (start_sweep (length candidates)) (sweep_rows o1 candidates))))"

definition deepVerifyLanes :: "(lane_key \<Rightarrow> nat) \<Rightarrow> reconcile_options \<Rightarrow> (pass, unit) eff" where
  "deepVerifyLanes rank o1 =
     (if op_deepVerifyPerPass o1 = 0 then ret ()
      else bind (transact (\<lambda>m w. (take (op_deepVerifyPerPass o1) (rotation rank (\<lambda>_. False) w
          (map (\<lambda>((k, ag), r). (k, Some ag)) (filter (\<lambda>((k, ag), r). has_session (pa_db w) k) (db_agents (pa_db w))))), w))) (\<lambda>candidates.
      seq (start_sweep (length candidates)) (sweep_rows o1 candidates)))"

end
