(* ===== verification/Title_Repair.thy ===== *)
theory Title_Repair
  imports Reconcile_World
begin

text \<open>
  The two corrective passes over titles (\<open>ingest/correct-titles.ts\<close>): \<open>correctTitles\<close> reads the canonical of every session
  whose title is a guess or missing, \<open>correctInjectedFallbackTitles\<close> derives a guess again that was taken from a message
  the harness injected. Both walk the session rows by id in batches, \<open>rank\<close> stands for the order of the generated ids; the
  walk takes fuel, one unit for each batch. Both write only while the row is still one of theirs.
\<close>

record title_result =
  tt_scanned :: nat
  tt_corrected :: nat
  tt_skippedNoRealTitle :: nat
  tt_skippedNoop :: nat
  tt_errors :: nat

definition no_titles :: title_result where
  "no_titles = \<lparr>tt_scanned = 0, tt_corrected = 0, tt_skippedNoRealTitle = 0, tt_skippedNoop = 0, tt_errors = 0\<rparr>"

definition TITLE_BATCH :: nat where "TITLE_BATCH = 100"

section \<open>The walk\<close>

type_synonym titled_row = "session_key \<times> session_row"

definition next_batch :: "(session_key \<Rightarrow> nat) \<Rightarrow> (titled_row \<Rightarrow> bool) \<Rightarrow> nat \<Rightarrow> hxdb \<Rightarrow> titled_row list" where
  "next_batch rank P cursor db =
     take TITLE_BATCH (filter (\<lambda>e. P e \<and> cursor \<le> rank (fst e)) (sort_key (\<lambda>e. rank (fst e)) (db_sessions db)))"

fun title_rows :: "(titled_row \<Rightarrow> title_result \<Rightarrow> (pass, title_result) eff) \<Rightarrow> titled_row list \<Rightarrow> title_result \<Rightarrow> (pass, title_result) eff" where
  "title_rows f [] t = ret t"
| "title_rows f (e # es) t = bind (f e (t\<lparr>tt_scanned := tt_scanned t + 1\<rparr>)) (title_rows f es)"

fun title_walk ::
  "nat \<Rightarrow> (session_key \<Rightarrow> nat) \<Rightarrow> (titled_row \<Rightarrow> bool) \<Rightarrow> (titled_row \<Rightarrow> title_result \<Rightarrow> (pass, title_result) eff) \<Rightarrow>
     nat \<Rightarrow> title_result \<Rightarrow> (pass, title_result) eff" where
  "title_walk 0 rank P f cursor t = raise ''out of fuel''"
| "title_walk (Suc fuel) rank P f cursor t =
     bind (query (\<lambda>m db. next_batch rank P cursor db)) (\<lambda>rows.
     if rows = [] then ret t
     else bind (title_rows f rows t) (\<lambda>t'.
       if length rows < TITLE_BATCH then ret t' else title_walk fuel rank P f (Suc (rank (fst (last rows)))) t'))"

section \<open>Real titles\<close>

definition title_candidate :: "titled_row \<Rightarrow> bool" where
  "title_candidate e \<longleftrightarrow> sk_family (fst e) \<in> {''claude-cli'', ''claude-desktop''} \<and>
     (sr_titleSource (snd e) = Some Fallback_Title \<or> absent (sr_title (snd e)))"

text \<open>An update of one row under a condition on what it is now; whether it matched.\<close>

definition update_title ::
  "session_key \<Rightarrow> (session_row \<Rightarrow> bool) \<Rightarrow> (session_row \<Rightarrow> session_row) \<Rightarrow> (pass, bool) eff" where
  "update_title k cond f = request (\<lambda>m db. case map_of (db_sessions db) k of None \<Rightarrow> (False, db)
     | Some r \<Rightarrow> if cond r then (True, db\<lparr>db_sessions := AList.update k (f r) (db_sessions db)\<rparr>) else (False, db))"

definition correct_row :: "titled_row \<Rightarrow> title_result \<Rightarrow> (pass, title_result) eff" where
  "correct_row e t = catching
     (bind (readCanonicalText (fst e)) (\<lambda>text. bind (get pa_lib) (\<lambda>lib. case extractRealTitle lib text of
        None \<Rightarrow> ret (t\<lparr>tt_skippedNoRealTitle := tt_skippedNoRealTitle t + 1\<rparr>)
      | Some (title, src) \<Rightarrow>
          if sr_title (snd e) = Some title \<and> sr_titleSource (snd e) = Some src then ret (t\<lparr>tt_skippedNoop := tt_skippedNoop t + 1\<rparr>)
          else bind (update_title (fst e) (\<lambda>r. title_candidate (fst e, r)) (\<lambda>r. r\<lparr>sr_title := Some title, sr_titleSource := Some src\<rparr>))
            (\<lambda>updated. ret (if updated then t\<lparr>tt_corrected := tt_corrected t + 1\<rparr> else t\<lparr>tt_skippedNoop := tt_skippedNoop t + 1\<rparr>)))))
     (\<lambda>_. ret (t\<lparr>tt_errors := tt_errors t + 1\<rparr>))"

definition correctTitles :: "nat \<Rightarrow> (session_key \<Rightarrow> nat) \<Rightarrow> (pass, title_result) eff" where
  "correctTitles fuel rank = title_walk fuel rank title_candidate correct_row 0 no_titles"

section \<open>Injected titles\<close>

definition injected_title :: "titled_row \<Rightarrow> bool" where
  "injected_title e \<longleftrightarrow> sr_titleSource (snd e) = Some Fallback_Title \<and>
     (case sr_title (snd e) of None \<Rightarrow> False
      | Some t \<Rightarrow> prefix ''<'' t \<or> prefix ''Caveat:'' t \<or> prefix ''#'' t)"

definition correct_injected_row :: "titled_row \<Rightarrow> title_result \<Rightarrow> (pass, title_result) eff" where
  "correct_injected_row e t =
     (let k = fst e; r = snd e; skip = t\<lparr>tt_skippedNoop := tt_skippedNoop t + 1\<rparr> in
      case nonempty (sr_title r) of None \<Rightarrow> ret skip | Some title \<Rightarrow>
      catching
        (bind (query (\<lambda>m db. first_real_user db k)) (\<lambda>firstReal.
         case nonempty (deriveFallbackTitle firstReal (sr_cwd r) (sr_repo r)) of None \<Rightarrow> ret skip
         | Some derived \<Rightarrow>
             if derived = title then ret skip
             else bind (update_title k (\<lambda>r. sr_title r = Some title \<and> sr_titleSource r = Some Fallback_Title) (\<lambda>r. r\<lparr>sr_title := Some derived\<rparr>))
               (\<lambda>updated. ret (if updated then t\<lparr>tt_corrected := tt_corrected t + 1\<rparr> else skip))))
        (\<lambda>_. ret skip))"

definition correctInjectedFallbackTitles :: "nat \<Rightarrow> (session_key \<Rightarrow> nat) \<Rightarrow> (pass, title_result) eff" where
  "correctInjectedFallbackTitles fuel rank = title_walk fuel rank injected_title correct_injected_row 0 no_titles"

end
