(* ===== verification/Reconcile_Pass.thy ===== *)
theory Reconcile_Pass
  imports Count_Sweep Title_Repair
begin

text \<open>
  A whole pass (\<open>reconcileOrphans\<close> of \<open>ingest/reconciler.ts\<close>) and what the scheduler of \<open>ingest/guarantor.ts\<close> makes of its
  report. \<open>fuel\<close> bounds the walks over the titles, \<open>rank\<close> is the order of the generated row ids.
\<close>

section \<open>After the loop\<close>

definition unproven :: "(lane_key \<Rightarrow> stamp) \<Rightarrow> (lane_key \<times> nat) list \<Rightarrow> (lane_key \<times> nat) list" where
  "unproven st rows = filter (\<lambda>(la, _). sp_verified (st la) = None) rows"

definition row_sizes :: "hxdb \<Rightarrow> (lane_key \<times> nat) list" where
  "row_sizes db = map (\<lambda>(k, r). ((k, None), sr_bytesUploaded r)) (db_sessions db)"

definition agent_sizes :: "hxdb \<Rightarrow> (lane_key \<times> nat) list" where
  "agent_sizes db = map (\<lambda>((k, ag), r). ((k, Some ag), ar_bytesUploaded r)) (db_agents db)"

definition count_pending :: "(hxdb \<Rightarrow> (lane_key \<times> nat) list) \<Rightarrow> (nat \<Rightarrow> bool) \<Rightarrow> (pass, nat) eff" where
  "count_pending rows P = transact (\<lambda>m w. (length (filter (P \<circ> snd) (unproven (stamp_of w) (rows (pa_db w)))), w))"

text \<open>True when the sweep stood down for load; a query that fails ends it.\<close>

definition count_sweep :: "(lane_key \<Rightarrow> nat) \<Rightarrow> reconcile_options \<Rightarrow> (pass, unit) eff" where
  "count_sweep rank o1 = bind isSaturated (\<lambda>saturated.
     if saturated then bind (get (tally Yielded_To_Live)) (\<lambda>n. only_if (n = 0) (bump Yielded_To_Live))
     else bind (attempt (seq (deepVerifySweep rank o1) (seq (deepVerifyLanes rank o1)
       (only_if (0 < op_deepVerifyPerPass o1)
         (bind (count_pending row_sizes (\<lambda>_. True)) (\<lambda>a. bind (count_pending agent_sizes (\<lambda>_. True)) (\<lambda>b.
          seq (set_report (\<lambda>r. r\<lparr>rp_deepVerifyBacklog := Some (a + b)\<rparr>))
          (bind (count_pending row_sizes (\<lambda>n. op_maxCanonicalBytes o1 < n)) (\<lambda>c.
           bind (count_pending agent_sizes (\<lambda>n. op_maxCanonicalBytes o1 < n)) (\<lambda>d.
           set_report (\<lambda>r. r\<lparr>rp_deepVerifyFloor := Some (c + d)\<rparr>)))))))))))
       (\<lambda>_. ret ()))"

definition set_count :: "counter \<Rightarrow> nat \<Rightarrow> (pass, unit) eff" where
  "set_count c n = set_report (\<lambda>r. r\<lparr>rp_count := (rp_count r)(c := n)\<rparr>)"

definition correct_titles_after :: "nat \<Rightarrow> (session_key \<Rightarrow> nat) \<Rightarrow> reconcile_options \<Rightarrow> (pass, unit) eff" where
  "correct_titles_after fuel rank o1 =
     (let go = (\<lambda>b walk c. bind (get (tally Yielded_To_Live)) (\<lambda>y. if \<not> (b \<and> y = 0) then ret ()
        else bind (attempt walk) (\<lambda>r. case r of None \<Rightarrow> ret () | Some t \<Rightarrow> set_count c (tt_corrected t)))) in
      seq (go (op_correctExistingTitles o1) (correctTitles fuel rank) Titles_Corrected)
        (go (op_correctInjectedTitles o1) (correctInjectedFallbackTitles fuel rank) Injected_Titles_Corrected))"

text \<open>Embeddings of turns that are gone, at most 5000 at a time.\<close>

definition prune_embeddings :: "nat \<Rightarrow> hxdb \<Rightarrow> nat \<times> hxdb" where
  "prune_embeddings limit db =
     (let gone = take limit (filter (\<lambda>i. i \<notin> set (map tr_id (db_turns db))) (db_embedded db))
      in (length gone, db\<lparr>db_embedded := filter (\<lambda>i. i \<notin> set gone) (db_embedded db)\<rparr>))"

definition health_signals :: "reconcile_options \<Rightarrow> (pass, unit) eff" where
  "health_signals o1 = only_if (op_healthSignals o1)
     (bind (attempt (request (\<lambda>m db. prune_embeddings 5000 db))) (\<lambda>n.
      seq (case n of None \<Rightarrow> ret () | Some n \<Rightarrow> set_report (\<lambda>r. r\<lparr>rp_embeddingsPruned := Some n\<rparr>))
      (bind (attempt (bind (query (\<lambda>m db. detectByteGaps 200 db)) (\<lambda>gaps.
         seq (set_report (\<lambda>r. r\<lparr>rp_byteGapRows := Some (length (bg_rows gaps)), rp_byteGapBytes := Some (bg_totalUnindexedBytes gaps),
           rp_byteGapBlind := Some (bg_blindSessions gaps)\<rparr>))
         (bind (query (\<lambda>m db. detectUncompactedCanonicals 1600 200 db)) (\<lambda>u.
         seq (set_report (\<lambda>r. r\<lparr>rp_uncompactedCanonicals := Some (length u)\<rparr>))
         (bind (request (\<lambda>m db. let t = pruneClearedChunkIntents CLEARED_INTENT_RETENTION_MS (ie_nowMs (mo_env m)) 5000 (\<lambda>x. x) (db_intents db) in
             (length (db_intents db) - length t, db\<lparr>db_intents := t\<rparr>))) (\<lambda>n.
          set_report (\<lambda>r. r\<lparr>rp_intentsPruned := Some n\<rparr>))))))))
        (\<lambda>_. ret ()))))"

section \<open>The pass\<close>

definition reconcileOrphans :: "nat \<Rightarrow> (lane_key \<Rightarrow> nat) \<Rightarrow> reconcile_options \<Rightarrow> (pass, unit) eff" where
  "reconcileOrphans fuel rank o1 = bind isSaturated (\<lambda>saturated. if saturated then bump Yielded_To_Live
     else bind (query (\<lambda>m db. mo_listing m)) (\<lambda>keys.
     bind (forced_intents o1) (\<lambda>forced.
     bind (read_gate o1 forced keys) (\<lambda>(g, sorted_keys).
     seq (visit_keys o1 g sorted_keys)
     (seq (count_sweep rank o1)
     (seq (correct_titles_after fuel (\<lambda>k. rank (k, None)) o1) (health_signals o1)))))))"

text \<open>A pass starts with an empty report and no failed parents.\<close>

definition start_pass :: "pass \<Rightarrow> pass" where
  "start_pass w = w\<lparr>pa_report := no_report, pa_failed := [], pa_sweep := \<lparr>sw_size = 0, sw_mismatched = 0, sw_repaired = 0\<rparr>\<rparr>"

end
