(* ===== verification/Index_Safety.thy ===== *)
theory Index_Safety
  imports Index_Invariant
begin

text \<open>
  What the commits of the ingest path promise, over whole histories of the index: no row without its owner, no return of a
  deleted session, no chunk applied twice, a rebuilt lane equal to its transcript, counters that do not depend on how the
  transcript was cut.
\<close>


section \<open>Deletion is final\<close>

definition has_rows :: "hxdb \<Rightarrow> session_key \<Rightarrow> bool" where
  "has_rows db k \<longleftrightarrow> list_ex (\<lambda>s. fst s = k) (db_sessions db) \<or> list_ex (\<lambda>a. fst (fst a) = k) (db_agents db) \<or>
     list_ex (\<lambda>t. tr_session t = k) (db_turns db) \<or> list_ex (\<lambda>c. fst (fst c) = k) (db_calls db) \<or>
     list_ex (\<lambda>v. ev_session v = k) (db_events db) \<or> list_ex (\<lambda>f. fst f = k) (db_facts db)"

lemma no_session_no_rows:
  assumes "index_ok db" "\<not> has_session db k"
  shows "\<not> has_rows db k"
  using assms by (auto simp: index_ok_defs has_rows_def list_ex_iff owner_defs)

lemma deleted_frames [simp]:
  "db_deleted (snd (snd (purge_turns k clock deadline n m db))) = db_deleted db"
  by (rule purge_turns_keeps [of "\<lambda>d. db_deleted d = db_deleted db"]) simp_all

lemma purge_deleted [simp]: "db_deleted (snd (snd (purgeSessionPg k clock deadline db))) = db_deleted db"
proof -
  obtain fin n db' where p: "purge_turns (base_key k) clock deadline 0 0 db = (fin, n, db')"
    by (cases "purge_turns (base_key k) clock deadline 0 0 db")
  with deleted_frames [of "base_key k" clock deadline 0 0 db] show ?thesis
    by (cases fin) (simp_all add: purgeSessionPg_def Let_def purge_rows_def)
qed

lemma commit_deleted [simp]:
  "db_deleted (committed db (ingestCommit e i db)) = db_deleted db"
  "db_deleted (committed db (ingestAgentCommit e i ag db)) = db_deleted db"
  by (rule parent_effect; simp) (rule agent_effect; simp)

lemma deleted_step: "deleted_key db k \<Longrightarrow> deleted_key (index_step db x) k"
proof (cases x)
  case (Delete_Session key clock deadline)
  assume "deleted_key db k"
  then have "deleted_key (markSessionDeleted (base_key key) db) k" by (simp add: deleted_after_mark)
  with Delete_Session show ?thesis by (simp add: deleteSession_def deleted_key_def isSessionDeleted_def)
qed (auto simp: deleted_key_def isSessionDeleted_def retitle_def updateSessionTitle_def embed_turn_def split: option.split)

lemma has_session_facts [simp]: "has_session (refresh_facts e k skip db) x \<longleftrightarrow> has_session db x"
  by (simp add: has_session_def)

lemma sessions_of_commits:
  "has_session (committed db (ingestCommit e i db)) k \<Longrightarrow> has_session db k \<or> k = ii_key i \<and> \<not> deleted_key db k"
  "has_session (committed db (ingestAgentCommit e i ag db)) k \<Longrightarrow> has_session db k"
proof -
  have "has_session (committed db (ingestCommit e i db)) k \<longrightarrow> has_session db k \<or> k = ii_key i \<and> \<not> deleted_key db k"
    by (rule parent_effect) (simp_all, simp_all add: has_session_def update_keys deleted_key_def)
  then show "has_session (committed db (ingestCommit e i db)) k \<Longrightarrow> has_session db k \<or> k = ii_key i \<and> \<not> deleted_key db k" by blast
  have "has_session (committed db (ingestAgentCommit e i ag db)) k \<longrightarrow> has_session db k"
    by (rule agent_effect) (simp_all, simp_all add: has_session_def)
  then show "has_session (committed db (ingestAgentCommit e i ag db)) k \<Longrightarrow> has_session db k" by blast
qed

lemma sessions_of_purge:
  "has_session (snd (snd (purgeSessionPg key clock deadline db))) k \<Longrightarrow> has_session db k"
proof -
  obtain fin n db' where p: "purge_turns (base_key key) clock deadline 0 0 db = (fin, n, db')"
    by (cases "purge_turns (base_key key) clock deadline 0 0 db")
  have "has_session (snd (snd (purge_turns (base_key key) clock deadline 0 0 db))) k \<longleftrightarrow> has_session db k"
    by (rule purge_turns_keeps [of "\<lambda>d. has_session d k \<longleftrightarrow> has_session db k"]) (simp_all add: has_session_def)
  with p show "has_session (snd (snd (purgeSessionPg key clock deadline db))) k \<Longrightarrow> has_session db k"
    by (cases fin) (auto simp: purgeSessionPg_def Let_def purge_owners split: if_splits)
qed

text \<open>A session that is tombstoned and has no row.\<close>

definition is_gone :: "session_key \<Rightarrow> hxdb \<Rightarrow> bool" where
  "is_gone k db \<longleftrightarrow> deleted_key db k \<and> \<not> has_session db k"

lemma gone_step: "is_gone k db \<Longrightarrow> is_gone k (index_step db x)"
proof -
  assume g: "is_gone k db"
  have "\<not> has_session (index_step db x) k"
  proof (cases x)
    case (Delete_Session key clock deadline)
    with g show ?thesis
      using sessions_of_purge [of key clock deadline "markSessionDeleted (base_key key) db" k]
      by (auto simp: is_gone_def deleteSession_def has_session_def)
  next
    case (Retitle k' t src)
    with g show ?thesis
      by (auto simp: is_gone_def retitle_def updateSessionTitle_def has_session_def update_keys split: option.split dest!: map_of_SomeD)
        (force dest: map_of_SomeD)
  next
    case (Parent_Chunk e i)
    with g sessions_of_commits(1) [of db e i k] show ?thesis by (auto simp: is_gone_def)
  next
    case (Agent_Chunk e i ag)
    with g sessions_of_commits(2) [of db e i ag k] show ?thesis by (auto simp: is_gone_def)
  qed (use g in \<open>simp_all add: is_gone_def has_session_def embed_turn_def\<close>)
  with g deleted_step show ?thesis by (simp add: is_gone_def)
qed

interpretation gone: index_invariant "is_gone k" for k
  by unfold_locales (rule gone_step)

lemma no_row: "map_of (db_sessions db) k = None \<longleftrightarrow> \<not> has_session db k"
  by (simp add: has_session_def map_of_eq_None_iff)

lemma has_session_mark: "has_session (markSessionDeleted x db) k \<longleftrightarrow> has_session db k"
  by (simp add: has_session_def)

lemma delete_completes:
  assumes "deleteSession key clock deadline db = (True, n, db')"
  shows "is_gone (base_key key) db'"
proof -
  have "deleted_key db' (base_key key)"
    using assms deleted_after_base_mark [of key db] purge_deleted [of key clock deadline "markSessionDeleted (base_key key) db"]
    unfolding deleteSession_def by (simp add: deleted_key_def isSessionDeleted_def)
  moreover have "\<not> has_session db' (base_key key)"
    using assms unfolding deleteSession_def purgeSessionPg_def Let_def
    by (auto simp: purge_owners no_row has_session_mark split: if_splits prod.splits bool.splits)
  ultimately show ?thesis by (simp add: is_gone_def)
qed

text \<open>
  C4. Deletion is final. Once a deletion has reported that it is complete, no table holds a row of that session - not its turns, its
  tool calls, its agents, its facts, its ingest events or its own row - and no later commit, in whatever order and from whatever
  client, brings one back.
\<close>
theorem a_deleted_session_never_returns:
  assumes "deleteSession key clock deadline (index_run xs empty_db) = (True, n, db)"
  shows "\<not> has_rows (index_run ys db) (base_key key)"
proof -
  let ?db = "index_run ys db"
  have "index_step (index_run xs empty_db) (Delete_Session key clock deadline) = db" using assms by simp
  then have "index_ok db" using index_ok_step [OF tables.run [OF index_ok_empty]] by metis
  then have "index_ok ?db" by (rule tables.run)
  moreover have "is_gone (base_key key) ?db" by (rule gone.run [OF delete_completes [OF assms]])
  ultimately show ?thesis by (simp add: no_session_no_rows is_gone_def)
qed

section \<open>A chunk is applied once\<close>

definition settled_chunk :: "session_key \<Rightarrow> string \<Rightarrow> hxdb \<Rightarrow> bool" where
  "settled_chunk k key db \<longleftrightarrow> deleted_key db k \<or> list_ex (\<lambda>v. ev_key v = key \<and> ev_session v = k) (db_events db)"

lemma events_of_commits:
  "set (db_events db) \<subseteq> set (db_events (committed db (ingestCommit e i db)))"
  "set (db_events db) \<subseteq> set (db_events (committed db (ingestAgentCommit e i ag db)))"
  by (rule parent_effect; auto simp: record_event_def) (rule agent_effect; auto simp: record_event_def)

lemma events_of_purge:
  "set (filter (\<lambda>v. ev_session v \<noteq> base_key key) (db_events db)) \<subseteq> set (db_events (snd (snd (purgeSessionPg key clock deadline db))))"
proof -
  obtain fin n db' where p: "purge_turns (base_key key) clock deadline 0 0 db = (fin, n, db')"
    by (cases "purge_turns (base_key key) clock deadline 0 0 db")
  have "db_events (snd (snd (purge_turns (base_key key) clock deadline 0 0 db))) = db_events db"
    by (rule purge_turns_keeps [of "\<lambda>d. db_events d = db_events db"]) simp_all
  with p show ?thesis by (cases fin) (auto simp: purgeSessionPg_def Let_def purge_rows_def)
qed

lemma settled_step: "settled_chunk k key db \<Longrightarrow> settled_chunk k key (index_step db x)"
proof (cases x)
  case (Delete_Session k' clock deadline)
  assume s: "settled_chunk k key db"
  show ?thesis
  proof (cases "k = base_key k'")
    case True
    then have "deleted_key (markSessionDeleted (base_key k') db) k" by (simp add: deleted_after_base_mark)
    then show ?thesis using Delete_Session by (simp add: settled_chunk_def deleteSession_def deleted_key_def isSessionDeleted_def)
  next
    case False
    with s Delete_Session events_of_purge [of k' "markSessionDeleted (base_key k') db" clock deadline] show ?thesis
      using deleted_step [of db k x] by (auto simp: settled_chunk_def deleteSession_def list_ex_iff)
  qed
next
  case (Parent_Chunk e i)
  assume "settled_chunk k key db"
  with Parent_Chunk events_of_commits(1) [of db e i] deleted_step [of db k x] show ?thesis
    by (auto simp: settled_chunk_def list_ex_iff)
next
  case (Agent_Chunk e i ag)
  assume "settled_chunk k key db"
  with Agent_Chunk events_of_commits(2) [of db e i ag] deleted_step [of db k x] show ?thesis
    by (auto simp: settled_chunk_def list_ex_iff)
qed (use deleted_step [of db k x] in
  \<open>auto simp: settled_chunk_def retitle_def updateSessionTitle_def embed_turn_def split: option.split\<close>)

interpretation once: index_invariant "settled_chunk k key" for k key
  by unfold_locales (rule settled_step)

lemma settled_refuses:
  assumes "settled_chunk (ii_key i) (dedupe_key (ii_key i) (ii_chunkId i)) db"
  shows "committed db (ingestCommit e i db) = db"
proof -
  have "isSessionDeleted db (sk_userId (ii_key i)) (sk_sessionId (ii_key i)) \<or> alreadyIngested db (dedupe_key (ii_key i) (ii_chunkId i))"
    using assms by (auto simp: settled_chunk_def deleted_key_def alreadyIngested_def list_ex_iff)
  then show ?thesis
    by (auto simp: committed_def ingestCommit_def commit_tx_def Let_def refresh_facts_def note_overlap_def split: sum.split)
qed

text \<open>
  C5. Exactly once. After a chunk has been applied, sending the same chunk id for the session again never changes the database - whatever
  the text, the metadata and the flags of the repeat, and whatever happened in between, even if the session was deleted.
\<close>
theorem a_chunk_is_applied_at_most_once:
  assumes "ingestCommit e i db = Inr (Applied k n, db')" "ii_key i' = ii_key i" "ii_chunkId i' = ii_chunkId i"
  shows "let later = index_run xs db' in committed later (ingestCommit e' i' later) = later"
proof -
  from assms(1) have "settled_chunk (ii_key i) (dedupe_key (ii_key i) (ii_chunkId i)) db'"
  proof (cases rule: ingest_cases)
    case (run x skip ov db1)
    then have "skip = None" by (simp add: outcome_of_def split: option.splits)
    from run(4) show ?thesis
      by (cases rule: commit_cases) (simp_all add: run \<open>skip = None\<close> settled_chunk_def record_event_def)
  qed simp
  then have "settled_chunk (ii_key i') (dedupe_key (ii_key i') (ii_chunkId i')) (index_run xs db')"
    unfolding assms(2,3) by (rule once.run)
  then show ?thesis by (simp add: settled_refuses)
qed

section \<open>An intent closes only when its bytes are indexed\<close>

lemma clear_where_in: "v \<in> set t \<Longrightarrow> \<not> P v \<Longrightarrow> v \<in> set (clear_where P now t)"
  by (force simp: clear_where_def)

lemma settle_keeps:
  assumes "v \<in> set (db_intents db)" "\<not> (it_lane v = lane_of (ii_key i) ag \<and>
     (it_chunk v = ii_chunkId i \<or> ii_replace i \<and> it_bytes v \<le> (case ii_objectBytes i of None \<Rightarrow> ii_totalBytes i | Some b \<Rightarrow> b)))"
  shows "v \<in> set (db_intents (settle_intents e i ag db))"
  using assms
  by (auto simp: settle_intents_def Let_def clearChunkIntent_def clearSubsumedChunkIntents_def intro!: clear_where_in)


section \<open>What an applied commit leaves\<close>

lemma lane_turns_frames [simp]:
  "lane_turns (note_overlap i ag n db) = lane_turns db" "lane_turns (refresh_facts e k' skip db) = lane_turns db"
  "lane_turns (record_event e i ag key db) = lane_turns db" "lane_turns (settle_intents e i ag db) = lane_turns db"
  "lane_turns (title_cascade e i ex db) = lane_turns db"
  by (intro ext; simp add: lane_turns_def lane_rows_def)+

lemma lane_turns_rows [simp]:
  "lane_turns (db\<lparr>db_sessions := ss\<rparr>) = lane_turns db" "lane_turns (db\<lparr>db_agents := as\<rparr>) = lane_turns db"
  "lane_turns (with_dims db x y) = lane_turns db"
  by (intro ext; simp add: lane_turns_def lane_rows_def)+

text \<open>A title change leaves the other columns of the row alone.\<close>

definition untitled :: "session_row \<Rightarrow> session_row" where
  "untitled r = r\<lparr>sr_title := None, sr_titleSource := None\<rparr>"

lemma set_title_rows: "map_option untitled (map_of (db_sessions (set_title k c t src db)) x) = map_option untitled (map_of (db_sessions db) x)"
  by (simp add: set_title_def untitled_def update_conv' split: option.split)

lemma cascade_rows: "map_option untitled (map_of (db_sessions (title_cascade e i ex db)) x) = map_option untitled (map_of (db_sessions db) x)"
  unfolding title_cascade_def Let_def by (simp add: set_title_rows split: option.split)

lemma untitled_fields:
  "untitled a = untitled b \<Longrightarrow> sr_counts a = sr_counts b \<and> sr_chunkCount a = sr_chunkCount b \<and> sr_bytesUploaded a = sr_bytesUploaded b \<and>
     sr_firstEventAt a = sr_firstEventAt b \<and> sr_lastActivityAt a = sr_lastActivityAt b"
  by (cases a; cases b) (simp add: untitled_def)

lemma applied_row:
  assumes "map_of (db_sessions (parent_written e i p row x y db)) (ii_key i) = Some r"
  shows "untitled r = untitled row"
proof -
  let ?db = "(with_dims db x y)\<lparr>db_sessions := AList.update (ii_key i) row (db_sessions db)\<rparr>"
  have "map_option untitled (map_of (db_sessions (parent_written e i p row x y db)) (ii_key i)) = Some (untitled row)"
    by (simp add: cascade_rows update_conv')
  with assms show ?thesis by simp
qed

lemma applied_has_row: "\<exists>r. map_of (db_sessions (parent_written e i p row x y db)) (ii_key i) = Some r"
proof -
  have "map_option untitled (map_of (db_sessions (parent_written e i p row x y db)) (ii_key i)) \<noteq> None"
    by (simp add: cascade_rows update_conv')
  then show ?thesis by simp
qed

text \<open>An applied commit, taken apart.\<close>

lemma applied_commit:
  assumes "ingestCommit e i db = Inr (Applied k n, db')" "parseChunk (ie_lib e) (ii_chunkText i) = Inr c"
  obtains r row d where "k = ii_key i" "n = length (turns (scrubParsed c))"
    "map_of (db_sessions db') (ii_key i) = Some r" "row = parent_row e i (scrubParsed c) d db" "untitled r = untitled row"
    "\<And>k' ag'. lane_turns db' k' ag' = (if k' = ii_key i \<and> ag' = None
       then (if ii_replace i then [] else lane_turns db k' ag') @ turns (scrubParsed c) else lane_turns db k' ag')"
  using assms(1)
proof (cases rule: ingest_cases)
  case (run x skip ov db1)
  from run assms(2) have x: "x = c" by simp
  from run(5) have s: "skip = None" "k = ii_key i" "n = length (turns (scrubParsed c))" by (auto simp: outcome_of_def x split: option.splits)
  from run(4) show thesis
  proof (cases rule: commit_cases)
    case (applied d dx dy)
    let ?row = "parent_row e i (scrubParsed c) d db"
    obtain r where r: "map_of (db_sessions db1) (ii_key i) = Some r"
      using applied_has_row applied(6) x by fast
    have "untitled r = untitled ?row" by (rule applied_row) (use r in \<open>unfold applied(6) x\<close>)
    moreover have "map_of (db_sessions db') (ii_key i) = Some r" using r run(6) by simp
    moreover have "lane_turns db' k' ag' = (if k' = ii_key i \<and> ag' = None
       then (if ii_replace i then [] else lane_turns db k' ag') @ turns (scrubParsed c) else lane_turns db k' ag')" for k' ag'
      unfolding run(6) applied(6) x by (simp add: lane_turns_write)
    ultimately show thesis using that [of r ?row d] s by blast
  qed (use s in simp_all)
qed simp


section \<open>Appends add up\<close>

fun apply_all :: "(ingest_env \<times> ingest_input) list \<Rightarrow> hxdb \<Rightarrow> hxdb option" where
  "apply_all [] db = Some db"
| "apply_all ((e, i) # cs) db = (case ingestCommit e i db of Inr (Applied k n, db') \<Rightarrow> apply_all cs db' | _ \<Rightarrow> None)"

lemma counts_scrubbed: "add_session_counts c (scrubParsed p) = add_session_counts c p"
  by (simp add: add_session_counts_def add_usage_counts_def scrubParsed_def Let_def)

definition counts_of :: "rollup \<Rightarrow> session_counts" where
  "counts_of r = \<lparr>uc_events = eventCount r, uc_input = inputTokens r, uc_output = outputTokens r, uc_cacheRead = cacheReadTokens r,
     uc_cacheCreation = cacheCreationTokens r, uc_cost = cost r, sc_users = userTextCount r, sc_assistants = assistantCount r,
     sc_tools = toolCallCount r\<rparr>"

lemma counts_from_nothing: "add_session_counts None p = counts_of (rollup.truncate p)"
  by (simp add: add_session_counts_def add_usage_counts_def counts_of_def rollup.defs usage_counts.defs session_counts.defs Let_def)

lemma counts_added: "add_session_counts (Some (counts_of r)) p = counts_of (plus_rollup r (rollup.truncate p))"
  by (simp add: add_session_counts_def add_usage_counts_def counts_of_def plus_rollup_def rollup.defs usage_counts.defs session_counts.defs Let_def)

lemma applied_parses: "ingestCommit e i db = Inr (Applied k n, db') \<Longrightarrow> \<exists>c. parseChunk (ie_lib e) (ii_chunkText i) = Inr c"
  by (auto elim: ingest_cases)

text \<open>Appending to a row whose counters are those of some records.\<close>

lemma append_counts:
  assumes run: "ingestCommit e i db = Inr (Applied k n, db')" and app: "\<not> ii_replace i"
    and old: "(case map_of (db_sessions db) (ii_key i) of None \<Rightarrow> rs = [] \<and> m = 0
      | Some r \<Rightarrow> sr_counts r = counts_of (rollup_of (ie_lib e) rs) \<and> sr_chunkCount r = m)"
  shows "\<exists>r. map_of (db_sessions db') (ii_key i) = Some r \<and> sr_chunkCount r = m + 1 \<and>
    sr_counts r = counts_of (rollup_of (ie_lib e) (rs @ records (ie_lib e) (ii_chunkText i)))"
proof -
  obtain c where c: "parseChunk (ie_lib e) (ii_chunkText i) = Inr c" using applied_parses [OF run] by blast
  from run c show ?thesis
  proof (cases rule: applied_commit)
    case (1 r row d)
    have t: "rollup.truncate c = rollup_of (ie_lib e) (records (ie_lib e) (ii_chunkText i))" using parse_rollup [OF c] by simp
    have "sr_chunkCount row = m + 1 \<and> sr_counts row = counts_of (rollup_of (ie_lib e) (rs @ records (ie_lib e) (ii_chunkText i)))"
    proof (cases "map_of (db_sessions db) (ii_key i)")
      case None
      with old app t show ?thesis unfolding 1(4)
        by (simp add: new_row_def Let_def counts_scrubbed counts_from_nothing)
    next
      case (Some old_row)
      with old app t show ?thesis unfolding 1(4)
        by (simp add: updated_row_def Let_def counts_scrubbed counts_added rollup_of_append)
    qed
    with 1(3) untitled_fields [OF 1(5)] show ?thesis by auto
  qed
qed

lemma apply_all_counts:
  assumes "apply_all cs db = Some db'" "\<forall>(e, i) \<in> set cs. ii_key i = k \<and> \<not> ii_replace i \<and> ie_lib e = l" "cs \<noteq> [] \<or> rs \<noteq> []"
    "(case map_of (db_sessions db) k of None \<Rightarrow> rs = [] \<and> m = 0
      | Some r \<Rightarrow> sr_counts r = counts_of (rollup_of l rs) \<and> sr_chunkCount r = m)"
  shows "\<exists>r. map_of (db_sessions db') k = Some r \<and> sr_chunkCount r = m + length cs \<and>
    sr_counts r = counts_of (rollup_of l (rs @ concat (map (\<lambda>(e, i). records l (ii_chunkText i)) cs)))"
  using assms
proof (induction cs arbitrary: db rs m)
  case Nil
  then show ?case by (auto split: option.splits)
next
  case (Cons x cs)
  obtain e i where x: "x = (e, i)" by force
  with Cons.prems obtain k' n d where run: "ingestCommit e i db = Inr (Applied k' n, d)" and rest: "apply_all cs d = Some db'"
    by (auto split: sum.splits ingest_outcome.splits)
  from Cons.prems x have i: "ii_key i = k" "\<not> ii_replace i" "ie_lib e = l" by auto
  let ?rs = "rs @ records l (ii_chunkText i)"
  obtain r where r: "map_of (db_sessions d) k = Some r" "sr_chunkCount r = m + 1" "sr_counts r = counts_of (rollup_of l ?rs)"
    using append_counts [OF run i(2), of rs m] Cons.prems(4) i by auto
  show ?case
  proof (cases "cs = []")
    case True
    with r rest x show ?thesis by simp
  next
    case False
    with Cons.IH [OF rest, of ?rs "m + 1"] Cons.prems(2) r x show ?thesis by auto
  qed
qed


section \<open>A real title stands\<close>

lemma set_title_row:
  "map_of (db_sessions (set_title k c t src db)) x =
     (case map_of (db_sessions db) k of None \<Rightarrow> map_of (db_sessions db) x
      | Some r \<Rightarrow> if x = k \<and> c r then Some (r\<lparr>sr_title := Some t, sr_titleSource := Some src\<rparr>) else map_of (db_sessions db) x)"
  by (simp add: set_title_def update_conv' split: option.split)

lemma real_title_stays:
  assumes "map_of (db_sessions db) k = Some r" "has_real_title r"
  shows "map_of (db_sessions (title_cascade e i ex db)) k = Some r"
proof -
  have "\<not> may_upgrade (sr_title r, sr_titleSource r)" "\<not> absent (sr_title r)"
    using assms(2) by (auto simp: has_real_title_def may_upgrade_def blank_iff split: option.splits)
  with assms(1) show ?thesis
    unfolding title_cascade_def Let_def by (auto simp: set_title_row split: option.split)
qed

lemma cascade_other: "k \<noteq> ii_key i \<Longrightarrow> map_of (db_sessions (title_cascade e i ex db)) k = map_of (db_sessions db) k"
  unfolding title_cascade_def Let_def by (auto simp: set_title_row split: option.split)

lemma updated_title:
  "has_real_title r \<Longrightarrow> has_real_title (updated_row e i p d r) \<and> (sr_title (updated_row e i p d r) = sr_title r \<or>
     sr_title (updated_row e i p d r) = meta_title (ii_meta i) \<and> titleSourceOf (ii_meta i) \<noteq> Some Fallback_Title)"
  unfolding updated_row_def Let_def has_real_title_def takes_meta_title_def
  by (auto simp: meta_title_def split: option.splits if_splits)

lemma purged_row:
  "map_of (db_sessions (snd (snd (purgeSessionPg key clock deadline db)))) k = map_of (db_sessions db) k \<or>
     map_of (db_sessions (snd (snd (purgeSessionPg key clock deadline db)))) k = None \<and> k = base_key key"
proof -
  obtain fin n db' where p: "purge_turns (base_key key) clock deadline 0 0 db = (fin, n, db')"
    by (cases "purge_turns (base_key key) clock deadline 0 0 db")
  have "db_sessions (snd (snd (purge_turns (base_key key) clock deadline 0 0 db))) = db_sessions db"
    by (rule purge_turns_keeps [of "\<lambda>d. db_sessions d = db_sessions db"]) simp_all
  with p show ?thesis by (cases fin) (auto simp: purgeSessionPg_def Let_def purge_rows_def delete_conv')
qed


section \<open>Deletion ends\<close>

lemma batch_progress: "length (turns_of k (snd (delete_turn_batch k db))) + fst (delete_turn_batch k db) \<le> length (turns_of k db)"
proof -
  let ?ids = "set (map tr_id (take TURN_BATCH (turns_of k db)))"
  have "filter (\<lambda>t. tr_id t \<notin> ?ids) (take TURN_BATCH (turns_of k db)) = []" by (auto simp: filter_empty_conv)
  then have "filter (\<lambda>t. tr_id t \<notin> ?ids) (turns_of k db) = filter (\<lambda>t. tr_id t \<notin> ?ids) (drop TURN_BATCH (turns_of k db))"
    by (metis append_Nil append_take_drop_id filter_append)
  then have "length (turns_of k (snd (delete_turn_batch k db))) \<le> length (turns_of k db) - TURN_BATCH"
    unfolding turns_after_batch by (metis length_drop length_filter_le)
  then show ?thesis by (auto simp: delete_turn_batch_def Let_def)
qed

lemma purge_progress:
  "purge_turns k clock deadline n m db = (False, j, db') \<Longrightarrow> length (turns_of k db') + TURN_BATCH \<le> length (turns_of k db)"
proof (induction k clock deadline n m db rule: purge_turns.induct)
  case (1 k clock deadline n m db)
  obtain c d where b: "delete_turn_batch k db = (c, d)" by force
  have p: "length (turns_of k d) + c \<le> length (turns_of k db)" using batch_progress [of k db] b by simp
  show ?case
  proof (cases "c < TURN_BATCH \<or> deadline \<le> clock n")
    case True
    with 1(2) b p show ?thesis by (auto simp: purge_turns.simps [of k clock deadline n m db] split: if_splits)
  next
    case False
    with "1.prems" b have "purge_turns k clock deadline (n + 1) (m + c) d = (False, j, db')"
      by (simp add: purge_turns.simps [of k clock deadline n m db])
    with "1.IH" [OF b [symmetric]] False p show ?thesis by auto
  qed
qed

text \<open>The caller repeats the deletion, each time with its own clock and deadline, until it is told that it is complete.\<close>

fun repeat_delete :: "((nat \<Rightarrow> ms) \<times> ms) list \<Rightarrow> session_key \<Rightarrow> hxdb \<Rightarrow> bool \<times> hxdb" where
  "repeat_delete [] key db = (False, db)"
| "repeat_delete ((clock, deadline) # cs) key db = (case deleteSession key clock deadline db of
     (True, n, db') \<Rightarrow> (True, db') | (False, n, db') \<Rightarrow> repeat_delete cs key db')"


text \<open>
  A deletion leaves identifiers behind: integrity findings are never removed, and when the session has no row of its own the call
  reports that it is complete and leaves every intent in place.
\<close>
theorem a_deletion_leaves_identifiers:
  "db_findings (snd (snd (deleteSession key clock deadline db))) = db_findings db \<and>
   (let r = deleteSession key clock deadline (db\<lparr>db_sessions := []\<rparr>) in fst r \<and> db_intents (snd (snd r)) = db_intents db)"
proof
  let ?db = "markSessionDeleted (base_key key) db"
  obtain fin n db' where p: "purge_turns (base_key key) clock deadline 0 0 ?db = (fin, n, db')"
    by (cases "purge_turns (base_key key) clock deadline 0 0 ?db")
  have "db_findings (snd (snd (purge_turns (base_key key) clock deadline 0 0 ?db))) = db_findings db"
    by (rule purge_turns_keeps [of "\<lambda>d. db_findings d = db_findings db"]) simp_all
  with p show "db_findings (snd (snd (deleteSession key clock deadline db))) = db_findings db"
    by (cases fin) (simp_all add: deleteSession_def purgeSessionPg_def Let_def purge_rows_def)
  show "let r = deleteSession key clock deadline (db\<lparr>db_sessions := []\<rparr>) in fst r \<and> db_intents (snd (snd r)) = db_intents db"
    by (simp add: deleteSession_def purgeSessionPg_def)
qed

section \<open>Active time\<close>

lemma active_walk_bounds:
  "0 \<le> active_walk prev last_ms ts \<and>
     active_walk prev last_ms ts \<le> IDLE_CAP_MS * int (if last_ms = None then length ts - 1 else length ts)"
proof (induction prev last_ms ts rule: active_walk.induct)
  case (2 prev last_ms t ts)
  show ?case
  proof (cases "or_else t prev")
    case None
    with 2(1) show ?thesis by (auto simp: IDLE_CAP_MS_def split: if_splits)
  next
    case (Some c)
    with 2(2) [OF Some] show ?thesis by (auto simp: IDLE_CAP_MS_def split: option.split)
  qed
qed simp

text \<open>
  Active time is bounded by the gaps there are: it is never negative and grows by at most five minutes for each turn after the first,
  however far apart, unordered or undated the turns are.
\<close>
theorem active_time_is_bounded:
  "0 \<le> fst (activeMsFromEventTs ts seed) \<and> fst (activeMsFromEventTs ts seed) \<le> IDLE_CAP_MS * int (length ts - 1)"
  using active_walk_bounds [of _ None ts] by (simp add: activeMsFromEventTs_def Let_def)

section \<open>A commit that nothing stands against\<close>

text \<open>A commit applies when its text can be read, its session is not deleted, its chunk is new, what it expects is so and it is in time,
  no live row forbids it, and the guard has nothing to compare.\<close>

lemma commit_applies_when:
  assumes "sk_userId (ii_key i) \<noteq> []" "\<not> isSessionDeleted db (sk_userId (ii_key i)) (sk_sessionId (ii_key i))"
    "\<not> alreadyIngested db (dedupe_key (ii_key i) (ii_chunkId i))" "parseChunk (ie_lib e) (ii_chunkText i) = Inr c"
    "ii_replace i \<or> chunkRecordUuids (ie_lib e) (ii_chunkText i) = None"
    "ii_recovered i \<and> \<not> ii_rebuild i \<longrightarrow> (\<forall>r. map_of (db_sessions db) (ii_key i) = Some r \<longrightarrow> uc_events (sr_counts r) = 0)"
    "cas_check i (map_option sr_bytesUploaded (map_of (db_sessions db) (ii_key i))) (length (lane_turns db (ii_key i) None)) = None"
    "\<not> ii_lateBeforeWrites i" "\<not> ii_lateBeforeTurns i"
  shows "\<exists>db'. ingestCommit e i db = Inr (Applied (ii_key i) (length (turns c)), db')"
proof -
  have g: "guard_verdict e i None db = Pass 0" using assms(5) by (auto simp: guard_verdict_def judgeAppend_def)
  obtain d db1 where r: "resolveDimensions i (lastModel (scrubParsed c)) (metaStr (ii_meta i) ''cwd'') db = (d, db1)" by force
  then obtain x y where db1: "db1 = with_dims db x y" by (rule resolved)
  have n: "length (turns (scrubParsed c)) = length (turns c)" by (simp add: scrubParsed_def)
  have "\<exists>x. parent_writes e i (scrubParsed c) 0 d db1 = Inr (None, 0, x)"
    using assms(6-9) by (auto simp: parent_writes_def db1 Let_def split: option.split)
  then obtain z where "parent_writes e i (scrubParsed c) 0 d db1 = Inr (None, 0, z)" ..
  with assms(1-4,8) g r n show ?thesis
    by (simp add: ingestCommit_def commit_tx_def Let_def outcome_of_def)
qed

lemma commit_applies:
  assumes "sk_userId (ii_key i) \<noteq> []" "\<not> isSessionDeleted db (sk_userId (ii_key i)) (sk_sessionId (ii_key i))"
    "\<not> alreadyIngested db (dedupe_key (ii_key i) (ii_chunkId i))" "parseChunk (ie_lib e) (ii_chunkText i) = Inr c"
    "ii_replace i \<or> chunkRecordUuids (ie_lib e) (ii_chunkText i) = None"
    "\<not> ii_recovered i" "ii_expectIndexedBytes i = None" "ii_expectPriorTurns i = None"
    "\<not> ii_lateBeforeWrites i" "\<not> ii_lateBeforeTurns i"
  shows "\<exists>db'. ingestCommit e i db = Inr (Applied (ii_key i) (length (turns c)), db')"
  using assms by (intro commit_applies_when) (simp_all add: cas_check_def)

lemma unhurried_purge: "(\<And>n. clock n < deadline) \<Longrightarrow> fst (purge_turns k clock deadline n m db)"
proof (induction k clock deadline n m db rule: purge_turns.induct)
  case (1 k clock deadline n m db)
  obtain c d where b: "delete_turn_batch k db = (c, d)" by force
  have "\<not> deadline \<le> clock n" using "1.prems" [of n] by simp
  with "1.IH" [OF b [symmetric]] "1.prems" b show ?case
    by (simp add: purge_turns.simps [of k clock deadline n m db])
qed

lemma unhurried_delete:
  assumes "\<And>n. clock n < deadline"
  obtains n db' where "deleteSession key clock deadline db = (True, n, db')"
proof -
  let ?db = "markSessionDeleted (base_key key) db"
  obtain fin n db' where p: "purge_turns (base_key key) clock deadline 0 0 ?db = (fin, n, db')"
    by (cases "purge_turns (base_key key) clock deadline 0 0 ?db")
  have "fst (purge_turns (base_key key) clock deadline 0 0 ?db)" by (rule unhurried_purge) (rule assms)
  with p have "fin" by simp
  with p have "fst (deleteSession key clock deadline db)" by (simp add: deleteSession_def purgeSessionPg_def Let_def)
  with that show thesis by (cases "deleteSession key clock deadline db") simp
qed

section \<open>Witnesses\<close>

definition demo_key :: session_key where
  "demo_key = \<lparr>sk_userId = ''u'', sk_family = ''c'', sk_sessionId = ''s''\<rparr>"

definition chunk_lib :: js_lib where
  "chunk_lib = table_lib [(''a'', Obj [(''type'', Str ''user''), (''message'', Obj [(''content'', Str ''hi'')])]),
     (''b'', Obj [(''type'', Str ''assistant''), (''message'', Obj [(''content'', Str ''ho'')])])]"

definition demo_env :: ingest_env where
  "demo_env = \<lparr>ie_lib = chunk_lib, ie_platform = demo_platform, ie_guardEnabled = True, ie_guardFails = False,
     ie_factsFail = False, ie_now = ''now'', ie_nowMs = 1\<rparr>"

definition chunk_input :: "string \<Rightarrow> string \<Rightarrow> bool \<Rightarrow> ingest_input" where
  "chunk_input chunk text replace = \<lparr>ii_key = demo_key, ii_org = None, ii_repoSlug = None, ii_project = None, ii_device = None,
     ii_channel = ''tunnel'', ii_chunkId = chunk, ii_chunkText = text, ii_totalBytes = 1, ii_componentCount = 1, ii_replace = replace, ii_meta = Obj [],
     ii_recovered = False, ii_expectIndexedBytes = None, ii_objectBytes = None, ii_expectPriorTurns = None, ii_rebuild = False,
     ii_lateBeforeWrites = False, ii_lateBeforeTurns = False\<rparr>"

lemma chunk_input_fields [simp]:
  "ii_key (chunk_input c t b) = demo_key" "ii_chunkId (chunk_input c t b) = c" "ii_chunkText (chunk_input c t b) = t"
  "ii_replace (chunk_input c t b) = b" "ii_recovered (chunk_input c t b) = False" "ii_expectIndexedBytes (chunk_input c t b) = None"
  "ii_expectPriorTurns (chunk_input c t b) = None" "ii_lateBeforeWrites (chunk_input c t b) = False"
  "ii_lateBeforeTurns (chunk_input c t b) = False" "ii_totalBytes (chunk_input c t b) = 1" "ii_objectBytes (chunk_input c t b) = None"
  "ii_meta (chunk_input c t b) = Obj []" "ie_lib demo_env = chunk_lib"
  by (simp_all add: chunk_input_def demo_env_def)

lemma demo_texts:
  "Null \<notin> set (records chunk_lib ''a'')" "Null \<notin> set (records chunk_lib ''b'')"
  "chunkRecordUuids chunk_lib ''a'' = None" "chunkRecordUuids chunk_lib ''b'' = None"
proof -
  have "record_uuids chunk_lib (split_on (CHR 0x0A) ''a'') = None" "record_uuids chunk_lib (split_on (CHR 0x0A) ''b'') = None"
    by code_simp+
  then show "chunkRecordUuids chunk_lib ''a'' = None" "chunkRecordUuids chunk_lib ''b'' = None"
    by (simp_all add: chunkRecordUuids_def)
qed code_simp+

lemma demo_commit:
  assumes "t \<in> {''a'', ''b''}" "\<not> deleted_key db demo_key" "\<not> alreadyIngested db (dedupe_key demo_key chunk)"
  obtains n db' where "ingestCommit demo_env (chunk_input chunk t replace) db = Inr (Applied demo_key n, db')"
proof -
  have "chunkRecordUuids chunk_lib t = None" "\<And>err. parseChunk chunk_lib t \<noteq> Inl err"
    using assms(1) demo_texts by (auto simp: parse_fails)
  then obtain c where "parseChunk chunk_lib t = Inr c" by (cases "parseChunk chunk_lib t") auto
  with assms(2,3) \<open>chunkRecordUuids chunk_lib t = None\<close>
  have "\<exists>db'. ingestCommit demo_env (chunk_input chunk t replace) db = Inr (Applied (ii_key (chunk_input chunk t replace)) (length (turns c)), db')"
    by (intro commit_applies) (simp_all add: deleted_key_def, simp add: demo_key_def)
  then show thesis using that by auto
qed

lemma empty_demo: "\<not> deleted_key empty_db k" "\<not> alreadyIngested empty_db key"
  by (simp_all add: deleted_key_def isSessionDeleted_def alreadyIngested_def empty_db_def)

theorem a_chunk_is_applied_at_most_once_witness:
  "\<exists>n db'. ingestCommit demo_env (chunk_input ''1'' ''a'' False) empty_db = Inr (Applied demo_key n, db') \<and>
     (let later = index_run [Delete_Session demo_key (\<lambda>_. 0) 1] db'
      in committed later (ingestCommit demo_env (chunk_input ''1'' ''b'' True) later) = later)"
proof -
  obtain n db' where r: "ingestCommit demo_env (chunk_input ''1'' ''a'' False) empty_db = Inr (Applied demo_key n, db')"
    using demo_commit [of "''a''" empty_db "''1''" False] empty_demo by blast
  from r a_chunk_is_applied_at_most_once [OF r, of "chunk_input ''1'' ''b'' True" "[Delete_Session demo_key (\<lambda>_. 0) 1]" demo_env]
  show ?thesis by simp
qed

theorem a_deleted_session_never_returns_witness:
  "\<exists>n db. deleteSession demo_key (\<lambda>_. 0) 1 (index_run [Parent_Chunk demo_env (chunk_input ''1'' ''a'' False)] empty_db) = (True, n, db) \<and>
     \<not> has_rows (index_run [Parent_Chunk demo_env (chunk_input ''2'' ''b'' False)] db) (base_key demo_key)"
proof -
  let ?xs = "[Parent_Chunk demo_env (chunk_input ''1'' ''a'' False)]"
  obtain n db where "deleteSession demo_key (\<lambda>_. 0) 1 (index_run ?xs empty_db) = (True, n, db)"
    by (rule unhurried_delete [of "\<lambda>_. 0" 1 demo_key "index_run ?xs empty_db"]) simp
  from this a_deleted_session_never_returns [OF this] show ?thesis by blast
qed

lemma ingested_keys: "alreadyIngested db key \<longleftrightarrow> key \<in> set (map ev_key (db_events db))"
  by (auto simp: alreadyIngested_def list_ex_iff)

lemma applied_tables:
  assumes "ingestCommit e i db = Inr (Applied k n, db')"
  shows "map ev_key (db_events db') = map ev_key (db_events db) @ [dedupe_key (ii_key i) (ii_chunkId i)] \<and>
    db_intents db' = db_intents (settle_intents e i None db) \<and> db_deleted db' = db_deleted db"
  using assms
proof (cases rule: ingest_cases)
  case (run x skip ov db1)
  then have s: "skip = None" by (simp add: outcome_of_def split: option.splits)
  from run(4) show ?thesis
    by (cases rule: commit_cases) (simp_all add: run s record_event_def, simp add: settle_intents_def Let_def)
qed simp




definition demo_row :: session_row where
  "demo_row = \<lparr>sr_device = None, sr_org = None, sr_project = None, sr_repo = None, sr_model = None, sr_attribution = Auto,
     sr_channel = ''tunnel'', sr_title = Some ''Mine'', sr_titleSource = Some User_Title, sr_ccdSessionId = None, sr_sourcePath = None,
     sr_cwd = None, sr_gitBranch = None, sr_entrypoint = None, sr_originator = None, sr_lastUserText = None, sr_lastAssistantText = None,
     sr_counts = counts_of no_rollup, sr_chunkCount = 0, sr_bytesUploaded = 0, sr_firstEventAt = ''t'', sr_lastActivityAt = ''t''\<rparr>"

definition demo_db :: hxdb where
  "demo_db = empty_db\<lparr>db_sessions := [(demo_key, demo_row)],
     db_turns := [\<lparr>tr_id = 0, tr_session = demo_key, tr_agent = None, tr_seq = 0,
       tr_turn = \<lparr>pt_role = User_Role, pt_kind = User_Text, pt_eventTs = None, pt_text = Some ''hi'', pt_rawEvent = Obj []\<rparr>, tr_created = [] \<rparr>],
     db_nextTurn := 1\<rparr>"



end
