(* ===== verification/Reconcile_Invariant.thy ===== *)
theory Reconcile_Invariant
  imports Reconcile_Pass Index_Safety
begin

text \<open>
  The interface between a pass and its invariants: \<open>pass_property\<close> asks of a predicate that live traffic, the writes a pass makes
  (\<open>pass_write\<close>) and its bookkeeping keep it, and gives that every part of a pass keeps it.
\<close>

section \<open>Invariants of a pass\<close>

lemma keeps_sum:
  "(\<And>x. keeps P (f x)) \<Longrightarrow> (\<And>x. keeps P (g x)) \<Longrightarrow> keeps P (case a of Inl x \<Rightarrow> f x | Inr x \<Rightarrow> g x)"
  by (cases a) simp_all

lemma keeps_prod: "(\<And>x y. keeps P (f x y)) \<Longrightarrow> keeps P (case a of (x, y) \<Rightarrow> f x y)"
  by (cases a) simp

lemma keeps_outcome:
  "(\<And>x y. keeps P (f x y)) \<Longrightarrow> (\<And>x. keeps P (g x)) \<Longrightarrow> keeps P (case a of Applied x y \<Rightarrow> f x y | Not_Applied x \<Rightarrow> g x)"
  by (cases a) simp_all

lemma keeps_commit_result:
  "(\<And>x y. keeps P (f x y)) \<Longrightarrow> (\<And>x y. keeps P (h x y)) \<Longrightarrow> keeps P g \<Longrightarrow> (\<And>x. keeps P (n x)) \<Longrightarrow> (\<And>x y. keeps P (a x y)) \<Longrightarrow>
   keeps P (case r of Inl (Index_Advanced x y) \<Rightarrow> f x y | Inl (Lane_Prefix_Mismatch x y) \<Rightarrow> h x y | Inl _ \<Rightarrow> g
     | Inr (Not_Applied x) \<Rightarrow> n x | Inr (Applied x y) \<Rightarrow> a x y)"
  by (auto split: sum.split ingest_error.split ingest_outcome.split)

lemma keeps_only_if: "keeps P m \<Longrightarrow> keeps P (only_if b m)"
  by (simp add: only_if_def)

lemma keeps_attempt: "keeps P m \<Longrightarrow> keeps P (attempt m)"
  unfolding attempt_def by (intro keeps_catching keeps_bind) auto

text \<open>The writes a pass makes to the database.\<close>

inductive pass_write :: "hxdb \<Rightarrow> hxdb \<Rightarrow> bool" where
  same: "pass_write db db"
| step: "pass_write db (index_step db x)"
| findings: "pass_write db (db\<lparr>db_findings := fs\<rparr>)"
| intents: "pass_write db (db\<lparr>db_intents := is'\<rparr>)"
| facts: "has_session db k \<Longrightarrow> pass_write db (recomputeSessionFacts e k db)"
| titles: "map_of (db_sessions db) k = Some r \<Longrightarrow> untitled r' = untitled r \<Longrightarrow>
    pass_write db (db\<lparr>db_sessions := AList.update k r' (db_sessions db)\<rparr>)"
| embeddings: "pass_write db (db\<lparr>db_embedded := filter F (db_embedded db)\<rparr>)"

text \<open>What survives a moment of live traffic, every write, and the bookkeeping of the pass, survives the pass.\<close>

locale pass_property =
  fixes I :: "pass \<Rightarrow> bool"
  assumes tick: "I w \<Longrightarrow> I (w\<lparr>pa_db := index_run xs (pa_db w), pa_moment := Suc (pa_moment w)\<rparr>)"
    and writes: "I w \<Longrightarrow> pass_write (pa_db w) db \<Longrightarrow> I (w\<lparr>pa_db := db\<rparr>)"
    and report: "I w \<Longrightarrow> I (w\<lparr>pa_report := r\<rparr>)"
    and failed: "I w \<Longrightarrow> I (w\<lparr>pa_failed := fs\<rparr>)"
    and sweep: "I w \<Longrightarrow> I (w\<lparr>pa_sweep := s\<rparr>)"
    and stamps: "I w \<Longrightarrow> I (w\<lparr>pa_stamps := st\<rparr>)"
begin

lemma keeps_counters:
  "keeps I (bump_by n c)" "keeps I (bump c)" "keeps I (set_report f)" "keeps I (sweep_note g)" "keeps I isSaturated"
  "keeps I (repairChunkId k)" "keeps I (count_no_op sr)" "keeps I (set_count c n)" "keeps I (start_sweep n)" "keeps I (judge_rebuild v rb sb)"
  by (auto simp: bump_def bump_by_def set_report_def sweep_note_def isSaturated_def repairChunkId_def count_no_op_def set_count_def
      start_sweep_def judge_rebuild_def intro!: keeps_update report sweep)

lemma keeps_transact:
  assumes "\<And>m w. I w \<Longrightarrow> I (snd (f m w))"
  shows "keeps I (transact f)"
proof (rule keepsI)
  fix w assume "I w"
  then have "I (w\<lparr>pa_db := index_run (mo_live (this_moment w)) (pa_db w), pa_moment := Suc (pa_moment w)\<rparr>)" by (rule tick)
  with assms [OF this] show "I (snd (transact f w))"
    by (auto simp: transact_def Let_def split_def split: call_fate.split)
qed

lemma keeps_call: "(\<And>m db. pass_write db (snd (f m db))) \<Longrightarrow> keeps I (request f)"
  unfolding request_def by (rule keeps_transact) (simp add: split_def Let_def writes)

lemma keeps_ask: "keeps I (query f)"
  unfolding query_def by (rule keeps_call) (simp add: pass_write.same)

lemma keeps_commit: "keeps I (commit i agent)"
proof -
  have "pass_write db (snd (case (case agent of None \<Rightarrow> ingestCommit e i db | Some ag \<Rightarrow> ingestAgentCommit e i ag db) of
      Inl err \<Rightarrow> (Inl err, db) | Inr (out, db') \<Rightarrow> (Inr out, db')))" for e db
    using pass_write.step [of db "Parent_Chunk e i"] pass_write.step [of db "Agent_Chunk e i (the agent)"] pass_write.same [of db]
    by (cases agent) (auto simp: committed_def split: sum.split)
  then show ?thesis unfolding commit_def by (intro keeps_bind keeps_get keeps_call) (simp add: Let_def)
qed

lemma keeps_queries:
  "keeps I (statCanonical k)" "keeps I (readCanonicalText k)" "keeps I (currentBytes k)"
  "keeps I (keyExists k)" "keeps I (countLaneTurns la)" "keeps I (laneBytesNow la)"
  by (auto simp: statCanonical_def readCanonicalText_def currentBytes_def keyExists_def countLaneTurns_def laneBytesNow_def
      intro: keeps_ask split: prod.split option.split)

lemma keeps_finding: "keeps I (recordIntegrityFinding la d)"
  unfolding recordIntegrityFinding_def by (intro keeps_bind keeps_attempt keeps_call keeps_ret) (simp add: pass_write.findings)

lemma keeps_stamps: "keeps I (stampDeepVerified la)" "keeps I (stampAttempted la)"
  unfolding stampDeepVerified_def stampAttempted_def put_stamp_def by (rule keeps_transact; simp add: stamps)+

lemmas basics = keeps_counters keeps_queries keeps_finding keeps_stamps keeps_commit keeps_ask

lemma keeps_verify: "keeps I (verifyLane k sc ag ex n sk)"
  unfolding verifyLane_def Let_def by (intro keeps_rules keeps_attempt basics keeps_ret)

lemmas compound = keeps_rules keeps_sum keeps_prod keeps_outcome keeps_only_if keeps_attempt keeps_verify basics keeps_ret keeps_get keeps_raise

lemma keeps_repairs:
  "keeps I (repair_lane k ag c t n b s sc)" "keeps I (repair_tail k t n b a)"
  "keeps I (rebuild_parent k c t n b s sc ta)"
  unfolding repair_lane_def repair_tail_def rebuild_parent_def Let_def
  by (intro compound | auto split: ingest_error.split sum.split ingest_outcome.split intro!: compound)+


lemma keeps_restore: "keeps I (restore_key o1 g k b s a sc)"
  unfolding restore_key_def repair_parent_def Let_def
  by (intro compound keeps_repairs | auto split: sum.split option.split tail_result.split intro!: compound keeps_repairs)+

lemma keeps_failed: "keeps I (key_failed k)"
  unfolding key_failed_def by (intro compound keeps_update failed)

lemma keeps_select: "keeps I (select_key g k b)"
  unfolding select_key_def Let_def by (intro compound)

lemma keeps_visit: "keeps I (visit_keys o1 g es)"
proof (induction es)
  case (Cons e es)
  have "keeps I (visit_key o1 g e)"
    unfolding visit_key_def Let_def
    by (intro compound keeps_select keeps_restore keeps_failed | auto split: key_plan.split intro!: compound keeps_restore keeps_failed)+
  with Cons show ?case unfolding visit_keys.simps by (intro compound)
qed (simp add: keeps_ret)

lemma keeps_terminal: "keeps I (terminal_intent la)"
  unfolding terminal_intent_def Let_def by (intro compound)

lemma keeps_close: "keeps I (close_intents la)"
  unfolding close_intents_def by (rule keeps_call) (simp add: pass_write.intents)

lemma keeps_triage: "keeps I (triage_intents las forced)"
  by (induction las arbitrary: forced) (auto simp del: keeps_ret intro!: compound keeps_close keeps_terminal keeps_ret)

lemma keeps_recompute: "keeps I (recompute_facts ks)"
  by (induction ks) (auto simp del: keeps_ret intro!: compound keeps_call simp: pass_write.facts pass_write.same)

lemma keeps_gate: "keeps I (forced_intents o1)" "keeps I (read_gate o1 forced keys)"
  unfolding forced_intents_def read_gate_def Let_def find_holes_def find_duplicates_def heal_factless_def
  by (intro compound keeps_triage keeps_recompute | rule keeps_ret)+

lemma keeps_sweep_row: "keeps I (sweep_row o1 la)"
proof -
  have "keeps I (sweep_read cap la)" for cap
    unfolding sweep_read_def pass_over_def Let_def by (intro compound)
  moreover have "keeps I (sweep_judge o1 la j)" for j
    unfolding sweep_judge_def sweep_compare_def sweep_repair_def Let_def
    by (intro compound | auto split: ingest_error.split sum.split ingest_outcome.split intro!: compound)+
  ultimately show ?thesis unfolding sweep_row_def by (intro compound)
qed

lemma keeps_sweep: "keeps I (count_sweep rank o1)"
proof -
  have rows: "keeps I (sweep_rows o1 las)" for las
    by (induction las) (auto simp del: keeps_ret intro!: compound keeps_sweep_row keeps_ret)
  have "keeps I (deepVerifySweep rank o1)" "keeps I (deepVerifyLanes rank o1)"
    unfolding deepVerifySweep_def deepVerifyLanes_def Let_def
    by (intro compound rows | (rule keeps_transact, simp))+
  moreover have "keeps I (count_pending rs F)" for rs F
    unfolding count_pending_def by (rule keeps_transact) simp
  ultimately show ?thesis unfolding count_sweep_def by (intro compound)
qed

lemma keeps_titles: "keeps I (correct_titles_after fuel rank o1)"
proof -
  have up: "keeps I (update_title k c f)" if "\<And>r. untitled (f r) = untitled r" for k c f
    unfolding update_title_def by (rule keeps_call) (auto split: option.split intro: pass_write.titles pass_write.same that)
  have rows: "keeps I (title_rows f es t)" if "\<And>e t. keeps I (f e t)" for f es t
    by (induction es arbitrary: t) (auto intro!: keeps_bind that)
  have walk: "keeps I (title_walk fuel rk F f c t)" if "\<And>e t. keeps I (f e t)" for rk F f c t
    by (induction fuel arbitrary: c t) (auto intro!: compound rows that)
  have "keeps I (correct_row e t)" "keeps I (correct_injected_row e t)" for e t
    unfolding correct_row_def correct_injected_row_def Let_def by (intro compound up | simp add: untitled_def)+
  then show ?thesis
    unfolding correct_titles_after_def Let_def correctTitles_def correctInjectedFallbackTitles_def
    by (intro compound walk)
qed

lemma keeps_health: "keeps I (health_signals o1)"
  unfolding health_signals_def Let_def
  by (intro compound keeps_call | simp add: prune_embeddings_def Let_def pass_write.embeddings pass_write.intents)+

lemma pass: "keeps I (reconcileOrphans fuel rank o1)"
  unfolding reconcileOrphans_def by (intro compound keeps_gate keeps_visit keeps_sweep keeps_titles keeps_health)

end

text \<open>Invariants of the database.\<close>

locale pass_invariant = index_invariant +
  assumes pass_write: "P db \<Longrightarrow> pass_write db db' \<Longrightarrow> P db'"

sublocale pass_invariant \<subseteq> passes: pass_property "\<lambda>w. P (pa_db w)"
  by unfold_locales (simp_all add: run pass_write)

interpretation pass_tables: pass_invariant index_ok
proof unfold_locales
  fix db db' assume "pass_write db db'" and ok: "index_ok db"
  then show "index_ok db'"
  proof cases
    case (facts k e)
    have "recomputeSessionFacts e k db = refresh_facts (e\<lparr>ie_factsFail := False\<rparr>) k None db"
      by (cases "map_of (db_sessions db) k") (simp_all add: refresh_facts_def recomputeSessionFacts_def Let_def split_def)
    with facts ok show ?thesis by (simp add: index_ok_facts)
  next
    case (embeddings F)
    let ?db = "db\<lparr>db_embedded := filter F (db_embedded db)\<rparr>"
    have h: "has_lane ?db x a \<longleftrightarrow> has_lane db x a" "has_session ?db x \<longleftrightarrow> has_session db x" "deleted_key ?db x \<longleftrightarrow> deleted_key db x" for x a
      by (cases a; simp add: owner_defs deleted_key_def isSessionDeleted_def)+
    from ok show ?thesis unfolding embeddings index_ok_defs h lane_dense_def by (auto simp: lane_rows_def)
  qed (use ok in \<open>simp_all add: index_ok_step index_ok_session index_ok_quiet index_ok_other\<close>)
qed

lemma write_sessions:
  assumes "pass_write db db'" "is_gone k db"
  shows "is_gone k db'"
  using assms(1)
proof cases
  case (step x)
  with assms(2) show ?thesis by (simp add: gone_step)
qed (use assms(2) in \<open>auto simp: is_gone_def has_session_def deleted_key_def isSessionDeleted_def recomputeSessionFacts_def Let_def
      split_def update_keys dest!: map_of_SomeD intro: rev_image_eqI\<close>)

interpretation pass_gone: pass_invariant "is_gone k" for k
  by unfold_locales (rule write_sessions)

lemma write_deleted:
  assumes "pass_write db db'" "deleted_key db k"
  shows "deleted_key db' k"
  using assms(1)
proof cases
  case (step x)
  with assms(2) show ?thesis by (simp add: deleted_step)
qed (use assms(2) in \<open>simp_all add: deleted_key_def isSessionDeleted_def recomputeSessionFacts_def Let_def split_def\<close>)

interpretation pass_deleted: pass_invariant "\<lambda>db. deleted_key db k" for k
  by unfold_locales (rule deleted_step, assumption, rule write_deleted)

interpretation in_time: pass_property "\<lambda>w. pa_world w = W \<and> pa_lib w = l \<and> n \<le> pa_moment w" for W l n
  by unfold_locales simp_all

end
