(* ===== verification/Reconcile_Safety.thy ===== *)
theory Reconcile_Safety
  imports Reconcile_Invariant
begin

text \<open>
  What a pass of the guarantor promises, whatever the live traffic and the store do while it runs.
\<close>


text \<open>While the tables agree there is no embedding to prune.\<close>

lemma nothing_to_prune:
  assumes "index_ok db"
  shows "prune_embeddings n db = (0, db)"
proof -
  have "filter (\<lambda>i. i \<notin> set (map tr_id (db_turns db))) (db_embedded db) = []"
    using assms unfolding index_ok_def turns_ok_def filter_empty_conv by blast
  then show ?thesis by (simp add: prune_embeddings_def Let_def)
qed

section \<open>Terminal intents\<close>

lemma ask_Inr:
  assumes "query f w = (Inr x, w')"
  shows "x = f (this_moment w) (pa_db w') \<and> pa_moment w' = Suc (pa_moment w) \<and> pa_world w' = pa_world w \<and> pa_lib w' = pa_lib w \<and>
    mo_fate (this_moment w) = Answers"
  using assms by (auto simp: query_def request_def transact_def Let_def split: call_fate.splits)

lemma terminal_world: "pa_world (snd (m w)) = pa_world w \<and> pa_moment w \<le> pa_moment (snd (m w))"
  if "\<And>W l n. keeps (\<lambda>w. pa_world w = W \<and> pa_lib w = l \<and> n \<le> pa_moment w) m"
  using keepsD [OF that [of "pa_world w" "pa_lib w" "pa_moment w"], of w] by simp

text \<open>The answers of the store, and the tombstone, that prove that a lane can never be indexed.\<close>

definition absent_at :: "(nat \<Rightarrow> moment) \<Rightarrow> nat \<Rightarrow> session_key \<Rightarrow> bool" where
  "absent_at world j k \<longleftrightarrow> mo_fate (world j) = Answers \<and> mo_size (world j) k = None"

definition proven_terminal :: "pass \<Rightarrow> pass \<Rightarrow> lane \<Rightarrow> bool" where
  "proven_terminal w w' la \<longleftrightarrow> deleted_key (pa_db w') (intent_key la) \<or>
     (\<exists>j. pa_moment w \<le> j \<and> j < pa_moment w' \<and>
       (absent_at (pa_world w) j (lane_key (intent_key la) (nonempty (ln_agent la))) \<or>
        nonempty (ln_agent la) \<noteq> None \<and> absent_at (pa_world w) j (intent_key la)))"

lemma terminal_on_proof:
  assumes "terminal_intent la w = (Inr True, w')"
  shows "proven_terminal w w' la"
proof -
  let ?own = "lane_key (intent_key la) (nonempty (ln_agent la))"
  from assms obtain d w1 where 1: "query (\<lambda>m db. isSessionDeleted db (ln_user la) (ln_session la)) w = (Inr d, w1)"
    and 2: "(if d then ret True else bind (statCanonical ?own) (\<lambda>size. if size = None then ret True
        else if nonempty (ln_agent la) = None then ret False
        else bind (statCanonical (intent_key la)) (\<lambda>parent. ret (parent = None)))) w1 = (Inr True, w')"
    unfolding terminal_intent_def Let_def by (auto elim!: catching_cases simp: bind_Inr ret_def)
  note a = ask_Inr [OF 1]
  show ?thesis
  proof (cases d)
    case True
    with a 2 show ?thesis by (simp add: proven_terminal_def deleted_key_def intent_key_def ret_def)
  next
    case False
    with 2 obtain sz w2 where 3: "query (\<lambda>m db. mo_size m ?own) w1 = (Inr sz, w2)"
      and 4: "(if sz = None then ret True else if nonempty (ln_agent la) = None then ret False
        else bind (statCanonical (intent_key la)) (\<lambda>parent. ret (parent = None))) w2 = (Inr True, w')"
      by (auto simp: bind_Inr statCanonical_def)
    note b = ask_Inr [OF 3]
    show ?thesis
    proof (cases "sz = None")
      case True
      with a b 4 have "absent_at (pa_world w) (Suc (pa_moment w)) ?own" "pa_moment w' = Suc (Suc (pa_moment w))"
        by (simp_all add: absent_at_def this_moment_def ret_def)
      then show ?thesis unfolding proven_terminal_def by (intro disjI2 exI [of _ "Suc (pa_moment w)"]) simp
    next
      case present: False
      with 4 obtain p where 5: "query (\<lambda>m db. mo_size m (intent_key la)) w2 = (Inr p, w')" "p = None" "nonempty (ln_agent la) \<noteq> None"
        by (auto simp: bind_Inr statCanonical_def ret_def split: if_splits)
      note c = ask_Inr [OF 5(1)]
      from a b c 5 have "absent_at (pa_world w) (Suc (Suc (pa_moment w))) (intent_key la)" "pa_moment w' = Suc (Suc (Suc (pa_moment w)))"
        by (simp_all add: absent_at_def this_moment_def)
      with 5(3) show ?thesis unfolding proven_terminal_def by (intro disjI2 exI [of _ "Suc (Suc (pa_moment w))"]) simp
    qed
  qed
qed

lemma proven_later:
  assumes "proven_terminal w w1 la" "deleted_key (pa_db w1) (intent_key la) \<Longrightarrow> deleted_key (pa_db w2) (intent_key la)"
    "pa_moment w0 \<le> pa_moment w" "pa_moment w1 \<le> pa_moment w2" "pa_world w0 = pa_world w"
  shows "proven_terminal w0 w2 la"
  using assms unfolding proven_terminal_def by (metis le_trans less_le_trans)

lemma keeps_run: "keeps P m \<Longrightarrow> m w = (r, w') \<Longrightarrow> P w \<Longrightarrow> P w'"
  using keepsD [of P m w] by simp

lemma in_time_run:
  assumes "\<And>W l n. keeps (\<lambda>w. pa_world w = W \<and> pa_lib w = l \<and> n \<le> pa_moment w) m" "m w = (r, w')"
  shows "pa_world w' = pa_world w \<and> pa_lib w' = pa_lib w \<and> pa_moment w \<le> pa_moment w'"
  using keeps_run [OF assms(1) [of "pa_world w" "pa_lib w" "pa_moment w"] assms(2)] by simp

text \<open>Without live traffic an open intent stays where it is.\<close>

definition undisturbed :: "pass \<Rightarrow> bool" where
  "undisturbed w \<longleftrightarrow> (\<forall>j. mo_live (pa_world w j) = [])"

lemma attempt_run: "attempt m w = (r, w') \<Longrightarrow> \<exists>r1. m w = (r1, w')"
  by (auto simp: attempt_def ret_def elim!: catching_cases simp: bind_Inr bind_Inl)

lemma close_run:
  assumes "close_intents la w = (r, w')" "undisturbed w" "v \<in> set (db_intents (pa_db w))" "it_lane v \<noteq> la"
  shows "v \<in> set (db_intents (pa_db w'))"
  using assms
  by (auto simp: close_intents_def request_def transact_def undisturbed_def this_moment_def index_run_def Let_def closeTerminalChunkIntents_def
      split: call_fate.splits intro!: clear_where_in)

lemma ask_run: "query f w = (r, w') \<Longrightarrow> undisturbed w \<Longrightarrow> pa_db w' = pa_db w"
  by (auto simp: query_def request_def transact_def undisturbed_def this_moment_def index_run_def Let_def split: call_fate.splits)

lemma ask_keeps: "keeps (\<lambda>v. pa_db v = db \<and> undisturbed v) (query f)"
  by (rule keepsI) (auto simp: query_def request_def transact_def undisturbed_def this_moment_def index_run_def Let_def split: call_fate.splits)

lemma terminal_db:
  assumes "terminal_intent la w = (r, w')" "undisturbed w"
  shows "pa_db w' = pa_db w"
proof -
  have "keeps (\<lambda>v. pa_db v = pa_db w \<and> undisturbed v) (terminal_intent la)"
    unfolding terminal_intent_def Let_def statCanonical_def by (intro keeps_rules keeps_ret ask_keeps)
  from keeps_run [OF this assms(1)] assms(2) show ?thesis by simp
qed

lemma triage_spec:
  assumes "triage_intents las forced w = (Inr forced', w')"
  shows "set forced \<subseteq> set forced' \<and>
    (\<forall>la \<in> set las. natural_key (lane_key (intent_key la) (nonempty (ln_agent la))) \<in> set forced' \<or> proven_terminal w w' la) \<and>
    (undisturbed w \<longrightarrow> (\<forall>v \<in> set (db_intents (pa_db w)). v \<in> set (db_intents (pa_db w')) \<or> proven_terminal w w' (it_lane v)))"
  using assms
proof (induction las arbitrary: forced w)
  case Nil
  then show ?case by (simp add: ret_def)
next
  case (Cons la las)
  then obtain b w1 where t: "terminal_intent la w = (Inr b, w1)" by (auto simp: bind_Inr)
  have time1: "pa_world w1 = pa_world w \<and> pa_lib w1 = pa_lib w \<and> pa_moment w \<le> pa_moment w1"
    by (rule in_time_run [OF in_time.keeps_terminal t])
  show ?case
  proof (cases b)
    case False
    with Cons.prems t have r: "triage_intents las (List.insert (natural_key (lane_key (intent_key la) (nonempty (ln_agent la)))) forced) w1 = (Inr forced', w')"
      by (auto simp: bind_Inr)
    have time2: "pa_world w' = pa_world w1 \<and> pa_lib w' = pa_lib w1 \<and> pa_moment w1 \<le> pa_moment w'"
      by (rule in_time_run [OF in_time.keeps_triage r])
    have later: "proven_terminal w1 w' x \<Longrightarrow> proven_terminal w w' x" for x
      by (rule proven_later [where w = w1]) (use time1 time2 in auto)
    from Cons.IH [OF r] later time1 terminal_db [OF t] show ?thesis by (auto simp: undisturbed_def)
  next
    case True
    with Cons.prems t obtain c w2 where c: "attempt (close_intents la) w1 = (Inr c, w2)"
      and r: "triage_intents las forced (snd (bump_by (case c of None \<Rightarrow> 0 | Some n \<Rightarrow> n) Intents_Closed_Terminal w2)) = (Inr forced', w')"
      by (auto simp: bind_Inr seq_def bump_by_def update_def)
    let ?w = "snd (bump_by (case c of None \<Rightarrow> 0 | Some n \<Rightarrow> n) Intents_Closed_Terminal w2)"
    obtain r1 where c1: "close_intents la w1 = (r1, w2)" using attempt_run [OF c] by blast
    have w: "pa_db ?w = pa_db w2" "pa_world ?w = pa_world w2" "pa_moment ?w = pa_moment w2" by (simp_all add: bump_by_def update_def)
    have time2: "pa_world w2 = pa_world w1 \<and> pa_lib w2 = pa_lib w1 \<and> pa_moment w1 \<le> pa_moment w2"
      using c by (rule in_time_run [rotated]) (intro keeps_attempt in_time.keeps_close)
    have time3: "pa_world w' = pa_world ?w \<and> pa_lib w' = pa_lib ?w \<and> pa_moment ?w \<le> pa_moment w'"
      by (rule in_time_run [OF in_time.keeps_triage r])
    have later: "proven_terminal ?w w' x \<Longrightarrow> proven_terminal w w' x" for x
      by (rule proven_later [where w = ?w]) (use time1 time2 time3 w in auto)
    have "deleted_key (pa_db w1) x \<Longrightarrow> deleted_key (pa_db w2) x" for x
      by (rule keeps_run [OF keeps_attempt [OF pass_deleted.passes.keeps_close] c])
    moreover have "deleted_key (pa_db ?w) x \<Longrightarrow> deleted_key (pa_db w') x" for x
      by (rule keeps_run [OF pass_deleted.passes.keeps_triage r])
    ultimately have here: "proven_terminal w w' la"
      by (intro proven_later [OF terminal_on_proof [of la w w1]]) (use t True time1 time2 time3 w in auto)
    have "v \<in> set (db_intents (pa_db ?w))" if "undisturbed w" "v \<in> set (db_intents (pa_db w))" "it_lane v \<noteq> la" for v
      using close_run [OF c1, of v] that terminal_db [OF t] time1 w by (simp add: undisturbed_def)
    with Cons.IH [OF r] later here time1 time2 w show ?thesis by (auto simp: undisturbed_def) blast
  qed
qed

text \<open>
  C11. An open intent is given up only on proof. When the stale lanes are sorted out, every one of them is either forced into the repairs of the
  pass or proven terminal - its session is tombstoned, or the store answered that the canonical, or that of its parent, is absent;
  and without live traffic an intent row changes only for a lane that is proven terminal. A store that fails proves nothing.
\<close>
theorem an_intent_is_given_up_only_on_proof:
  assumes "triage_intents las forced w = (Inr forced', w')"
  shows "(\<forall>la \<in> set las. natural_key (lane_key (intent_key la) (nonempty (ln_agent la))) \<in> set forced' \<or> proven_terminal w w' la) \<and>
    (undisturbed w \<longrightarrow> (\<forall>v \<in> set (db_intents (pa_db w)). v \<in> set (db_intents (pa_db w')) \<or> proven_terminal w w' (it_lane v)))"
  using triage_spec [OF assms] by blast

section \<open>Witnesses\<close>

definition demo_moment :: moment where
  "demo_moment = \<lparr>mo_live = [], mo_fate = Answers, mo_saturated = False, mo_env = demo_env, mo_listing = [(demo_key, Some 1)],
     mo_size = (\<lambda>_. Some 1), mo_text = (\<lambda>_. ''a''), mo_uuid = ''1''\<rparr>"

definition demo_pass :: "moment \<Rightarrow> hxdb \<Rightarrow> pass" where
  "demo_pass m db = \<lparr>pa_db = db, pa_stamps = [], pa_lib = chunk_lib, pa_world = (\<lambda>_. m), pa_moment = 0, pa_report = no_report,
     pa_failed = [], pa_sweep = \<lparr>sw_size = 0, sw_mismatched = 0, sw_repaired = 0\<rparr>\<rparr>"

definition demo_options :: reconcile_options where
  "demo_options = \<lparr>op_maxOrphans = None, op_intentGraceMs = None, op_deepVerifyPerPass = 10, op_healthSignals = True, op_repairDuplicates = True,
     op_recomputeFactlessFacts = True, op_correctExistingTitles = True, op_correctInjectedTitles = True, op_repairStaleIndexes = True,
     op_repairTails = True, op_staleRepairCeiling = 1 / 2, op_maxCanonicalBytes = 10, op_maxRepairBytes = 10\<rparr>"

lemma demo_pass_fields [simp]:
  "pa_db (demo_pass m db) = db" "pa_stamps (demo_pass m db) = []" "pa_lib (demo_pass m db) = chunk_lib" "pa_world (demo_pass m db) = (\<lambda>_. m)" "pa_moment (demo_pass m db) = 0"
  by (simp_all add: demo_pass_def)

definition stale_intent :: intent where
  "stale_intent = \<lparr>it_lane = lane_of demo_key None, it_chunk = ''1'', it_bytes = 1, it_created = 0, it_cleared = None\<rparr>"


theorem an_intent_is_given_up_only_on_proof_witness:
  "\<exists>w'. triage_intents [lane_of demo_key None] [] (demo_pass (demo_moment\<lparr>mo_size := \<lambda>_. None\<rparr>) (empty_db\<lparr>db_intents := [stale_intent]\<rparr>)) = (Inr [], w') \<and>
    db_intents (pa_db w') = [stale_intent\<lparr>it_cleared := Some 1\<rparr>] \<and>
    proven_terminal (demo_pass (demo_moment\<lparr>mo_size := \<lambda>_. None\<rparr>) (empty_db\<lparr>db_intents := [stale_intent]\<rparr>)) w' (lane_of demo_key None)"
proof -
  let ?w = "demo_pass (demo_moment\<lparr>mo_size := \<lambda>_. None\<rparr>) (empty_db\<lparr>db_intents := [stale_intent]\<rparr>)"
  obtain w' where r: "triage_intents [lane_of demo_key None] [] ?w = (Inr [], w')" "db_intents (pa_db w') = [stale_intent\<lparr>it_cleared := Some 1\<rparr>]"
    by (simp add: terminal_intent_def close_intents_def query_def request_def transact_def statCanonical_def attempt_def catching_def bind_def ret_def seq_def
        bump_by_def update_def Let_def this_moment_def demo_moment_def index_run_def isSessionDeleted_def empty_db_def
        closeTerminalChunkIntents_def clear_where_def stale_intent_def it_open_def demo_env_def)
  with an_intent_is_given_up_only_on_proof [OF r(1)] show ?thesis by simp
qed

end
