(* ===== verification/Sweep_Safety.thy ===== *)
theory Sweep_Safety
  imports Reconcile_Safety
begin

text \<open>
  What the count sweep promises: a bound on what it rebuilds, and that a row is stamped verified only when it was counted.
\<close>

section \<open>What the steps of a sweep leave alone\<close>

text \<open>A predicate that does not look at the database, nor at the time of the last attempt, nor at the counters but for \<open>Deep_Repaired\<close>.\<close>

locale sweep_frame =
  fixes I :: "pass \<Rightarrow> bool"
  assumes stored: "I w \<Longrightarrow> I (w\<lparr>pa_db := db\<rparr>)"
    and later: "I w \<Longrightarrow> I (w\<lparr>pa_moment := Suc (pa_moment w)\<rparr>)"
    and bumped: "c \<noteq> Deep_Repaired \<Longrightarrow> I w \<Longrightarrow> I (w\<lparr>pa_report := (pa_report w)\<lparr>rp_count := (rp_count (pa_report w))(c := n)\<rparr>\<rparr>)"
    and attempted: "I w \<Longrightarrow> I (w\<lparr>pa_stamps := AList.update la ((stamp_of w la)\<lparr>sp_attempted := t\<rparr>) (pa_stamps w)\<rparr>)"
begin

lemma transacts:
  assumes "\<And>m w. I w \<Longrightarrow> I (snd (f m w))"
  shows "keeps I (transact f)"
proof (rule keepsI)
  fix w assume "I w"
  from later [OF stored [OF this]] have "I (w\<lparr>pa_db := index_run (mo_live (this_moment w)) (pa_db w), pa_moment := Suc (pa_moment w)\<rparr>)"
    by (simp add: this_moment_def)
  with assms [OF this] show "I (snd (transact f w))"
    by (auto simp: transact_def Let_def split_def split: call_fate.split)
qed

lemma calls: "keeps I (request f)"
  unfolding request_def by (rule transacts) (simp add: stored Let_def split_def)

lemma asks: "keeps I (query f)"
  unfolding query_def by (rule calls)

lemma stamps_attempted: "keeps I (stampAttempted la)"
  unfolding stampAttempted_def put_stamp_def by (rule transacts) (simp add: attempted)

lemma bumps: "c \<noteq> Deep_Repaired \<Longrightarrow> keeps I (bump c)"
  unfolding bump_def bump_by_def by (rule keeps_update) (simp add: bumped)

lemma quick: "keeps I isSaturated" "keeps I (repairChunkId k)"
  by (simp_all add: isSaturated_def repairChunkId_def)

lemma queries:
  "keeps I (laneBytesNow la)" "keeps I (countLaneTurns la)" "keeps I (statCanonical k)"
  "keeps I (readCanonicalText k)" "keeps I (commit i ag)" "keeps I (recordIntegrityFinding l x)"
  by (auto simp: laneBytesNow_def countLaneTurns_def statCanonical_def readCanonicalText_def currentBytes_def commit_def
      recordIntegrityFinding_def intro!: calls asks keeps_bind keeps_attempt split: prod.split option.split)

lemmas steps = calls asks stamps_attempted quick queries

lemma reads: "keeps I (sweep_read cap la)"
  unfolding sweep_read_def pass_over_def Let_def
  by (intro keeps_rules keeps_attempt steps bumps keeps_ret) simp_all

end

section \<open>The ceiling\<close>

text \<open>The variables of the ceiling, and the counter it bounds.\<close>

definition at_ceiling :: "sweep_state \<Rightarrow> nat \<Rightarrow> pass \<Rightarrow> bool" where
  "at_ceiling s d w \<longleftrightarrow> pa_sweep w = s \<and> tally Deep_Repaired w = d"

interpretation ceiling: sweep_frame "at_ceiling s d" for s d
  by unfold_locales (simp_all add: at_ceiling_def tally_def)

lemma verified_keeps: "keeps (at_ceiling s d) (stampDeepVerified la)"
  unfolding stampDeepVerified_def put_stamp_def by (rule ceiling.transacts) (simp add: at_ceiling_def tally_def)

text \<open>What holds between two rows: no more repairs than mismatches, and within the two limits.\<close>

definition within_ceiling :: "nat \<Rightarrow> nat \<Rightarrow> pass \<Rightarrow> bool" where
  "within_ceiling n d w \<longleftrightarrow> (let s = pa_sweep w in sw_size s = n \<and> sw_repaired s \<le> sw_mismatched s \<and>
     sw_repaired s \<le> min DEEP_REPAIR_MAX_PER_PASS (max 9 (n div 2)) \<and> tally Deep_Repaired w = d + sw_repaired s)"

lemma keeps_within:
  assumes "\<And>s d'. keeps (at_ceiling s d') m"
  shows "keeps (within_ceiling n d) m"
proof (rule keepsI)
  fix w assume "within_ceiling n d w"
  moreover have "at_ceiling (pa_sweep w) (tally Deep_Repaired w) (snd (m w))"
    by (rule keepsD [OF assms]) (simp add: at_ceiling_def)
  ultimately show "within_ceiling n d (snd (m w))" by (simp add: within_ceiling_def at_ceiling_def Let_def)
qed

lemma may_repair:
  assumes "\<not> systematic s" "\<not> budgetSpent s" "sw_repaired s < sw_mismatched s"
  shows "sw_repaired s + 1 \<le> min DEEP_REPAIR_MAX_PER_PASS (max 9 (sw_size s div 2))"
proof -
  have "sw_mismatched s < 10 \<or> of_nat (sw_mismatched s) \<le> (of_nat (sw_size s) / 2 :: rat)"
    using assms(1) by (auto simp: systematic_def DEEP_MISMATCH_CEILING_MIN_COUNT_def DEEP_MISMATCH_CEILING_RATIO_def)
  moreover have "of_nat m \<le> (of_nat k / 2 :: rat) \<longleftrightarrow> 2 * m \<le> k" for m k
    by (simp add: field_simps flip: of_nat_le_iff [where 'a = rat])
  ultimately have "sw_mismatched s < 10 \<or> 2 * sw_mismatched s \<le> sw_size s" by simp
  with assms(2,3) show ?thesis by (auto simp: budgetSpent_def)
qed

text \<open>A judged row: what is counted as a mismatch first leaves room for the repair that may follow.\<close>

definition room_to_repair :: "nat \<Rightarrow> nat \<Rightarrow> pass \<Rightarrow> bool" where
  "room_to_repair n d w \<longleftrightarrow> within_ceiling n d w \<and> sw_repaired (pa_sweep w) < sw_mismatched (pa_sweep w)"

lemma keeps_room:
  assumes "\<And>s d'. keeps (at_ceiling s d') m"
  shows "keeps (\<lambda>w. room_to_repair n d w \<and> pa_sweep w = s) m"
proof (rule keepsI)
  fix w assume "room_to_repair n d w \<and> pa_sweep w = s"
  moreover have "at_ceiling (pa_sweep w) (tally Deep_Repaired w) (snd (m w))"
    by (rule keepsD [OF assms]) (simp add: at_ceiling_def)
  ultimately show "room_to_repair n d (snd (m w)) \<and> pa_sweep (snd (m w)) = s"
    by (auto simp: room_to_repair_def within_ceiling_def at_ceiling_def Let_def)
qed

lemma hoare_keeps: "keeps P m \<Longrightarrow> (\<And>w. P w \<Longrightarrow> Q w) \<Longrightarrow> hoare P m (\<lambda>_. Q) Q"
  unfolding keeps_def by (rule hoare_weaken)

lemma within_keeps: "keeps (within_ceiling n d) m \<Longrightarrow> (\<And>w. P w \<Longrightarrow> within_ceiling n d w) \<Longrightarrow>
    hoare P m (\<lambda>_. within_ceiling n d) (within_ceiling n d)"
  unfolding keeps_def by (rule hoare_pre)

lemma room_step:
  assumes "\<And>s d'. keeps (at_ceiling s d') m"
  shows "hoare (\<lambda>w. room_to_repair n d w \<and> pa_sweep w = s) m (\<lambda>_ w. room_to_repair n d w \<and> pa_sweep w = s) (within_ceiling n d)"
  using keeps_room [OF assms] unfolding keeps_def by (rule hoare_weaken) (auto simp: room_to_repair_def)

lemma repair_within:
  assumes "\<not> systematic s" "\<not> budgetSpent s"
  shows "hoare (\<lambda>w. room_to_repair n d w \<and> pa_sweep w = s) (sweep_repair la j x) (\<lambda>_. within_ceiling n d) (within_ceiling n d)"
proof -
  let ?P = "\<lambda>w. room_to_repair n d w \<and> pa_sweep w = s"
  have out: "?P w \<Longrightarrow> within_ceiling n d w" for w by (simp add: room_to_repair_def)
  have quiet: "keeps (within_ceiling n d) (seq (bump c) (stampAttempted la))" if "c \<noteq> Deep_Repaired" for c
    using that by (intro keeps_within keeps_seq ceiling.bumps ceiling.steps verified_keeps)
  have "hoare ?P (bump Deep_Repaired) (\<lambda>_ w. within_ceiling n d (w\<lparr>pa_sweep := (pa_sweep w)\<lparr>sw_repaired := sw_repaired (pa_sweep w) + 1\<rparr>\<rparr>)) (within_ceiling n d)"
    unfolding bump_def bump_by_def using may_repair [OF assms]
    by (intro hoare_updateI) (auto simp: room_to_repair_def within_ceiling_def tally_def Let_def)
  moreover have "hoare (\<lambda>w. within_ceiling n d (w\<lparr>pa_sweep := (pa_sweep w)\<lparr>sw_repaired := sw_repaired (pa_sweep w) + 1\<rparr>\<rparr>))
      (sweep_note (\<lambda>s. s\<lparr>sw_repaired := sw_repaired s + 1\<rparr>)) (\<lambda>_. within_ceiling n d) (within_ceiling n d)"
    unfolding sweep_note_def by (rule hoare_updateI)
  moreover have "hoare (within_ceiling n d) (stampDeepVerified la) (\<lambda>_. within_ceiling n d) (within_ceiling n d)"
    by (intro within_keeps keeps_within ceiling.steps verified_keeps)
  ultimately have mark: "hoare ?P (seq (bump Deep_Repaired) (seq (sweep_note (\<lambda>s. s\<lparr>sw_repaired := sw_repaired s + 1\<rparr>)) (stampDeepVerified la)))
      (\<lambda>_. within_ceiling n d) (within_ceiling n d)"
    by (intro hoare_seq)
  show ?thesis
    unfolding sweep_repair_def
    by (intro hoare_bind [OF room_step] ceiling.steps verified_keeps ceiling.steps)
      (auto split: sum.split ingest_error.split ingest_outcome.split
        intro!: within_keeps [OF quiet] hoare_bind [OF room_step] ceiling.steps mark hoare_raiseI hoare_if simp: out split: if_splits)
qed

section \<open>Rows and passes\<close>

lemma calls_within:
  assumes "\<And>s d'. keeps (at_ceiling s d') m"
  shows "hoare (within_ceiling n d) m (\<lambda>_. within_ceiling n d) (within_ceiling n d)"
  using assms by (intro within_keeps keeps_within)

lemma compare_within: "hoare (within_ceiling n d) (sweep_compare o1 la j x actual) (\<lambda>_. within_ceiling n d) (within_ceiling n d)"
  unfolding sweep_compare_def
proof (rule hoare_seq [OF calls_within hoare_if])
  have mismatch: "hoare (within_ceiling n d) (sweep_note (\<lambda>s. s\<lparr>sw_mismatched := sw_mismatched s + 1\<rparr>)) (\<lambda>_. room_to_repair n d) (within_ceiling n d)"
    unfolding sweep_note_def by (rule hoare_updateI) (auto simp: room_to_repair_def within_ceiling_def tally_def Let_def)
  have refused: "hoare (\<lambda>w. room_to_repair n d w \<and> pa_sweep w = s) (seq (bump Deep_Refused) (stampAttempted la)) (\<lambda>_. within_ceiling n d) (within_ceiling n d)" for s
    by (intro within_keeps keeps_within keeps_seq ceiling.bumps ceiling.steps verified_keeps) (simp_all add: room_to_repair_def)
  have act: "hoare (room_to_repair n d) (if \<not> op_repairStaleIndexes o1 then stampAttempted la
      else bind (get pa_sweep) (\<lambda>s. if systematic s \<or> budgetSpent s then seq (bump Deep_Refused) (stampAttempted la) else sweep_repair la j x))
      (\<lambda>_. within_ceiling n d) (within_ceiling n d)"
    by (intro hoare_if hoare_bind_get refused repair_within within_keeps keeps_within ceiling.steps verified_keeps) (auto simp: room_to_repair_def)
  show "hoare (within_ceiling n d) (seq (bump Deep_Mismatched) (seq (sweep_note (\<lambda>s. s\<lparr>sw_mismatched := sw_mismatched s + 1\<rparr>))
      (if \<not> op_repairStaleIndexes o1 then stampAttempted la
       else bind (get pa_sweep) (\<lambda>s. if systematic s \<or> budgetSpent s then seq (bump Deep_Refused) (stampAttempted la) else sweep_repair la j x))))
      (\<lambda>_. within_ceiling n d) (within_ceiling n d)"
    by (rule hoare_seq [OF calls_within hoare_seq [OF mismatch act]]) (simp add: ceiling.bumps)
  show "hoare (within_ceiling n d) (seq (only_if (x < actual) (seq (bump Deep_Overcount)
      (recordIntegrityFinding (lane_of (fst la) (snd la)) (Overcount actual x)))) (stampDeepVerified la)) (\<lambda>_. within_ceiling n d) (within_ceiling n d)"
    by (intro calls_within keeps_seq keeps_only_if ceiling.bumps ceiling.steps verified_keeps ceiling.steps) simp
qed (simp add: ceiling.bumps)

lemma judge_within: "hoare (within_ceiling n d) (sweep_judge o1 la j) (\<lambda>_. within_ceiling n d) (within_ceiling n d)"
proof -
  have "hoare (within_ceiling n d) (bind (countLaneTurns la) (sweep_compare o1 la j x)) (\<lambda>_. within_ceiling n d) (within_ceiling n d)" for x
    by (rule hoare_bind [OF calls_within [OF ceiling.queries(2)] compare_within])
  then have c: "hoare (within_ceiling n d) (case parseChunk lib (jd_text j) of Inl msg \<Rightarrow> raise msg | Inr parsed \<Rightarrow>
      bind (countLaneTurns la) (sweep_compare o1 la j (length (turns parsed)))) (\<lambda>_. within_ceiling n d) (within_ceiling n d)" for lib
    by (cases "parseChunk lib (jd_text j)") (simp_all add: hoare_raiseI)
  show ?thesis unfolding sweep_judge_def by (intro hoare_bind_get hoare_pre [OF c]) simp
qed

lemma row_within: "keeps (within_ceiling n d) (sweep_row o1 la)"
proof -
  have "keeps (within_ceiling n d) (sweep_judge o1 la j)" for j
    unfolding keeps_def by (rule judge_within)
  then show ?thesis
    unfolding sweep_row_def
    by (intro keeps_rules keeps_attempt keeps_within [OF ceiling.asks] keeps_within [OF ceiling.stamps_attempted] keeps_within [OF ceiling.reads]
      keeps_within [OF ceiling.bumps] keeps_ret) simp_all
qed

lemma rows_within: "keeps (within_ceiling n d) (sweep_rows o1 las)"
  by (induction las)
    (auto simp del: keeps_ret intro!: keeps_rules keeps_only_if row_within keeps_within [OF ceiling.quick(1)] keeps_within [OF ceiling.bumps] keeps_ret keeps_get)

text \<open>From the choice of the candidates on.\<close>

lemma sweep_within:
  assumes "n \<le> N"
  shows "hoare (\<lambda>w. tally Deep_Repaired w = d) (seq (start_sweep n) (sweep_rows o1 las))
    (\<lambda>_ w. tally Deep_Repaired w \<le> d + min DEEP_REPAIR_MAX_PER_PASS (max 9 (N div 2)))
    (\<lambda>w. tally Deep_Repaired w \<le> d + min DEEP_REPAIR_MAX_PER_PASS (max 9 (N div 2)))"
proof (rule hoare_seq)
  show "hoare (\<lambda>w. tally Deep_Repaired w = d) (start_sweep n) (\<lambda>_. within_ceiling n d)
      (\<lambda>w. tally Deep_Repaired w \<le> d + min DEEP_REPAIR_MAX_PER_PASS (max 9 (N div 2)))"
    unfolding start_sweep_def sweep_note_def
    by (rule hoare_updateI) (simp add: within_ceiling_def tally_def)
  have "tally Deep_Repaired w \<le> d + min DEEP_REPAIR_MAX_PER_PASS (max 9 (N div 2))" if "within_ceiling n d w" for w
    using that assms div_le_mono [OF assms, of 2] by (auto simp: within_ceiling_def Let_def min_def max_def split: if_splits)
  then show "hoare (within_ceiling n d) (sweep_rows o1 las) (\<lambda>_ w. tally Deep_Repaired w \<le> d + min DEEP_REPAIR_MAX_PER_PASS (max 9 (N div 2)))
      (\<lambda>w. tally Deep_Repaired w \<le> d + min DEEP_REPAIR_MAX_PER_PASS (max 9 (N div 2)))"
    by (intro hoare_weaken [OF rows_within [unfolded keeps_def]])
qed

lemma query_keeps: "keeps (\<lambda>w. tally c w = d) (query f)"
  unfolding query_def request_def by (rule keepsI) (auto simp: transact_def Let_def tally_def split: call_fate.split)

lemma candidates:
  "hoare (\<lambda>w. tally c w = d) (transact (\<lambda>m w. (take N (h w), w))) (\<lambda>xs w. tally c w = d \<and> length xs \<le> N) (\<lambda>w. tally c w = d)"
  by (rule hoareI) (auto simp: transact_def Let_def tally_def split: call_fate.splits)


end
