(* ===== verification/Stamp_Safety.thy ===== *)
theory Stamp_Safety
  imports Sweep_Safety
begin

text \<open>
  What the verified stamp of the count sweep vouches for.
\<close>

section \<open>What a row may change before it stamps\<close>

definition unstamped :: "pass \<Rightarrow> pass \<Rightarrow> bool" where
  "unstamped w0 w \<longleftrightarrow> (\<forall>x. sp_verified (stamp_of w x) = sp_verified (stamp_of w0 x)) \<and> pa_world w = pa_world w0 \<and>
     pa_lib w = pa_lib w0 \<and> pa_moment w0 \<le> pa_moment w"

lemma stamp_of_update: "stamp_of (w\<lparr>pa_stamps := AList.update la s (pa_stamps v)\<rparr>) x = (if x = la then s else stamp_of v x)"
  by (simp add: stamp_of_def update_conv')

lemma stamp_of_other [simp]:
  "stamp_of (w\<lparr>pa_db := db\<rparr>) = stamp_of w" "stamp_of (w\<lparr>pa_moment := n\<rparr>) = stamp_of w" "stamp_of (w\<lparr>pa_report := r\<rparr>) = stamp_of w"
  "stamp_of (w\<lparr>pa_sweep := s\<rparr>) = stamp_of w"
  by (simp_all add: stamp_of_def fun_eq_iff)

interpretation stamps: sweep_frame "unstamped w0" for w0
  by unfold_locales (auto simp: unstamped_def stamp_of_update simp del: split_paired_All)

text \<open>A text the store answered with while the row was judged.\<close>

definition was_read :: "pass \<Rightarrow> pass \<Rightarrow> session_key \<Rightarrow> string \<Rightarrow> bool" where
  "was_read w0 w k text \<longleftrightarrow> (\<exists>j. pa_moment w0 \<le> j \<and> j < pa_moment w \<and> mo_fate (pa_world w0 j) = Answers \<and> mo_text (pa_world w0 j) k = text)"

text \<open>What a verified stamp stands for: the canonical was read and parsed, and the lane holds at least as many turns as it has records.\<close>

definition vouched :: "pass \<Rightarrow> pass \<Rightarrow> lane_key \<Rightarrow> bool" where
  "vouched w0 w la \<longleftrightarrow> (\<exists>text c. was_read w0 w (lane_key (fst la) (snd la)) text \<and> parseChunk (pa_lib w0) text = Inr c \<and>
     length (turns c) \<le> length (lane_rows (pa_db w) (fst la) (snd la)))"

definition only_vouched :: "pass \<Rightarrow> lane_key \<Rightarrow> pass \<Rightarrow> bool" where
  "only_vouched w0 la w \<longleftrightarrow> undisturbed w \<and>
     (\<forall>x. sp_verified (stamp_of w x) \<noteq> sp_verified (stamp_of w0 x) \<longrightarrow> x = la \<and> vouched w0 w la)"

definition may_stamp :: "pass \<Rightarrow> lane_key \<Rightarrow> pass \<Rightarrow> bool" where
  "may_stamp w0 la w \<longleftrightarrow> undisturbed w \<and> unstamped w0 w \<and> vouched w0 w la"

lemma undisturbed_run: "undisturbed w \<Longrightarrow> index_run (mo_live (this_moment w)) db = db"
  by (simp add: undisturbed_def this_moment_def index_run_def)

lemma undisturbed_other [simp]:
  "undisturbed (w\<lparr>pa_db := db\<rparr>) = undisturbed w" "undisturbed (w\<lparr>pa_moment := n\<rparr>) = undisturbed w"
  "undisturbed (w\<lparr>pa_report := r\<rparr>) = undisturbed w" "undisturbed (w\<lparr>pa_sweep := s\<rparr>) = undisturbed w"
  "undisturbed (w\<lparr>pa_stamps := st\<rparr>) = undisturbed w"
  by (simp_all add: undisturbed_def)

lemma was_read_later: "was_read w0 w k t \<Longrightarrow> pa_moment w \<le> pa_moment w' \<Longrightarrow> was_read w0 w' k t"
  unfolding was_read_def by (metis less_le_trans)

lemma vouched_later:
  assumes "vouched w0 w la" "pa_moment w \<le> pa_moment w'" "lane_rows (pa_db w') (fst la) (snd la) = lane_rows (pa_db w) (fst la) (snd la)"
  shows "vouched w0 w' la"
  using assms was_read_later unfolding vouched_def by fastforce

lemma stamping:
  assumes "may_stamp w0 la w"
  shows "only_vouched w0 la (snd (stampDeepVerified la w))"
proof -
  have "vouched w0 (w\<lparr>pa_moment := Suc (pa_moment w)\<rparr>) la" using assms by (auto simp: may_stamp_def intro: vouched_later)
  moreover have "vouched w0 (w\<lparr>pa_moment := Suc (pa_moment w), pa_stamps := st\<rparr>) la" for st
    using assms by (auto simp: may_stamp_def intro: vouched_later)
  moreover have "unstamped w0 w" "undisturbed w" using assms by (simp_all add: may_stamp_def)
  ultimately show ?thesis
    by (auto simp: stampDeepVerified_def put_stamp_def transact_def Let_def undisturbed_run only_vouched_def unstamped_def
        stamp_of_update simp del: split_paired_All split: call_fate.split if_splits)
qed


section \<open>A row\<close>

text \<open>Before the verdict, with what was learned so far.\<close>

definition before :: "pass \<Rightarrow> pass \<Rightarrow> bool" where
  "before w0 w \<longleftrightarrow> undisturbed w \<and> unstamped w0 w"

lemma before_only: "before w0 w \<Longrightarrow> only_vouched w0 la w"
  by (simp add: before_def only_vouched_def unstamped_def)

lemma may_stamp_before: "may_stamp w0 la w \<Longrightarrow> before w0 w"
  by (simp add: may_stamp_def before_def)

interpretation quiet: sweep_frame "before w0" for w0
proof unfold_locales
  fix w :: pass and db c n la t
  assume b: "before w0 w"
  then have u: "undisturbed w" "unstamped w0 w" by (simp_all add: before_def)
  from stamps.stored [OF u(2)] u(1) show "before w0 (w\<lparr>pa_db := db\<rparr>)" by (simp add: before_def)
  from stamps.later [OF u(2)] u(1) show "before w0 (w\<lparr>pa_moment := Suc (pa_moment w)\<rparr>)" by (simp add: before_def)
  from stamps.attempted [OF u(2)] u(1)
  show "before w0 (w\<lparr>pa_stamps := AList.update la ((stamp_of w la)\<lparr>sp_attempted := t\<rparr>) (pa_stamps w)\<rparr>)" by (simp add: before_def)
  show "c \<noteq> Deep_Repaired \<Longrightarrow> before w0 (w\<lparr>pa_report := (pa_report w)\<lparr>rp_count := (rp_count (pa_report w))(c := n)\<rparr>\<rparr>)"
    using stamps.bumped [OF _ u(2)] u(1) by (simp add: before_def)
qed

lemma keeps_updates:
  assumes "\<And>w r. I w \<Longrightarrow> I (w\<lparr>pa_report := r\<rparr>)" "\<And>w s. I w \<Longrightarrow> I (w\<lparr>pa_sweep := s\<rparr>)"
  shows "keeps I (bump c)" "keeps I (sweep_note f)"
  by (auto simp: bump_def bump_by_def sweep_note_def intro!: keeps_update assms)

lemma report_fields:
  "before w0 (w\<lparr>pa_report := r\<rparr>) = before w0 w" "before w0 (w\<lparr>pa_sweep := s\<rparr>) = before w0 w"
  "only_vouched w0 la (w\<lparr>pa_report := r\<rparr>) = only_vouched w0 la w" "only_vouched w0 la (w\<lparr>pa_sweep := s\<rparr>) = only_vouched w0 la w"
  "was_read w0 (w\<lparr>pa_report := r\<rparr>) = was_read w0 w" "was_read w0 (w\<lparr>pa_sweep := s\<rparr>) = was_read w0 w"
  "may_stamp w0 la (w\<lparr>pa_report := r\<rparr>) = may_stamp w0 la w" "may_stamp w0 la (w\<lparr>pa_sweep := s\<rparr>) = may_stamp w0 la w"
  by (simp_all add: before_def unstamped_def only_vouched_def vouched_def was_read_def may_stamp_def fun_eq_iff)

lemma only_vouched_attempted: "keeps (only_vouched w0 la) (stampAttempted x)"
proof (rule keepsI)
  fix w assume o: "only_vouched w0 la w"
  have v: "vouched w0 w la \<Longrightarrow> vouched w0 (w\<lparr>pa_moment := Suc (pa_moment w)\<rparr>) la"
    "vouched w0 w la \<Longrightarrow> vouched w0 (w\<lparr>pa_moment := Suc (pa_moment w), pa_stamps := st\<rparr>) la" for st
    by (erule vouched_later; simp)+
  show "only_vouched w0 la (snd (stampAttempted x w))"
    using o v
    by (auto simp: stampAttempted_def put_stamp_def transact_def Let_def undisturbed_run only_vouched_def stamp_of_update
        simp del: split_paired_All split: call_fate.split if_splits)
qed

lemma stamp_verified: "hoare (may_stamp w0 la) (stampDeepVerified la) (\<lambda>_. only_vouched w0 la) (only_vouched w0 la)"
proof (rule hoareI)
  fix w x w' assume "may_stamp w0 la w" "stampDeepVerified la w = (Inr x, w')"
  then show "only_vouched w0 la w'" using stamping by (metis snd_conv)
next
  fix w e w' assume "may_stamp w0 la w" "stampDeepVerified la w = (Inl e, w')"
  then show "only_vouched w0 la w'" using stamping by (metis snd_conv)
qed

text \<open>The count of a lane whose text was read and parsed.\<close>

definition parsed_from :: "pass \<Rightarrow> lane_key \<Rightarrow> nat \<Rightarrow> pass \<Rightarrow> bool" where
  "parsed_from w0 la n w \<longleftrightarrow> (\<exists>text c. was_read w0 w (lane_key (fst la) (snd la)) text \<and> parseChunk (pa_lib w0) text = Inr c \<and> length (turns c) = n)"

lemma parsed_later: "parsed_from w0 la n w \<Longrightarrow> pa_moment w \<le> pa_moment w' \<Longrightarrow> parsed_from w0 la n w'"
  using was_read_later unfolding parsed_from_def by blast

text \<open>What holds from some moment on is kept by every call.\<close>

lemma keeps_timed:
  assumes "keeps (before w0) m" "\<And>W l k. keeps (\<lambda>w. pa_world w = W \<and> pa_lib w = l \<and> k \<le> pa_moment w) m"
    "\<And>w w'. T w \<Longrightarrow> pa_moment w \<le> pa_moment w' \<Longrightarrow> T w'"
  shows "keeps (\<lambda>w. before w0 w \<and> T w) m"
proof (rule keepsI)
  fix w assume "before w0 w \<and> T w"
  moreover have "pa_moment w \<le> pa_moment (snd (m w))"
    using keepsD [OF assms(2) [of "pa_world w" "pa_lib w" "pa_moment w"], of w] by simp
  ultimately show "before w0 (snd (m w)) \<and> T (snd (m w))" using keepsD [OF assms(1)] assms(3) by blast
qed

lemma keeps_exit: "keeps I m \<Longrightarrow> (\<And>w. P w \<Longrightarrow> I w) \<Longrightarrow> (\<And>x w. I w \<Longrightarrow> Q x w) \<Longrightarrow> (\<And>w. I w \<Longrightarrow> E w) \<Longrightarrow> hoare P m Q E"
  unfolding keeps_def by (rule hoare_weaken)

lemma text_read:
  "hoare (before w0) (readCanonicalText k) (\<lambda>tx w. before w0 w \<and> was_read w0 w k tx) (only_vouched w0 la)"
proof (rule hoareI)
  fix w tx w' assume b: "before w0 w" and r: "readCanonicalText k w = (Inr tx, w')"
  have "before w0 w'" by (rule keeps_run [OF quiet.queries(4) r b])
  moreover have "was_read w0 w' k tx"
    using ask_Inr [OF r [unfolded readCanonicalText_def]] b
    by (auto simp: was_read_def before_def unstamped_def this_moment_def intro!: exI [of _ "pa_moment w"])
  ultimately show "before w0 w' \<and> was_read w0 w' k tx" ..
next
  fix w e w' assume b: "before w0 w" and r: "readCanonicalText k w = (Inl e, w')"
  show "only_vouched w0 la w'" by (rule before_only [OF keeps_run [OF quiet.queries(4) r b]])
qed

lemma read_spec:
  "hoare (before w0) (sweep_read cap la)
     (\<lambda>j w. before w0 w \<and> (\<forall>j'. j = Some j' \<longrightarrow> was_read w0 w (lane_key (fst la) (snd la)) (jd_text j'))) (only_vouched w0 la)"
  (is "hoare ?I _ ?Q ?E")
proof -
  let ?k = "lane_key (fst la) (snd la)"
  have leave: "hoare ?I (pass_over c la) ?Q ?E" if "c \<noteq> Deep_Repaired" for c
    unfolding pass_over_def
    by (rule hoare_seq [OF keeps_exit [OF quiet.bumps [OF that]] hoare_seq [OF keeps_exit [OF quiet.stamps_attempted] hoare_retI]])
      (auto intro: before_only)
  have leave2: "hoare (\<lambda>w. ?I w \<and> was_read w0 w ?k tx) (pass_over c la) ?Q ?E" if "c \<noteq> Deep_Repaired" for c tx
    by (rule hoare_pre [OF leave [OF that]]) simp
  have again: "hoare (\<lambda>w. ?I w \<and> was_read w0 w ?k tx) (if b then ret x else attempt (statCanonical ?k))
      (\<lambda>_ w. ?I w \<and> was_read w0 w ?k tx) ?E" for b x tx
  proof (rule keeps_exit [OF keeps_timed [OF _ _ was_read_later]])
    show "keeps (before w0) (if b then ret x else attempt (statCanonical ?k))" by (intro keeps_if keeps_ret keeps_attempt quiet.queries)
    show "keeps (\<lambda>w. pa_world w = W \<and> pa_lib w = l \<and> n \<le> pa_moment w) (if b then ret x else attempt (statCanonical ?k))" for W l n
      by (intro keeps_if keeps_ret keeps_attempt in_time.keeps_queries)
  qed (auto intro: before_only)
  have judged: "hoare (\<lambda>w. ?I w \<and> was_read w0 w ?k tx) (case r of None \<Rightarrow> pass_over Live_Races la | Some None \<Rightarrow> pass_over Live_Races la
        | Some (Some n') \<Rightarrow> if length tx \<noteq> n \<and> n < n' then pass_over Live_Races la else if length tx < n then pass_over Short_Reads la
          else ret (Some \<lparr>jd_anchor = anchor, jd_size = n, jd_text = tx\<rparr>)) ?Q ?E" for r tx n anchor
    by (auto split: option.split intro!: leave2 hoare_if hoare_retI)
  have big: "hoare ?I (seq (bump Too_Large_To_Judge) (ret None)) ?Q ?E"
    by (rule hoare_seq [OF keeps_exit [OF quiet.bumps] hoare_retI]) (auto intro: before_only)
  have sized: "hoare ?I (case stat of None \<Rightarrow> pass_over Deep_Errors la | Some None \<Rightarrow> pass_over Deep_Errors la
      | Some (Some n) \<Rightarrow>
        if (case anchor of None \<Rightarrow> False | Some a \<Rightarrow> a < n) then pass_over Skipped_Behind la
        else if cap < n then seq (bump Too_Large_To_Judge) (ret None)
        else bind (readCanonicalText ?k) (\<lambda>tx.
        bind (if length tx = n then ret (Some (Some n)) else attempt (statCanonical ?k)) (\<lambda>again.
        case again of None \<Rightarrow> pass_over Live_Races la | Some None \<Rightarrow> pass_over Live_Races la
        | Some (Some n') \<Rightarrow>
          if length tx \<noteq> n \<and> n < n' then pass_over Live_Races la
          else if length tx < n then pass_over Short_Reads la
          else ret (Some \<lparr>jd_anchor = anchor, jd_size = n, jd_text = tx\<rparr>)))) ?Q ?E" for stat anchor
    by (auto split: option.split intro!: leave big hoare_bind [OF text_read hoare_bind [OF again judged]])
  show ?thesis
    unfolding sweep_read_def Let_def
    by (rule hoare_bind [OF keeps_exit [OF quiet.queries(1)] hoare_bind [OF keeps_exit [OF keeps_attempt [OF quiet.queries(3)]] sized]])
      (auto intro: before_only)
qed


lemma counted_lane:
  "hoare (\<lambda>w. before w0 w \<and> T w) (countLaneTurns la)
     (\<lambda>n w. before w0 w \<and> T w \<and> length (lane_rows (pa_db w) (fst la) (snd la)) = n) (only_vouched w0 x)"
  if T: "\<And>w w'. T w \<Longrightarrow> pa_moment w \<le> pa_moment w' \<Longrightarrow> T w'"
proof (rule hoareI)
  have k: "keeps (\<lambda>w. before w0 w \<and> T w) (countLaneTurns la)"
    by (rule keeps_timed [OF quiet.queries(2) in_time.keeps_queries(5)]) (fact T)
  fix w n w' assume b: "before w0 w \<and> T w" and r: "countLaneTurns la w = (Inr n, w')"
  show "before w0 w' \<and> T w' \<and> length (lane_rows (pa_db w') (fst la) (snd la)) = n"
    using keeps_run [OF k r b] ask_Inr [OF r [unfolded countLaneTurns_def]] by simp
next
  fix w e w' assume b: "before w0 w \<and> T w" and r: "countLaneTurns la w = (Inl e, w')"
  show "only_vouched w0 x w'" by (rule before_only [OF keeps_run [OF quiet.queries(2) r]]) (use b in simp)
qed

lemma may_stampI:
  "before w0 w \<Longrightarrow> parsed_from w0 la n w \<Longrightarrow> n \<le> length (lane_rows (pa_db w) (fst la) (snd la)) \<Longrightarrow> may_stamp w0 la w"
  unfolding before_def may_stamp_def vouched_def parsed_from_def by auto

lemma may_stamp_only: "may_stamp w0 la w \<Longrightarrow> only_vouched w0 la w"
  by (rule before_only [OF may_stamp_before])

lemma keeps_may_stamp:
  "keeps (may_stamp w0 la) (bump c)" "keeps (may_stamp w0 la) (sweep_note f)" "keeps (may_stamp w0 la) (recordIntegrityFinding x d)"
proof -
  show "keeps (may_stamp w0 la) (bump c)" "keeps (may_stamp w0 la) (sweep_note f)"
    by (auto intro!: keeps_updates simp: report_fields)
  have "keeps (may_stamp w0 la) (request (\<lambda>m db. ((), db\<lparr>db_findings := db_findings db @ [v]\<rparr>)))" for v
  proof (rule keepsI)
    fix w assume m: "may_stamp w0 la w"
    have "vouched w0 (w\<lparr>pa_moment := Suc (pa_moment w), pa_db := d\<rparr>) la" if "db_turns d = db_turns (pa_db w)" for d
      using m that by (auto simp: may_stamp_def lane_rows_def intro: vouched_later)
    moreover have "vouched w0 (w\<lparr>pa_moment := Suc (pa_moment w)\<rparr>) la"
      using m by (auto simp: may_stamp_def intro: vouched_later)
    ultimately show "may_stamp w0 la (snd (request (\<lambda>m db. ((), db\<lparr>db_findings := db_findings db @ [v]\<rparr>)) w))"
      using m by (auto simp: request_def transact_def Let_def undisturbed_run may_stamp_def unstamped_def split: call_fate.split)
  qed
  then show "keeps (may_stamp w0 la) (recordIntegrityFinding x d)"
    unfolding recordIntegrityFinding_def by (intro keeps_bind keeps_attempt keeps_ret)
qed

lemma only_vouched_updates: "keeps (only_vouched w0 la) (bump c)" "keeps (only_vouched w0 la) (sweep_note f)"
  by (auto intro!: keeps_updates simp: report_fields)


lemma leaves:
  "keeps (before w0) m \<Longrightarrow> (\<And>w. P w \<Longrightarrow> before w0 w) \<Longrightarrow> hoare P m (\<lambda>_. only_vouched w0 la) (only_vouched w0 la)"
  by (rule keeps_exit [where I = "before w0"]) (auto intro: before_only)

lemma stamps_then:
  assumes "keeps (may_stamp w0 la) m" "\<And>w. P w \<Longrightarrow> may_stamp w0 la w"
  shows "hoare P (seq m (stampDeepVerified la)) (\<lambda>_. only_vouched w0 la) (only_vouched w0 la)"
  by (rule hoare_seq [OF keeps_exit [OF assms(1)] stamp_verified]) (auto intro: assms(2) may_stamp_only)

lemma parsed_exit:
  assumes "keeps (before w0) m" "\<And>W l k. keeps (\<lambda>w. pa_world w = W \<and> pa_lib w = l \<and> k \<le> pa_moment w) m"
  shows "hoare (\<lambda>w. before w0 w \<and> parsed_from w0 la n w) m (\<lambda>_ w. before w0 w \<and> parsed_from w0 la n w) (only_vouched w0 la)"
  by (rule keeps_exit [OF keeps_timed [OF assms parsed_later]]) (auto intro: before_only)

lemma repair_stamps:
  "hoare (\<lambda>w. before w0 w \<and> parsed_from w0 la n w) (sweep_repair la j n) (\<lambda>_. only_vouched w0 la) (only_vouched w0 la)"
proof -
  let ?P = "\<lambda>w. before w0 w \<and> parsed_from w0 la n w"
  have quiet_end: "hoare ?P (seq (bump c) (stampAttempted la)) (\<lambda>_. only_vouched w0 la) (only_vouched w0 la)" if "c \<noteq> Deep_Repaired" for c
    by (rule leaves [OF keeps_seq [OF quiet.bumps [OF that] quiet.stamps_attempted]]) simp
  have mark: "hoare (\<lambda>w. (before w0 w \<and> parsed_from w0 la n w) \<and> length (lane_rows (pa_db w) (fst la) (snd la)) = n)
      (seq (bump Deep_Repaired) (seq (sweep_note f) (stampDeepVerified la))) (\<lambda>_. only_vouched w0 la) (only_vouched w0 la)" for f
    by (rule hoare_seq [OF keeps_exit [OF keeps_may_stamp(1)] stamps_then [OF keeps_may_stamp(2)]]) (auto intro: may_stampI may_stamp_only)
  have judged: "hoare (\<lambda>w. before w0 w \<and> parsed_from w0 la n w \<and> length (lane_rows (pa_db w) (fst la) (snd la)) = m)
      (if m = n then seq (bump Deep_Repaired) (seq (sweep_note f) (stampDeepVerified la))
       else seq (bump (if n < m then Live_Races else Integrity_Failures)) (stampAttempted la)) (\<lambda>_. only_vouched w0 la) (only_vouched w0 la)" for m f
    by (rule hoare_if) (auto intro: hoare_pre [OF mark] hoare_pre [OF quiet_end])
  show ?thesis
    unfolding sweep_repair_def
    by (intro hoare_bind [OF parsed_exit [OF quiet.quick(2) in_time.keeps_counters(6)]]
        hoare_bind [OF parsed_exit [OF quiet.queries(5) in_time.keeps_commit]])
      (auto split: sum.split ingest_error.split ingest_outcome.split intro!: quiet_end hoare_raiseI before_only
        hoare_bind [OF counted_lane [OF parsed_later] judged])
qed

lemma compare_stamps:
  "hoare (\<lambda>w. before w0 w \<and> parsed_from w0 la n w \<and> length (lane_rows (pa_db w) (fst la) (snd la)) = m) (sweep_compare o1 la j n m)
     (\<lambda>_. only_vouched w0 la) (only_vouched w0 la)"
proof -
  let ?P = "\<lambda>w. before w0 w \<and> parsed_from w0 la n w"
  have enough: "hoare (\<lambda>w. ?P w \<and> length (lane_rows (pa_db w) (fst la) (snd la)) = m) (seq (bump Deep_Verified)
      (seq (only_if (n < m) (seq (bump Deep_Overcount) (recordIntegrityFinding x d))) (stampDeepVerified la)))
      (\<lambda>_. only_vouched w0 la) (only_vouched w0 la)" if "n \<le> m" for x d
    by (rule hoare_seq [OF keeps_exit [OF keeps_may_stamp(1)] stamps_then [OF keeps_only_if [OF keeps_seq [OF keeps_may_stamp(1,3)]]]])
      (use that in \<open>auto intro: may_stampI may_stamp_only\<close>)
  have act: "hoare ?P (if \<not> op_repairStaleIndexes o1 then stampAttempted la
      else bind (get pa_sweep) (\<lambda>s. if systematic s \<or> budgetSpent s then seq (bump Deep_Refused) (stampAttempted la) else sweep_repair la j n))
      (\<lambda>_. only_vouched w0 la) (only_vouched w0 la)"
    by (intro hoare_if hoare_bind_get)
      (auto intro: leaves [OF quiet.stamps_attempted] leaves [OF keeps_seq [OF quiet.bumps quiet.stamps_attempted]] hoare_pre [OF repair_stamps])
  have short: "hoare (\<lambda>w. ?P w \<and> length (lane_rows (pa_db w) (fst la) (snd la)) = m) (seq (bump Deep_Verified) (seq (bump Deep_Mismatched)
      (seq (sweep_note f) (if \<not> op_repairStaleIndexes o1 then stampAttempted la
      else bind (get pa_sweep) (\<lambda>s. if systematic s \<or> budgetSpent s then seq (bump Deep_Refused) (stampAttempted la) else sweep_repair la j n)))))
      (\<lambda>_. only_vouched w0 la) (only_vouched w0 la)" for f
  proof -
    have "keeps (before w0) (sweep_note f)" by (auto simp: sweep_note_def report_fields intro!: keeps_update)
    then show ?thesis
      by (intro hoare_pre [OF hoare_seq [OF parsed_exit [OF quiet.bumps in_time.keeps_counters(2)]
            hoare_seq [OF parsed_exit [OF quiet.bumps in_time.keeps_counters(2)] hoare_seq [OF parsed_exit [OF _ in_time.keeps_counters(4)] act]]]])
        simp_all
  qed
  show ?thesis
    unfolding sweep_compare_def by (cases "n \<le> m") (simp_all add: hoare_pre [OF enough] hoare_pre [OF short])
qed


lemma judge_stamps:
  "hoare (\<lambda>w. before w0 w \<and> was_read w0 w (lane_key (fst la) (snd la)) (jd_text j)) (sweep_judge o1 la j)
     (\<lambda>_. only_vouched w0 la) (only_vouched w0 la)"
proof -
  have "hoare (\<lambda>w. before w0 w \<and> was_read w0 w (lane_key (fst la) (snd la)) (jd_text j)) (case parseChunk l (jd_text j) of
      Inl msg \<Rightarrow> raise msg | Inr parsed \<Rightarrow> bind (countLaneTurns la) (sweep_compare o1 la j (length (turns parsed))))
      (\<lambda>_. only_vouched w0 la) (only_vouched w0 la)" if l: "l = pa_lib w0" for l
  proof (cases "parseChunk l (jd_text j)")
    case (Inl msg)
    then show ?thesis by (auto intro!: hoare_raiseI before_only)
  next
    case (Inr c)
    have "hoare (\<lambda>w. before w0 w \<and> parsed_from w0 la (length (turns c)) w)
        (bind (countLaneTurns la) (sweep_compare o1 la j (length (turns c)))) (\<lambda>_. only_vouched w0 la) (only_vouched w0 la)"
      by (rule hoare_bind [OF counted_lane [OF parsed_later] compare_stamps])
    moreover have "parsed_from w0 la (length (turns c)) w" if "was_read w0 w (lane_key (fst la) (snd la)) (jd_text j)" for w
      unfolding parsed_from_def using that Inr l by (intro exI conjI) simp_all
    ultimately show ?thesis unfolding Inr by (auto intro: hoare_pre)
  qed
  then show ?thesis
    unfolding sweep_judge_def
    by (intro hoare_bind_get hoareI) (auto simp: before_def unstamped_def dest: hoareD hoareD_err)
qed

lemma row_stamps: "hoare (before w0) (sweep_row o1 la) (\<lambda>_. only_vouched w0 la) (only_vouched w0 la)"
proof -
  have judged: "hoare (\<lambda>w. before w0 w \<and> (\<forall>j'. j = Some j' \<longrightarrow> was_read w0 w (lane_key (fst la) (snd la)) (jd_text j')))
      (case j of None \<Rightarrow> ret () | Some j \<Rightarrow> sweep_judge o1 la j) (\<lambda>_. only_vouched w0 la) (only_vouched w0 la)" for j
    by (cases j) (auto intro: hoare_retI before_only hoare_pre [OF judge_stamps])
  have alive: "hoare (before w0) (if d then stampAttempted la
      else bind (sweep_read (op_maxCanonicalBytes o1) la) (\<lambda>j. case j of None \<Rightarrow> ret () | Some j \<Rightarrow> sweep_judge o1 la j))
      (\<lambda>_. only_vouched w0 la) (only_vouched w0 la)" for d
    by (intro hoare_if leaves [OF quiet.stamps_attempted] hoare_bind [OF read_spec judged])
  have "hoare (only_vouched w0 la) (seq (bump Deep_Errors) (bind (attempt (stampAttempted la)) (\<lambda>_. ret ())))
      (\<lambda>_. only_vouched w0 la) (only_vouched w0 la)"
    using keeps_seq [OF only_vouched_updates(1) keeps_bind [OF keeps_attempt [OF only_vouched_attempted] keeps_ret]]
    by (simp add: keeps_def)
  then show ?thesis
    unfolding sweep_row_def
    by (intro hoare_catching [where R = "only_vouched w0 la"] hoare_bind [OF keeps_exit [OF quiet.asks] alive])
      (auto intro: before_only)
qed

text \<open>
  C9. The verified stamp is never given away. When no live traffic runs and a row of a sweep changes a verified stamp, then it is the stamp of
  the lane of that row, the store answered with a text of that lane's canonical while the row was judged, the text parsed,
  and the lane then holds at least as many turns as the text has records - whichever calls failed or lost their answer.
\<close>
theorem a_stamp_is_never_given_away:
  assumes "undisturbed w" "sweep_row o1 la w = (r, w')" "sp_verified (stamp_of w' x) \<noteq> sp_verified (stamp_of w x)"
  shows "x = la \<and> vouched w w' la"
proof -
  have "before w w" using assms(1) by (simp add: before_def unstamped_def)
  then have "only_vouched w la w'"
    using assms(2) hoareD [OF row_stamps] hoareD_err [OF row_stamps] by (cases r) blast+
  with assms(3) show ?thesis unfolding only_vouched_def by blast
qed

definition zero_row :: session_row where
  "zero_row = \<lparr>sr_device = None, sr_org = None, sr_project = None, sr_repo = None, sr_model = None, sr_attribution = Auto, sr_channel = ''tunnel'',
     sr_title = None, sr_titleSource = None, sr_ccdSessionId = None, sr_sourcePath = None, sr_cwd = None, sr_gitBranch = None, sr_entrypoint = None,
     sr_originator = None, sr_lastUserText = None, sr_lastAssistantText = None,
     sr_counts = \<lparr>uc_events = 0, uc_input = 0, uc_output = 0, uc_cacheRead = 0, uc_cacheCreation = 0, uc_cost = 0, sc_users = 0,
       sc_assistants = 0, sc_tools = 0\<rparr>, sr_chunkCount = 1, sr_bytesUploaded = 0, sr_firstEventAt = [], sr_lastActivityAt = []\<rparr>"

theorem a_stamp_is_never_given_away_witness:
  "\<exists>w'. sweep_row demo_options (demo_key, None) (demo_pass (demo_moment\<lparr>mo_size := \<lambda>_. Some 0, mo_text := \<lambda>_. []\<rparr>)
        (empty_db\<lparr>db_sessions := [(demo_key, zero_row)]\<rparr>)) = (Inr (), w') \<and>
     sp_verified (stamp_of w' (demo_key, None)) = Some 1 \<and>
     vouched (demo_pass (demo_moment\<lparr>mo_size := \<lambda>_. Some 0, mo_text := \<lambda>_. []\<rparr>) (empty_db\<lparr>db_sessions := [(demo_key, zero_row)]\<rparr>)) w'
       (demo_key, None)"
proof -
  let ?w = "demo_pass (demo_moment\<lparr>mo_size := \<lambda>_. Some 0, mo_text := \<lambda>_. []\<rparr>) (empty_db\<lparr>db_sessions := [(demo_key, zero_row)]\<rparr>)"
  have "case parseChunk chunk_lib [] of Inl _ \<Rightarrow> False | Inr c \<Rightarrow> turns c = []" by code_simp
  then obtain c where c: "parseChunk chunk_lib [] = Inr c" "turns c = []" by (auto split: sum.splits)
  obtain w' where r: "sweep_row demo_options (demo_key, None) ?w = (Inr (), w')" "sp_verified (stamp_of w' (demo_key, None)) = Some 1"
    by (simp add: sweep_row_def sweep_read_def sweep_judge_def sweep_compare_def laneBytesNow_def countLaneTurns_def currentBytes_def statCanonical_def
        readCanonicalText_def stampDeepVerified_def put_stamp_def bump_def bump_by_def only_if_def
        query_def request_def transact_def attempt_def catching_def bind_def ret_def seq_def get_def update_def Let_def this_moment_def
        index_run_def isSessionDeleted_def c demo_moment_def empty_db_def zero_row_def lane_key_def stamp_of_def has_lane_def has_session_def
        lane_rows_def demo_options_def demo_env_def)
  have "undisturbed ?w" by (simp add: undisturbed_def demo_moment_def)
  from a_stamp_is_never_given_away [OF this r(1), of "(demo_key, None)"] r show ?thesis by (simp add: stamp_of_def)
qed

end
