(* ===== verification/Restore_Safety.thy ===== *)
theory Restore_Safety
  imports Stamp_Safety
begin

text \<open>
  What the loop over the canonicals achieves when nothing interferes, and what it never touches.
\<close>

section \<open>A smooth world\<close>

text \<open>No live traffic, no failing call, no load.\<close>

definition smooth :: "pass \<Rightarrow> bool" where
  "smooth w \<longleftrightarrow> (\<forall>j. mo_live (pa_world w j) = [] \<and> mo_fate (pa_world w j) = Answers \<and> \<not> mo_saturated (pa_world w j))"

lemma calm_other [simp]:
  "smooth (w\<lparr>pa_db := db\<rparr>) = smooth w" "smooth (w\<lparr>pa_moment := n\<rparr>) = smooth w" "smooth (w\<lparr>pa_report := r\<rparr>) = smooth w"
  "smooth (w\<lparr>pa_failed := fs\<rparr>) = smooth w"
  by (simp_all add: smooth_def)

lemma calm_ask: "smooth w \<Longrightarrow> query f w = (Inr (f (this_moment w) (pa_db w)), w\<lparr>pa_moment := Suc (pa_moment w)\<rparr>)"
  by (simp add: query_def request_def transact_def smooth_def this_moment_def index_run_def Let_def)

lemma calm_call:
  "smooth w \<Longrightarrow> request f w = (case f (this_moment w) (pa_db w) of (x, db) \<Rightarrow> (Inr x, w\<lparr>pa_moment := Suc (pa_moment w), pa_db := db\<rparr>))"
  by (simp add: request_def transact_def smooth_def this_moment_def index_run_def Let_def split_def)

lemma calm_free: "smooth w \<Longrightarrow> \<not> mo_saturated (this_moment w)"
  by (simp add: smooth_def this_moment_def)

lemma calm_attempt: "m w = (Inr x, w') \<Longrightarrow> attempt m w = (Inr (Some x), w')"
  by (simp add: attempt_def catching_def bind_def ret_def)

lemma bump_run: "bump c w = (Inr (), w\<lparr>pa_report := (pa_report w)\<lparr>rp_count := (rp_count (pa_report w))(c := rp_count (pa_report w) c + 1)\<rparr>\<rparr>)"
  by (simp add: bump_def bump_by_def update_def)

lemma bind_runs: "m w = (Inr x, w1) \<Longrightarrow> bind m f w = f x w1"
  by (simp add: bind_def)

lemma seq_runs: "m w = (Inr x, w1) \<Longrightarrow> seq m n w = n w1"
  by (simp add: seq_def bind_def)

text \<open>The store holds one text under a key, and the ids of the repairs are fresh.\<close>

definition holds_text :: "pass \<Rightarrow> session_key \<Rightarrow> string \<Rightarrow> bool" where
  "holds_text w k tx \<longleftrightarrow> (\<forall>j. mo_size (pa_world w j) k = Some (length tx) \<and> mo_text (pa_world w j) k = tx)"

definition fresh_ids :: "pass \<Rightarrow> session_key \<Rightarrow> bool" where
  "fresh_ids w k \<longleftrightarrow> (\<forall>j. \<not> alreadyIngested (pa_db w) (dedupe_key k (reconcile_chunk_id ''full'' (mo_uuid (pa_world w j)))))"

section \<open>A whole rebuild\<close>

lemma repair_input_fields [simp]:
  "ii_key (repair_input k c t b s) = k" "ii_chunkId (repair_input k c t b s) = c" "ii_chunkText (repair_input k c t b s) = t"
  "ii_replace (repair_input k c t b s)" "ii_recovered (repair_input k c t b s)" "ii_rebuild (repair_input k c t b s) = s"
  "ii_totalBytes (repair_input k c t b s) = length t" "ii_expectPriorTurns (repair_input k c t b s) = None"
  "\<not> ii_lateBeforeWrites (repair_input k c t b s)" "\<not> ii_lateBeforeTurns (repair_input k c t b s)"
  by (simp_all add: repair_input_def)

lemma commit_replaces:
  assumes "smooth w" "sk_userId k \<noteq> []" "\<not> deleted_key (pa_db w) k" "\<not> alreadyIngested (pa_db w) (dedupe_key k chunk)"
    "parseChunk (pa_lib w) tx = Inr c"
    "\<not> stale \<longrightarrow> (\<forall>r. map_of (db_sessions (pa_db w)) k = Some r \<longrightarrow> uc_events (sr_counts r) = 0)"
    "scan = None \<or> scan = Some (got (map_option sr_bytesUploaded (map_of (db_sessions (pa_db w)) k)))"
  obtains db r where "commit ((repair_input k chunk tx b stale)\<lparr>ii_expectIndexedBytes := scan\<rparr>) None w =
      (Inr (Inr (Applied k (length (turns c)))), w\<lparr>pa_moment := Suc (pa_moment w), pa_db := db\<rparr>)"
    "lane_turns db k None = turns (scrubParsed c)" "map_of (db_sessions db) k = Some r" "sr_bytesUploaded r = length tx"
    "index_ok (pa_db w) \<Longrightarrow> next_seq db k None = length (lane_rows db k None)"
proof -
  let ?i = "(repair_input k chunk tx b stale)\<lparr>ii_expectIndexedBytes := scan\<rparr>"
  let ?e = "(mo_env (this_moment w))\<lparr>ie_lib := pa_lib w\<rparr>"
  have "\<exists>db'. ingestCommit ?e ?i (pa_db w) = Inr (Applied (ii_key ?i) (length (turns c)), db')"
    using assms by (intro commit_applies_when) (auto simp: deleted_key_def cas_check_def Let_def got_def split: option.splits)
  then obtain db where db: "ingestCommit ?e ?i (pa_db w) = Inr (Applied k (length (turns c)), db)" by auto
  have "parseChunk (ie_lib ?e) (ii_chunkText ?i) = Inr c" using assms(5) by simp
  with db show thesis
  proof (cases rule: applied_commit)
    case (1 r row d)
    have "sr_bytesUploaded row = length tx"
      unfolding 1(4) by (simp add: updated_row_def new_row_def Let_def split: option.split)
    then have "sr_bytesUploaded r = length tx" using untitled_fields [OF 1(5)] by simp
    moreover have "commit ?i None w = (Inr (Inr (Applied k (length (turns c)))), w\<lparr>pa_moment := Suc (pa_moment w), pa_db := db\<rparr>)"
      using assms(1) db by (simp add: commit_def bind_get calm_call Let_def)
    moreover have "next_seq db k None = length (lane_rows db k None)" if "index_ok (pa_db w)"
    proof -
      have "index_ok db" using index_ok_step [OF that, of "Parent_Chunk ?e ?i"] db by (simp add: committed_def)
      moreover have "\<not> deleted_key db k"
        using assms(3) commit_deleted(1) [of "pa_db w" ?e ?i] db by (simp add: committed_def deleted_key_def isSessionDeleted_def)
      ultimately show ?thesis by (simp add: next_seq_dense index_ok_def lanes_ok_def)
    qed
    ultimately show thesis using that 1(3,6) by simp
  qed
qed

lemma verify_passes:
  assumes "smooth w" "holds_text w k tx" "map_of (db_sessions (pa_db w)) k = Some r" "sr_bytesUploaded r = length tx"
    "next_seq (pa_db w) k None = n" "length (lane_rows (pa_db w) k None) = n"
  shows "\<exists>v. verifyLane k sc None True (Some n) k w = (Inr v, w\<lparr>pa_moment := Suc (Suc (Suc (pa_moment w)))\<rparr>) \<and> lv_ok v"
  using assms
  by (simp add: verifyLane_def statCanonical_def currentBytes_def attempt_def catching_def bind_def ret_def calm_ask Let_def judge_lane_def
      holds_text_def this_moment_def nonempty_def)

lemma rebuild_runs:
  assumes "smooth w" "holds_text w k tx" "index_ok (pa_db w)" "sk_userId k \<noteq> []" "\<not> deleted_key (pa_db w) k"
    "\<not> alreadyIngested (pa_db w) (dedupe_key k chunk)" "parseChunk (pa_lib w) tx = Inr c"
    "\<not> stale \<longrightarrow> (\<forall>r. map_of (db_sessions (pa_db w)) k = Some r \<longrightarrow> uc_events (sr_counts r) = 0)"
    "scan = None \<or> scan = Some (got (map_option sr_bytesUploaded (map_of (db_sessions (pa_db w)) k)))"
  shows "\<exists>w' r. rebuild_parent k chunk tx (length (turns c)) (Some (length tx)) stale scan False w = (Inr (), w') \<and>
    lane_turns (pa_db w') k None = turns (scrubParsed c) \<and> map_of (db_sessions (pa_db w')) k = Some r \<and> sr_bytesUploaded r = length tx \<and>
    tally Restored w' = tally Restored w + 1 \<and> tally Repaired_Full w' = tally Repaired_Full w + 1"
proof -
  obtain db r where c: "commit ((repair_input k chunk tx (Some (length tx)) stale)\<lparr>ii_expectIndexedBytes := scan\<rparr>) None w =
      (Inr (Inr (Applied k (length (turns c)))), w\<lparr>pa_moment := Suc (pa_moment w), pa_db := db\<rparr>)"
    and t: "lane_turns db k None = turns (scrubParsed c)" and r: "map_of (db_sessions db) k = Some r" "sr_bytesUploaded r = length tx"
    and d: "next_seq db k None = length (lane_rows db k None)"
    by (rule commit_replaces [OF assms(1,4-9), where b = "Some (length tx)"]) (use assms(3) in blast)
  have n: "length (lane_rows db k None) = length (turns c)"
    using arg_cong [OF t, of length] by (simp add: lane_turns_def scrubParsed_def)
  let ?w = "snd (bump Restored (w\<lparr>pa_moment := Suc (pa_moment w), pa_db := db\<rparr>))"
  obtain v m where v: "verifyLane k (Some (length tx)) None True (Some (length (turns c))) k ?w = (Inr v, ?w\<lparr>pa_moment := m\<rparr>)" "lv_ok v"
    using verify_passes [of ?w k tx r "length (turns c)" "Some (length tx)"] assms(1,2) r d n by (auto simp: bump_run holds_text_def)
  show ?thesis
    using v c t r by (simp add: rebuild_parent_def Let_def bind_runs ret_def seq_def bump_run judge_rebuild_def tally_def)
qed


section \<open>An orphan\<close>

lemma finding_runs:
  "smooth w \<Longrightarrow> recordIntegrityFinding la d w =
     (Inr (), w\<lparr>pa_moment := Suc (pa_moment w), pa_db := (pa_db w)\<lparr>db_findings := db_findings (pa_db w) @ [\<lparr>fi_lane = la, fi_detail = d\<rparr>]\<rparr>\<rparr>)"
  by (simp add: recordIntegrityFinding_def attempt_def catching_def bind_def ret_def calm_call)

lemma restore_runs:
  assumes "smooth w" "holds_text w k tx" "index_ok (pa_db w)" "sk_userId k \<noteq> []" "\<not> deleted_key (pa_db w) k" "fresh_ids w k"
    "parseChunk (pa_lib w) tx = Inr c" "\<forall>r. map_of (db_sessions (pa_db w)) k = Some r \<longrightarrow> uc_events (sr_counts r) = 0"
    "\<not> is_lane k" "0 < eventCount c"
  shows "\<exists>w' r. restore_key o1 g k (Some (length tx)) False 0 None w = (Inr (), w') \<and>
    lane_turns (pa_db w') k None = turns (scrubParsed c) \<and> map_of (db_sessions (pa_db w')) k = Some r \<and> sr_bytesUploaded r = length tx \<and>
    tally Restored w' = tally Restored w + 1 \<and> tally Repaired_Full w' = tally Repaired_Full w + 1"
proof -
  have k: "split_lane (sk_sessionId k) = None" using assms(9) unfolding is_lane_def by blast
  let ?held = "countCanonicalHeldDuplicateRecords (map pt_rawEvent (turns c))"
  let ?w1 = "w\<lparr>pa_moment := Suc (Suc (Suc (pa_moment w)))\<rparr>"
  obtain w2 where w2: "only_if (0 < ?held) (seq (bump Canonical_Held_Duplicates)
        (recordIntegrityFinding (lane_of (parent_key k) (lane_agent (sk_sessionId k))) (Held_Duplicates ?held (length (turns c))))) ?w1 = (Inr (), w2)"
    and f: "smooth w2" "pa_world w2 = pa_world w" "pa_lib w2 = pa_lib w" "tally Restored w2 = tally Restored w"
      "tally Repaired_Full w2 = tally Repaired_Full w" "\<exists>fs. pa_db w2 = (pa_db w)\<lparr>db_findings := fs\<rparr>"
  proof (cases "0 < ?held")
    case True
    let ?w2 = "snd (recordIntegrityFinding (lane_of (parent_key k) (lane_agent (sk_sessionId k))) (Held_Duplicates ?held (length (turns c)))
      (snd (bump Canonical_Held_Duplicates ?w1)))"
    show thesis
      by (rule that [of ?w2]) (use True assms(1) in \<open>auto simp: only_if_def seq_runs [OF bump_run] bump_run finding_runs tally_def\<close>)
  next
    case False
    show thesis
      by (rule that [of ?w1]) (use False assms(1) in \<open>auto simp: only_if_def ret_def tally_def intro: exI [of _ "db_findings (pa_db w)"]\<close>)
  qed
  obtain fs where fs: "pa_db w2 = (pa_db w)\<lparr>db_findings := fs\<rparr>" using f(6) by blast
  have db: "index_ok (pa_db w2)" unfolding fs by (rule pass_tables.pass_write [OF assms(3) pass_write.findings])
  have "\<exists>w' r. rebuild_parent k (reconcile_chunk_id ''full'' (mo_uuid (this_moment w2))) tx (length (turns c)) (Some (length tx)) False None False w2 = (Inr (), w') \<and>
    lane_turns (pa_db w') k None = turns (scrubParsed c) \<and> map_of (db_sessions (pa_db w')) k = Some r \<and> sr_bytesUploaded r = length tx \<and>
    tally Restored w' = tally Restored w2 + 1 \<and> tally Repaired_Full w' = tally Repaired_Full w2 + 1"
    by (rule rebuild_runs)
      (use assms f db in \<open>simp_all add: fs holds_text_def fresh_ids_def alreadyIngested_def deleted_key_def isSessionDeleted_def this_moment_def\<close>)
  then obtain w' r where w': "rebuild_parent k (reconcile_chunk_id ''full'' (mo_uuid (this_moment w2))) tx (length (turns c)) (Some (length tx)) False None False w2 = (Inr (), w')"
    and post: "lane_turns (pa_db w') k None = turns (scrubParsed c)" "map_of (db_sessions (pa_db w')) k = Some r" "sr_bytesUploaded r = length tx"
      "tally Restored w' = tally Restored w + 1" "tally Repaired_Full w' = tally Repaired_Full w + 1"
    using f(4,5) by auto
  have "restore_key o1 g k (Some (length tx)) False 0 None w = (Inr (), w')"
  proof -
    have e: "keyExists k w = (Inr False, w\<lparr>pa_moment := Suc (pa_moment w)\<rparr>)"
      using assms(1,8) k by (auto simp: keyExists_def calm_ask split: option.split)
    have t: "readCanonicalText k (w\<lparr>pa_moment := Suc (Suc (pa_moment w))\<rparr>) = (Inr tx, ?w1)"
      using assms(1,2) by (simp add: readCanonicalText_def calm_ask holds_text_def this_moment_def)
    have d: "query (\<lambda>m db. isSessionDeleted db (sk_userId k) (sk_sessionId k)) (w\<lparr>pa_moment := Suc (pa_moment w)\<rparr>) =
        (Inr False, w\<lparr>pa_moment := Suc (Suc (pa_moment w))\<rparr>)"
      using assms(1,5) by (simp add: calm_ask deleted_key_def)
    show ?thesis
      using assms(7,10) k w' w2
      by (simp add: restore_key_def seq_def bind_def e d t get_def Let_def repairChunkId_def lane_agent_def repair_parent_def
          can_append_tail_def ret_def)
  qed
  with post show ?thesis by blast
qed



end
