(* ===== verification/Brake_Safety.thy ===== *)
theory Brake_Safety
  imports Restore_Safety
begin

text \<open>
  What the loop over the canonicals never touches: a lane whose key it did not select, whatever it does to the others.
\<close>

section \<open>Keys and lanes\<close>

definition target :: "session_key \<Rightarrow> lane_key" where
  "target k = (parent_key k, lane_agent (sk_sessionId k))"

lemma split_lane_join: "split_lane s = Some (b, a) \<Longrightarrow> s = b @ AGENT_LANE @ a"
  by (induction s arbitrary: b a) (auto split: if_splits simp: prefix_def)

lemma target_inj: "target k = target k' \<Longrightarrow> k = k'"
proof -
  assume t: "target k = target k'"
  have s: "sk_sessionId x = (case lane_agent (sk_sessionId x) of None \<Rightarrow> base_sid (sk_sessionId x) | Some a \<Rightarrow> base_sid (sk_sessionId x) @ AGENT_LANE @ a)" for x :: session_key
    by (auto simp: lane_agent_def base_sid_def split: option.split dest: split_lane_join)
  from t have p: "parent_key k = parent_key k'" and a: "lane_agent (sk_sessionId k) = lane_agent (sk_sessionId k')" by (simp_all add: target_def)
  from p have "sk_userId k = sk_userId k'" "sk_family k = sk_family k'" "base_sid (sk_sessionId k) = base_sid (sk_sessionId k')"
    by (cases k; cases k'; simp add: parent_key_def)+
  with a s [of k] s [of k'] show ?thesis by (cases "lane_agent (sk_sessionId k')") simp_all
qed

lemma target_parent: "\<not> is_lane k \<Longrightarrow> target k = (k, None)"
  by (cases "split_lane (sk_sessionId k)") (simp_all add: target_def is_lane_def parent_key_def lane_agent_def base_sid_def)

section \<open>The other lanes\<close>

lemma lane_turns_quiet [simp]: "lane_turns (db\<lparr>db_intents := v\<rparr>) = lane_turns db" "lane_turns (db\<lparr>db_findings := u\<rparr>) = lane_turns db"
  by (intro ext; simp add: lane_turns_def lane_rows_def)+

lemma commit_other_lanes:
  "(k, a) \<noteq> (ii_key i, None) \<Longrightarrow> lane_turns (committed db (ingestCommit e i db)) k a = lane_turns db k a"
  "(k, a) \<noteq> (ii_key i, Some ag) \<Longrightarrow> lane_turns (committed db (ingestAgentCommit e i ag db)) k a = lane_turns db k a"
  by (rule parent_effect; auto simp: lane_turns_write) (rule agent_effect; auto simp: lane_turns_write)

definition lane_is :: "lane_key \<Rightarrow> parsed_turn list \<Rightarrow> pass \<Rightarrow> bool" where
  "lane_is la ts w \<longleftrightarrow> undisturbed w \<and> lane_turns (pa_db w) (fst la) (snd la) = ts"

lemma lane_call:
  assumes "\<And>m db. lane_turns (snd (f m db)) (fst la) (snd la) = lane_turns db (fst la) (snd la)"
  shows "keeps (lane_is la ts) (request f)"
  by (rule keepsI) (auto simp: request_def transact_def Let_def undisturbed_run lane_is_def split_def assms split: call_fate.split)

lemma lane_ask: "keeps (lane_is la ts) (query f)"
  unfolding query_def by (rule lane_call) simp

lemma lane_finding: "keeps (lane_is la ts) (recordIntegrityFinding x d)"
  unfolding recordIntegrityFinding_def
  by (intro keeps_bind keeps_attempt lane_call keeps_ret) (simp add: lane_turns_def lane_rows_def)

lemma lane_reports: "keeps (lane_is la ts) (bump c)" "keeps (lane_is la ts) (key_failed k)"
  by (auto simp: lane_is_def key_failed_def bump_def bump_by_def undisturbed_def intro!: keeps_seq keeps_only_if keeps_update)

lemma lane_commit:
  assumes "la \<noteq> (ii_key i, ag)"
  shows "keeps (lane_is la ts) (commit i ag)"
proof -
  have "lane_turns (snd (case (case ag of None \<Rightarrow> ingestCommit e i db | Some ag \<Rightarrow> ingestAgentCommit e i ag db) of
      Inl err \<Rightarrow> (Inl err, db) | Inr (out, db') \<Rightarrow> (Inr out, db'))) (fst la) (snd la) = lane_turns db (fst la) (snd la)" for e db
    using commit_other_lanes(1) [of "fst la" "snd la" i db e] commit_other_lanes(2) [of "fst la" "snd la" i "the ag" db e] assms
    by (cases ag; cases la) (auto simp: committed_def split: sum.splits)
  then show ?thesis unfolding commit_def by (intro keeps_bind keeps_get lane_call) (simp add: Let_def)
qed

lemma lane_queries:
  "keeps (lane_is la ts) (statCanonical k)" "keeps (lane_is la ts) (readCanonicalText k)" "keeps (lane_is la ts) (currentBytes k)"
  "keeps (lane_is la ts) (keyExists k)" "keeps (lane_is la ts) (isSaturated)" "keeps (lane_is la ts) (repairChunkId kind)"
  "keeps (lane_is la ts) (count_no_op r)" "keeps (lane_is la ts) (judge_rebuild v rb sb)"
  by (simp_all add: statCanonical_def readCanonicalText_def currentBytes_def keyExists_def isSaturated_def repairChunkId_def count_no_op_def
      judge_rebuild_def lane_ask lane_reports)

lemma lane_verify: "keeps (lane_is la ts) (verifyLane k sc ag ex n sk)"
  unfolding verifyLane_def Let_def by (intro keeps_rules keeps_attempt lane_queries lane_ask keeps_ret)

lemmas lane_steps = keeps_rules keeps_sum keeps_prod keeps_outcome keeps_only_if keeps_attempt lane_queries lane_reports lane_finding lane_verify
  lane_ask keeps_ret keeps_get keeps_raise

lemma lane_repairs:
  "la \<noteq> (parent_key k, Some ag) \<Longrightarrow> keeps (lane_is la ts) (repair_lane k ag c t n b s sc)"
  "la \<noteq> (k, None) \<Longrightarrow> keeps (lane_is la ts) (repair_tail k t n b a)"
  "la \<noteq> (k, None) \<Longrightarrow> keeps (lane_is la ts) (rebuild_parent k c t n b s sc ta)"
  unfolding repair_lane_def repair_tail_def rebuild_parent_def Let_def
  by (intro lane_steps lane_commit | auto split: ingest_error.split sum.split ingest_outcome.split intro!: lane_steps lane_commit)+

lemma lane_restore:
  assumes "la \<noteq> target k"
  shows "keeps (lane_is la ts) (restore_key o1 g k b s a sc)"
proof (cases "lane_agent (sk_sessionId k)")
  case None
  then have k: "la \<noteq> (k, None)"
    using assms target_parent [of k] by (auto simp: lane_agent_def is_lane_def)
  have "keeps (lane_is la ts) (case t of Landed \<Rightarrow> bump Restored | Rebuild ta \<Rightarrow> rebuild_parent k c tx n b s sc ta | Abandoned \<Rightarrow> ret ())" for t c tx n
    by (cases t) (simp_all add: lane_reports lane_repairs(3) [OF k])
  then have "keeps (lane_is la ts) (repair_parent o1 k c tx n b s a sc)" for c tx n
    unfolding repair_parent_def by (intro keeps_bind keeps_if keeps_ret lane_repairs(2) [OF k])
  then show ?thesis
    unfolding restore_key_def Let_def None option.case by (intro lane_steps)
next
  case (Some ag)
  then have k: "la \<noteq> (parent_key k, Some ag)" using assms by (simp add: target_def)
  show ?thesis
    unfolding restore_key_def Let_def Some option.case by (intro lane_steps lane_repairs(1) [OF k])
qed

text \<open>What a visit leaves alone: an indexed session without an open intent, if the brake is on or nothing is wrong with it.\<close>

definition left_alone :: "gate \<Rightarrow> session_key \<Rightarrow> nat option \<Rightarrow> bool" where
  "left_alone g k bytes \<longleftrightarrow> natural_key k \<in> set (ga_have g) \<and> natural_key k \<notin> set (ga_forced g) \<and>
     (\<not> ga_repairStale g \<or> natural_key k \<notin> set (ga_gapped g) \<and> (case bytes of None \<Rightarrow> True | Some b \<Rightarrow> b \<le> indexed_now g k))"

lemma select_leaves: "left_alone g k bytes \<Longrightarrow> hoare (lane_is la ts) (select_key g k bytes) (\<lambda>plan w. plan = Leave \<and> lane_is la ts w) (lane_is la ts)"
proof -
  assume "left_alone g k bytes"
  then have "select_key g k bytes = seq (only_if (bytes = None) (bump Unjudgeable)) (seq (only_if (natural_key k \<in> set (ga_gapped g)) (bump Gapped_Lanes))
      (if natural_key k \<notin> set (ga_gapped g) \<and> \<not> (case bytes of None \<Rightarrow> False | Some b \<Rightarrow> indexed_now g k < b) then ret Leave
       else seq (only_if (case bytes of None \<Rightarrow> False | Some b \<Rightarrow> indexed_now g k < b) (bump Stale_Indexes)) (ret Leave)))"
    by (auto simp: select_key_def left_alone_def Let_def split: option.splits)
  moreover have "hoare (lane_is la ts) (only_if b (bump c)) (\<lambda>_. lane_is la ts) (lane_is la ts)" for b c
    using keeps_only_if [OF lane_reports(1)] by (simp add: keeps_def)
  ultimately show ?thesis by (auto intro!: hoare_seq hoare_retI)
qed

lemma lane_select: "keeps (lane_is la ts) (select_key g k b)"
  unfolding select_key_def Let_def by (intro lane_steps)

lemma lane_visit:
  assumes "\<And>k bytes. e = (k, bytes) \<Longrightarrow> target k = la \<Longrightarrow> left_alone g k bytes"
  shows "keeps (lane_is la ts) (visit_key o1 g e)"
proof (cases "target (fst e) = la")
  case True
  have keep: "hoare (lane_is la ts) (bump c) (\<lambda>_. lane_is la ts) (lane_is la ts)" for c
    using lane_reports(1) by (simp add: keeps_def)
  have sel: "hoare (lane_is la ts) (select_key g (fst e) (snd e)) (\<lambda>plan w. plan = Leave \<and> lane_is la ts w) (lane_is la ts)"
    by (rule select_leaves) (use assms True in simp)
  show ?thesis
    unfolding visit_key_def Let_def keeps_def
    by (intro hoare_seq [OF keep] hoare_bind_get hoare_if hoare_retI hoare_pre [OF hoare_bind [OF sel]])
      (auto split: key_plan.split simp: hoare_def ret_def)
next
  case False
  then show ?thesis
    unfolding visit_key_def Let_def
    by (intro lane_steps lane_select lane_restore | auto split: key_plan.split intro!: lane_steps lane_restore)+
qed

text \<open>
  C8. The loop rewrites only what it selected. Without live traffic, the turns of a lane are the same after the loop as before when its
  key is indexed, has no open intent, and either the brake is on - too many indexes looked behind at once - or the key has no hole and
  is not behind its canonical; whatever the other keys are, and whichever calls fail.
\<close>
theorem unselected_lanes_are_left_alone:
  assumes "undisturbed w" "\<And>k bytes. (k, bytes) \<in> set es \<Longrightarrow> target k = (k0, a) \<Longrightarrow> left_alone g k bytes"
  shows "lane_turns (pa_db (snd (visit_keys o1 g es w))) k0 a = lane_turns (pa_db w) k0 a"
proof -
  have "keeps (lane_is (k0, a) ts) (visit_keys o1 g es)" for ts
    using assms(2)
  proof (induction es)
    case (Cons e es)
    have "keeps (lane_is (k0, a) ts) (visit_key o1 g e)" by (rule lane_visit) (use Cons.prems in auto)
    moreover have "keeps (lane_is (k0, a) ts) (visit_keys o1 g es)" by (rule Cons.IH) (use Cons.prems in auto)
    ultimately show ?case unfolding visit_keys.simps by (intro lane_steps)
  qed simp
  from keepsD [OF this, of "lane_turns (pa_db w) k0 a" w] assms(1) show ?thesis by (simp add: lane_is_def)
qed

theorem unselected_lanes_are_left_alone_witness:
  "lane_turns (pa_db (snd (visit_keys demo_options (\<lparr>ga_have = [natural_key demo_key], ga_parentBytes = [(natural_key demo_key, 0)], ga_laneBytes = [],
      ga_anyRow = [], ga_anyLane = [], ga_gapped = [], ga_forced = [], ga_repairStale = False\<rparr>) [(demo_key, Some 1)]
      (demo_pass demo_moment empty_db)))) demo_key None = []"
proof -
  have "undisturbed (demo_pass demo_moment empty_db)" by (simp add: undisturbed_def demo_moment_def)
  from unselected_lanes_are_left_alone [OF this, of "[(demo_key, Some 1)]" demo_key None
      "\<lparr>ga_have = [natural_key demo_key], ga_parentBytes = [(natural_key demo_key, 0)], ga_laneBytes = [],
        ga_anyRow = [], ga_anyLane = [], ga_gapped = [], ga_forced = [], ga_repairStale = False\<rparr>" demo_options]
  show ?thesis by (simp add: left_alone_def lane_turns_def lane_rows_def empty_db_def)
qed

end
