(* ===== verification/Title_Safety.thy ===== *)
theory Title_Safety
  imports Brake_Safety
begin

text \<open>
  The walks over the titles end: without live traffic no walk needs more batches than there are session rows, so its fuel is enough.
\<close>

definition walked :: "session_key list \<Rightarrow> pass \<Rightarrow> bool" where
  "walked ks w \<longleftrightarrow> undisturbed w \<and> map fst (db_sessions (pa_db w)) = ks"

lemma walked_call:
  assumes "\<And>m db. map fst (db_sessions (snd (f m db))) = map fst (db_sessions db)"
  shows "keeps (walked ks) (request f)"
  by (rule keepsI) (auto simp: request_def transact_def Let_def undisturbed_run walked_def split_def assms split: call_fate.split)

lemma walked_ask: "keeps (walked ks) (query f)"
  unfolding query_def by (rule walked_call) simp

lemma walked_update: "keeps (walked ks) (update_title k c f)"
  unfolding update_title_def
  by (rule walked_call) (auto simp: update_keys AList.update_keys dest!: map_of_SomeD split: option.split intro: rev_image_eqI)

lemma walked_rows_of: "keeps (walked ks) (correct_row e t)" "keeps (walked ks) (correct_injected_row e t)"
  unfolding correct_row_def correct_injected_row_def readCanonicalText_def Let_def
  by (intro keeps_rules keeps_prod walked_ask walked_update keeps_ret keeps_get)+

text \<open>A row never throws.\<close>

definition quiet_row :: "(titled_row \<Rightarrow> title_result \<Rightarrow> (pass, title_result) eff) \<Rightarrow> bool" where
  "quiet_row f \<longleftrightarrow> (\<forall>e t ks. keeps (walked ks) (f e t)) \<and> (\<forall>e t w err. fst (f e t w) \<noteq> Inl err)"

lemma catching_quiet: "fst (catching m (\<lambda>_. ret x) w) \<noteq> Inl err"
  by (auto simp: catching_def ret_def split: prod.split sum.split)

lemma quiet_rows: "quiet_row correct_row" "quiet_row correct_injected_row"
proof -
  have "fst (correct_injected_row e t w) \<noteq> Inl err" for e t w err
    unfolding correct_injected_row_def Let_def
    by (cases "nonempty (sr_title (snd e))") (auto simp: catching_quiet, simp add: ret_def)
  moreover have "fst (correct_row e t w) \<noteq> Inl err" for e t w err
    unfolding correct_row_def by (rule catching_quiet)
  ultimately show "quiet_row correct_row" "quiet_row correct_injected_row"
    by (simp_all add: quiet_row_def walked_rows_of)
qed

lemma rows_quiet: "quiet_row f \<Longrightarrow> \<exists>t' w'. title_rows f es t w = (Inr t', w')"
proof (induction es arbitrary: t w)
  case (Cons e es)
  obtain r w1 where r: "f e (t\<lparr>tt_scanned := tt_scanned t + 1\<rparr>) w = (r, w1)" by force
  with Cons.prems have "\<nexists>err. r = Inl err" unfolding quiet_row_def by (metis fst_conv)
  then obtain t1 where "r = Inr t1" by (cases r) auto
  with r Cons.IH [OF Cons.prems, of t1 w1] show ?case by (auto simp: bind_def)
qed (simp add: ret_def)

lemma walked_rows: "quiet_row f \<Longrightarrow> keeps (walked ks) (title_rows f es t)"
  by (induction es arbitrary: t) (auto simp: quiet_row_def intro!: keeps_bind)

lemma batch_moves_on:
  assumes "b = next_batch rank P c db" "b \<noteq> []" "map fst (db_sessions db) = ks"
  shows "length (filter (\<lambda>k. Suc (rank (fst (last b))) \<le> rank k) ks) < length (filter (\<lambda>k. c \<le> rank k) ks)"
proof -
  let ?l = "fst (last b)"
  have "last b \<in> set b" using assms(2) by simp
  then have l: "?l \<in> set ks" "c \<le> rank ?l" using assms(1,3) by (auto simp: next_batch_def dest!: in_set_takeD)
  have "filter (\<lambda>k. Suc (rank ?l) \<le> rank k) ks = filter (\<lambda>k. Suc (rank ?l) \<le> rank k) (filter (\<lambda>k. c \<le> rank k) ks)"
    using l(2) by (auto intro!: filter_cong)
  also have "length \<dots> < length (filter (\<lambda>k. c \<le> rank k) ks)"
    by (rule length_filter_less [of ?l]) (use l in auto)
  finally show ?thesis .
qed

lemma walk_ends:
  assumes "quiet_row f" "walked ks w" "length (filter (\<lambda>k. c \<le> rank k) ks) < fuel"
  shows "fst (title_walk fuel rank P f c t w) \<noteq> Inl ''out of fuel''"
  using assms(2,3)
proof (induction fuel arbitrary: c t w)
  case (Suc fuel)
  let ?query = "query (\<lambda>m db. next_batch rank P c db)"
  obtain r w1 where a: "?query w = (r, w1)" by force
  then have w1: "walked ks w1" using keeps_run [OF walked_ask a Suc.prems(1)] by simp
  show ?case
  proof (cases r)
    case (Inl err)
    with a have "err = ''failed''" by (auto simp: query_def request_def transact_def Let_def split: call_fate.splits)
    with a Inl show ?thesis by (simp add: bind_def)
  next
    case (Inr b)
    have b: "b = next_batch rank P c (pa_db w1)" using ask_Inr [OF a [unfolded Inr]] by simp
    show ?thesis
    proof (cases "b = []")
      case True
      with a Inr show ?thesis by (simp add: bind_def ret_def)
    next
      case False
      obtain t' w2 where rows: "title_rows f b t w1 = (Inr t', w2)" using rows_quiet [OF assms(1)] by blast
      have w2: "walked ks w2" by (rule keeps_run [OF walked_rows [OF assms(1)] rows w1])
      have "length (filter (\<lambda>k. Suc (rank (fst (last b))) \<le> rank k) ks) < fuel"
        using batch_moves_on [OF b False, of ks] w1 Suc.prems(2) by (simp add: walked_def)
      from Suc.IH [OF w2 this] a Inr False rows show ?thesis by (simp add: bind_def ret_def)
    qed
  qed
qed simp

text \<open>
  C27. The walks over the titles end: without live traffic, fuel for one batch more than there are session rows is enough for both,
  whatever the store answers and whichever calls fail.
\<close>
theorem title_walks_end:
  assumes "undisturbed w" "length (db_sessions (pa_db w)) < fuel"
  shows "fst (correctTitles fuel rank w) \<noteq> Inl ''out of fuel'' \<and> fst (correctInjectedFallbackTitles fuel rank w) \<noteq> Inl ''out of fuel''"
proof -
  let ?ks = "map fst (db_sessions (pa_db w))"
  have "walked ?ks w" using assms(1) by (simp add: walked_def)
  moreover have "length (filter (\<lambda>k. 0 \<le> rank k) ?ks) < fuel" using assms(2) by simp
  ultimately show ?thesis
    unfolding correctTitles_def correctInjectedFallbackTitles_def by (intro conjI walk_ends quiet_rows)
qed

theorem title_walks_end_witness:
  "fst (correctTitles 1 (\<lambda>_. 0) (demo_pass demo_moment empty_db)) \<noteq> Inl ''out of fuel''"
  using title_walks_end [of "demo_pass demo_moment empty_db" 1 "\<lambda>_. 0"]
  by (simp add: undisturbed_def demo_moment_def empty_db_def)

end
