(* ===== verification/Guarantor.thy ===== *)
theory Guarantor
  imports Reconcile_Pass Watchdog
begin

text \<open>
  The scheduler of the passes (\<open>ingest/guarantor.ts\<close>), as a machine over what happens to it: it is started and stopped, the
  ingest path or a recovered pool signals it, its timer fires, a pass ends. Times are milliseconds; a timer may fire late. With the
  settings of its caller (\<open>host/main.ts\<close>) and the size limits (\<open>session-vault/store/limits.ts\<close>). Whether the database and the
  store are there when the timer fires is part of the event.
\<close>

section \<open>Settings\<close>

definition trunc_pos :: "rat \<Rightarrow> nat" where
  "trunc_pos q = nat \<lfloor>q\<rfloor>"

definition positive_number :: "string option \<Rightarrow> rat option" where
  "positive_number raw = (case raw of None \<Rightarrow> None | Some s \<Rightarrow> (case js_number s of Some q \<Rightarrow> if 0 < q then Some q else None | None \<Rightarrow> None))"

definition DEFAULT_MAX_CANONICAL_BYTES :: nat where "DEFAULT_MAX_CANONICAL_BYTES = 128 * 1024 * 1024"
definition DEFAULT_MAX_REPAIR_BYTES :: nat where "DEFAULT_MAX_REPAIR_BYTES = 1024 * 1024 * 1024"
definition DEFAULT_MAX_FRAME_BYTES :: nat where "DEFAULT_MAX_FRAME_BYTES = 32 * 1024 * 1024"
definition STAGING_PUT_TTL_S :: nat where "STAGING_PUT_TTL_S = 15 * 60"

definition maxCanonicalBytes :: "(string \<Rightarrow> string option) \<Rightarrow> nat" where
  "maxCanonicalBytes env = (case positive_number (env ''FORTRESS_MAX_CANONICAL_BYTES'') of
     Some n \<Rightarrow> trunc_pos n | None \<Rightarrow> DEFAULT_MAX_CANONICAL_BYTES)"

definition maxRepairBytes :: "(string \<Rightarrow> string option) \<Rightarrow> nat" where
  "maxRepairBytes env = (case positive_number (env ''FORTRESS_MAX_REPAIR_BYTES'') of
     Some n \<Rightarrow> trunc_pos n | None \<Rightarrow> max DEFAULT_MAX_REPAIR_BYTES (maxCanonicalBytes env))"

definition maxTunnelResultBytes :: "(string \<Rightarrow> string option) \<Rightarrow> nat" where
  "maxTunnelResultBytes env =
     (let frame = (case positive_number (env ''FORTRESS_MAX_FRAME_BYTES'') of Some n \<Rightarrow> trunc_pos n | None \<Rightarrow> DEFAULT_MAX_FRAME_BYTES)
      in nat \<lfloor>of_nat frame * (7 / 10 :: rat)\<rfloor>)"

text \<open>The argument is absent or a finite number.\<close>

definition clampStagingTtl :: "rat option \<Rightarrow> nat" where
  "clampStagingTtl requested = (case requested of
     Some q \<Rightarrow> if 0 < q then min (trunc_pos q) STAGING_PUT_TTL_S else STAGING_PUT_TTL_S | None \<Rightarrow> STAGING_PUT_TTL_S)"

definition DUPLICATE_SCAN_EVERY :: nat where "DUPLICATE_SCAN_EVERY = 24"
definition DEFAULT_BOOT_DELAY_MS :: ms where "DEFAULT_BOOT_DELAY_MS = 30000"
definition DEFAULT_INTERVAL_MS :: ms where "DEFAULT_INTERVAL_MS = 60 * 60 * 1000"
definition DEFAULT_NOT_READY_RETRY_MS :: ms where "DEFAULT_NOT_READY_RETRY_MS = 15000"
definition DEFAULT_SIGNAL_DEBOUNCE_MS :: ms where "DEFAULT_SIGNAL_DEBOUNCE_MS = 30000"
definition DEFAULT_SIGNAL_COOLDOWN_MS :: ms where "DEFAULT_SIGNAL_COOLDOWN_MS = 5 * 60 * 1000"

definition set_value :: "string option \<Rightarrow> string option" where
  "set_value raw = (case raw of None \<Rightarrow> None | Some s \<Rightarrow> if js_trim s = [] then None else Some s)"

definition guarantorIntervalMs :: "(string \<Rightarrow> string option) \<Rightarrow> ms" where
  "guarantorIntervalMs env = (case set_value (env ''FORTRESS_GUARANTOR_INTERVAL_MS'') of None \<Rightarrow> DEFAULT_INTERVAL_MS
     | Some s \<Rightarrow> (case positive_number (Some s) of Some n \<Rightarrow> int (trunc_pos n) | None \<Rightarrow> DEFAULT_INTERVAL_MS))"

definition guarantorEnabled :: "(string \<Rightarrow> string option) \<Rightarrow> bool" where
  "guarantorEnabled env \<longleftrightarrow> \<not> parseBooleanEnv (env ''FORTRESS_GUARANTOR_DISABLED'')"

definition correctTitlesEnabled :: "(string \<Rightarrow> string option) \<Rightarrow> bool" where
  "correctTitlesEnabled env \<longleftrightarrow> (case env ''FORTRESS_CORRECT_TITLES'' of None \<Rightarrow> True
     | Some s \<Rightarrow> js_lower (js_trim s) \<notin> {''false'', ''0'', ''no'', ''off''})"

text \<open>The knobs the host reads.\<close>

definition repairStaleFromEnv :: "string option \<Rightarrow> bool" where
  "repairStaleFromEnv raw = (case set_value raw of None \<Rightarrow> True | Some s \<Rightarrow> parseBooleanEnv (Some s))"

definition tailRepairFromEnv :: "string option \<Rightarrow> bool option" where
  "tailRepairFromEnv raw = map_option (\<lambda>s. js_lower (js_trim s) \<notin> {''false'', ''0'', ''no'', ''off''}) (set_value raw)"

definition DEFAULT_MAX_ORPHANS_PER_PASS :: nat where "DEFAULT_MAX_ORPHANS_PER_PASS = 100"
definition DEFAULT_DEEP_VERIFY_PER_PASS :: nat where "DEFAULT_DEEP_VERIFY_PER_PASS = 100"

definition maxOrphansFromEnv :: "(string \<Rightarrow> string option) \<Rightarrow> nat" where
  "maxOrphansFromEnv env = (case positive_number (env ''FORTRESS_GUARANTOR_MAX_ORPHANS_PER_PASS'') of
     Some n \<Rightarrow> trunc_pos n | None \<Rightarrow> DEFAULT_MAX_ORPHANS_PER_PASS)"

definition deepVerifyPerPassFromEnv :: "(string \<Rightarrow> string option) \<Rightarrow> nat" where
  "deepVerifyPerPassFromEnv env = (case set_value (env ''FORTRESS_GUARANTOR_DEEP_VERIFY_PER_PASS'') of None \<Rightarrow> DEFAULT_DEEP_VERIFY_PER_PASS
     | Some s \<Rightarrow> (case js_number s of None \<Rightarrow> DEFAULT_DEEP_VERIFY_PER_PASS | Some q \<Rightarrow> if 0 < q then trunc_pos q else 0))"

text \<open>The options every pass of the host shares; \<open>staleRepairCeiling\<close> has its default of one quarter.\<close>

definition STALE_CEILING_RATIO :: rat where "STALE_CEILING_RATIO = 1 / 4"

definition host_options :: "(string \<Rightarrow> string option) \<Rightarrow> reconcile_options" where
  "host_options env =
     \<lparr>op_maxOrphans = Some (maxOrphansFromEnv env), op_intentGraceMs = None, op_deepVerifyPerPass = deepVerifyPerPassFromEnv env,
       op_healthSignals = False, op_repairDuplicates = False, op_recomputeFactlessFacts = False, op_correctExistingTitles = False,
       op_correctInjectedTitles = False, op_repairStaleIndexes = repairStaleFromEnv (env ''FORTRESS_GUARANTOR_REPAIR_STALE''),
       op_repairTails = (case tailRepairFromEnv (env ''FORTRESS_GUARANTOR_TAIL_REPAIR'') of None \<Rightarrow> True | Some b \<Rightarrow> b),
       op_staleRepairCeiling = STALE_CEILING_RATIO, op_maxCanonicalBytes = maxCanonicalBytes env, op_maxRepairBytes = maxRepairBytes env\<rparr>"

section \<open>State\<close>

record guarantor_config =
  gc_bootDelay :: ms
  gc_interval :: ms
  gc_notReadyRetry :: ms
  gc_signalDebounce :: ms
  gc_signalCooldown :: ms
  gc_correctTitles :: bool
  gc_reconcile :: reconcile_options

definition host_config :: "(string \<Rightarrow> string option) \<Rightarrow> guarantor_config" where
  "host_config env =
     \<lparr>gc_bootDelay = DEFAULT_BOOT_DELAY_MS, gc_interval = guarantorIntervalMs env, gc_notReadyRetry = DEFAULT_NOT_READY_RETRY_MS,
       gc_signalDebounce = DEFAULT_SIGNAL_DEBOUNCE_MS, gc_signalCooldown = DEFAULT_SIGNAL_COOLDOWN_MS,
       gc_correctTitles = correctTitlesEnabled env, gc_reconcile = host_options env\<rparr>"

datatype pass_kind = Boot | Sweep

text \<open>\<open>gu_timer\<close> is when the armed timer is due, \<open>gu_sweepsSinceDuplicateScan\<close> is nothing for infinity.\<close>

record guarantor =
  gu_timer :: "ms option"
  gu_stopped :: bool
  gu_inFlight :: "pass_kind option"
  gu_signalPending :: bool
  gu_urgentLatch :: bool
  gu_lastPassEndAt :: ms
  gu_firstPass :: bool
  gu_sweepsSinceDuplicateScan :: "nat option"
  gu_stoodDown :: bool

definition createGuarantor :: guarantor where
  "createGuarantor = \<lparr>gu_timer = None, gu_stopped = False, gu_inFlight = None, gu_signalPending = False, gu_urgentLatch = False,
     gu_lastPassEndAt = 0, gu_firstPass = True, gu_sweepsSinceDuplicateScan = None, gu_stoodDown = False\<rparr>"

section \<open>Passes\<close>

definition duplicate_scan_due :: "guarantor \<Rightarrow> bool" where
  "duplicate_scan_due g \<longleftrightarrow> (case gu_sweepsSinceDuplicateScan g of None \<Rightarrow> True | Some n \<Rightarrow> DUPLICATE_SCAN_EVERY \<le> n)"

definition passOptions :: "guarantor_config \<Rightarrow> pass_kind \<Rightarrow> guarantor \<Rightarrow> reconcile_options" where
  "passOptions c kind g = (gc_reconcile c)
     \<lparr>op_correctExistingTitles := gu_firstPass g \<and> gc_correctTitles c, op_correctInjectedTitles := gu_firstPass g,
      op_healthSignals := (kind = Sweep), op_repairDuplicates := (kind = Sweep \<and> duplicate_scan_due g),
      op_recomputeFactlessFacts := (kind = Sweep \<and> duplicate_scan_due g)\<rparr>"

definition noteDuplicateScan :: "pass_kind \<Rightarrow> report \<Rightarrow> guarantor \<Rightarrow> guarantor" where
  "noteDuplicateScan kind r g =
     (if rp_duplicatedSessions r \<noteq> None then g\<lparr>gu_sweepsSinceDuplicateScan := Some 0\<rparr>
      else if kind = Sweep then g\<lparr>gu_sweepsSinceDuplicateScan := map_option Suc (gu_sweepsSinceDuplicateScan g)\<rparr>
      else g)"

text \<open>What the log calls healed.\<close>

definition healed :: "report \<Rightarrow> nat" where
  "healed r = rp_count r Restored + rp_count r Repaired_Full + got (rp_byteGapRows r)"

section \<open>The timer\<close>

definition schedule :: "ms \<Rightarrow> ms \<Rightarrow> guarantor \<Rightarrow> guarantor" where
  "schedule now delay g =
     (if gu_stopped g then g
      else case gu_timer g of
        Some d \<Rightarrow> if d \<le> now + delay then g else g\<lparr>gu_timer := Some (now + delay)\<rparr>
      | None \<Rightarrow> g\<lparr>gu_timer := Some (now + delay)\<rparr>)"

definition kind_of_pass :: "guarantor \<Rightarrow> pass_kind" where
  "kind_of_pass g = (if gu_firstPass g then Boot else Sweep)"

definition tick :: "guarantor_config \<Rightarrow> ms \<Rightarrow> bool \<Rightarrow> guarantor \<Rightarrow> guarantor" where
  "tick c now ready g =
     (if gu_stopped g \<or> gu_inFlight g \<noteq> None then g
      else let g1 = g\<lparr>gu_signalPending := False, gu_urgentLatch := False\<rparr> in
        if \<not> ready then schedule now (gc_notReadyRetry c) g1 else g1\<lparr>gu_inFlight := Some (kind_of_pass g1)\<rparr>)"

text \<open>The end of a pass, with its report or, when it threw, without.\<close>

definition pass_ends :: "guarantor_config \<Rightarrow> ms \<Rightarrow> report option \<Rightarrow> guarantor \<Rightarrow> guarantor" where
  "pass_ends c now outcome g = (case gu_inFlight g of None \<Rightarrow> g | Some kind \<Rightarrow>
     let g1 = (case outcome of None \<Rightarrow> g
           | Some r \<Rightarrow> (noteDuplicateScan kind r (g\<lparr>gu_firstPass := (gu_firstPass g \<and> rp_count r Yielded_To_Live \<noteq> 0)\<rparr>))
               \<lparr>gu_stoodDown := (0 < rp_count r Yielded_To_Live \<and> rp_count r Scanned = 0)\<rparr>);
         g2 = g1\<lparr>gu_inFlight := None, gu_lastPassEndAt := now\<rparr>
     in schedule now (if gu_urgentLatch g2 \<or> gu_stoodDown g2 then gc_signalDebounce c else gc_interval c) g2)"

section \<open>Events\<close>

datatype guarantor_event =
  Start | Stop | Signal | Signal_Urgent | Fire bool | Pass_Ends "report option" | Run_Once report

definition signal :: "guarantor_config \<Rightarrow> ms \<Rightarrow> guarantor \<Rightarrow> guarantor" where
  "signal c now g =
     (if gu_stopped g \<or> gu_inFlight g \<noteq> None \<or> gu_signalPending g then g
      else let cooldownRemaining = (if 0 < gu_lastPassEndAt g then max 0 (gc_signalCooldown c - (now - gu_lastPassEndAt g)) else 0)
        in schedule now (max (gc_signalDebounce c) cooldownRemaining) (g\<lparr>gu_signalPending := True\<rparr>))"

definition signalUrgent :: "guarantor_config \<Rightarrow> ms \<Rightarrow> guarantor \<Rightarrow> guarantor" where
  "signalUrgent c now g =
     (if gu_stopped g then g
      else if gu_inFlight g \<noteq> None then g\<lparr>gu_urgentLatch := True\<rparr>
      else schedule now (gc_signalDebounce c) g)"

definition run_once :: "report \<Rightarrow> guarantor \<Rightarrow> guarantor" where
  "run_once r g = noteDuplicateScan Sweep r (g\<lparr>gu_firstPass := False\<rparr>)"

fun guarantor_step :: "guarantor_config \<Rightarrow> guarantor \<Rightarrow> ms \<times> guarantor_event \<Rightarrow> guarantor" where
  "guarantor_step c g (now, Start) = schedule now (gc_bootDelay c) (g\<lparr>gu_stopped := False\<rparr>)"
| "guarantor_step c g (now, Stop) = g\<lparr>gu_stopped := True, gu_timer := None\<rparr>"
| "guarantor_step c g (now, Signal) = signal c now g"
| "guarantor_step c g (now, Signal_Urgent) = signalUrgent c now g"
| "guarantor_step c g (now, Fire ready) =
     (case gu_timer g of None \<Rightarrow> g | Some d \<Rightarrow> if d \<le> now then tick c now ready (g\<lparr>gu_timer := None\<rparr>) else g)"
| "guarantor_step c g (now, Pass_Ends outcome) = pass_ends c now outcome g"
| "guarantor_step c g (now, Run_Once r) = run_once r g"

definition guarantor_run :: "guarantor_config \<Rightarrow> (ms \<times> guarantor_event) list \<Rightarrow> guarantor \<Rightarrow> guarantor" where
  "guarantor_run c es g = foldl (guarantor_step c) g es"

text \<open>The pass a timer starts, run to its end: the report, or nothing when it threw.\<close>

definition scheduled_pass ::
  "nat \<Rightarrow> (lane_key \<Rightarrow> nat) \<Rightarrow> guarantor_config \<Rightarrow> guarantor \<Rightarrow> pass \<Rightarrow> report option \<times> pass" where
  "scheduled_pass fuel rank c g w =
     (case reconcileOrphans fuel rank (passOptions c (kind_of_pass g) g) (start_pass w) of
        (Inl e, w') \<Rightarrow> (None, w') | (Inr done_pass, w') \<Rightarrow> (Some (pa_report w'), w'))"

end
