(* ===== verification/Guarantor_Safety.thy ===== *)
theory Guarantor_Safety
  imports Guarantor Brake_Safety
begin

text \<open>
  What the scheduler promises: it never falls asleep, a pass is never put off, an urgent signal is answered, the boot
  work and the daily scan each run when they are due, and a stand-down costs nothing.
\<close>

section \<open>The timer\<close>

lemma schedule_fields [simp]:
  "gu_inFlight (schedule t d g) = gu_inFlight g" "gu_stopped (schedule t d g) = gu_stopped g"
  "gu_signalPending (schedule t d g) = gu_signalPending g" "gu_urgentLatch (schedule t d g) = gu_urgentLatch g"
  "gu_lastPassEndAt (schedule t d g) = gu_lastPassEndAt g" "gu_firstPass (schedule t d g) = gu_firstPass g"
  "gu_sweepsSinceDuplicateScan (schedule t d g) = gu_sweepsSinceDuplicateScan g" "gu_stoodDown (schedule t d g) = gu_stoodDown g"
  by (auto simp: schedule_def split: option.split)

lemma note_fields [simp]:
  "gu_inFlight (noteDuplicateScan k r g) = gu_inFlight g" "gu_stopped (noteDuplicateScan k r g) = gu_stopped g"
  "gu_signalPending (noteDuplicateScan k r g) = gu_signalPending g" "gu_urgentLatch (noteDuplicateScan k r g) = gu_urgentLatch g"
  "gu_lastPassEndAt (noteDuplicateScan k r g) = gu_lastPassEndAt g" "gu_firstPass (noteDuplicateScan k r g) = gu_firstPass g"
  "gu_timer (noteDuplicateScan k r g) = gu_timer g" "gu_stoodDown (noteDuplicateScan k r g) = gu_stoodDown g"
  by (auto simp: noteDuplicateScan_def)

lemma schedule_timer:
  "\<not> gu_stopped g \<Longrightarrow> gu_timer (schedule t d g) = Some (case gu_timer g of None \<Rightarrow> t + d | Some x \<Rightarrow> min x (t + d))"
  by (auto simp: schedule_def split: option.split)

lemma schedule_stopped: "gu_stopped g \<Longrightarrow> schedule t d g = g"
  by (simp add: schedule_def)

text \<open>
  An armed pass is never put off: whatever happens next, short of stopping or of the timer itself firing, it stays armed for that time or an earlier
  one.
\<close>
theorem an_armed_pass_is_never_put_off:
  assumes "gu_timer g = Some d" "ev \<noteq> Stop" "\<not> (\<exists>r. ev = Fire r \<and> d \<le> now)"
  shows "\<exists>d' \<le> d. gu_timer (guarantor_step c g (now, ev)) = Some d'"
proof -
  have armed: "\<exists>d' \<le> d. gu_timer (schedule t e h) = Some d'" if "gu_timer h = Some d" for t e h
    using that by (auto simp: schedule_def)
  show ?thesis
    using assms armed
    by (cases ev) (auto simp: signal_def signalUrgent_def pass_ends_def run_once_def Let_def split: option.split)
qed

text \<open>The longest delay of a configuration.\<close>

definition longest_delay :: "guarantor_config \<Rightarrow> ms" where
  "longest_delay c = Max {gc_bootDelay c, gc_interval c, gc_notReadyRetry c, gc_signalDebounce c, gc_signalCooldown c}"

definition awake :: "guarantor_config \<Rightarrow> ms \<Rightarrow> guarantor \<Rightarrow> bool" where
  "awake c now g \<longleftrightarrow> \<not> gu_stopped g \<and> gu_lastPassEndAt g \<le> now \<and>
     (gu_inFlight g \<noteq> None \<or> (\<exists>d. gu_timer g = Some d \<and> d \<le> now + longest_delay c))"


lemma delays:
  "gc_bootDelay c \<le> longest_delay c" "gc_interval c \<le> longest_delay c" "gc_notReadyRetry c \<le> longest_delay c"
  "gc_signalDebounce c \<le> longest_delay c" "gc_signalCooldown c \<le> longest_delay c"
  by (simp_all add: longest_delay_def)

lemma scheduled_awake:
  assumes "\<not> gu_stopped g" "gu_lastPassEndAt g \<le> now" "d \<le> longest_delay c"
  shows "awake c now (schedule now d g)"
  using assms by (auto simp: awake_def schedule_timer min_def split: option.split)

lemma awake_step:
  assumes "awake c t g" "t \<le> now" "ev \<noteq> Stop" "0 \<le> gc_signalCooldown c"
  shows "awake c now (guarantor_step c g (now, ev))"
proof -
  have a: "\<not> gu_stopped g" "gu_lastPassEndAt g \<le> now" "gu_inFlight g \<noteq> None \<or> (\<exists>d. gu_timer g = Some d \<and> d \<le> now + longest_delay c)"
    using assms(1,2) by (auto simp: awake_def)
  have same: "awake c now h" if "gu_stopped h = gu_stopped g" "gu_lastPassEndAt h = gu_lastPassEndAt g" "gu_inFlight h = gu_inFlight g"
    "gu_timer h = gu_timer g" for h
    using a that by (simp add: awake_def)
  show ?thesis
  proof (cases ev)
    case Start
    then show ?thesis using a by (auto intro: scheduled_awake simp: delays)
  next
    case Signal
    show ?thesis
    proof (cases "gu_inFlight g \<noteq> None \<or> gu_signalPending g")
      case True
      with Signal a show ?thesis by (simp add: signal_def same)
    next
      case False
      have "max (gc_signalDebounce c) (if 0 < gu_lastPassEndAt g then max 0 (gc_signalCooldown c - (now - gu_lastPassEndAt g)) else 0) \<le> longest_delay c"
        using a(2) assms(4) delays [of c] by auto
      with Signal False a(1,2) show ?thesis by (auto simp: signal_def Let_def intro: scheduled_awake)
    qed
  next
    case Signal_Urgent
    with a show ?thesis by (auto simp: signalUrgent_def delays intro: scheduled_awake same)
  next
    case (Fire ready)
    have "awake c now (schedule now (gc_notReadyRetry c) h)" if "\<not> gu_stopped h" "gu_lastPassEndAt h \<le> now" for h
      using that by (intro scheduled_awake delays)
    moreover have "awake c now h" if "\<not> gu_stopped h" "gu_lastPassEndAt h \<le> now" "gu_inFlight h \<noteq> None" for h
      using that by (simp add: awake_def)
    ultimately show ?thesis using Fire a delays(3) [of c] by (auto simp: tick_def Let_def awake_def schedule_timer split: option.split)
  next
    case (Pass_Ends r)
    have "awake c now (schedule now (if b then gc_signalDebounce c else gc_interval c) h)" if "\<not> gu_stopped h" "gu_lastPassEndAt h \<le> now" for h b
      using that delays [of c] by (intro scheduled_awake) auto
    then show ?thesis using Pass_Ends a by (cases "gu_inFlight g") (auto simp: pass_ends_def Let_def same split: option.split)
  next
    case (Run_Once r)
    then show ?thesis by (simp add: run_once_def same)
  qed (use assms(3) in simp)
qed

lemma awake_run:
  assumes "awake c t g" "sorted (t # map fst es)" "\<forall>e \<in> set es. snd e \<noteq> Stop" "0 \<le> gc_signalCooldown c"
  shows "awake c (last (t # map fst es)) (guarantor_run c es g)"
  using assms(1-3)
proof (induction es arbitrary: t g)
  case (Cons e es)
  obtain now ev where e: "e = (now, ev)" by force
  with Cons.prems have "awake c now (guarantor_step c g e)" by (auto intro: awake_step assms(4))
  from Cons.IH [OF this] Cons.prems e show ?case by (auto simp: guarantor_run_def)
qed (simp add: guarantor_run_def)

text \<open>
  C23. The scheduler never falls asleep. From its start on, as long as nobody stops it, after any events at all - signals, passes that end or
  throw, timers that fire before the database is there - a pass is running, or its timer is armed and due no later than the longest
  of the configured delays from now.
\<close>
theorem the_guarantor_never_falls_asleep:
  assumes "sorted (t0 # map fst es)" "0 \<le> t0" "\<forall>e \<in> set es. snd e \<noteq> Stop" "0 \<le> gc_signalCooldown c"
  shows "let g = guarantor_run c ((t0, Start) # es) createGuarantor; now = last (t0 # map fst es)
    in gu_inFlight g \<noteq> None \<or> (\<exists>d. gu_timer g = Some d \<and> d \<le> now + longest_delay c)"
proof -
  have "awake c t0 (guarantor_step c createGuarantor (t0, Start))"
    using assms(2) by (auto simp: createGuarantor_def intro: scheduled_awake delays)
  from awake_run [OF this assms(1,3,4)] show ?thesis by (simp add: guarantor_run_def awake_def Let_def)
qed

section \<open>Signals\<close>

text \<open>
  C24. An urgent signal is answered. Unless the scheduler is stopped, right after it either the timer is due within the debounce, or a
  pass is running and, whenever that one ends and however, the timer is then due within the debounce.
\<close>
theorem an_urgent_signal_is_answered:
  assumes "\<not> gu_stopped g"
  shows "let g' = guarantor_step c g (now, Signal_Urgent) in
    if gu_inFlight g = None then \<exists>d \<le> now + gc_signalDebounce c. gu_timer g' = Some d
    else \<exists>d \<le> later + gc_signalDebounce c. gu_timer (guarantor_step c g' (later, Pass_Ends outcome)) = Some d"
  using assms
  by (auto simp: signalUrgent_def pass_ends_def schedule_timer Let_def min_def split: option.split)

text \<open>What ordinary signals can do to the timer after a pass.\<close>

definition cooled :: "guarantor_config \<Rightarrow> ms \<Rightarrow> guarantor \<Rightarrow> bool" where
  "cooled c e g \<longleftrightarrow> gu_lastPassEndAt g = e \<and> gu_inFlight g = None \<and> \<not> gu_stopped g \<and>
     (\<exists>d. gu_timer g = Some d \<and> e + min (gc_interval c) (gc_signalCooldown c) \<le> d)"

lemma cooled_signal: "cooled c e g \<Longrightarrow> 0 < e \<Longrightarrow> cooled c e (signal c now g)"
  by (auto simp: cooled_def signal_def Let_def schedule_timer min_def max_def)

lemma cooled_signals: "cooled c e g \<Longrightarrow> 0 < e \<Longrightarrow> cooled c e (guarantor_run c (map (\<lambda>t. (t, Signal)) ts) g)"
  unfolding guarantor_run_def by (induction ts arbitrary: g) (simp_all add: cooled_signal)

text \<open>
  A stream of failures cannot drive scan after scan: when a pass ended that did not stand down and no urgent signal came, then however many
  ordinary signals follow, the next pass is not armed for earlier than the cooldown after that end (or the interval, if that is shorter).
\<close>
theorem signals_cannot_beat_the_cooldown:
  assumes "gu_inFlight g = Some k" "\<not> gu_stopped g" "gu_timer g = None" "\<not> gu_urgentLatch g" "0 < e"
    "rp_count r Yielded_To_Live = 0 \<or> rp_count r Scanned \<noteq> 0"
  shows "\<exists>d. gu_timer (guarantor_run c ((e, Pass_Ends (Some r)) # map (\<lambda>t. (t, Signal)) ts) g) = Some d \<and>
    e + min (gc_interval c) (gc_signalCooldown c) \<le> d"
proof -
  have "cooled c e (guarantor_step c g (e, Pass_Ends (Some r)))"
    using assms by (auto simp: cooled_def pass_ends_def Let_def schedule_timer)
  from cooled_signals [OF this assms(5), of ts] show ?thesis by (simp add: cooled_def guarantor_run_def)
qed


section \<open>Boot work and the daily scan\<close>

lemma boot_over: "\<not> gu_firstPass g \<Longrightarrow> \<not> gu_firstPass (guarantor_run c es g)"
proof -
  have "\<not> gu_firstPass (guarantor_step c g e)" if "\<not> gu_firstPass g" for g e
  proof -
    obtain now ev where "e = (now, ev)" by force
    with that show ?thesis
      by (cases ev) (auto simp: signal_def signalUrgent_def tick_def pass_ends_def run_once_def Let_def split: option.split)
  qed
  then show "\<not> gu_firstPass g \<Longrightarrow> ?thesis" unfolding guarantor_run_def by (induction es arbitrary: g) auto
qed

text \<open>
  The boot work is done once, and only when it was done: after a pass that ended with a report without standing down, no pass of any later
  state carries the title corrections; a pass that stood down, or threw, does not use them up.
\<close>
theorem boot_work_is_done_once:
  assumes "gu_inFlight g = Some k"
  shows "(rp_count r Yielded_To_Live = 0 \<longrightarrow>
      (let o1 = passOptions c k' (guarantor_run c es (guarantor_step c g (now, Pass_Ends (Some r)))) in
        \<not> op_correctExistingTitles o1 \<and> \<not> op_correctInjectedTitles o1)) \<and>
    (rp_count r Yielded_To_Live \<noteq> 0 \<longrightarrow> gu_firstPass (guarantor_step c g (now, Pass_Ends (Some r))) = gu_firstPass g) \<and>
    gu_firstPass (guarantor_step c g (now, Pass_Ends None)) = gu_firstPass g"
proof -
  have "gu_firstPass (guarantor_step c g (now, Pass_Ends (Some r))) = (gu_firstPass g \<and> rp_count r Yielded_To_Live \<noteq> 0)"
    "gu_firstPass (guarantor_step c g (now, Pass_Ends None)) = gu_firstPass g"
    using assms by (simp_all add: pass_ends_def Let_def)
  with boot_over [of "guarantor_step c g (now, Pass_Ends (Some r))" c es] show ?thesis
    by (auto simp: passOptions_def Let_def simp del: guarantor_step.simps)
qed

text \<open>A sweep the timer starts, run to its end.\<close>

definition sweep_pass :: "guarantor_config \<Rightarrow> report \<Rightarrow> guarantor \<Rightarrow> guarantor" where
  "sweep_pass c r g = guarantor_step c (guarantor_step c g (the (gu_timer g), Fire True)) (the (gu_timer g), Pass_Ends (Some r))"

definition idle_sweeper :: "guarantor \<Rightarrow> bool" where
  "idle_sweeper g \<longleftrightarrow> \<not> gu_stopped g \<and> gu_inFlight g = None \<and> \<not> gu_firstPass g \<and> gu_timer g \<noteq> None"

lemma sweep_pass_ends:
  assumes "idle_sweeper g"
  shows "idle_sweeper (sweep_pass c r g) \<and> gu_sweepsSinceDuplicateScan (sweep_pass c r g) =
    (if rp_duplicatedSessions r \<noteq> None then Some 0 else map_option Suc (gu_sweepsSinceDuplicateScan g))"
  using assms
  by (auto simp: sweep_pass_def idle_sweeper_def tick_def kind_of_pass_def pass_ends_def Let_def schedule_timer noteDuplicateScan_def)

lemma sweep_passes_end:
  assumes "idle_sweeper g" "\<forall>r \<in> set rs. rp_duplicatedSessions r = None"
  shows "idle_sweeper (fold (sweep_pass c) rs g) \<and>
    gu_sweepsSinceDuplicateScan (fold (sweep_pass c) rs g) = map_option (\<lambda>n. n + length rs) (gu_sweepsSinceDuplicateScan g)"
  using assms
proof (induction rs arbitrary: g)
  case (Cons r rs)
  from sweep_pass_ends [OF Cons.prems(1), of c r] Cons.prems(2) Cons.IH [of "sweep_pass c r g"]
  show ?case by (auto simp: option.map_comp comp_def)
qed (simp add: option.map_ident)

text \<open>
  The scan for duplicates runs on its cadence: after a sweep that ran it, exactly the next twenty-four sweeps go without; and a scan that was
  asked for but did not happen stays due.
\<close>
theorem the_daily_scan_keeps_its_cadence:
  assumes "idle_sweeper g" "rp_duplicatedSessions r \<noteq> None" "\<forall>r \<in> set rs. rp_duplicatedSessions r = None"
  shows "op_repairDuplicates (passOptions c Sweep (fold (sweep_pass c) (r # rs) g)) \<longleftrightarrow> 24 \<le> length rs"
proof -
  from sweep_pass_ends [OF assms(1), of c r] assms(2) have "idle_sweeper (sweep_pass c r g)" "gu_sweepsSinceDuplicateScan (sweep_pass c r g) = Some 0"
    by simp_all
  with sweep_passes_end [of "sweep_pass c r g" rs c] assms(3) show ?thesis
    by (simp add: passOptions_def duplicate_scan_due_def DUPLICATE_SCAN_EVERY_def)
qed

section \<open>A stand-down\<close>

text \<open>
  C25. A stand-down at the door costs nothing: a pass that starts under load asks the database and the store nothing and leaves every table as it
  was, its end arms the next pass for the debounce, and the boot work stays to be done.
\<close>
theorem a_stand_down_costs_nothing:
  assumes "mo_saturated (this_moment w)" "gu_inFlight g = Some k" "\<not> gu_stopped g" "gu_timer g = None"
    "scheduled_pass fuel rank c g w = (outcome, w')"
  shows "pa_db w' = pa_db w \<and> pa_moment w' = pa_moment w \<and> pa_stamps w' = pa_stamps w \<and>
    (let g' = guarantor_step c g (now, Pass_Ends outcome) in
      gu_timer g' = Some (now + gc_signalDebounce c) \<and> gu_firstPass g' = gu_firstPass g)"
proof -
  have "mo_saturated (this_moment (start_pass w))" using assms(1) by (simp add: start_pass_def this_moment_def)
  then have r: "reconcileOrphans fuel rank (passOptions c (kind_of_pass g) g) (start_pass w) = bump Yielded_To_Live (start_pass w)"
    by (simp add: reconcileOrphans_def isSaturated_def bind_get)
  let ?v = "snd (bump Yielded_To_Live (start_pass w))"
  have "scheduled_pass fuel rank c g w = (Some (pa_report ?v), ?v)" unfolding scheduled_pass_def r by (simp add: bump_run)
  then have w': "outcome = Some (pa_report w')" "w' = ?v" using assms(5) by auto
  then have "rp_count (pa_report w') Yielded_To_Live = 1" "rp_count (pa_report w') Scanned = 0"
    by (simp_all add: bump_run start_pass_def no_report_def)
  with assms(2-4) w' show ?thesis
    by (simp add: bump_run start_pass_def pass_ends_def Let_def schedule_timer)
qed

section \<open>What goes wrong\<close>

text \<open>An ordinary signal while a pass runs is lost: the next pass waits the whole interval, although the pass listed the store before.\<close>

lemma a_signal_during_a_pass_is_lost:
  "gu_inFlight g = Some k \<Longrightarrow> \<not> gu_stopped g \<Longrightarrow> gu_timer g = None \<Longrightarrow> \<not> gu_urgentLatch g \<Longrightarrow>
    rp_count r Yielded_To_Live = 0 \<Longrightarrow>
    gu_timer (guarantor_run c [(t, Signal), (e, Pass_Ends (Some r))] g) = Some (e + gc_interval c)"
  by (simp add: guarantor_run_def signal_def pass_ends_def Let_def schedule_timer)

text \<open>A stand-down outlives a pass that threw: the interval is the debounce until a pass ends with a report.\<close>

lemma a_stand_down_outlives_a_failed_pass:
  "gu_inFlight g = Some k \<Longrightarrow> \<not> gu_stopped g \<Longrightarrow> gu_timer g = None \<Longrightarrow> gu_stoodDown g \<Longrightarrow>
    gu_timer (guarantor_step c g (e, Pass_Ends None)) = Some (e + gc_signalDebounce c)"
  by (simp add: pass_ends_def Let_def schedule_timer)

text \<open>A fraction of a millisecond is an interval of none.\<close>

lemma half: "js_number ''0.5'' = Some (1 / 2)"
proof -
  have "read_digit CHR ''0'' = 0" "read_digit CHR ''5'' = 5" by code_simp+
  then show ?thesis
    by (simp add: js_number_def js_trim_def js_space_def js_lower_def lower_char_def js_decimal_def is_digit_def read_nat_def Let_def)
qed

lemma a_fraction_is_no_interval: "guarantorIntervalMs (\<lambda>_. Some ''0.5'') = 0"
  by (simp add: guarantorIntervalMs_def set_value_def positive_number_def half trunc_pos_def js_trim_def js_space_def)

section \<open>Witnesses\<close>

definition demo_config :: guarantor_config where
  "demo_config = \<lparr>gc_bootDelay = 30, gc_interval = 3600, gc_notReadyRetry = 15, gc_signalDebounce = 30, gc_signalCooldown = 300,
     gc_correctTitles = True, gc_reconcile = demo_options\<rparr>"

definition demo_guarantor :: guarantor where
  "demo_guarantor = createGuarantor\<lparr>gu_timer := Some 40\<rparr>"

theorem an_armed_pass_is_never_put_off_witness:
  "\<exists>d \<le> 40. gu_timer (guarantor_step demo_config demo_guarantor (5, Signal)) = Some d"
  by (rule an_armed_pass_is_never_put_off) (simp_all add: demo_guarantor_def)

theorem the_guarantor_never_falls_asleep_witness:
  "let g = guarantor_run demo_config ((1, Start) # [(31, Fire False), (32, Signal), (46, Fire True), (50, Signal_Urgent), (60, Pass_Ends None)]) createGuarantor
    in gu_inFlight g \<noteq> None \<or> (\<exists>d. gu_timer g = Some d \<and> d \<le> 60 + longest_delay demo_config)"
  using the_guarantor_never_falls_asleep
    [of 1 "[(31, Fire False), (32, Signal), (46, Fire True), (50, Signal_Urgent), (60, Pass_Ends None)]" demo_config]
  by (simp add: demo_config_def)

theorem an_urgent_signal_is_answered_witness:
  "\<exists>d \<le> 35. gu_timer (guarantor_step demo_config demo_guarantor (5, Signal_Urgent)) = Some d"
  using an_urgent_signal_is_answered [of demo_guarantor demo_config 5]
  by (simp add: demo_guarantor_def createGuarantor_def Let_def demo_config_def)

theorem signals_cannot_beat_the_cooldown_witness:
  "\<exists>d. gu_timer (guarantor_run demo_config ((100, Pass_Ends (Some no_report)) # map (\<lambda>t. (t, Signal)) [110, 120])
      (createGuarantor\<lparr>gu_inFlight := Some Sweep\<rparr>)) = Some d \<and> 400 \<le> d"
  using signals_cannot_beat_the_cooldown [of "createGuarantor\<lparr>gu_inFlight := Some Sweep\<rparr>" Sweep 100 no_report demo_config "[110, 120]"]
  by (simp add: createGuarantor_def no_report_def demo_config_def)

theorem boot_work_is_done_once_witness:
  "\<not> op_correctInjectedTitles (passOptions demo_config Sweep (guarantor_run demo_config [(200, Signal)]
      (guarantor_step demo_config (createGuarantor\<lparr>gu_inFlight := Some Boot\<rparr>) (100, Pass_Ends (Some no_report)))))"
  using boot_work_is_done_once [of "createGuarantor\<lparr>gu_inFlight := Some Boot\<rparr>" Boot no_report demo_config Sweep "[(200, Signal)]" 100]
  by (simp add: no_report_def Let_def del: guarantor_step.simps)

theorem the_daily_scan_keeps_its_cadence_witness:
  "\<not> op_repairDuplicates (passOptions demo_config Sweep
      (fold (sweep_pass demo_config) (no_report\<lparr>rp_duplicatedSessions := Some 0\<rparr> # replicate 23 no_report) (demo_guarantor\<lparr>gu_firstPass := False\<rparr>)))"
proof -
  let ?r = "no_report\<lparr>rp_duplicatedSessions := Some 0\<rparr>"
  have "op_repairDuplicates (passOptions demo_config Sweep (fold (sweep_pass demo_config) (?r # replicate 23 no_report)
      (demo_guarantor\<lparr>gu_firstPass := False\<rparr>))) \<longleftrightarrow> 24 \<le> length (replicate 23 no_report)"
    by (rule the_daily_scan_keeps_its_cadence)
      (simp_all add: idle_sweeper_def demo_guarantor_def createGuarantor_def no_report_def)
  then show ?thesis by (simp only: length_replicate)
qed

theorem a_stand_down_costs_nothing_witness:
  "let (outcome, w') = scheduled_pass 1 (\<lambda>_. 0) demo_config (createGuarantor\<lparr>gu_inFlight := Some Boot\<rparr>)
      (demo_pass (demo_moment\<lparr>mo_saturated := True\<rparr>) empty_db)
   in pa_db w' = empty_db \<and> gu_timer (guarantor_step demo_config (createGuarantor\<lparr>gu_inFlight := Some Boot\<rparr>) (100, Pass_Ends outcome)) = Some 130"
proof -
  let ?w = "demo_pass (demo_moment\<lparr>mo_saturated := True\<rparr>) empty_db" and ?g = "createGuarantor\<lparr>gu_inFlight := Some Boot\<rparr>"
  obtain outcome w' where r: "scheduled_pass 1 (\<lambda>_. 0) demo_config ?g ?w = (outcome, w')" by force
  have "mo_saturated (this_moment ?w)" by (simp add: this_moment_def)
  from a_stand_down_costs_nothing [OF this _ _ _ r, of Boot 100] r show ?thesis
    by (simp add: createGuarantor_def Let_def demo_config_def)
qed

end
