(* ===== verification/Spec2Isabelle.thy ===== *)
theory Spec2Isabelle
  imports Audit_Engine Session_Metadata Pause_Gate Guarded_Store Argon_Gate Sign_In Ui_Config Watchdog Migration_Runs Title_Safety Guarantor_Safety
begin

text \<open>
  A verification library for the fortress daemon of \<open>hx-fortress\<close> (TypeScript, under \<open>src/src/\<close>).

  A fortress keeps a company's agent sessions in a bucket of its own and their text in a Postgres of its own. Clients reach
  it through a gateway: they stage and append session logs, which the session vault writes to the bucket under
  canonical names. An operator signs in to a local console, rotates credentials, pauses ingest, moves the fortress to
  another bucket and runs an audit of what the bucket holds. A container supervisor restarts a daemon that
  stops reporting.

  \<^bold>\<open>Where things are.\<close> A theory per component; a definition carries the name of the function it translates.

  \<^item> \<open>Prelude\<close>: JavaScript values (trim, lower case, \<open>Number\<close>), results as sums, the platform (digest and dates) as a record of
    functions, keyed tables and the sliding-window sweep that several tables share.
  \<^item> \<open>Audit_Verdicts\<close> (\<open>console/audit-verdicts.ts\<close>) and \<open>Audit_Engine\<close> (\<open>console/audit-engine.ts\<close>): the verdict of one session,
    the roll-up of a run, and the run itself with its budget and pacing. Lemmas: what each verdict means, what a clean run
    has established, that a run counts every row once.
  \<^item> \<open>Session_Store\<close>, \<open>Store_Keys\<close> (\<open>modules/session-vault/store/types.ts\<close>, \<open>keys.ts\<close>): the calls of the object store, and the names of its objects. Lemmas:
    names parse back, a delete prefix reaches the objects of one session and no other.
  \<^item> \<open>Session_Metadata\<close> (\<open>store/session-metadata.ts\<close>): the sidecar's fields and the merge of a replayed one.
  \<^item> \<open>Pause_Gate\<close> (\<open>console/pause-gate.ts\<close>, \<open>console/ingest-control.ts\<close>): the gated store, the accounting of writes and signatures, the barrier, the
    effective pause and its clamps.
  \<^item> \<open>Guarded_Store\<close> (\<open>store/guarded-store.ts\<close>): deadlines, breach streaks, client replacement and the wedge escalation.
  \<^item> \<open>Rate_Limit\<close>, \<open>Argon_Gate\<close>, \<open>Users\<close>, \<open>Ui_Sessions\<close>, \<open>Store_Lock\<close>, \<open>Remote_Key\<close>, \<open>Ui_Config\<close>, \<open>Sign_In\<close> (\<open>ui/\<close>): the console's door - buckets and lockouts, the
    queue before the password hash, accounts, sessions, the compare-and-swap file store with its lock protocol, the peer's
    address behind proxies, the settings with the bind rule, and the route gate, authorization and sign-in over them.
  \<^item> \<open>Watchdog\<close> (\<open>container-watchdog.ts\<close>): the supervisor's settings and its decision, refined against watched time.
  \<^item> \<open>Effects\<close>: state with exceptions and the rules for it. \<open>Migration\<close>, \<open>Migration_Safety\<close>, \<open>Migration_Runs\<close> (\<open>console/migration.ts\<close>): the bucket
    migration, the proof that its cut loses nothing, and what holds of every outcome.

  \<^item> The ingest path (\<open>ingest/\<close>): \<open>Js_Values\<close> has JSON values and what JavaScript does with them; \<open>Classify\<close> (\<open>classify.ts\<close>) turns
    the lines of a transcript into items and \<open>Parse_Chunk\<close> (\<open>parse.ts\<close>, \<open>pricing.ts\<close>) counts them; \<open>Titles\<close> (\<open>derive-title.ts\<close>,
    \<open>real-title.ts\<close>, \<open>update-title.ts\<close>) names the session; \<open>Dedupe_Guard\<close> (\<open>dedupe-guard.ts\<close>) recognises a chunk that was sent
    before; \<open>Intents\<close> (\<open>intents.ts\<close>) keeps what was stored and not yet indexed; \<open>Ingest\<close> (\<open>ingest.ts\<close>, \<open>dimensions.ts\<close>)
    commits a chunk to the tables; \<open>Purge\<close> (\<open>delete.ts\<close>) removes a session. \<open>Index_Frames\<close>, \<open>Index_Invariant\<close> and \<open>Index_Safety\<close> take a
    commit apart, show that the tables agree with each other after every history, and prove what a history promises:
    exactly-once application, final deletion, rebuilt lanes equal to their transcript, counters that do not depend on the cut.
  \<^item> The guarantor (\<open>ingest/\<close>), which repairs what the ingest path missed: \<open>Health\<close> (\<open>health.ts\<close>) are the detectors;
    \<open>Reconcile_World\<close>, \<open>Reconcile_Gate\<close>, \<open>Reconcile_Orphans\<close>, \<open>Count_Sweep\<close>, \<open>Title_Repair\<close> and \<open>Reconcile_Pass\<close> (\<open>reconciler.ts\<close>,
    \<open>correct-titles.ts\<close>, \<open>findings.ts\<close>) are one pass, from its world to its report; \<open>Guarantor\<close> (\<open>guarantor.ts\<close>, with its settings in
    \<open>host/main.ts\<close> and \<open>store/limits.ts\<close>) schedules the passes. \<open>Reconcile_Invariant\<close> and \<open>Reconcile_Safety\<close> show what a pass keeps whatever runs
    beside it, \<open>Sweep_Safety\<close> and \<open>Stamp_Safety\<close> bound the count sweep and say what its stamp means, \<open>Restore_Safety\<close> and
    \<open>Brake_Safety\<close> what the loop restores and what it leaves alone, \<open>Title_Safety\<close> that the title walks end, \<open>Guarantor_Safety\<close> that the
    scheduler neither sleeps nor storms.

  \<^bold>\<open>How the code's state appears.\<close> A class with private fields is a record, and a method takes the record and gives it back
  changed. A thrown error is a value: \<open>Inl\<close> of the message or of a constructor of the component's error type. A
  \<open>Map\<close> is a map or, where insertion order shows, a list of pairs. A time is an \<open>int\<close> of milliseconds; the clock's
  reading is an argument. What runs concurrently is an explicit sequence of steps: the argon gate and the store lock are
  step functions or relations over events, and the migration takes a schedule of what the rest of the daemon does before each
  of its calls. A pass of the guarantor takes one moment for each of its calls: the live commits and deletions that went before,
  the answers of the store, the fate of the call.

  \<^bold>\<open>What stands for code elsewhere.\<close> SHA-256, date parsing and the URL parser are arguments. A property that needs more of
  them says so in a hypothesis. Object stores answer as arguments except in the migration, where a bucket is a finite map
  from names to contents and a call may fail or store other bytes.

  \<^bold>\<open>Interfaces.\<close> \<open>world_invariant\<close> and \<open>engine_invariant\<close> (Migration) say what a predicate must survive for the engine to keep
  it, \<open>in_pause\<close> (Migration_Safety) adds a gate held shut, \<open>whole_run\<close> (Migration_Runs) a whole run; the predicates of the properties
  are their interpretations. \<open>index_invariant\<close> (Index_Invariant) is the same for the tables of the index,
  \<open>pass_property\<close> and \<open>pass_invariant\<close> (Reconcile_Invariant) for a pass of the guarantor, \<open>sweep_frame\<close> (Sweep_Safety) for the steps of a
  sweep that neither stamp nor count a repair.

  \<^bold>\<open>Bounds and fuel.\<close> Every loop of the model ends: the waits of the migration and the barrier by a measure on the clock, which a
  nap moves forwards, the delete loop by its 800 passes, the compare-and-swap loop by its attempts. Fuel appears where the
  code has a bound of its own, and in the walks over the titles, where one unit for each session row is enough without live
  traffic (\<open>title_walks_end\<close>) and a run out of fuel is an error.

  \<^bold>\<open>Not modelled.\<close> Postgres queries and migrations, the gateway's transport, the web front end, the interactive
  set-up of cloud providers, service files and the terminal interface. In the migration: progress events, the command that
  drives it, and an operator who arms or clears a pause while it runs. In the sign-in: the exchange of grants. The length of a
  text stands for its number of bytes.
\<close>

end
